(* ===== verification/Prelude.thy ===== *)
theory Prelude
  imports Main "HOL-Library.Word" "HOL-Library.State_Monad" "HOL-Library.AList"
    "HOL-Library.Char_ord" "HOL-Library.List_Lexorder" "HOL-Library.Sublist"
begin

text \<open>
  Shared vocabulary of the passfs development: machine integers, Go errors as values,
  the state monad in which effectful Go functions are written together with its
  weakest-precondition calculus, Go maps as association lists in iteration order, and the
  generic interfaces (locales) that several components implement.
\<close>

section \<open>Collections of rewrite rules\<close>

named_theorems wp \<open>weakest preconditions of the monadic operations\<close>
named_theorems gomap \<open>laws of Go maps\<close>
named_theorems path_simps \<open>evaluation of path functions\<close>

section \<open>Machine integers\<close>

type_synonym u8 = "8 word"
type_synonym u32 = "32 word"
type_synonym u64 = "64 word"
type_synonym bytes = "u8 list"

text \<open>A Go string is a byte string; \<open>[]byte(s)\<close> and \<open>string(b)\<close> convert without change.\<close>

definition strBytes :: "string \<Rightarrow> bytes" where
  "strBytes s = map (\<lambda>c. of_nat (of_char c)) s"

definition bytesStr :: "bytes \<Rightarrow> string" where
  "bytesStr b = map (\<lambda>w. char_of (unat w)) b"

lemma bytesStr_strBytes [simp]: "bytesStr (strBytes s) = s"
proof -
  have "(of_char c :: nat) < 256" for c
    using of_char_mod_256 [of c] mod_less_divisor [of 256 "of_char c :: nat"] by simp
  then show ?thesis by (induction s) (simp_all add: bytesStr_def strBytes_def unat_of_nat)
qed

lemma length_strBytes [simp]: "length (strBytes s) = length s"
  by (simp add: strBytes_def)

text \<open>Go's \<open>int64\<close> is kept as an \<open>int\<close> in range; arithmetic wraps in two's complement.\<close>

definition wrap64 :: "int \<Rightarrow> int" where
  "wrap64 x = (x + 2 ^ 63) mod 2 ^ 64 - 2 ^ 63"

definition in64 :: "int \<Rightarrow> bool" where
  "in64 x \<longleftrightarrow> - (2 ^ 63) \<le> x \<and> x < 2 ^ 63"

lemma wrap64_id: "in64 x \<Longrightarrow> wrap64 x = x"
  by (simp add: wrap64_def in64_def)

lemma wrap64_in64: "in64 (wrap64 x)"
  by (simp add: wrap64_def in64_def)

section \<open>Go errors\<close>

text \<open>
  An error of the program is a value: a raw \<open>syscall.Errno\<close>, one of the sentinel errors the
  code compares with \<open>errors.Is\<close>, a plain message, an error wrapped with \<open>fmt.Errorf("...: %w")\<close>
  or the result of \<open>errors.Join\<close>.
\<close>

datatype errno = ENOENT | EIO | EEXIST | EISDIR | ENOTDIR | ENOTEMPTY | EBUSY | EPERM | EACCES
  | EINVAL | EFBIG | EBADF | ECANCELED | ENOTSUP | ENOSPC | EOther nat

datatype sentinel = ErrPromptCancelled | ErrAuthentication | ErrFileTooLarge | ErrNotExist
  | ErrLinkReconciliationInProgress

datatype goerr = Errno errno | Sentinel sentinel | Msg string | Wrap string goerr
  | Join "goerr list"

type_synonym 'a res = "goerr + 'a"

text \<open>\<open>errors.Is(err, target)\<close>: \<open>syscall.ENOENT\<close> is an \<open>os.ErrNotExist\<close>.\<close>

fun errorsIs :: "goerr \<Rightarrow> sentinel \<Rightarrow> bool" where
  "errorsIs (Errno e) t = (e = ENOENT \<and> t = ErrNotExist)"
| "errorsIs (Sentinel u) t = (u = t)"
| "errorsIs (Msg _) t = False"
| "errorsIs (Wrap _ e) t = errorsIs e t"
| "errorsIs (Join es) t = (\<exists>e \<in> set es. errorsIs e t)"

text \<open>\<open>errors.Is(err, syscall.EBUSY)\<close> and other comparisons with an errno value.\<close>

fun errorsIsErrno :: "goerr \<Rightarrow> errno \<Rightarrow> bool" where
  "errorsIsErrno (Errno e) t = (e = t)"
| "errorsIsErrno (Sentinel u) t = False"
| "errorsIsErrno (Msg _) t = False"
| "errorsIsErrno (Wrap _ e) t = errorsIsErrno e t"
| "errorsIsErrno (Join es) t = (\<exists>e \<in> set es. errorsIsErrno e t)"

text \<open>\<open>errors.As(err, &errno)\<close>: the first errno in a depth-first traversal.\<close>

fun errorsAs :: "goerr \<Rightarrow> errno option"
  and errorsAsList :: "goerr list \<Rightarrow> errno option" where
  "errorsAs (Errno e) = Some e"
| "errorsAs (Sentinel u) = None"
| "errorsAs (Msg _) = None"
| "errorsAs (Wrap _ e) = errorsAs e"
| "errorsAs (Join es) = errorsAsList es"
| "errorsAsList [] = None"
| "errorsAsList (e # es) = (case errorsAs e of Some n \<Rightarrow> Some n | None \<Rightarrow> errorsAsList es)"

text \<open>\<open>errors.Join\<close> drops nil errors and is nil when none is left.\<close>

definition errorsJoin :: "goerr option list \<Rightarrow> goerr option" where
  "errorsJoin es = (case List.map_filter id es of [] \<Rightarrow> None | xs \<Rightarrow> Some (Join xs))"

lemma errorsJoin_None [simp]: "errorsJoin es = None \<longleftrightarrow> set es \<subseteq> {None}"
  by (induction es) (auto simp: errorsJoin_def List.map_filter_simps split: option.splits list.splits)

text \<open>A result whose error is replaced by a wrapped one.\<close>

definition wrapErr :: "string \<Rightarrow> 'a res \<Rightarrow> 'a res" where
  "wrapErr msg r = (case r of Inl e \<Rightarrow> Inl (Wrap msg e) | Inr a \<Rightarrow> Inr a)"

lemma wrapErr_simps [simp]:
  "wrapErr m (Inl e) = Inl (Wrap m e)" "wrapErr m (Inr a) = Inr a"
  by (simp_all add: wrapErr_def)

definition errOf :: "'a res \<Rightarrow> goerr option" where
  "errOf r = (case r of Inl e \<Rightarrow> Some e | Inr _ \<Rightarrow> None)"

lemma errOf_simps [simp]: "errOf (Inl e) = Some e" "errOf (Inr a) = None"
  by (simp_all add: errOf_def)

definition resOf :: "goerr option \<Rightarrow> unit res" where
  "resOf e = (case e of None \<Rightarrow> Inr () | Some x \<Rightarrow> Inl x)"

lemma resOf_simps [simp]: "resOf None = Inr ()" "resOf (Some e) = Inl e"
  by (simp_all add: resOf_def)

section \<open>The state monad of effectful functions\<close>

abbreviation ret :: "'a \<Rightarrow> ('s, 'a) state" where
  "ret \<equiv> State_Monad.return"

definition gets :: "('s \<Rightarrow> 'a) \<Rightarrow> ('s, 'a) state" where
  "gets f = State (\<lambda>s. (f s, s))"

definition modify :: "('s \<Rightarrow> 's) \<Rightarrow> ('s, unit) state" where
  "modify f = State (\<lambda>s. ((), f s))"

text \<open>
  \<open>andThen m f\<close> is the Go idiom \<open>x, err := m(); if err != nil { return err }; f(x)\<close>.
\<close>

definition andThen :: "('s, 'a res) state \<Rightarrow> ('a \<Rightarrow> ('s, 'b res) state) \<Rightarrow> ('s, 'b res) state" where
  "andThen m f = do { r \<leftarrow> m; (case r of Inl e \<Rightarrow> ret (Inl e) | Inr a \<Rightarrow> f a) }"

text \<open>\<open>mapErr g m\<close> rewrites the error of \<open>m\<close>, as \<open>return fmt.Errorf("...: %w", err)\<close> does.\<close>

definition mapErr :: "(goerr \<Rightarrow> goerr) \<Rightarrow> ('s, 'a res) state \<Rightarrow> ('s, 'a res) state" where
  "mapErr g m = do { r \<leftarrow> m; ret (case r of Inl e \<Rightarrow> Inl (g e) | Inr a \<Rightarrow> Inr a) }"

text \<open>\<open>deferring d m\<close> runs \<open>m\<close> and then the deferred call \<open>d\<close>, whose result is ignored.\<close>

definition deferring :: "('s, 'b) state \<Rightarrow> ('s, 'a) state \<Rightarrow> ('s, 'a) state" where
  "deferring d m = do { r \<leftarrow> m; _ \<leftarrow> d; ret r }"

definition wp :: "('s, 'a) state \<Rightarrow> ('a \<Rightarrow> 's \<Rightarrow> bool) \<Rightarrow> 's \<Rightarrow> bool" where
  "wp m Q s \<longleftrightarrow> (case run_state m s of (a, t) \<Rightarrow> Q a t)"

lemma wp_return [wp]: "wp (ret a) Q = Q a"
  by (simp add: wp_def fun_eq_iff)

lemma wp_bind [wp]: "wp (State_Monad.bind m f) Q = wp m (\<lambda>a. wp (f a) Q)"
  by (simp add: wp_def fun_eq_iff split: prod.splits)

lemma wp_gets [wp]: "wp (gets f) Q = (\<lambda>s. Q (f s) s)"
  by (simp add: wp_def gets_def fun_eq_iff)

lemma wp_modify [wp]: "wp (modify f) Q = (\<lambda>s. Q () (f s))"
  by (simp add: wp_def modify_def fun_eq_iff)

lemma wp_if [wp]: "wp (if b then m else n) Q = (\<lambda>s. if b then wp m Q s else wp n Q s)"
  by (simp add: fun_eq_iff)

lemma wp_Let [wp]: "wp (Let x f) Q = (\<lambda>s. let y = x in wp (f y) Q s)"
  by (simp add: Let_def)

lemma wp_case_sum [wp]:
  "wp (case r of Inl e \<Rightarrow> f e | Inr a \<Rightarrow> g a) Q =
     (\<lambda>s. case r of Inl e \<Rightarrow> wp (f e) Q s | Inr a \<Rightarrow> wp (g a) Q s)"
  by (simp split: sum.splits)

lemma wp_case_option [wp]:
  "wp (case r of None \<Rightarrow> f | Some a \<Rightarrow> g a) Q =
     (\<lambda>s. case r of None \<Rightarrow> wp f Q s | Some a \<Rightarrow> wp (g a) Q s)"
  by (simp split: option.splits)

lemma wp_case_prod [wp]:
  "wp (case r of (a, b) \<Rightarrow> f a b) Q = (\<lambda>s. case r of (a, b) \<Rightarrow> wp (f a b) Q s)"
  by (simp split: prod.splits)

lemma wp_andThen [wp]:
  "wp (andThen m f) Q =
     wp m (\<lambda>r t. case r of Inl e \<Rightarrow> Q (Inl e) t | Inr a \<Rightarrow> wp (f a) Q t)"
  by (simp add: andThen_def wp_bind wp_case_sum wp_return cong: sum.case_cong)

lemma wp_andThenI:
  "wp m (\<lambda>r t. case r of Inl e \<Rightarrow> Q (Inl e) t | Inr a \<Rightarrow> wp (f a) Q t) s \<Longrightarrow> wp (andThen m f) Q s"
  by (simp add: wp_andThen)

lemma wp_mapErr [wp]:
  "wp (mapErr g m) Q =
     wp m (\<lambda>r. Q (case r of Inl e \<Rightarrow> Inl (g e) | Inr a \<Rightarrow> Inr a))"
  by (simp add: mapErr_def wp_bind wp_return)

lemma wp_deferring [wp]: "wp (deferring d m) Q = wp m (\<lambda>r. wp d (\<lambda>_. Q r))"
  by (simp add: deferring_def wp_bind wp_return)

lemma wp_mono: "wp m Q s \<Longrightarrow> (\<And>a t. Q a t \<Longrightarrow> R a t) \<Longrightarrow> wp m R s"
  by (auto simp: wp_def split: prod.splits)

lemma wp_conj: "wp m Q s \<Longrightarrow> wp m R s \<Longrightarrow> wp m (\<lambda>a t. Q a t \<and> R a t) s"
  by (auto simp: wp_def split: prod.splits)

lemma wpD: "wp m Q s \<Longrightarrow> run_state m s = (a, t) \<Longrightarrow> Q a t"
  by (simp add: wp_def)

lemma wpI: "(\<And>a t. run_state m s = (a, t) \<Longrightarrow> Q a t) \<Longrightarrow> wp m Q s"
  by (auto simp: wp_def split: prod.splits)

section \<open>Go maps\<close>

text \<open>
  A Go map is an association list with distinct keys. The order of the list stands for the
  unspecified iteration order of \<open>range\<close>: a statement about every such list is a statement
  about every iteration order.
\<close>

type_synonym ('k, 'v) gomap = "('k \<times> 'v) list"

abbreviation mget :: "('k, 'v) gomap \<Rightarrow> 'k \<Rightarrow> 'v option" where
  "mget \<equiv> map_of"

definition mset_key :: "'k \<Rightarrow> 'v \<Rightarrow> ('k, 'v) gomap \<Rightarrow> ('k, 'v) gomap" where
  "mset_key = AList.update"

definition mdel :: "'k \<Rightarrow> ('k, 'v) gomap \<Rightarrow> ('k, 'v) gomap" where
  "mdel = AList.delete"

text \<open>A read of a missing key yields the zero value.\<close>

definition mgetz :: "'v \<Rightarrow> ('k, 'v) gomap \<Rightarrow> 'k \<Rightarrow> 'v" where
  "mgetz z m k = (case map_of m k of None \<Rightarrow> z | Some v \<Rightarrow> v)"

definition mhas :: "('k, 'v) gomap \<Rightarrow> 'k \<Rightarrow> bool" where
  "mhas m k \<longleftrightarrow> map_of m k \<noteq> None"

definition mwf :: "('k, 'v) gomap \<Rightarrow> bool" where
  "mwf m \<longleftrightarrow> distinct (map fst m)"

lemma mget_mset_key [gomap, simp]: "map_of (mset_key k v m) = (map_of m)(k \<mapsto> v)"
  by (simp add: mset_key_def update_conv' fun_eq_iff)

lemma mget_mdel [gomap, simp]: "map_of (mdel k m) = (map_of m)(k := None)"
  by (simp add: mdel_def delete_conv' fun_eq_iff)

lemma mwf_mset_key [gomap, simp]: "mwf m \<Longrightarrow> mwf (mset_key k v m)"
  by (simp add: mwf_def mset_key_def distinct_update)

lemma mwf_mdel [gomap, simp]: "mwf m \<Longrightarrow> mwf (mdel k m)"
  by (simp add: mwf_def mdel_def distinct_delete)

lemma mwf_Nil [simp]: "mwf []"
  by (simp add: mwf_def)

lemma mhas_simps [gomap, simp]:
  "mhas (mset_key k v m) j \<longleftrightarrow> j = k \<or> mhas m j"
  "mhas (mdel k m) j \<longleftrightarrow> j \<noteq> k \<and> mhas m j"
  "\<not> mhas [] j"
  by (auto simp: mhas_def)

lemma mgetz_simps [gomap, simp]:
  "mgetz z (mset_key k v m) j = (if j = k then v else mgetz z m j)"
  "mgetz z (mdel k m) j = (if j = k then z else mgetz z m j)"
  "mgetz z [] j = z"
  by (auto simp: mgetz_def)

lemma mget_in: "mwf m \<Longrightarrow> (k, v) \<in> set m \<longleftrightarrow> map_of m k = Some v"
  by (simp add: mwf_def)

lemma mhas_set: "mhas m k \<longleftrightarrow> k \<in> fst ` set m"
  by (simp add: mhas_def map_of_eq_None_iff)

text \<open>A filter of a map, as a \<open>range\<close> loop that deletes the keys that fail the test.\<close>

definition mfilter :: "('k \<Rightarrow> 'v \<Rightarrow> bool) \<Rightarrow> ('k, 'v) gomap \<Rightarrow> ('k, 'v) gomap" where
  "mfilter P m = filter (\<lambda>(k, v). P k v) m"

lemma mwf_mfilter [gomap, simp]: "mwf m \<Longrightarrow> mwf (mfilter P m)"
  by (simp add: mwf_def mfilter_def distinct_map_filter)

lemma mget_mfilter [gomap]:
  "mwf m \<Longrightarrow> map_of (mfilter P m) k =
     (case map_of m k of None \<Rightarrow> None | Some v \<Rightarrow> if P k v then Some v else None)"
  by (induction m)
    (auto simp: mfilter_def mwf_def map_of_eq_None_iff image_iff split: option.splits)

text \<open>A loop that rewrites the value of every key.\<close>

definition mmap :: "('k \<Rightarrow> 'v \<Rightarrow> 'w) \<Rightarrow> ('k, 'v) gomap \<Rightarrow> ('k, 'w) gomap" where
  "mmap f m = map (\<lambda>(k, v). (k, f k v)) m"

lemma mget_mmap [gomap, simp]: "map_of (mmap f m) k = map_option (f k) (map_of m k)"
  by (induction m) (auto simp: mmap_def)

lemma mwf_mmap [gomap, simp]: "mwf (mmap f m) = mwf m"
  by (simp add: mwf_def mmap_def comp_def case_prod_beta)

text \<open>The interface the components use, as a law-governed store.\<close>

locale keyed_store =
  fixes get :: "'m \<Rightarrow> 'k \<Rightarrow> 'v option"
    and put :: "'k \<Rightarrow> 'v \<Rightarrow> 'm \<Rightarrow> 'm"
    and del :: "'k \<Rightarrow> 'm \<Rightarrow> 'm"
    and ok :: "'m \<Rightarrow> bool"
  assumes get_put: "get (put k v m) = (get m)(k \<mapsto> v)"
    and get_del: "get (del k m) = (get m)(k := None)"
    and ok_put: "ok m \<Longrightarrow> ok (put k v m)"
    and ok_del: "ok m \<Longrightarrow> ok (del k m)"
begin

lemma put_other: "j \<noteq> k \<Longrightarrow> get (put k v m) j = get m j"
  by (simp add: get_put)

lemma del_other: "j \<noteq> k \<Longrightarrow> get (del k m) j = get m j"
  by (simp add: get_del)

lemma del_put_restores: "get m k = None \<Longrightarrow> get (del k (put k v m)) = get m"
  by (auto simp: get_put get_del fun_eq_iff)

lemma put_del_put: "get (put k v (del k m)) = get (put k v m)"
  by (auto simp: get_put get_del fun_eq_iff)

lemma fold_del_get: "get (fold del ks m) = (\<lambda>j. if j \<in> set ks then None else get m j)"
  by (induction ks arbitrary: m) (auto simp: get_del fun_eq_iff)

lemma fold_del_ok: "ok m \<Longrightarrow> ok (fold del ks m)"
  by (induction ks arbitrary: m) (auto simp: ok_del)

end

interpretation gm: keyed_store map_of mset_key mdel mwf
  by unfold_locales auto

section \<open>Encoders with a decoder\<close>

locale codec =
  fixes enc :: "'a \<Rightarrow> 'b"
    and dec :: "'b \<Rightarrow> 'a option"
    and valid :: "'a \<Rightarrow> bool"
  assumes dec_enc: "valid a \<Longrightarrow> dec (enc a) = Some a"
begin

lemma enc_inj: "valid a \<Longrightarrow> valid b \<Longrightarrow> enc a = enc b \<Longrightarrow> a = b"
  by (metis dec_enc option.inject)

lemma enc_inj_on: "inj_on enc {a. valid a}"
  using enc_inj unfolding inj_on_def mem_Collect_eq by blast

end

section \<open>Normalisers\<close>

locale normaliser =
  fixes norm :: "'a \<Rightarrow> 'a"
    and dom :: "'a \<Rightarrow> bool"
  assumes dom_norm: "dom a \<Longrightarrow> dom (norm a)"
    and norm_norm: "dom a \<Longrightarrow> norm (norm a) = norm a"
begin

lemma norm_fixed_iff: "dom a \<Longrightarrow> norm a = a \<longleftrightarrow> (\<exists>b. dom b \<and> a = norm b)"
proof
  assume "dom a" and "norm a = a"
  then have "dom a \<and> a = norm a" by simp
  then show "\<exists>b. dom b \<and> a = norm b" ..
next
  assume "\<exists>b. dom b \<and> a = norm b"
  then obtain b where "dom b" and a: "a = norm b" by blast
  from norm_norm [OF \<open>dom b\<close>] show "norm a = a" unfolding a .
qed

lemma norm_eq_iff: "dom a \<Longrightarrow> dom b \<Longrightarrow> norm a = norm b \<longleftrightarrow> norm (norm a) = norm (norm b)"
  by (simp add: norm_norm)

end

section \<open>State machines\<close>

text \<open>
  A component with state is a start predicate and a step relation labelled with the
  operation performed; an invariant kept by every step holds in every reachable state.
\<close>

inductive reachable :: "('s \<Rightarrow> bool) \<Rightarrow> ('s \<Rightarrow> 'e \<Rightarrow> 's \<Rightarrow> bool) \<Rightarrow> 's \<Rightarrow> bool"
  for start step where
  reach_start: "start s \<Longrightarrow> reachable start step s"
| reach_step: "reachable start step s \<Longrightarrow> step s e t \<Longrightarrow> reachable start step t"

locale invariant_machine =
  fixes start :: "'s \<Rightarrow> bool"
    and step :: "'s \<Rightarrow> 'e \<Rightarrow> 's \<Rightarrow> bool"
    and inv :: "'s \<Rightarrow> bool"
  assumes inv_start: "start s \<Longrightarrow> inv s"
    and inv_step: "inv s \<Longrightarrow> step s e t \<Longrightarrow> inv t"
begin

lemma reachable_inv: "reachable start step s \<Longrightarrow> inv s"
  by (induction rule: reachable.induct) (auto intro: inv_start inv_step)

end

end
