(* ===== verification/GoPath.thy ===== *)
theory GoPath
  imports Prelude
begin

text \<open>
  The part of Go's \<open>strings\<close> and \<open>path/filepath\<close> (Unix) that passfs relies on, and the
  lexical path functions of passfs itself: \<open>PathWithin\<close> (path.go), \<open>pathWithin\<close> and
  \<open>validateBackupRelativePath\<close> (backup.go), \<open>metadataKey\<close>, \<open>validateRelativePath\<close>,
  \<open>validateName\<close>, \<open>directoryPath\<close>, \<open>encryptedPath\<close> (volume.go), \<open>childPath\<close> and the
  reserved-name tests (filesystem.go), \<open>MountedPath\<close>, \<open>OriginalPath\<close> (settings.go) and
  \<open>legacyMountPoint\<close> (metadata_migration.go). Strings are byte strings, as in Go.
\<close>

section \<open>Strings\<close>

abbreviation slash :: char where "slash \<equiv> CHR ''/''"

fun splitOn :: "char \<Rightarrow> string \<Rightarrow> string list" where
  "splitOn c [] = [[]]"
| "splitOn c (x # xs) =
     (if x = c then [] # splitOn c xs
      else (case splitOn c xs of [] \<Rightarrow> [[x]] | y # ys \<Rightarrow> (x # y) # ys))"

fun joinWith :: "char \<Rightarrow> string list \<Rightarrow> string" where
  "joinWith c [] = []"
| "joinWith c [x] = x"
| "joinWith c (x # y # ys) = x @ c # joinWith c (y # ys)"

definition hasPrefix :: "string \<Rightarrow> string \<Rightarrow> bool" where
  "hasPrefix s p = prefix p s"

definition hasSuffix :: "string \<Rightarrow> string \<Rightarrow> bool" where
  "hasSuffix s p = suffix p s"

definition trimPrefix :: "string \<Rightarrow> string \<Rightarrow> string" where
  "trimPrefix s p = (if prefix p s then drop (length p) s else s)"

definition trimSuffix :: "string \<Rightarrow> string \<Rightarrow> string" where
  "trimSuffix s p = (if suffix p s then take (length s - length p) s else s)"

lemma splitOn_nonempty [simp]: "splitOn c s \<noteq> []"
  by (induction s) (auto split: list.splits)

lemma joinWith_splitOn [simp]: "joinWith c (splitOn c s) = s"
proof (induction s)
  case (Cons x xs)
  then show ?case
    by (cases "splitOn c xs" rule: remdups_adj.cases) (auto split: list.splits)
qed simp

lemma splitOn_no_sep: "c \<notin> set s \<Longrightarrow> splitOn c s = [s]"
  by (induction s) auto

lemma splitOn_elem_no_sep: "x \<in> set (splitOn c s) \<Longrightarrow> c \<notin> set x"
  by (induction s arbitrary: x) (auto split: if_splits list.splits)

lemma splitOn_append: "splitOn c (a @ c # b) = splitOn c a @ splitOn c b"
  by (induction a) (auto split: list.splits)

lemma splitOn_joinWith:
  "xs \<noteq> [] \<Longrightarrow> (\<forall>x \<in> set xs. c \<notin> set x) \<Longrightarrow> splitOn c (joinWith c xs) = xs"
  by (induction xs rule: joinWith.induct) (auto simp: splitOn_no_sep splitOn_append)

lemma joinWith_eq_Nil [simp]: "joinWith c xs = [] \<longleftrightarrow> xs = [] \<or> xs = [[]]"
  by (induction xs rule: joinWith.induct) auto

lemma joinWith_append:
  "xs \<noteq> [] \<Longrightarrow> ys \<noteq> [] \<Longrightarrow> joinWith c (xs @ ys) = joinWith c xs @ c # joinWith c ys"
proof (induction xs rule: joinWith.induct)
  case (2 c x)
  then show ?case by (cases ys) auto
qed auto

lemma hd_joinWith: "xs \<noteq> [] \<Longrightarrow> hd xs \<noteq> [] \<Longrightarrow> hd (joinWith c xs) = hd (hd xs)"
  by (induction c xs rule: joinWith.induct) auto

section \<open>\<open>filepath.Clean\<close>\<close>

definition proper :: "string \<Rightarrow> bool" where
  "proper c \<longleftrightarrow> c \<noteq> [] \<and> c \<noteq> ''.'' \<and> c \<noteq> ''..'' \<and> slash \<notin> set c"

text \<open>One path element is folded into the stack of elements kept so far (top first).\<close>

definition cleanStep :: "bool \<Rightarrow> string list \<Rightarrow> string \<Rightarrow> string list" where
  "cleanStep rooted st c =
     (if c = [] \<or> c = ''.'' then st
      else if c = ''..'' then
        (case st of
           [] \<Rightarrow> if rooted then [] else [''..'']
         | t # ts \<Rightarrow> if t = ''..'' then ''..'' # st else ts)
      else c # st)"

definition isAbs :: "string \<Rightarrow> bool" where
  "isAbs p \<longleftrightarrow> (case p of [] \<Rightarrow> False | c # _ \<Rightarrow> c = slash)"

definition comps :: "string \<Rightarrow> string list" where
  "comps p = rev (foldl (cleanStep (isAbs p)) [] (splitOn slash p))"

definition render :: "bool \<Rightarrow> string list \<Rightarrow> string" where
  "render rooted cs =
     (if rooted then slash # joinWith slash cs
      else if cs = [] then ''.'' else joinWith slash cs)"

definition Clean :: "string \<Rightarrow> string" where
  "Clean p = (if p = [] then ''.'' else render (isAbs p) (comps p))"

text \<open>The stack only ever holds proper elements above a run of \<open>..\<close>; that run is empty in a
  rooted path.\<close>

definition cleanStack :: "bool \<Rightarrow> string list \<Rightarrow> bool" where
  "cleanStack rooted st \<longleftrightarrow>
     (\<exists>ds n. st = ds @ replicate n ''..'' \<and> list_all proper ds \<and> (rooted \<longrightarrow> n = 0))"

definition normalComps :: "bool \<Rightarrow> string list \<Rightarrow> bool" where
  "normalComps rooted cs \<longleftrightarrow> cleanStack rooted (rev cs)"

lemma normalCompsE:
  assumes "normalComps rooted cs"
  obtains n ds where "cs = replicate n ''..'' @ ds" "list_all proper ds" "rooted \<longrightarrow> n = 0"
proof -
  from assms obtain ds n where e: "rev cs = ds @ replicate n ''..''" "list_all proper ds"
    "rooted \<longrightarrow> n = 0"
    by (auto simp: normalComps_def cleanStack_def)
  from e(1) have "cs = rev (ds @ replicate n ''..'')" by (metis rev_rev_ident)
  then have "cs = replicate n ''..'' @ rev ds" by simp
  with e that show thesis by (auto simp: list_all_rev)
qed

lemma normalCompsI:
  "list_all proper ds \<Longrightarrow> (rooted \<longrightarrow> n = 0) \<Longrightarrow> normalComps rooted (replicate n ''..'' @ ds)"
  unfolding normalComps_def cleanStack_def by (rule exI [of _ "rev ds"]) auto

lemma proper_dots [simp]: "\<not> proper []" "\<not> proper ''.''" "\<not> proper ''..''"
  by (simp_all add: proper_def)

lemma cleanStep_stack:
  assumes "cleanStack rooted st" and "slash \<notin> set c"
  shows "cleanStack rooted (cleanStep rooted st c)"
proof -
  from assms(1) obtain ds n where st: "st = ds @ replicate n ''..''" "list_all proper ds"
    "rooted \<longrightarrow> n = 0"
    by (auto simp: cleanStack_def)
  consider "c = [] \<or> c = ''.''" | "c = ''..''" | "proper c"
    using assms(2) by (auto simp: proper_def)
  then show ?thesis
  proof cases
    case 1
    then show ?thesis using assms(1) by (simp add: cleanStep_def)
  next
    case 2
    show ?thesis
    proof (cases ds)
      case Nil
      have "cleanStep rooted st c = replicate (if rooted then 0 else Suc n) ''..''"
        using 2 st Nil by (cases n) (auto simp: cleanStep_def)
      then show ?thesis
        unfolding cleanStack_def
        by (intro exI [of _ "[]"] exI [of _ "if rooted then 0 else Suc n"]) simp
    next
      case (Cons d ds')
      have "cleanStep rooted st c = ds' @ replicate n ''..''"
        using 2 st Cons by (auto simp: cleanStep_def)
      then show ?thesis using st Cons unfolding cleanStack_def by auto
    qed
  next
    case 3
    then have "cleanStep rooted st c = (c # ds) @ replicate n ''..''"
      using st by (auto simp: cleanStep_def proper_def)
    then show ?thesis using st 3 unfolding cleanStack_def
      by (intro exI [of _ "c # ds"]) auto
  qed
qed

lemma foldl_cleanStep_stack:
  "cleanStack rooted st \<Longrightarrow> (\<forall>c \<in> set cs. slash \<notin> set c) \<Longrightarrow>
     cleanStack rooted (foldl (cleanStep rooted) st cs)"
  by (induction cs arbitrary: st) (auto simp: cleanStep_stack)

lemma cleanStack_Nil [simp]: "cleanStack rooted []"
  unfolding cleanStack_def by (rule exI [of _ "[]"]) auto

lemma comps_normal: "normalComps (isAbs p) (comps p)"
  using foldl_cleanStep_stack [of "isAbs p" "[]" "splitOn slash p"]
  by (auto simp: normalComps_def comps_def dest: splitOn_elem_no_sep)

lemma foldl_cleanStep_proper:
  "list_all proper ds \<Longrightarrow> foldl (cleanStep rooted) st ds = rev ds @ st"
  by (induction ds arbitrary: st) (auto simp: cleanStep_def proper_def)

lemma foldl_cleanStep_dots:
  "foldl (cleanStep False) (replicate m ''..'') (replicate n ''..'') = replicate (n + m) ''..''"
proof (induction n arbitrary: m)
  case (Suc n)
  have "cleanStep False (replicate m ''..'') ''..'' = replicate (Suc m) ''..''"
    by (cases m) (auto simp: cleanStep_def)
  then show ?case using Suc.IH [of "Suc m"] by simp
qed simp

lemma foldl_cleanStep_normal:
  assumes "normalComps rooted cs"
  shows "foldl (cleanStep rooted) [] cs = rev cs"
proof -
  from assms obtain n ds where c: "cs = replicate n ''..'' @ ds" "list_all proper ds"
    "rooted \<longrightarrow> n = 0"
    by (rule normalCompsE)
  have "foldl (cleanStep rooted) [] (replicate n ''..'') = replicate n ''..''"
    using c(3) foldl_cleanStep_dots [of 0 n] by (cases rooted) auto
  then show ?thesis using c(1,2) by (simp add: foldl_cleanStep_proper)
qed

lemma normalComps_no_slash:
  assumes "normalComps r cs" and "c \<in> set cs"
  shows "slash \<notin> set c \<and> c \<noteq> [] \<and> c \<noteq> ''.''"
proof -
  from assms(1) obtain n ds where "cs = replicate n ''..'' @ ds" "list_all proper ds"
    by (rule normalCompsE)
  with assms(2) have "c = ''..'' \<or> proper c" by (auto simp: list_all_iff)
  then show ?thesis by (auto simp: proper_def)
qed

lemma splitOn_render:
  assumes "normalComps rooted cs"
  shows "splitOn slash (render rooted cs) =
    (if rooted then [] # (if cs = [] then [[]] else cs)
     else if cs = [] then [''.''] else cs)"
proof -
  have "\<forall>c \<in> set cs. slash \<notin> set c" using normalComps_no_slash [OF assms] by blast
  then have "cs \<noteq> [] \<Longrightarrow> splitOn slash (joinWith slash cs) = cs"
    by (rule splitOn_joinWith [rotated])
  then show ?thesis by (simp add: render_def)
qed

lemma isAbs_render:
  assumes "normalComps rooted cs"
  shows "isAbs (render rooted cs) = rooted"
proof (cases "rooted \<or> cs = []")
  case True
  then show ?thesis by (auto simp: isAbs_def render_def)
next
  case False
  then obtain c cs' where cs: "cs = c # cs'" by (cases cs) auto
  with normalComps_no_slash [OF assms, of c] obtain x xs where "c = x # xs" "x \<noteq> slash"
    by (cases c) auto
  then have "joinWith slash cs \<noteq> []" "hd (joinWith slash cs) = x"
    using cs by (auto simp: hd_joinWith)
  then show ?thesis using False \<open>x \<noteq> slash\<close>
    by (auto simp: isAbs_def render_def split: list.splits)
qed

lemma comps_render [simp]:
  assumes "normalComps rooted cs"
  shows "comps (render rooted cs) = cs"
proof -
  have "foldl (cleanStep rooted) [] (splitOn slash (render rooted cs)) =
    foldl (cleanStep rooted) [] cs"
    by (simp add: splitOn_render [OF assms]) (simp add: cleanStep_def)
  then show ?thesis
    using foldl_cleanStep_normal [OF assms] by (simp add: comps_def isAbs_render [OF assms])
qed

lemma render_nonempty [simp]: "normalComps r cs \<Longrightarrow> render r cs \<noteq> []"
  using normalComps_no_slash [of r cs "[]"] by (auto simp: render_def)

lemma Clean_render: "normalComps r cs \<Longrightarrow> Clean (render r cs) = render r cs"
  by (simp add: Clean_def isAbs_render)

lemma isAbs_Nil [simp]: "\<not> isAbs []"
  by (simp add: isAbs_def)

lemma comps_Nil [simp]: "comps [] = []"
  by (simp add: comps_def cleanStep_def)

lemma Clean_eq: "Clean p = render (isAbs p) (comps p)"
  by (auto simp: Clean_def render_def)

lemma Clean_Clean [simp]: "Clean (Clean p) = Clean p"
  by (simp add: Clean_eq [of p] Clean_render comps_normal)

lemma isAbs_Clean [simp]: "isAbs (Clean p) = isAbs p"
  by (simp add: Clean_eq isAbs_render comps_normal)

lemma comps_Clean [simp]: "comps (Clean p) = comps p"
  by (simp add: Clean_eq comps_normal)

lemma Clean_nonempty [simp]: "Clean p \<noteq> []"
  by (simp add: Clean_eq comps_normal)

lemma Clean_eq_iff: "Clean p = Clean q \<longleftrightarrow> isAbs p = isAbs q \<and> comps p = comps q"
proof
  assume "Clean p = Clean q"
  then have "isAbs (Clean p) = isAbs (Clean q)" "comps (Clean p) = comps (Clean q)" by simp_all
  then show "isAbs p = isAbs q \<and> comps p = comps q" by simp
qed (simp add: Clean_eq)

lemma isAbs_comps_proper: "isAbs p \<Longrightarrow> list_all proper (comps p)"
  using comps_normal [of p] by (auto elim!: normalCompsE)

interpretation cleanp: normaliser Clean "\<lambda>_. True"
  by unfold_locales simp_all

section \<open>The other functions of \<open>path/filepath\<close>\<close>

text \<open>\<open>filepath.Join\<close>: leading empty elements are dropped, the rest joined and cleaned.\<close>

definition pathJoin :: "string list \<Rightarrow> string" where
  "pathJoin es =
     (case dropWhile (\<lambda>e. e = []) es of [] \<Rightarrow> [] | xs \<Rightarrow> Clean (joinWith slash xs))"

text \<open>\<open>filepath.Dir\<close>: everything up to the last slash, cleaned.\<close>

definition pathDir :: "string \<Rightarrow> string" where
  "pathDir p = Clean (rev (dropWhile (\<lambda>c. c \<noteq> slash) (rev p)))"

text \<open>\<open>filepath.Base\<close>: the last element after trailing slashes are removed.\<close>

definition pathBase :: "string \<Rightarrow> string" where
  "pathBase p =
     (if p = [] then ''.''
      else let s = rev (dropWhile (\<lambda>c. c = slash) (rev p))
           in if s = [] then [slash] else last (splitOn slash s))"

text \<open>\<open>filepath.Ext\<close>: the suffix from the last dot of the last element.\<close>

definition pathExt :: "string \<Rightarrow> string" where
  "pathExt p =
     (let b = last (splitOn slash p)
      in if CHR ''.'' \<in> set b
         then CHR ''.'' # rev (takeWhile (\<lambda>c. c \<noteq> CHR ''.'') (rev b)) else [])"

text \<open>
  \<open>filepath.Abs\<close> with the working directory as a parameter. (The call fails only when the
  working directory cannot be determined.)
\<close>

definition absPath :: "string \<Rightarrow> string \<Rightarrow> string" where
  "absPath cwd p = (if isAbs p then Clean p else pathJoin [cwd, p])"

text \<open>
  \<open>filepath.Rel\<close>: strip the common elements of the two cleaned paths, then one \<open>..\<close> per
  element left in the base. It fails when exactly one path is rooted, or when the base still
  starts with \<open>..\<close>.
\<close>

fun stripCommon :: "string list \<Rightarrow> string list \<Rightarrow> string list \<times> string list" where
  "stripCommon (x # xs) (y # ys) = (if x = y then stripCommon xs ys else (x # xs, y # ys))"
| "stripCommon xs ys = (xs, ys)"

definition relParts :: "string \<Rightarrow> string list" where
  "relParts p = (if isAbs p \<or> comps p \<noteq> [] then comps p else [''.''])"

definition pathRel :: "string \<Rightarrow> string \<Rightarrow> string option" where
  "pathRel base targ =
     (if Clean targ = Clean base then Some ''.''
      else if isAbs base \<noteq> isAbs targ then None
      else let (b, t) = stripCommon (comps base) (relParts targ)
           in if b \<noteq> [] \<and> hd b = ''..'' then None
              else Some (joinWith slash (replicate (length b) ''..'' @ t)))"

lemma pathJoin2:
  "a \<noteq> [] \<Longrightarrow> pathJoin [a, b] = Clean (a @ slash # b)"
  by (simp add: pathJoin_def)

lemma isAbs_append [simp]: "isAbs (a @ b) = (if a = [] then isAbs b else isAbs a)"
  by (cases a) (auto simp: isAbs_def)

lemma comps_append:
  "a \<noteq> [] \<Longrightarrow> comps (a @ slash # b) =
     rev (foldl (cleanStep (isAbs a)) (rev (comps a)) (splitOn slash b))"
  by (simp add: comps_def splitOn_append)

text \<open>Joining a path below a base appends its elements when it does not climb.\<close>

definition descends :: "string \<Rightarrow> bool" where
  "descends p \<longleftrightarrow> \<not> isAbs p \<and> list_all proper (comps p)"

lemma foldl_cleanStep_shift:
  assumes "list_all proper (rev (foldl (cleanStep False) [] cs))" "\<forall>c \<in> set cs. slash \<notin> set c"
  shows "foldl (cleanStep r) st cs = foldl (cleanStep False) [] cs @ st"
  using assms
proof (induction cs rule: rev_induct)
  case (snoc c cs)
  let ?f = "foldl (cleanStep False) [] cs"
  have cln: "cleanStack False ?f"
    using foldl_cleanStep_stack [of False "[]" cs] snoc.prems(2) by auto
  then obtain ds n where f: "?f = ds @ replicate n ''..''" "list_all proper ds"
    by (auto simp: cleanStack_def)
  have n0: "n = 0 \<and> (c = ''..'' \<longrightarrow> ds \<noteq> [])"
  proof (rule ccontr)
    assume a: "\<not> ?thesis"
    then have "''..'' \<in> set (cleanStep False ?f c)"
      using f by (cases n; cases ds) (auto simp: cleanStep_def)
    then show False using snoc.prems(1) by (auto simp: list_all_iff)
  qed
  then have "list_all proper (rev ?f)" using f by (simp add: list_all_rev)
  then have ih: "foldl (cleanStep r) st cs = ?f @ st" using snoc by auto
  have "cleanStep r (?f @ st) c = cleanStep False ?f c @ st"
    using f n0 by (cases ds) (simp_all add: cleanStep_def)
  with ih show ?case by simp
qed simp

lemma comps_join_descends:
  assumes "a \<noteq> []" and "descends b"
  shows "comps (a @ slash # b) = comps a @ comps b"
proof -
  have "foldl (cleanStep (isAbs a)) (rev (comps a)) (splitOn slash b) =
    foldl (cleanStep False) [] (splitOn slash b) @ rev (comps a)"
    using assms(2) splitOn_elem_no_sep
    by (intro foldl_cleanStep_shift) (auto simp: descends_def comps_def)
  moreover have "comps b = rev (foldl (cleanStep False) [] (splitOn slash b))"
    using assms(2) by (simp add: comps_def descends_def)
  ultimately show ?thesis using assms(1) by (simp add: comps_append)
qed

lemma Join_descends:
  assumes "a \<noteq> []" and "descends b"
  shows "comps (pathJoin [a, b]) = comps a @ comps b" and "isAbs (pathJoin [a, b]) = isAbs a"
  using assms by (simp_all add: pathJoin2 comps_join_descends)

end
