(* ===== verification/VaultPath.thy ===== *)
theory VaultPath
  imports GoPath
begin

text \<open>
  The lexical path functions of passfs: containment tests (path.go, backup.go), virtual path
  validation and the mapping of virtual paths to backing files (volume.go), names reserved for
  the host operating system (filesystem.go) and the path rewriting of settings.go,
  metadata_migration.go and links.go. The lemmas show what the tests mean on path elements.
\<close>

section \<open>Definitions\<close>

definition encryptedSuffix :: string where "encryptedSuffix = ''.age''"
definition temporaryPrefix :: string where "temporaryPrefix = ''.passfs-tmp-''"
definition internalDirName :: string where "internalDirName = ''.passfs''"
definition metadataFileName :: string where "metadataFileName = ''metadata.json''"
definition publicConfigName :: string where "publicConfigName = ''config.json''"
definition identityFileName :: string where "identityFileName = ''identity.age''"
definition objectStorageDirectory :: string where "objectStorageDirectory = ''objects''"
definition objectNamespaceDirectory :: string where "objectNamespaceDirectory = ''by-id''"

lemmas vault_names = encryptedSuffix_def temporaryPrefix_def internalDirName_def
  metadataFileName_def publicConfigName_def identityFileName_def objectStorageDirectory_def
  objectNamespaceDirectory_def

definition PathWithin :: "string \<Rightarrow> string \<Rightarrow> bool" where
  "PathWithin root path =
     (let r = Clean root; p = Clean path in r = p \<or> hasPrefix p (r @ [slash]))"

definition pathWithin :: "string \<Rightarrow> string \<Rightarrow> bool" where
  "pathWithin path root =
     (case pathRel root path of
        None \<Rightarrow> False
      | Some relative \<Rightarrow> relative \<noteq> ''..'' \<and> \<not> hasPrefix relative ''../'')"

definition validateBackupRelativePath :: "string \<Rightarrow> unit res" where
  "validateBackupRelativePath path =
     (if path = [] \<or> isAbs path \<or> Clean path \<noteq> path \<or> path = ''..'' \<or> hasPrefix path ''../''
      then Inl (Msg ''unsafe backup path'') else Inr ())"

definition metadataKey :: "string \<Rightarrow> string" where
  "metadataKey relative = (if relative = [] \<or> relative = ''.'' then [] else Clean relative)"

definition validateRelativePath :: "string \<Rightarrow> unit res" where
  "validateRelativePath relative =
     (if relative = [] \<or> relative = ''.'' then Inr ()
      else if CHR 0x00 \<in> set relative then Inl (Msg ''virtual path contains a NUL byte'')
      else if isAbs relative then Inl (Msg ''absolute virtual path is not allowed'')
      else let clean = Clean relative in
        if clean = ''..'' \<or> hasPrefix clean ''../'' then Inl (Msg ''virtual path escapes the volume'')
        else if hd (splitOn slash clean) = internalDirName then Inl (Msg ''reserved virtual path'')
        else Inr ())"

definition validateName :: "string \<Rightarrow> unit res" where
  "validateName name =
     (if name = [] \<or> name = ''.'' \<or> name = ''..'' \<or> CHR 0x00 \<in> set name \<or> slash \<in> set name
      then Inl (Msg ''invalid virtual name'') else Inr ())"

definition directoryPath :: "string \<Rightarrow> string \<Rightarrow> string res" where
  "directoryPath root relative =
     (case validateRelativePath relative of
        Inl e \<Rightarrow> Inl e
      | Inr _ \<Rightarrow> Inr (pathJoin [root, Clean relative]))"

definition encryptedPath :: "string \<Rightarrow> string \<Rightarrow> string res" where
  "encryptedPath root relative =
     (case validateRelativePath relative of
        Inl e \<Rightarrow> Inl e
      | Inr _ \<Rightarrow>
          if relative = [] \<or> relative = ''.'' then Inl (Msg ''root is not a file'')
          else Inr (pathJoin [root, Clean relative @ encryptedSuffix]))"

definition childPath :: "string \<Rightarrow> string \<Rightarrow> string res" where
  "childPath parent name =
     (case validateName name of
        Inl e \<Rightarrow> Inl e
      | Inr _ \<Rightarrow> Inr (if parent \<noteq> [] then pathJoin [parent, name] else name))"

definition reservedRootMetadataNames :: "string list" where
  "reservedRootMetadataNames =
     [''.DocumentRevisions-V100'', ''.Spotlight-V100'', ''.TemporaryItems'', ''.Trash'',
      ''.Trashes'', ''.fseventsd'', ''.metadata_never_index'',
      ''.metadata_never_index_unless_rootfs'', ''.vol'', ''.xdg-volume-info'',
      ''System Volume Information'', ''lost+found'']"

definition isReservedFilesystemMetadataPath :: "string \<Rightarrow> bool" where
  "isReservedFilesystemMetadataPath relative =
     (let clean = Clean relative in
      if clean = ''.'' \<or> clean = [] then False
      else
        let components = splitOn slash clean; first = hd components in
        first \<in> set reservedRootMetadataNames \<or>
        hasPrefix first ''.com.apple.timemachine.'' \<or> hasPrefix first ''.Trash-'' \<or>
        list_ex (\<lambda>c. c = ''.DS_Store'' \<or> hasPrefix c ''._'') components)"

definition isReservedStorageMetadataPath :: "string \<Rightarrow> bool" where
  "isReservedStorageMetadataPath storage =
     (case pathRel objectStorageDirectory (Clean storage) of
        None \<Rightarrow> False
      | Some relative \<Rightarrow>
          \<not> (relative = ''.'' \<or> relative = ''..'' \<or> hasPrefix relative ''../'') \<and>
          isReservedFilesystemMetadataPath relative)"

definition migratedHomePath :: "string \<Rightarrow> string \<Rightarrow> string \<Rightarrow> string" where
  "migratedHomePath path oldRoot newRoot =
     (case pathRel oldRoot path of
        None \<Rightarrow> path
      | Some relative \<Rightarrow>
          if relative = ''..'' \<or> hasPrefix relative ''../'' then path
          else pathJoin [newRoot, relative])"

definition MountedPath :: "string \<Rightarrow> string \<Rightarrow> string \<Rightarrow> string" where
  "MountedPath cwd mountPoint absolutePath =
     pathJoin [mountPoint, trimPrefix (Clean (absPath cwd absolutePath)) [slash]]"

definition OriginalPath :: "string \<Rightarrow> string res" where
  "OriginalPath storage =
     (let clean = Clean storage in
      if \<not> hasPrefix clean ''files/'' then Inl (Msg ''not an absolute-path storage entry'')
      else
        let relative = trimPrefix clean ''files/'' in
        if relative = [] \<or> relative = ''.'' then Inl (Msg ''storage entry does not identify a file'')
        else Inr (pathJoin [[slash], relative]))"

definition legacyMountPoint :: "string \<Rightarrow> string \<Rightarrow> string option" where
  "legacyMountPoint sourcePath legacyTarget =
     (let source = Clean sourcePath; target = Clean legacyTarget in
      if \<not> isAbs source \<or> \<not> isAbs target \<or> \<not> hasSuffix target source then None
      else
        let mountPoint = trimSuffix target source in
        Some (Clean (if mountPoint = [] then [slash] else mountPoint)))"

text \<open>The longest common run of trailing elements, as the loop of \<open>inferLinkDirectoryMove\<close>
  counts it.\<close>

fun commonPrefixLen :: "string list \<Rightarrow> string list \<Rightarrow> nat" where
  "commonPrefixLen (x # xs) (y # ys) = (if x = y then Suc (commonPrefixLen xs ys) else 0)"
| "commonPrefixLen _ _ = 0"

record linkDirectoryMove =
  oldRoot :: string
  newRoot :: string

definition inferLinkDirectoryMove :: "string \<Rightarrow> string \<Rightarrow> linkDirectoryMove option" where
  "inferLinkDirectoryMove oldPath newPath =
     (let oldP = Clean oldPath; newP = Clean newPath in
      if \<not> isAbs oldP \<or> \<not> isAbs newP \<or> oldP = newP then None
      else
        let oldParts = splitOn slash (trimPrefix oldP [slash]);
            newParts = splitOn slash (trimPrefix newP [slash]);
            sfx = commonPrefixLen (rev oldParts) (rev newParts) in
        if sfx = 0 \<or> sfx = length oldParts \<or> sfx = length newParts then None
        else
          let oldR = slash # joinWith slash (take (length oldParts - sfx) oldParts);
              newR = slash # joinWith slash (take (length newParts - sfx) newParts) in
          if oldR = [slash] \<or> newR = [slash] \<or> oldR = newR then None
          else Some \<lparr>oldRoot = oldR, newRoot = newR\<rparr>)"

section \<open>Containment\<close>

lemma comps_slash_free: "c \<in> set (comps p) \<Longrightarrow> slash \<notin> set c"
  using comps_normal [of p] normalComps_no_slash by blast

lemma comps_elem_nonempty: "[] \<notin> set (comps p)"
  using comps_normal [of p] normalComps_no_slash by blast

lemma comps_ne_single_Nil [simp]: "comps p \<noteq> [[]]"
  using comps_elem_nonempty [of p] by auto

lemma Nil_eq_joinWith [simp]: "[] = joinWith c xs \<longleftrightarrow> xs = [] \<or> xs = [[]]"
  by (metis joinWith_eq_Nil)

lemma splitOn_join_comps: "comps p \<noteq> [] \<Longrightarrow> splitOn slash (joinWith slash (comps p)) = comps p"
  by (rule splitOn_joinWith) (auto dest: comps_slash_free)

lemma Clean_abs: "isAbs p \<Longrightarrow> Clean p = slash # joinWith slash (comps p)"
  by (simp add: Clean_eq render_def)

lemma Clean_rel: "\<not> isAbs p \<Longrightarrow> Clean p = (if comps p = [] then ''.'' else joinWith slash (comps p))"
  by (simp add: Clean_eq render_def)

lemma join_prefix_iff:
  assumes xs: "xs \<noteq> []" "\<forall>x \<in> set xs. slash \<notin> set x"
    and ys: "ys \<noteq> []" "\<forall>y \<in> set ys. slash \<notin> set y"
  shows "prefix (joinWith slash xs @ [slash]) (joinWith slash ys) \<longleftrightarrow> strict_prefix xs ys"
proof
  assume "prefix (joinWith slash xs @ [slash]) (joinWith slash ys)"
  then obtain r where "joinWith slash ys = joinWith slash xs @ slash # r"
    by (auto simp: prefix_def)
  then have "splitOn slash (joinWith slash ys) = splitOn slash (joinWith slash xs) @ splitOn slash r"
    by (simp add: splitOn_append)
  then have "ys = xs @ splitOn slash r"
    using xs ys by (simp add: splitOn_joinWith)
  then show "strict_prefix xs ys" by (simp add: strict_prefix_def)
next
  assume "strict_prefix xs ys"
  then obtain zs where "ys = xs @ zs" "zs \<noteq> []" by (auto simp: strict_prefix_def prefix_def)
  then show "prefix (joinWith slash xs @ [slash]) (joinWith slash ys)"
    using xs(1) by (simp add: joinWith_append)
qed

lemma PathWithin_abs:
  assumes "isAbs root" "isAbs path"
  shows "PathWithin root path \<longleftrightarrow> comps root = comps path \<or>
    prefix (joinWith slash (comps root) @ [slash]) (joinWith slash (comps path))"
proof -
  have "Clean root = Clean path \<longleftrightarrow> comps root = comps path"
    using assms by (simp add: Clean_eq_iff)
  then show ?thesis
    unfolding PathWithin_def Let_def hasPrefix_def
    by (simp add: Clean_abs [OF assms(1)] Clean_abs [OF assms(2)])
qed

lemma PathWithin_iff:
  assumes "isAbs root" "isAbs path" "comps root \<noteq> []"
  shows "PathWithin root path \<longleftrightarrow> prefix (comps root) (comps path)"
proof (cases "comps path = []")
  case True
  with assms show ?thesis by (auto simp: PathWithin_abs)
next
  case False
  have "prefix (joinWith slash (comps root) @ [slash]) (joinWith slash (comps path)) \<longleftrightarrow>
    strict_prefix (comps root) (comps path)"
    using assms False by (intro join_prefix_iff) (auto dest: comps_slash_free)
  with assms show ?thesis by (auto simp: PathWithin_abs strict_prefix_def)
qed

text \<open>At the file-system root the separator is doubled and only the root itself is inside.\<close>

lemma PathWithin_root:
  assumes "isAbs root" "isAbs path" "comps root = []"
  shows "PathWithin root path \<longleftrightarrow> comps path = []"
proof -
  have "hd (comps path) \<noteq> [] \<and> hd (hd (comps path)) \<noteq> slash" if "comps path \<noteq> []"
    using isAbs_comps_proper [OF assms(2)] that
    by (cases "comps path"; cases "hd (comps path)") (auto simp: proper_def)
  then have "\<not> prefix [slash] (joinWith slash (comps path))"
    by (cases "comps path = []") (auto simp: prefix_def dest: hd_joinWith [of _ slash])
  with assms show ?thesis by (auto simp: PathWithin_abs)
qed

lemma stripCommonE:
  obtains c where "xs = c @ fst (stripCommon xs ys)" "ys = c @ snd (stripCommon xs ys)"
    "fst (stripCommon xs ys) = [] \<or> snd (stripCommon xs ys) = [] \<or>
     hd (fst (stripCommon xs ys)) \<noteq> hd (snd (stripCommon xs ys))"
proof (induction xs ys arbitrary: thesis rule: stripCommon.induct)
  case (1 x xs y ys)
  show ?case
  proof (cases "x = y")
    case True
    from 1(1) [OF True] obtain c where "xs = c @ fst (stripCommon xs ys)"
      "ys = c @ snd (stripCommon xs ys)" "fst (stripCommon xs ys) = [] \<or>
       snd (stripCommon xs ys) = [] \<or> hd (fst (stripCommon xs ys)) \<noteq> hd (snd (stripCommon xs ys))"
      by metis
    with True 1(2) [of "x # c"] show ?thesis by simp
  next
    case False
    with 1(2) [of "[]"] show ?thesis by simp
  qed
qed simp_all

lemma stripCommon_prefix: "fst (stripCommon xs ys) = [] \<longleftrightarrow> prefix xs ys"
  by (induction xs ys rule: stripCommon.induct) auto

lemma join_proper_not_dots:
  assumes "list_all proper t"
  shows "joinWith slash t \<noteq> ''..''" "\<not> prefix ''../'' (joinWith slash t)"
proof -
  have *: "\<forall>x \<in> set t. slash \<notin> set x" using assms by (auto simp: list_all_iff proper_def)
  show "joinWith slash t \<noteq> ''..''"
  proof
    assume a: "joinWith slash t = ''..''"
    then have "t \<noteq> []" by auto
    with * have "t = splitOn slash ''..''" using splitOn_joinWith [of t slash] a by simp
    then show False using assms by simp
  qed
  show "\<not> prefix ''../'' (joinWith slash t)"
  proof
    assume "prefix ''../'' (joinWith slash t)"
    then obtain r where a: "joinWith slash t = ''..'' @ slash # r" by (auto simp: prefix_def)
    then have "t \<noteq> []" by auto
    with * have "t = ''..'' # splitOn slash r"
      using splitOn_joinWith [of t slash] a splitOn_append [of slash "''..''" r] by simp
    then show False using assms by simp
  qed
qed

lemma join_dots: "joinWith slash (''..'' # t) = ''..'' \<or> prefix ''../'' (joinWith slash (''..'' # t))"
  by (cases t) auto

lemma pathWithin_iff:
  assumes "isAbs root" "isAbs path"
  shows "pathWithin path root \<longleftrightarrow> prefix (comps root) (comps path)"
proof (cases "Clean path = Clean root")
  case True
  then show ?thesis by (simp add: pathWithin_def pathRel_def Clean_eq_iff hasPrefix_def)
next
  case False
  let ?b = "fst (stripCommon (comps root) (comps path))"
  let ?t = "snd (stripCommon (comps root) (comps path))"
  obtain c where c: "comps root = c @ ?b" "comps path = c @ ?t" by (rule stripCommonE)
  have pr: "list_all proper ?b" "list_all proper ?t"
    using isAbs_comps_proper [OF assms(1)] isAbs_comps_proper [OF assms(2)] c
    by (metis list_all_append)+
  have rel: "pathRel root path = Some (joinWith slash (replicate (length ?b) ''..'' @ ?t))"
    using False assms pr(1) by (cases ?b) (auto simp: pathRel_def relParts_def Let_def split: prod.splits)
  show ?thesis
  proof (cases "?b = []")
    case True
    then show ?thesis
      using rel pr(2) join_proper_not_dots [of ?t] stripCommon_prefix [of "comps root" "comps path"]
      by (simp add: pathWithin_def hasPrefix_def)
  next
    case False
    then have "\<not> pathWithin path root"
      using rel join_dots [of "replicate (length ?b - 1) ''..'' @ ?t"]
      by (cases ?b) (auto simp: pathWithin_def hasPrefix_def)
    then show ?thesis
      using False stripCommon_prefix [of "comps root" "comps path"] by simp
  qed
qed

section \<open>Validated virtual paths\<close>

lemma not_dots_descends:
  assumes "\<not> isAbs p" "Clean p \<noteq> ''..''" "\<not> prefix ''../'' (Clean p)"
  shows "descends p"
proof -
  from comps_normal [of p] obtain n ds where c: "comps p = replicate n ''..'' @ ds"
    "list_all proper ds"
    by (rule normalCompsE)
  show ?thesis
  proof (cases n)
    case 0
    with c assms(1) show ?thesis by (simp add: descends_def)
  next
    case (Suc m)
    with c have "Clean p = joinWith slash (''..'' # replicate m ''..'' @ ds)"
      using assms(1) by (simp add: Clean_rel)
    with join_dots assms(2,3) show ?thesis by metis
  qed
qed

lemma validateRelativePath_ok:
  assumes "validateRelativePath r = Inr ()"
  shows "descends r" "comps r \<noteq> [] \<Longrightarrow> hd (comps r) \<noteq> internalDirName"
proof -
  have *: "r = [] \<or> r = ''.'' \<or>
    (\<not> isAbs r \<and> Clean r \<noteq> ''..'' \<and> \<not> prefix ''../'' (Clean r) \<and>
     hd (splitOn slash (Clean r)) \<noteq> internalDirName)"
    using assms by (auto simp: validateRelativePath_def hasPrefix_def Let_def split: if_splits)
  have e: "comps ''.'' = []" "\<not> isAbs ''.''" by (simp_all add: comps_def isAbs_def cleanStep_def)
  show "descends r"
    using * not_dots_descends e by (auto simp: descends_def)
  assume "comps r \<noteq> []"
  with * e have "\<not> isAbs r" "hd (splitOn slash (Clean r)) \<noteq> internalDirName" by auto
  with \<open>comps r \<noteq> []\<close> show "hd (comps r) \<noteq> internalDirName"
    by (simp add: Clean_rel splitOn_join_comps)
qed

lemma descends_Clean [simp]: "descends (Clean p) = descends p"
  by (simp add: descends_def)

lemma directoryPath_ok:
  assumes "directoryPath root r = Inr p" "root \<noteq> []"
  shows "comps p = comps root @ comps r" "isAbs p = isAbs root" "validateRelativePath r = Inr ()"
proof -
  from assms have v: "validateRelativePath r = Inr ()" and p: "p = pathJoin [root, Clean r]"
    by (auto simp: directoryPath_def split: sum.splits)
  from validateRelativePath_ok(1) [OF v] have d: "descends (Clean r)" by simp
  from Join_descends [OF assms(2) d] p v
  show "comps p = comps root @ comps r" "isAbs p = isAbs root" "validateRelativePath r = Inr ()"
    by simp_all
qed

text \<open>The last element of a relative path receives the ciphertext suffix.\<close>

definition ageComps :: "string \<Rightarrow> string list" where
  "ageComps r = butlast (comps r) @ [last (comps r) @ encryptedSuffix]"

lemma proper_suffix: "proper c \<Longrightarrow> proper (c @ encryptedSuffix)"
  by (auto simp: proper_def encryptedSuffix_def)

lemma joinWith_snoc_append:
  "xs \<noteq> [] \<Longrightarrow> joinWith c xs @ s = joinWith c (butlast xs @ [last xs @ s])"
  by (induction xs rule: joinWith.induct) auto

lemma age_descends:
  assumes "descends r" "comps r \<noteq> []"
  shows "descends (Clean r @ encryptedSuffix)" "comps (Clean r @ encryptedSuffix) = ageComps r"
proof -
  have p: "list_all proper (ageComps r)"
    using assms by (cases "comps r" rule: rev_cases)
      (auto simp: ageComps_def descends_def proper_suffix)
  have n: "normalComps False (ageComps r)"
    using normalCompsI [of "ageComps r" False 0] p by simp
  have "Clean r @ encryptedSuffix = render False (ageComps r)"
    using assms by (simp add: Clean_rel descends_def render_def ageComps_def joinWith_snoc_append)
  then show "comps (Clean r @ encryptedSuffix) = ageComps r"
    "descends (Clean r @ encryptedSuffix)"
    using n p by (simp_all add: descends_def isAbs_render del: isAbs_append)
qed

lemma encryptedPath_ok:
  assumes "encryptedPath root r = Inr p" "root \<noteq> []" "comps r \<noteq> []"
  shows "comps p = comps root @ ageComps r" "isAbs p = isAbs root" "Clean p = p"
proof -
  from assms have v: "validateRelativePath r = Inr ()"
    and p: "p = pathJoin [root, Clean r @ encryptedSuffix]"
    by (auto simp: encryptedPath_def split: sum.splits if_splits)
  note d = age_descends [OF validateRelativePath_ok(1) [OF v] assms(3)]
  show "comps p = comps root @ ageComps r" "isAbs p = isAbs root"
    using Join_descends [OF assms(2) d(1)] p d(2) by simp_all
  show "Clean p = p" using p assms(2) by (simp add: pathJoin2)
qed

lemma ageComps_inj: "comps a \<noteq> [] \<Longrightarrow> comps b \<noteq> [] \<Longrightarrow> ageComps a = ageComps b \<longleftrightarrow> comps a = comps b"
  by (cases "comps a" rule: rev_cases; cases "comps b" rule: rev_cases)
    (auto simp: ageComps_def)

end
