(* ===== verification/Sha256.thy ===== *)
theory Sha256
  imports Prelude
begin

unbundle bit_operations_syntax

text \<open>
  SHA-256 (FIPS 180-4), as \<open>crypto/sha256.Sum256\<close> computes it. passfs derives the identifier
  of a migrated object from this digest (objects.go \<open>legacyObjectID\<close>), and release archives are
  checked against it.
\<close>

text \<open>
  The numbers fixed by the standard: the first 32 bits of the fractional parts of the cube roots
  of the first 64 primes, and of the square roots of the first 8 primes.
\<close>

definition shaConstants :: "u32 list" where
  "shaConstants =
     [1116352408, 1899447441, 3049323471, 3921009573, 961987163, 1508970993, 2453635748, 2870763221,
      3624381080, 310598401, 607225278, 1426881987, 1925078388, 2162078206, 2614888103, 3248222580,
      3835390401, 4022224774, 264347078, 604807628, 770255983, 1249150122, 1555081692, 1996064986,
      2554220882, 2821834349, 2952996808, 3210313671, 3336571891, 3584528711, 113926993, 338241895,
      666307205, 773529912, 1294757372, 1396182291, 1695183700, 1986661051, 2177026350, 2456956037,
      2730485921, 2820302411, 3259730800, 3345764771, 3516065817, 3600352804, 4094571909, 275423344,
      430227734, 506948616, 659060556, 883997877, 958139571, 1322822218, 1537002063, 1747873779,
      1955562222, 2024104815, 2227730452, 2361852424, 2428436474, 2756734187, 3204031479, 3329325298]"

definition shaInit :: "u32 list" where
  "shaInit =
     [1779033703, 3144134277, 1013904242, 2773480762, 1359893119, 2600822924, 528734635, 1541459225]"

definition beBytes :: "nat \<Rightarrow> nat \<Rightarrow> bytes" where
  "beBytes k n = map (\<lambda>i. of_nat (n div 256 ^ i)) (rev [0..<k])"

definition shaPad :: "bytes \<Rightarrow> bytes" where
  "shaPad m =
     m @ [0x80] @ replicate ((119 - length m mod 64) mod 64) 0 @ beBytes 8 (8 * length m)"

fun beWords :: "bytes \<Rightarrow> u32 list" where
  "beWords (a # b # c # d # r) =
     (push_bit 24 (ucast a) OR push_bit 16 (ucast b) OR push_bit 8 (ucast c) OR ucast d) # beWords r"
| "beWords _ = []"

definition rotr32 :: "nat \<Rightarrow> u32 \<Rightarrow> u32" where
  "rotr32 n w = drop_bit n w OR push_bit (32 - n) w"

text \<open>The message schedule, newest word first.\<close>

fun shaExtend :: "nat \<Rightarrow> u32 list \<Rightarrow> u32 list" where
  "shaExtend 0 ws = ws"
| "shaExtend (Suc n) ws =
     (let w2 = ws ! 1; w7 = ws ! 6; w15 = ws ! 14; w16 = ws ! 15;
          s0 = rotr32 7 w15 XOR rotr32 18 w15 XOR drop_bit 3 w15;
          s1 = rotr32 17 w2 XOR rotr32 19 w2 XOR drop_bit 10 w2
      in shaExtend n ((s1 + w7 + s0 + w16) # ws))"

fun shaRound :: "u32 list \<Rightarrow> u32 \<times> u32 \<Rightarrow> u32 list" where
  "shaRound [a, b, c, d, e, f, g, h] (k, w) =
     (let S1 = rotr32 6 e XOR rotr32 11 e XOR rotr32 25 e;
          ch = (e AND f) XOR (NOT e AND g);
          t1 = h + S1 + ch + k + w;
          S0 = rotr32 2 a XOR rotr32 13 a XOR rotr32 22 a;
          maj = (a AND b) XOR (a AND c) XOR (b AND c)
      in [t1 + S0 + maj, a, b, c, d + t1, e, f, g])"
| "shaRound s _ = s"

definition shaBlock :: "u32 list \<Rightarrow> bytes \<Rightarrow> u32 list" where
  "shaBlock st block =
     map2 (+) st (foldl shaRound st (zip shaConstants (rev (shaExtend 48 (rev (beWords block))))))"

function shaBlocks :: "u32 list \<Rightarrow> bytes \<Rightarrow> u32 list" where
  "shaBlocks st m = (if m = [] then st else shaBlocks (shaBlock st (take 64 m)) (drop 64 m))"
  by pat_completeness auto
termination by (relation "measure (\<lambda>(_, m). length m)") auto

declare shaBlocks.simps [simp del]

definition sha256 :: "bytes \<Rightarrow> bytes" where
  "sha256 m = concat (map (\<lambda>w. beBytes 4 (unat w)) (shaBlocks shaInit (shaPad m)))"

lemma length_beBytes [simp]: "length (beBytes k n) = k"
  by (simp add: beBytes_def)

lemma length_shaRound [simp]: "length (shaRound s kw) = length s"
  by (cases "(s, kw)" rule: shaRound.cases) (auto simp: Let_def)

lemma length_foldl_shaRound [simp]: "length (foldl shaRound s kws) = length s"
  by (induction kws arbitrary: s) auto

lemma length_shaBlocks [simp]: "length (shaBlocks st m) = length st"
proof (induction st m rule: shaBlocks.induct)
  case (1 st m)
  then show ?case by (subst shaBlocks.simps) (simp add: shaBlock_def)
qed

lemma length_sha256 [simp]: "length (sha256 m) = 32"
  by (simp add: sha256_def length_concat comp_def sum_list_triv shaInit_def)

end
