(* ===== verification/ObjectId.thy ===== *)
theory ObjectId
  imports VaultPath Sha256
begin

text \<open>
  Object identifiers and the names built from them (objects.go), the virtual names of the
  mounted namespace (filesystem.go: \<open>storagePath\<close>, \<open>virtualObjectID\<close>, \<open>stableInode\<close>) and
  the tokens of authorization sessions (edit_session.go). \<open>crypto/rand\<close> is an argument (the
  bytes read, or \<open>None\<close> when the read fails) and SHA-256 is a function parameter.
\<close>

unbundle bit_operations_syntax

section \<open>Definitions\<close>

subsection \<open>\<open>encoding/hex\<close> and \<open>strings\<close>\<close>

definition hexDigit :: "nat \<Rightarrow> char" where
  "hexDigit n = ''0123456789abcdef'' ! n"

definition hexEncode :: "bytes \<Rightarrow> string" where
  "hexEncode bs = concat (map (\<lambda>b. [hexDigit (unat b div 16), hexDigit (unat b mod 16)]) bs)"

definition hexVal :: "char \<Rightarrow> nat option" where
  "hexVal c =
     (let n = of_char c in
      if 48 \<le> n \<and> n \<le> 57 then Some (n - 48)
      else if 97 \<le> n \<and> n \<le> 102 then Some (n - 87)
      else if 65 \<le> n \<and> n \<le> 70 then Some (n - 55)
      else None)"

fun hexDecode :: "string \<Rightarrow> bytes option" where
  "hexDecode [] = Some []"
| "hexDecode [_] = None"
| "hexDecode (a # b # cs) =
     (case (hexVal a, hexVal b, hexDecode cs) of
        (Some x, Some y, Some bs) \<Rightarrow> Some (of_nat (16 * x + y) # bs)
      | _ \<Rightarrow> None)"

text \<open>
  \<open>strings.TrimSpace\<close> removes Unicode white space; each white-space rune is listed as its
  UTF-8 byte sequence.
\<close>

definition spaceRunes :: "string list" where
  "spaceRunes =
     [[CHR 0x09], [CHR 0x0A], [CHR 0x0B], [CHR 0x0C], [CHR 0x0D], [CHR 0x20],
      [CHR 0xC2, CHR 0x85], [CHR 0xC2, CHR 0xA0], [CHR 0xE1, CHR 0x9A, CHR 0x80],
      [CHR 0xE2, CHR 0x80, CHR 0x80], [CHR 0xE2, CHR 0x80, CHR 0x81], [CHR 0xE2, CHR 0x80, CHR 0x82],
      [CHR 0xE2, CHR 0x80, CHR 0x83], [CHR 0xE2, CHR 0x80, CHR 0x84], [CHR 0xE2, CHR 0x80, CHR 0x85],
      [CHR 0xE2, CHR 0x80, CHR 0x86], [CHR 0xE2, CHR 0x80, CHR 0x87], [CHR 0xE2, CHR 0x80, CHR 0x88],
      [CHR 0xE2, CHR 0x80, CHR 0x89], [CHR 0xE2, CHR 0x80, CHR 0x8A], [CHR 0xE2, CHR 0x80, CHR 0xA8],
      [CHR 0xE2, CHR 0x80, CHR 0xA9], [CHR 0xE2, CHR 0x80, CHR 0xAF], [CHR 0xE2, CHR 0x81, CHR 0x9F],
      [CHR 0xE3, CHR 0x80, CHR 0x80]]"

function trimLeft :: "string list \<Rightarrow> string \<Rightarrow> string" where
  "trimLeft rs s =
     (case find (\<lambda>r. r \<noteq> [] \<and> prefix r s) rs of
        None \<Rightarrow> s
      | Some r \<Rightarrow> trimLeft rs (drop (length r) s))"
  by pat_completeness auto
termination
  by (relation "measure (\<lambda>(rs, s). length s)") (auto simp: find_Some_iff prefix_def)

declare trimLeft.simps [simp del]

definition trimSpace :: "string \<Rightarrow> string" where
  "trimSpace s = rev (trimLeft (map rev spaceRunes) (rev (trimLeft spaceRunes s)))"

text \<open>
  \<open>strings.ToLower\<close> on ASCII letters. No rune outside ASCII has a lower case that is a
  hexadecimal digit or a dash, so for the identifiers below the other runes need no case
  mapping: they are refused with or without it.
\<close>

definition lowerChar :: "char \<Rightarrow> char" where
  "lowerChar c = (let n = of_char c in if 65 \<le> n \<and> n \<le> (90::nat) then char_of (n + 32) else c)"

definition toLower :: "string \<Rightarrow> string" where
  "toLower s = map lowerChar s"

subsection \<open>objects.go\<close>

definition formatObjectID :: "bytes \<Rightarrow> string" where
  "formatObjectID value =
     (let encoded = hexEncode value in
      take 8 encoded @ ''-'' @ take 4 (drop 8 encoded) @ ''-'' @ take 4 (drop 12 encoded) @ ''-'' @
      take 4 (drop 16 encoded) @ ''-'' @ take 12 (drop 20 encoded))"

definition stampVersion :: "u8 \<Rightarrow> bytes \<Rightarrow> bytes" where
  "stampVersion version value =
     (let v = value[6 := (value ! 6 AND 0x0F) OR version]
      in v[8 := (v ! 8 AND 0x3F) OR 0x80])"

definition newObjectID :: "bytes option \<Rightarrow> string res" where
  "newObjectID random =
     (case random of
        None \<Rightarrow> Inl (Msg ''generate protected object id'')
      | Some value \<Rightarrow> Inr (formatObjectID (stampVersion 0x40 value)))"

definition legacyObjectID :: "string \<Rightarrow> string \<Rightarrow> string" where
  "legacyObjectID volumeID legacyKey =
     formatObjectID
       (stampVersion 0x50 (take 16 (sha256 (strBytes (volumeID @ [CHR 0x00] @ metadataKey legacyKey)))))"

definition normalizeObjectID :: "string \<Rightarrow> string res" where
  "normalizeObjectID value =
     (let v = toLower (trimSpace value) in
      if length v \<noteq> 36 \<or> v ! 8 \<noteq> CHR ''-'' \<or> v ! 13 \<noteq> CHR ''-'' \<or> v ! 18 \<noteq> CHR ''-'' \<or>
         v ! 23 \<noteq> CHR ''-''
      then Inl (Msg ''invalid protected object id'')
      else
        let compact = filter (\<lambda>c. c \<noteq> CHR ''-'') v in
        if length compact \<noteq> 32 then Inl (Msg ''invalid protected object id'')
        else if hexDecode compact = None then Inl (Msg ''invalid protected object id'')
        else Inr v)"

definition objectStoragePath :: "string \<Rightarrow> string res" where
  "objectStoragePath objectID =
     (case normalizeObjectID objectID of
        Inl e \<Rightarrow> Inl e
      | Inr normalized \<Rightarrow> Inr (pathJoin [objectStorageDirectory, normalized]))"

definition objectIDFromStoragePath :: "string \<Rightarrow> string res" where
  "objectIDFromStoragePath storage =
     (let clean = Clean storage; pfx = objectStorageDirectory @ [slash] in
      if \<not> hasPrefix clean pfx then Inl (Msg ''not a protected object entry'')
      else
        let objectID = trimPrefix clean pfx in
        if slash \<in> set objectID then Inl (Msg ''protected object entry has nested components'')
        else normalizeObjectID objectID)"

definition mountedObjectPath :: "string \<Rightarrow> string \<Rightarrow> string \<Rightarrow> string res" where
  "mountedObjectPath cwd mountPoint objectID =
     (case normalizeObjectID objectID of
        Inl e \<Rightarrow> Inl e
      | Inr normalized \<Rightarrow>
          Inr (pathJoin [absPath cwd mountPoint, objectNamespaceDirectory, normalized]))"

definition mountedPathForStorage :: "string \<Rightarrow> string \<Rightarrow> string \<Rightarrow> string res" where
  "mountedPathForStorage cwd mountPoint storage =
     (case objectIDFromStoragePath storage of
        Inl e \<Rightarrow> Inl e
      | Inr objectID \<Rightarrow> mountedObjectPath cwd mountPoint objectID)"

definition objectIDFromMountedPath :: "string \<Rightarrow> string \<Rightarrow> string \<Rightarrow> string res" where
  "objectIDFromMountedPath cwd mountPoint target =
     (case pathRel (pathJoin [absPath cwd mountPoint, objectNamespaceDirectory]) (absPath cwd target) of
        None \<Rightarrow> Inl (Msg ''symlink does not target a passfs object'')
      | Some relative \<Rightarrow>
          if relative = ''.'' \<or> relative = ''..'' \<or> hasPrefix relative ''../'' \<or> slash \<in> set relative
          then Inl (Msg ''symlink does not target a passfs object'')
          else normalizeObjectID relative)"

definition objectIDFromOpaqueTarget :: "string \<Rightarrow> string res" where
  "objectIDFromOpaqueTarget target =
     (let clean = Clean target in
      if \<not> isAbs clean \<or> pathBase (pathDir clean) \<noteq> objectNamespaceDirectory
      then Inl (Msg ''symlink does not target a passfs object'')
      else normalizeObjectID (pathBase clean))"

definition targetMatchesStorage :: "string \<Rightarrow> string \<Rightarrow> bool" where
  "targetMatchesStorage target storage =
     (case objectIDFromOpaqueTarget target of
        Inl _ \<Rightarrow> False
      | Inr targetID \<Rightarrow>
          (case objectIDFromStoragePath storage of
             Inl _ \<Rightarrow> False
           | Inr storageID \<Rightarrow> targetID = storageID))"

subsection \<open>Virtual names (filesystem.go)\<close>

definition storagePath :: "string \<Rightarrow> string" where
  "storagePath relative =
     (let clean = Clean relative; pfx = objectNamespaceDirectory @ [slash] in
      if clean = ''.'' \<or> clean = objectNamespaceDirectory then objectStorageDirectory
      else if \<not> hasPrefix clean pfx then pathJoin [objectStorageDirectory, ''.invalid'']
      else
        case normalizeObjectID (trimPrefix clean pfx) of
          Inl _ \<Rightarrow> pathJoin [objectStorageDirectory, ''.invalid'']
        | Inr objectID \<Rightarrow> (case objectStoragePath objectID of Inl _ \<Rightarrow> [] | Inr storage \<Rightarrow> storage))"

definition virtualObjectID :: "string \<Rightarrow> string option" where
  "virtualObjectID relative =
     (let clean = Clean relative; pfx = objectNamespaceDirectory @ [slash] in
      if \<not> hasPrefix clean pfx then None
      else case normalizeObjectID (trimPrefix clean pfx) of Inl _ \<Rightarrow> None | Inr objectID \<Rightarrow> Some objectID)"

definition fnv1a :: "string \<Rightarrow> u64" where
  "fnv1a s =
     foldl (\<lambda>h c. (h XOR of_char c) * 1099511628211) 14695981039346656037 s"

definition stableInode :: "string \<Rightarrow> u64" where
  "stableInode relative =
     (let inode = fnv1a (Clean relative) in if inode < 2 then inode + 2 else inode)"

subsection \<open>Session tokens (edit\_session.go)\<close>

definition sessionBegin :: string where "sessionBegin = ''begin:''"
definition sessionEnd :: string where "sessionEnd = ''end:''"

definition validateSessionToken :: "string \<Rightarrow> unit res" where
  "validateSessionToken token =
     (if length token \<noteq> 32 then Inl (Msg ''invalid session token'')
      else if hexDecode token = None then Inl (Msg ''invalid session token'')
      else Inr ())"

datatype sessionOperation = SessionBegin | SessionEnd

definition parseSessionCommand :: "string \<Rightarrow> (sessionOperation \<times> string) res" where
  "parseSessionCommand command =
     (let parsed =
        (if hasPrefix command sessionBegin then Some (SessionBegin, trimPrefix command sessionBegin)
         else if hasPrefix command sessionEnd then Some (SessionEnd, trimPrefix command sessionEnd)
         else None)
      in case parsed of
           None \<Rightarrow> Inl (Msg ''invalid session command'')
         | Some (operation, token) \<Rightarrow>
             (case validateSessionToken token of
                Inl e \<Rightarrow> Inl e
              | Inr _ \<Rightarrow> Inr (operation, token)))"

text \<open>The command \<open>beginControlSession\<close> sends for 16 random bytes, with the token it returns,
  and the one \<open>endControlSession\<close> sends.\<close>

definition beginControlCommand :: "bytes \<Rightarrow> string \<times> string" where
  "beginControlCommand random = (let token = hexEncode random in (token, sessionBegin @ token))"

definition endControlCommand :: "string \<Rightarrow> string res" where
  "endControlCommand token =
     (case validateSessionToken token of Inl e \<Rightarrow> Inl e | Inr _ \<Rightarrow> Inr (sessionEnd @ token))"


section \<open>Hexadecimal encoding\<close>

lemma hexVal_hexDigit: "n < 16 \<Longrightarrow> hexVal (hexDigit n) = Some n"
  by (auto simp: numeral_eq_Suc less_Suc_eq hexDigit_def hexVal_def)

lemma hex_byte: "of_nat (16 * (unat b div 16) + unat b mod 16) = (b :: u8)"
  by simp

lemma hexDecode_hexEncode [simp]: "hexDecode (hexEncode bs) = Some bs"
proof (induction bs)
  case (Cons b bs)
  have "unat b < 256" using unsigned_less [of b] by simp
  then have "unat b div 16 < 16" "unat b mod 16 < 16" by simp_all
  then show ?case
    using Cons hex_byte [of b] by (simp add: hexEncode_def hexVal_hexDigit)
qed (simp add: hexEncode_def)

interpretation hex: codec hexEncode hexDecode "\<lambda>_. True"
  by unfold_locales simp

lemma length_hexEncode [simp]: "length (hexEncode bs) = 2 * length bs"
  by (induction bs) (auto simp: hexEncode_def)

definition isLowerHex :: "char \<Rightarrow> bool" where
  "isLowerHex c \<longleftrightarrow> (let n = of_char c :: nat in (48 \<le> n \<and> n \<le> 57) \<or> (97 \<le> n \<and> n \<le> 102))"

definition idChar :: "char \<Rightarrow> bool" where
  "idChar c \<longleftrightarrow> isLowerHex c \<or> c = CHR ''-''"

lemma hexDigit_lower: "n < 16 \<Longrightarrow> isLowerHex (hexDigit n)"
  by (auto simp: numeral_eq_Suc less_Suc_eq hexDigit_def isLowerHex_def)

lemma hexEncode_lower: "list_all isLowerHex (hexEncode bs)"
proof (induction bs)
  case (Cons b bs)
  have "unat b < 256" using unsigned_less [of b] by simp
  then have "unat b div 16 < 16" "unat b mod 16 < 16" by simp_all
  then show ?case using Cons by (simp add: hexEncode_def hexDigit_lower)
qed (simp add: hexEncode_def)

lemma hexDecode_chars: "hexDecode s = Some bs \<Longrightarrow> c \<in> set s \<Longrightarrow> hexVal c \<noteq> None"
  by (induction s arbitrary: bs rule: hexDecode.induct) (auto split: option.splits)

lemma of_char_lt: "(of_char c :: nat) < 256"
  using of_char_mod_256 [of c, where 'a = nat] by (metis mod_less_divisor zero_less_numeral)

lemma lowerChar_hex: "hexVal (lowerChar c) \<noteq> None \<Longrightarrow> isLowerHex (lowerChar c)"
  using of_char_lt [of c]
  by (auto simp: hexVal_def lowerChar_def isLowerHex_def Let_def char_of_nat of_char_of
      split: if_splits)

lemma lowerChar_id: "idChar c \<Longrightarrow> lowerChar c = c"
  by (auto simp: idChar_def isLowerHex_def lowerChar_def Let_def)

section \<open>Identifiers are stable under normalisation\<close>

lemma trimLeft_id: "(\<forall>r \<in> set rs. \<not> prefix r s) \<Longrightarrow> trimLeft rs s = s"
proof -
  assume "\<forall>r \<in> set rs. \<not> prefix r s"
  then have "find (\<lambda>r. r \<noteq> [] \<and> prefix r s) rs = None" by (auto simp: find_None_iff)
  then show ?thesis by (simp add: trimLeft.simps)
qed

lemma spaceRunes_heads:
  "list_all (\<lambda>r. r \<noteq> [] \<and> \<not> idChar (hd r) \<and> \<not> idChar (last r)) spaceRunes"
  by code_simp

lemma trimSpace_id:
  assumes "list_all idChar s" and "s \<noteq> []"
  shows "trimSpace s = s"
proof -
  have h: "\<not> prefix r t" if "r \<noteq> []" "\<not> idChar (hd r)" "list_all idChar t" for r t
    using that by (cases r) (auto simp: prefix_def)
  have "\<forall>r \<in> set spaceRunes. \<not> prefix r s"
    using spaceRunes_heads assms h by (auto simp: list_all_iff)
  moreover have "\<forall>r \<in> set (map rev spaceRunes). \<not> prefix r (rev s)"
    using spaceRunes_heads assms h by (auto simp: list_all_iff hd_rev)
  ultimately show ?thesis by (simp add: trimSpace_def trimLeft_id)
qed

definition objectIDForm :: "string \<Rightarrow> bool" where
  "objectIDForm w \<longleftrightarrow> normalizeObjectID w = Inr w"

lemma normalizeObjectID_chars:
  assumes "normalizeObjectID v = Inr w"
  shows "list_all idChar w" "length w = 36"
proof -
  from assms have w: "w = toLower (trimSpace v)" and l: "length w = 36"
    and d: "hexDecode (filter (\<lambda>c. c \<noteq> CHR ''-'') w) \<noteq> None"
    by (auto simp: normalizeObjectID_def Let_def split: if_splits)
  from d obtain bs where "hexDecode (filter (\<lambda>c. c \<noteq> CHR ''-'') w) = Some bs" by auto
  from hexDecode_chars [OF this] have "c = CHR ''-'' \<or> hexVal c \<noteq> None" if "c \<in> set w" for c
    using that by auto
  then show "list_all idChar w"
    using w lowerChar_hex by (auto simp: list_all_iff idChar_def toLower_def)
  show "length w = 36" by (rule l)
qed

lemma normalizeObjectID_fixed:
  assumes "normalizeObjectID v = Inr w"
  shows "normalizeObjectID w = Inr w"
proof -
  have "w \<noteq> []" using normalizeObjectID_chars(2) [OF assms] by auto
  then have "toLower (trimSpace w) = w"
    using normalizeObjectID_chars(1) [OF assms]
    by (simp add: trimSpace_id toLower_def list_all_iff map_idI lowerChar_id)
  moreover have "w = toLower (trimSpace v)"
    using assms by (auto simp: normalizeObjectID_def Let_def split: if_splits)
  ultimately show ?thesis using assms by (simp add: normalizeObjectID_def)
qed

lemma objectIDForm_proper:
  assumes "objectIDForm w"
  shows "proper w" "length w = 36"
proof -
  note c = normalizeObjectID_chars [OF assms [unfolded objectIDForm_def]]
  show "length w = 36" by (rule c(2))
  have "\<not> idChar slash" by code_simp
  with c(1) have "slash \<notin> set w" by (auto simp: list_all_iff)
  with c(2) show "proper w" by (auto simp: proper_def)
qed

lemma normalizeObjectID_form: "normalizeObjectID v = Inr w \<Longrightarrow> objectIDForm w"
  by (simp add: objectIDForm_def normalizeObjectID_fixed)

lemma concat_slices:
  assumes "length e = 32"
  shows "take 8 e @ take 4 (drop 8 e) @ take 4 (drop 12 e) @ take 4 (drop 16 e) @
    take 12 (drop 20 e) = e"
proof -
  have s: "take n (drop m e) @ drop (m + n) e = drop m e" for m n
    using append_take_drop_id [of n "drop m e"] by (simp add: add.commute)
  have "take 12 (drop 20 e) = drop 20 e" using assms by simp
  then show ?thesis
    using s [of 4 16] s [of 4 12] s [of 4 8] append_take_drop_id [of 8 e] by simp
qed

lemma lower_no_dash: "list_all isLowerHex e \<Longrightarrow> filter (\<lambda>c. c \<noteq> CHR ''-'') e = e"
  by (induction e) (auto simp: isLowerHex_def)

lemma formatObjectID_facts:
  assumes "length bs = 16"
  shows "filter (\<lambda>c. c \<noteq> CHR ''-'') (formatObjectID bs) = hexEncode bs"
    and "list_all idChar (formatObjectID bs)" and "length (formatObjectID bs) = 36"
    and "formatObjectID bs ! 8 = CHR ''-''" "formatObjectID bs ! 13 = CHR ''-''"
    "formatObjectID bs ! 18 = CHR ''-''" "formatObjectID bs ! 23 = CHR ''-''"
proof -
  let ?e = "hexEncode bs"
  have l: "length ?e = 32" using assms by simp
  have h: "list_all isLowerHex ?e" by (rule hexEncode_lower)
  have ht: "list_all isLowerHex (take n (drop m ?e))" for n m
    using h by (auto simp: list_all_iff dest: in_set_takeD in_set_dropD)
  have ht0: "list_all isLowerHex (take n ?e)" for n
    using ht [of n 0] by simp
  have sl: "take 8 ?e @ take 4 (drop 8 ?e) @ take 4 (drop 12 ?e) @ take 4 (drop 16 ?e) @
    take 12 (drop 20 ?e) = ?e" by (rule concat_slices [OF l])
  show "filter (\<lambda>c. c \<noteq> CHR ''-'') (formatObjectID bs) = ?e"
    unfolding formatObjectID_def Let_def filter_append
    using sl by (simp add: lower_no_dash ht ht0)
  have i: "list_all isLowerHex xs \<Longrightarrow> list_all idChar xs" for xs
    by (auto simp: list_all_iff idChar_def)
  show "list_all idChar (formatObjectID bs)"
    unfolding formatObjectID_def Let_def list_all_append
    using i [OF ht] i [OF ht0] by (simp add: idChar_def)
  show "length (formatObjectID bs) = 36" using l by (simp add: formatObjectID_def Let_def)
  show "formatObjectID bs ! 8 = CHR ''-''" "formatObjectID bs ! 13 = CHR ''-''"
    "formatObjectID bs ! 18 = CHR ''-''" "formatObjectID bs ! 23 = CHR ''-''"
    using l by (simp_all add: formatObjectID_def Let_def nth_append)
qed

lemma formatObjectID_form:
  assumes "length bs = 16"
  shows "objectIDForm (formatObjectID bs)"
proof -
  note f = formatObjectID_facts [OF assms]
  have "toLower (trimSpace (formatObjectID bs)) = formatObjectID bs"
    using f(2,3) by (subst trimSpace_id) (auto simp: toLower_def list_all_iff map_idI lowerChar_id)
  then show ?thesis
    using f assms by (simp add: objectIDForm_def normalizeObjectID_def)
qed

interpretation objid: codec formatObjectID "\<lambda>w. hexDecode (filter (\<lambda>c. c \<noteq> CHR ''-'') w)"
  "\<lambda>bs. length bs = 16"
  by unfold_locales (simp add: formatObjectID_facts)

lemma length_stampVersion [simp]: "length (stampVersion v bs) = length bs"
  by (simp add: stampVersion_def Let_def)

section \<open>Names built from identifiers\<close>

lemma comps_proper:
  assumes "proper c"
  shows "comps c = [c]" "\<not> isAbs c" "descends c" "Clean c = c"
proof -
  have n: "normalComps False [c]" using normalCompsI [of "[c]" False 0] assms by simp
  have r: "render False [c] = c" by (simp add: render_def)
  show c: "comps c = [c]" using comps_render [OF n] r by simp
  show a: "\<not> isAbs c" using isAbs_render [OF n] r by simp
  show "descends c" using c a assms by (simp add: descends_def)
  show "Clean c = c" using Clean_render [OF n] r by simp
qed

lemma join_two_proper:
  assumes "proper a" "proper b"
  shows "pathJoin [a, b] = a @ slash # b" "comps (a @ slash # b) = [a, b]"
    "\<not> isAbs (a @ slash # b)" "Clean (a @ slash # b) = a @ slash # b"
proof -
  have n: "normalComps False [a, b]" using normalCompsI [of "[a, b]" False 0] assms by simp
  have r: "render False [a, b] = a @ slash # b" by (simp add: render_def)
  show "comps (a @ slash # b) = [a, b]" using comps_render [OF n] r by simp
  show "\<not> isAbs (a @ slash # b)" using isAbs_render [OF n] r by simp
  show c: "Clean (a @ slash # b) = a @ slash # b" using Clean_render [OF n] r by simp
  show "pathJoin [a, b] = a @ slash # b"
    using assms c by (simp add: pathJoin2 proper_def)
qed

lemma proper_names [simp]: "proper objectStorageDirectory" "proper objectNamespaceDirectory"
  "proper internalDirName" "proper ''.invalid''"
  by (simp_all add: proper_def vault_names)

lemma objectStoragePath_form:
  "objectIDForm w \<Longrightarrow> objectStoragePath w = Inr (objectStorageDirectory @ slash # w)"
  by (simp add: objectStoragePath_def objectIDForm_def join_two_proper objectIDForm_proper)

lemma trimPrefix_append [simp]: "trimPrefix (p @ s) p = s"
  by (simp add: trimPrefix_def)

lemma objectIDFromStoragePath_form:
  assumes "objectIDForm w"
  shows "objectIDFromStoragePath (objectStorageDirectory @ slash # w) = Inr w"
proof -
  let ?p = "objectStorageDirectory @ [slash]"
  have e: "Clean (objectStorageDirectory @ slash # w) = ?p @ w"
    using assms by (simp add: join_two_proper objectIDForm_proper)
  have "slash \<notin> set w" using objectIDForm_proper(1) [OF assms] by (simp add: proper_def)
  then show ?thesis
    using assms e trimPrefix_append [of ?p w]
    by (simp add: objectIDFromStoragePath_def hasPrefix_def Let_def objectIDForm_def)
qed

lemma objectIDFromStoragePath_Inr:
  assumes "objectIDFromStoragePath storage = Inr w"
  shows "objectIDForm w" "isAbs storage = False"
    "\<exists>v. comps storage = [objectStorageDirectory, v] \<and> normalizeObjectID v = Inr w"
proof -
  let ?p = "objectStorageDirectory @ [slash]"
  from assms have p: "prefix ?p (Clean storage)" and n: "normalizeObjectID (trimPrefix (Clean storage) ?p) = Inr w"
    and s: "slash \<notin> set (trimPrefix (Clean storage) ?p)"
    by (auto simp: objectIDFromStoragePath_def Let_def hasPrefix_def split: if_splits)
  show "objectIDForm w" by (rule normalizeObjectID_form [OF n])
  obtain v where v: "Clean storage = ?p @ v" using p by (auto simp: prefix_def)
  then have v2: "trimPrefix (Clean storage) ?p = v" by (simp only: trimPrefix_append)
  have "isAbs (Clean storage) = False"
    unfolding v by (simp add: isAbs_def objectStorageDirectory_def)
  then show a: "isAbs storage = False" by simp
  have "Clean storage \<noteq> ''.''" unfolding v by (simp add: objectStorageDirectory_def)
  then have ne: "comps storage \<noteq> []" using a Clean_rel [of storage] by auto
  then have "splitOn slash (Clean storage) = comps storage"
    using a by (simp add: Clean_rel splitOn_join_comps)
  moreover have "splitOn slash (Clean storage) = [objectStorageDirectory, v]"
    using v s v2 splitOn_append [of slash objectStorageDirectory v]
    by (simp add: splitOn_no_sep objectStorageDirectory_def)
  ultimately show "\<exists>v. comps storage = [objectStorageDirectory, v] \<and> normalizeObjectID v = Inr w"
    using n v2 by metis
qed

lemma comps_pathJoin3:
  assumes "isAbs a" "proper b" "proper c"
  shows "comps (pathJoin [a, b, c]) = comps a @ [b, c]" "isAbs (pathJoin [a, b, c])"
    "Clean (pathJoin [a, b, c]) = pathJoin [a, b, c]"
proof -
  have ne: "a \<noteq> []" using assms(1) by auto
  then have j: "pathJoin [a, b, c] = Clean (a @ slash # (b @ slash # c))"
    by (simp add: pathJoin_def)
  have d: "descends (b @ slash # c)"
    using assms join_two_proper [OF assms(2,3)] by (simp add: descends_def del: isAbs_append)
  show "comps (pathJoin [a, b, c]) = comps a @ [b, c]"
    using j comps_join_descends [OF ne d] assms by (simp add: join_two_proper)
  show "isAbs (pathJoin [a, b, c])" using j ne assms(1) by simp
  show "Clean (pathJoin [a, b, c]) = pathJoin [a, b, c]" using j by simp
qed

text \<open>\<open>Dir\<close> and \<open>Base\<close> of a cleaned absolute path drop and return its last element.\<close>

lemma clean_abs_split:
  assumes "isAbs p" "comps p = cs @ [c]"
  shows "Clean p = (if cs = [] then [] else slash # joinWith slash cs) @ slash # c"
  using assms by (simp add: Clean_abs joinWith_append)

lemma pathBase_Clean:
  assumes "isAbs p" "comps p = cs @ [c]"
  shows "pathBase (Clean p) = c"
proof -
  have c: "slash \<notin> set c" "c \<noteq> []"
    using isAbs_comps_proper [OF assms(1)] assms(2) by (auto simp: proper_def)
  obtain pre where pr: "Clean p = pre @ slash # c" using clean_abs_split [OF assms] by auto
  have "dropWhile (\<lambda>x. x = slash) (rev (Clean p)) = rev (Clean p)"
    using c pr by (cases c rule: rev_cases) auto
  then show ?thesis
    using c pr by (simp add: pathBase_def splitOn_append splitOn_no_sep)
qed

lemma comps_trailing_slash: "a \<noteq> [] \<Longrightarrow> comps (a @ [slash]) = comps a"
  using comps_append [of a "[]"] by (simp add: cleanStep_def)

lemma dropWhile_to_sep:
  "slash \<notin> set c \<Longrightarrow> dropWhile (\<lambda>x. x \<noteq> slash) (rev c @ slash # ys) = slash # ys"
  by (subst dropWhile_append2) auto

lemma pathDir_Clean:
  assumes "isAbs p" "comps p = cs @ [c]"
  shows "isAbs (pathDir (Clean p))" "comps (pathDir (Clean p)) = cs"
    "Clean (pathDir (Clean p)) = pathDir (Clean p)"
proof -
  have c: "slash \<notin> set c" "c \<noteq> []" and pcs: "list_all proper cs"
    using isAbs_comps_proper [OF assms(1)] assms(2) by (auto simp: proper_def)
  let ?pre = "if cs = [] then [] else slash # joinWith slash cs"
  have "dropWhile (\<lambda>x. x \<noteq> slash) (rev (Clean p)) = slash # rev ?pre"
    using clean_abs_split [OF assms] c dropWhile_to_sep [of c] by simp
  then have d: "pathDir (Clean p) = Clean (?pre @ [slash])" by (simp add: pathDir_def)
  have n: "normalComps True cs" using normalCompsI [of cs True 0] pcs by simp
  have "comps (?pre @ [slash]) = cs"
  proof (cases "cs = []")
    case True
    then show ?thesis by (simp add: comps_def cleanStep_def)
  next
    case False
    then show ?thesis
      using comps_trailing_slash [of ?pre] comps_render [OF n] by (simp add: render_def)
  qed
  then show "comps (pathDir (Clean p)) = cs" using d by simp
  have "isAbs (?pre @ [slash])" by (simp add: isAbs_def)
  then show "isAbs (pathDir (Clean p))" unfolding d isAbs_Clean .
  show "Clean (pathDir (Clean p)) = pathDir (Clean p)" using d by simp
qed

lemma isAbs_absPath [simp]: "isAbs cwd \<Longrightarrow> isAbs (absPath cwd p)"
  by (cases "cwd = []") (auto simp: absPath_def pathJoin2)

lemma mountedObjectPath_form:
  assumes "isAbs cwd" "objectIDForm w"
  obtains t where "mountedObjectPath cwd m w = Inr t" "isAbs t" "Clean t = t"
    "comps t = comps (absPath cwd m) @ [objectNamespaceDirectory, w]"
  using assms comps_pathJoin3 [of "absPath cwd m" objectNamespaceDirectory w] objectIDForm_proper
  by (simp add: mountedObjectPath_def objectIDForm_def)

lemma objectIDFromOpaqueTarget_comps:
  assumes "isAbs t" "comps t = cs @ [objectNamespaceDirectory, v]"
  shows "objectIDFromOpaqueTarget t = normalizeObjectID v"
proof -
  have b: "pathBase (Clean t) = v" using pathBase_Clean [of t "cs @ [objectNamespaceDirectory]" v] assms by simp
  note d = pathDir_Clean [of t "cs @ [objectNamespaceDirectory]" v]
  have "pathBase (pathDir (Clean t)) = objectNamespaceDirectory"
    using pathBase_Clean [of "pathDir (Clean t)" cs objectNamespaceDirectory] d assms by simp
  then show ?thesis using b assms by (simp add: objectIDFromOpaqueTarget_def Let_def)
qed


lemma nth_hexEncode: "i < length bs \<Longrightarrow> hexEncode bs ! (2 * i) = hexDigit (unat (bs ! i) div 16)"
proof (induction bs arbitrary: i)
  case (Cons b bs)
  then show ?case by (cases i) (auto simp: hexEncode_def)
qed simp

lemma byte_div16: "unat (w :: u8) div 16 = unat (drop_bit 4 w)"
  by (simp add: drop_bit_eq_div unat_div)

lemma stamped_nibble: "unat ((b AND 0x0F) OR 0x40 :: u8) div 16 = 4"
  unfolding byte_div16 by (simp add: drop_bit_or drop_bit_and)

lemma byte_low2: "(x :: u8) AND 3 \<in> {0, 1, 2, 3}"
proof -
  have "x AND 3 = take_bit 2 x" by (simp add: take_bit_eq_mask mask_eq_exp_minus_1)
  then have "unat (x AND 3) < 4" by (simp add: take_bit_eq_mod unat_mod)
  then have "unat (x AND 3) \<in> {0, 1, 2, 3}" by auto
  then have "of_nat (unat (x AND 3)) \<in> (of_nat ` {0, 1, 2, 3} :: u8 set)" by (rule imageI)
  then show ?thesis by simp
qed

lemma stamped_variant: "unat ((b AND 0x3F) OR 0x80 :: u8) div 16 \<in> {8, 9, 10, 11}"
proof -
  have "drop_bit 4 ((b AND 0x3F) OR 0x80) = (drop_bit 4 b AND 3) OR (8 :: u8)"
    by (simp add: drop_bit_or drop_bit_and)
  then show ?thesis unfolding byte_div16 using byte_low2 [of "drop_bit 4 b"] by auto
qed
lemma formatObjectID_nth:
  assumes "length bs = 16"
  shows "formatObjectID bs ! 14 = hexDigit (unat (bs ! 6) div 16)"
    "formatObjectID bs ! 19 = hexDigit (unat (bs ! 8) div 16)"
  using assms nth_hexEncode [of 6 bs] nth_hexEncode [of 8 bs]
  by (simp_all add: formatObjectID_def Let_def nth_append)

section \<open>Properties\<close>

text \<open>
  C1. A virtual path accepted by \<open>directoryPath\<close> never leaves the vault and never reaches
  the reserved \<open>.passfs\<close> directory that holds the configuration, the encrypted identity and
  the metadata.
\<close>

theorem directoryPath_contained:
  assumes "isAbs root" and "directoryPath root relative = Inr path"
  shows "pathWithin path root \<and> \<not> pathWithin path (pathJoin [root, internalDirName])"
proof -
  have ne: "root \<noteq> []" using assms(1) by auto
  note d = directoryPath_ok [OF assms(2) ne]
  have "comps (pathJoin [root, internalDirName]) = comps root @ [internalDirName]"
    "isAbs (pathJoin [root, internalDirName])"
    using Join_descends [OF ne, of internalDirName] assms(1) by (simp_all add: comps_proper)
  moreover have "\<not> prefix [internalDirName] (comps relative)"
    using validateRelativePath_ok(2) [OF d(3)] by (cases "comps relative") auto
  ultimately show ?thesis using d(1,2) assms(1) by (simp add: pathWithin_iff)
qed

theorem directoryPath_contained_witness:
  "pathWithin ''/vault/objects/x'' ''/vault'' \<and>
   \<not> pathWithin ''/vault/objects/x'' (pathJoin [''/vault'', internalDirName])"
proof -
  have a: "isAbs ''/vault''" by code_simp
  have d: "directoryPath ''/vault'' ''objects/./y/../x'' = Inr ''/vault/objects/x''" by code_simp
  show ?thesis using directoryPath_contained [OF a d] by simp
qed

text \<open>
  Two virtual paths have the same ciphertext file exactly when they have the same
  metadata key, so a ciphertext is never shared between two metadata entries.
\<close>

theorem encryptedPath_metadataKey:
  assumes "isAbs root" and "encryptedPath root a = Inr p" and "encryptedPath root b = Inr q"
    and "Clean a \<noteq> ''.''" and "Clean b \<noteq> ''.''"
  shows "p = q \<longleftrightarrow> metadataKey a = metadataKey b"
proof -
  have ne: "root \<noteq> []" using assms(1) by auto
  have va: "validateRelativePath a = Inr ()" and vb: "validateRelativePath b = Inr ()"
    and n: "a \<noteq> []" "a \<noteq> ''.''" "b \<noteq> []" "b \<noteq> ''.''"
    using assms(2,3) by (auto simp: encryptedPath_def split: sum.splits if_splits)
  have rel: "\<not> isAbs a" "\<not> isAbs b"
    using validateRelativePath_ok(1) [OF va] validateRelativePath_ok(1) [OF vb]
    by (simp_all add: descends_def)
  then have c: "comps a \<noteq> []" "comps b \<noteq> []"
    using assms(4,5) by (auto simp: Clean_rel)
  note pa = encryptedPath_ok [OF assms(2) ne c(1)] and qb = encryptedPath_ok [OF assms(3) ne c(2)]
  have "p = q \<longleftrightarrow> Clean p = Clean q" using pa(3) qb(3) by simp
  also have "\<dots> \<longleftrightarrow> ageComps a = ageComps b" using pa(1,2) qb(1,2) by (simp add: Clean_eq_iff)
  also have "\<dots> \<longleftrightarrow> Clean a = Clean b" using c rel by (simp add: ageComps_inj Clean_eq_iff)
  finally show ?thesis using n by (simp add: metadataKey_def)
qed

theorem encryptedPath_metadataKey_witness:
  "''/v/objects/a.age'' = (''/v/objects/a.age'' :: string) \<and>
   metadataKey ''objects/a'' = metadataKey ''objects//a''"
proof -
  have h: "isAbs ''/v''" "encryptedPath ''/v'' ''objects/a'' = Inr ''/v/objects/a.age''"
    "encryptedPath ''/v'' ''objects//a'' = Inr ''/v/objects/a.age''"
    "Clean ''objects/a'' \<noteq> ''.''" "Clean ''objects//a'' \<noteq> ''.''"
    by code_simp+
  show ?thesis using encryptedPath_metadataKey [OF h] by simp
qed

text \<open>
  C2. The two containment tests of the program agree on absolute paths, except that
  \<open>PathWithin\<close> with the root directory \<open>/\<close> as container holds for \<open>/\<close> alone.
\<close>

theorem PathWithin_vs_pathWithin:
  assumes "isAbs root" and "isAbs path"
  shows "PathWithin root path \<longleftrightarrow>
    pathWithin path root \<and> (Clean root = ''/'' \<longrightarrow> Clean path = ''/'')"
proof (cases "comps root = []")
  case True
  then have "Clean root = ''/''" using assms(1) by (simp add: Clean_abs)
  moreover have "Clean path = ''/'' \<longleftrightarrow> comps path = []" using assms(2) by (simp add: Clean_abs)
  ultimately show ?thesis
    using True assms by (simp add: PathWithin_root pathWithin_iff)
next
  case False
  then have "Clean root \<noteq> ''/''" using assms(1) by (simp add: Clean_abs)
  then show ?thesis using False assms by (simp add: PathWithin_iff pathWithin_iff)
qed

theorem PathWithin_vs_pathWithin_witness:
  "PathWithin ''/a'' ''/a/b'' \<and> pathWithin ''/a/b'' ''/a'' \<and>
   \<not> PathWithin ''/'' ''/a'' \<and> pathWithin ''/a'' ''/''"
proof -
  have a: "isAbs ''/a''" "isAbs ''/a/b''" "isAbs ''/''" by code_simp+
  have "pathWithin ''/a/b'' ''/a''" "pathWithin ''/a'' ''/''" "Clean ''/a'' \<noteq> ''/''" "Clean ''/'' = ''/''"
    by code_simp+
  then show ?thesis
    using PathWithin_vs_pathWithin [OF a(1,2)] PathWithin_vs_pathWithin [OF a(3,1)] by simp
qed

text \<open>
  C3. Every identifier \<open>newObjectID\<close> creates is already in normal form and carries the
  version and variant of an RFC 4122 version-4 identifier.
\<close>

theorem newObjectID_rfc4122:
  assumes "length random = 16" and "newObjectID (Some random) = Inr objectID"
  shows "normalizeObjectID objectID = Inr objectID \<and> objectID ! 14 = CHR ''4'' \<and>
    objectID ! 19 \<in> set ''89ab''"
proof -
  let ?v = "stampVersion 0x40 random"
  have i: "objectID = formatObjectID ?v" using assms(2) by (simp add: newObjectID_def)
  have l: "length ?v = 16" using assms(1) by simp
  have "?v ! 6 = (random ! 6 AND 0x0F) OR 0x40" "?v ! 8 = (random ! 8 AND 0x3F) OR 0x80"
    using assms(1) by (simp_all add: stampVersion_def Let_def)
  then have "objectID ! 14 = hexDigit 4"
    and v: "objectID ! 19 = hexDigit (unat ((random ! 8 AND 0x3F) OR 0x80) div 16)"
    using formatObjectID_nth [OF l] i stamped_nibble by simp_all
  moreover have "objectID ! 19 \<in> hexDigit ` {8, 9, 10, 11}"
    unfolding v using stamped_variant by (rule imageI)
  ultimately show ?thesis
    using formatObjectID_form [OF l] i by (auto simp: objectIDForm_def hexDigit_def)
qed

theorem newObjectID_rfc4122_witness:
  "normalizeObjectID ''ffffffff-ffff-4fff-bfff-ffffffffffff'' =
     Inr ''ffffffff-ffff-4fff-bfff-ffffffffffff'' \<and>
   ''ffffffff-ffff-4fff-bfff-ffffffffffff'' ! 14 = CHR ''4''"
proof -
  have l: "length (replicate 16 (255 :: u8)) = 16" by simp
  have n: "newObjectID (Some (replicate 16 255)) = Inr ''ffffffff-ffff-4fff-bfff-ffffffffffff''"
    by code_simp
  show ?thesis using newObjectID_rfc4122 [OF l n] by simp
qed



text \<open>
  The mounted namespace is closed: whatever name an adapter passes, \<open>storagePath\<close>
  yields a valid virtual path inside the object directory, and it is an object only when the
  name is \<open>by-id/\<close> followed by an identifier.
\<close>

theorem storagePath_closed:
  "validateRelativePath (storagePath relative) = Inr () \<and>
   (case virtualObjectID relative of
      Some objectID \<Rightarrow> objectIDFromStoragePath (storagePath relative) = Inr objectID
    | None \<Rightarrow> storagePath relative \<in> {''objects'', ''objects/.invalid''})"
proof -
  have inv: "pathJoin [objectStorageDirectory, ''.invalid''] = ''objects/.invalid''" by code_simp
  have v: "validateRelativePath (objectStorageDirectory @ slash # w) = Inr ()"
    if "objectIDForm w" for w
  proof -
    have p: "proper w" and c: "list_all idChar w"
      using objectIDForm_proper(1) [OF that] normalizeObjectID_chars(1) that
      by (auto simp: objectIDForm_def)
    have "\<not> idChar (CHR 0x00)" by code_simp
    with c have "CHR 0x00 \<notin> set w" by (auto simp: list_all_iff)
    then show ?thesis
      using join_two_proper [OF proper_names(1) p] splitOn_append [of slash objectStorageDirectory w]
      by (simp add: validateRelativePath_def Let_def isAbs_def hasPrefix_def vault_names)
  qed
  consider (root) "Clean relative = ''.'' \<or> Clean relative = objectNamespaceDirectory"
    | (other) "Clean relative \<noteq> ''.''" "Clean relative \<noteq> objectNamespaceDirectory"
        "virtualObjectID relative = None"
    | (obj) w where "Clean relative \<noteq> ''.''" "Clean relative \<noteq> objectNamespaceDirectory"
        "virtualObjectID relative = Some w"
    by (cases "virtualObjectID relative") auto
  then show ?thesis
  proof cases
    case root
    then have "virtualObjectID relative = None" "storagePath relative = ''objects''"
      by (auto simp: virtualObjectID_def storagePath_def hasPrefix_def vault_names)
    moreover have "validateRelativePath ''objects'' = Inr ()" by code_simp
    ultimately show ?thesis by simp
  next
    case other
    then have "storagePath relative = ''objects/.invalid''"
      by (auto simp: virtualObjectID_def storagePath_def inv Let_def split: if_splits sum.splits)
    moreover have "validateRelativePath ''objects/.invalid'' = Inr ()" by code_simp
    ultimately show ?thesis using other(3) by simp
  next
    case obj
    then have f: "objectIDForm w"
      and p: "storagePath relative = objectStorageDirectory @ slash # w"
      using normalizeObjectID_form objectStoragePath_form
      by (auto simp: virtualObjectID_def storagePath_def Let_def split: if_splits sum.splits)
    show ?thesis using obj(3) p v [OF f] objectIDFromStoragePath_form [OF f] by simp
  qed
qed

text \<open>
  A session command written by \<open>beginControlSession\<close> or \<open>endControlSession\<close> is read
  back by \<open>parseSessionCommand\<close> with the same token, and nothing but such a command with a
  32-digit hexadecimal token is accepted.
\<close>

theorem session_command_roundtrip:
  "(length random = 16 \<longrightarrow>
     parseSessionCommand (snd (beginControlCommand random)) =
       Inr (SessionBegin, fst (beginControlCommand random)) \<and>
     (\<exists>c. endControlCommand (fst (beginControlCommand random)) = Inr c \<and>
          parseSessionCommand c = Inr (SessionEnd, fst (beginControlCommand random)))) \<and>
   (\<forall>command operation token. parseSessionCommand command = Inr (operation, token) \<longrightarrow>
     length token = 32 \<and> hexDecode token \<noteq> None \<and>
     command = (case operation of SessionBegin \<Rightarrow> sessionBegin | SessionEnd \<Rightarrow> sessionEnd) @ token)"
proof -
  have t: "hasPrefix command p \<Longrightarrow> p @ trimPrefix command p = command" for command p
    by (auto simp: trimPrefix_def hasPrefix_def prefix_def)
  have ne: "\<not> prefix sessionBegin (sessionEnd @ u)" for u
    by (simp add: sessionBegin_def sessionEnd_def)
  have "parseSessionCommand command = Inr (operation, token) \<longrightarrow>
     length token = 32 \<and> hexDecode token \<noteq> None \<and>
     command = (case operation of SessionBegin \<Rightarrow> sessionBegin | SessionEnd \<Rightarrow> sessionEnd) @ token"
    for command operation token
    by (auto simp: parseSessionCommand_def validateSessionToken_def Let_def t
        split: if_splits option.splits sum.splits)
  moreover have "length random = 16 \<longrightarrow>
     parseSessionCommand (snd (beginControlCommand random)) =
       Inr (SessionBegin, fst (beginControlCommand random)) \<and>
     (\<exists>c. endControlCommand (fst (beginControlCommand random)) = Inr c \<and>
          parseSessionCommand c = Inr (SessionEnd, fst (beginControlCommand random)))"
    by (simp add: beginControlCommand_def endControlCommand_def parseSessionCommand_def
        validateSessionToken_def hasPrefix_def ne Let_def)
  ultimately show ?thesis by blast
qed

theorem session_command_roundtrip_witness:
  "parseSessionCommand (snd (beginControlCommand (replicate 16 7))) =
     Inr (SessionBegin, hexEncode (replicate 16 7))"
  using session_command_roundtrip [of "replicate 16 7"]
  by (simp add: beginControlCommand_def Let_def)

end
