(* ===== verification/Os.thy ===== *)
theory Os
  imports ObjectId
begin

text \<open>
  The operating system as passfs sees it through Go's \<open>os\<close>, \<open>syscall\<close> and \<open>unix\<close> packages:
  a file tree indexed by clean absolute paths, and system calls that may fail. Which calls
  fail, the clock, the names of temporary files and the numbers of new inodes are decided by
  an environment indexed by the number of the call, so a theorem about every environment is a
  theorem about every fault schedule. The durable-write helpers of config.go
  (\<open>WriteFileAtomic\<close>, \<open>syncDirectory\<close>, \<open>ensureEmptyDirectory\<close>) and the path resolution of
  path.go are modelled on top.
\<close>

section \<open>State\<close>

text \<open>The octal permission modes \<open>0o600\<close>, \<open>0o700\<close> and \<open>0o777\<close>.\<close>

abbreviation mode0600 :: u32 where "mode0600 \<equiv> 0x180"
abbreviation mode0700 :: u32 where "mode0700 \<equiv> 0x1C0"
abbreviation mode0777 :: u32 where "mode0777 \<equiv> 0x1FF"

text \<open>What \<open>os.FileInfo\<close> says of an entry besides its type; the size of a regular file is that of its
  contents, the size of a directory is the file system's choice.\<close>

record finfo =
  fi_ino :: u64
  fi_perm :: u32
  fi_mtime :: int
  fi_nlink :: nat
  fi_dirsize :: nat

datatype node = Directory finfo | Regular finfo bytes | Symlink finfo string

fun ninfo :: "node \<Rightarrow> finfo" where
  "ninfo (Directory i) = i"
| "ninfo (Regular i _) = i"
| "ninfo (Symlink i _) = i"

fun isDirNode :: "node \<Rightarrow> bool" where
  "isDirNode (Directory _) = True"
| "isDirNode _ = False"

fun isRegNode :: "node \<Rightarrow> bool" where
  "isRegNode (Regular _ _) = True"
| "isRegNode _ = False"

fun isLinkNode :: "node \<Rightarrow> bool" where
  "isLinkNode (Symlink _ _) = True"
| "isLinkNode _ = False"

fun nodeData :: "node \<Rightarrow> bytes" where
  "nodeData (Regular _ d) = d"
| "nodeData _ = []"

fun withInfo :: "finfo \<Rightarrow> node \<Rightarrow> node" where
  "withInfo i (Directory _) = Directory i"
| "withInfo i (Regular _ d) = Regular i d"
| "withInfo i (Symlink _ t) = Symlink i t"

record environ =
  envFault :: "nat \<Rightarrow> errno option"
  envPartial :: "nat \<Rightarrow> nat"
  envNow :: "nat \<Rightarrow> int"
  envName :: "nat \<Rightarrow> string"
  envIno :: "nat \<Rightarrow> u64"
  envRandom :: "nat \<Rightarrow> bytes option"
  envCwd :: string
  envDirSize :: nat

record os =
  osNodes :: "(string, node) gomap"
  osCalls :: nat
  osEnv :: environ

definition nodeAt :: "'z os_scheme \<Rightarrow> string \<Rightarrow> node option" where
  "nodeAt s p = map_of (osNodes s) p"

definition putNode :: "string \<Rightarrow> node \<Rightarrow> 'z os_scheme \<Rightarrow> 'z os_scheme" where
  "putNode p n s = s\<lparr>osNodes := mset_key p n (osNodes s)\<rparr>"

definition delNode :: "string \<Rightarrow> 'z os_scheme \<Rightarrow> 'z os_scheme" where
  "delNode p s = s\<lparr>osNodes := mdel p (osNodes s)\<rparr>"

definition tickd :: "'z os_scheme \<Rightarrow> 'z os_scheme" where
  "tickd s = s\<lparr>osCalls := Suc (osCalls s)\<rparr>"

section \<open>System calls\<close>

definition sysCall ::
  "(nat \<Rightarrow> 'z os_scheme \<Rightarrow> 'a res \<times> 'z os_scheme) \<Rightarrow> ('z os_scheme, 'a res) state" where
  "sysCall f = State (\<lambda>s.
     case envFault (osEnv s) (osCalls s) of
       Some e \<Rightarrow> (Inl (Errno e), tickd s)
     | None \<Rightarrow> f (osCalls s) (tickd s))"

text \<open>\<open>time.Now()\<close> in nanoseconds; it never fails.\<close>

definition timeNow :: "('z os_scheme, int) state" where
  "timeNow = State (\<lambda>s. (envNow (osEnv s) (osCalls s), tickd s))"

definition randRead :: "('z os_scheme, bytes option) state" where
  "randRead = State (\<lambda>s. (envRandom (osEnv s) (osCalls s), tickd s))"

text \<open>A call with no effect on the file tree: \<open>fsync\<close>, \<open>close\<close>, \<open>flock\<close>.\<close>

definition os_nop :: "('z os_scheme, unit res) state" where
  "os_nop = sysCall (\<lambda>_ s. (Inr (), s))"

definition os_lstat :: "string \<Rightarrow> ('z os_scheme, node res) state" where
  "os_lstat p = sysCall (\<lambda>_ s.
     (case nodeAt s p of None \<Rightarrow> Inl (Errno ENOENT) | Some n \<Rightarrow> Inr n, s))"

text \<open>The node a path denotes after following final symbolic links, at most \<open>k\<close> of them.\<close>

fun followNode :: "nat \<Rightarrow> (string, node) gomap \<Rightarrow> string \<Rightarrow> node res" where
  "followNode k N p =
     (case map_of N p of
        None \<Rightarrow> Inl (Errno ENOENT)
      | Some (Symlink _ t) \<Rightarrow>
          (case k of
             0 \<Rightarrow> Inl (Errno (EOther 40))
           | Suc k' \<Rightarrow> followNode k' N (if isAbs t then Clean t else pathJoin [pathDir p, t]))
      | Some n \<Rightarrow> Inr n)"

declare followNode.simps [simp del]

definition os_stat :: "string \<Rightarrow> ('z os_scheme, node res) state" where
  "os_stat p = sysCall (\<lambda>_ s. (followNode 40 (osNodes s) p, s))"

text \<open>Opening a file for reading yields its contents; a directory yields none.\<close>

definition os_open :: "string \<Rightarrow> ('z os_scheme, bytes res) state" where
  "os_open p = sysCall (\<lambda>_ s.
     (case followNode 40 (osNodes s) p of Inl e \<Rightarrow> Inl e | Inr n \<Rightarrow> Inr (nodeData n), s))"

definition os_readlink :: "string \<Rightarrow> ('z os_scheme, string res) state" where
  "os_readlink p = sysCall (\<lambda>_ s.
     (case nodeAt s p of
        Some (Symlink _ t) \<Rightarrow> Inr t
      | Some _ \<Rightarrow> Inl (Errno EINVAL)
      | None \<Rightarrow> Inl (Errno ENOENT), s))"

text \<open>The directory a new entry is created in, as \<open>os.CreateTemp\<close> joins names.\<close>

definition dirSlash :: "string \<Rightarrow> string" where
  "dirSlash dir = (if dir \<noteq> [] \<and> last dir = slash then dir else dir @ [slash])"

definition tempName :: "string \<Rightarrow> string \<Rightarrow> string" where
  "tempName dir name = dirSlash dir @ name"

definition freshInfo :: "environ \<Rightarrow> nat \<Rightarrow> u32 \<Rightarrow> finfo" where
  "freshInfo e i perm = \<lparr>fi_ino = envIno e i, fi_perm = perm, fi_mtime = envNow e i, fi_nlink = 1,
     fi_dirsize = envDirSize e\<rparr>"

definition createNode ::
  "string \<Rightarrow> string \<Rightarrow> node \<Rightarrow> 'z os_scheme \<Rightarrow> string res \<times> 'z os_scheme" where
  "createNode dir path n s =
     (case nodeAt s dir of
        Some (Directory _) \<Rightarrow>
          (case nodeAt s path of
             Some _ \<Rightarrow> (Inl (Errno EEXIST), s)
           | None \<Rightarrow> (Inr path, putNode path n s))
      | Some _ \<Rightarrow> (Inl (Errno ENOTDIR), s)
      | None \<Rightarrow> (Inl (Errno ENOENT), s))"

definition os_createTemp :: "string \<Rightarrow> string \<Rightarrow> ('z os_scheme, string res) state" where
  "os_createTemp dir pfx = sysCall (\<lambda>i s.
     createNode dir (tempName dir (pfx @ envName (osEnv s) i))
       (Regular (freshInfo (osEnv s) i mode0600) []) s)"

definition os_mkdirTemp :: "string \<Rightarrow> string \<Rightarrow> ('z os_scheme, string res) state" where
  "os_mkdirTemp dir pfx = sysCall (\<lambda>i s.
     createNode dir (tempName dir (pfx @ envName (osEnv s) i))
       (Directory (freshInfo (osEnv s) i mode0700)) s)"

text \<open>\<open>os.OpenFile\<close> with \<open>O_WRONLY|O_CREATE|O_EXCL\<close>.\<close>

definition os_createExcl :: "string \<Rightarrow> u32 \<Rightarrow> ('z os_scheme, string res) state" where
  "os_createExcl p perm = sysCall (\<lambda>i s.
     createNode (pathDir p) p (Regular (freshInfo (osEnv s) i perm) []) s)"

definition os_symlink :: "string \<Rightarrow> string \<Rightarrow> ('z os_scheme, string res) state" where
  "os_symlink target p = sysCall (\<lambda>i s.
     createNode (pathDir p) p (Symlink (freshInfo (osEnv s) i mode0777) target) s)"

text \<open>The contents written through an open handle; a failed write leaves some prefix.\<close>

definition setData :: "string \<Rightarrow> bytes \<Rightarrow> int \<Rightarrow> 'z os_scheme \<Rightarrow> 'z os_scheme" where
  "setData p d t s =
     (case nodeAt s p of
        Some (Regular i _) \<Rightarrow> putNode p (Regular (i\<lparr>fi_mtime := t\<rparr>) d) s
      | _ \<Rightarrow> s)"

definition os_write :: "string \<Rightarrow> bytes \<Rightarrow> ('z os_scheme, unit res) state" where
  "os_write p d = State (\<lambda>s.
     let i = osCalls s; e = osEnv s in
     case envFault e i of
       Some x \<Rightarrow> (Inl (Errno x), setData p (take (envPartial e i) d) (envNow e i) (tickd s))
     | None \<Rightarrow> (Inr (), setData p d (envNow e i) (tickd s)))"

text \<open>A write through a buffering encoder: some prefix has reached the file.\<close>

definition os_writeSome :: "string \<Rightarrow> bytes \<Rightarrow> ('z os_scheme, unit res) state" where
  "os_writeSome p d = State (\<lambda>s.
     let i = osCalls s; e = osEnv s; t = setData p (take (envPartial e i) d) (envNow e i) (tickd s) in
     case envFault e i of Some x \<Rightarrow> (Inl (Errno x), t) | None \<Rightarrow> (Inr (), t))"

definition os_chmod :: "string \<Rightarrow> u32 \<Rightarrow> ('z os_scheme, unit res) state" where
  "os_chmod p m = sysCall (\<lambda>_ s.
     case nodeAt s p of
       None \<Rightarrow> (Inl (Errno ENOENT), s)
     | Some n \<Rightarrow> (Inr (), putNode p (withInfo ((ninfo n)\<lparr>fi_perm := m\<rparr>) n) s))"

definition os_chtimes :: "string \<Rightarrow> int \<Rightarrow> ('z os_scheme, unit res) state" where
  "os_chtimes p t = sysCall (\<lambda>_ s.
     case nodeAt s p of
       None \<Rightarrow> (Inl (Errno ENOENT), s)
     | Some n \<Rightarrow> (Inr (), putNode p (withInfo ((ninfo n)\<lparr>fi_mtime := t\<rparr>) n) s))"

text \<open>Moving a directory moves everything below it.\<close>

definition below :: "string \<Rightarrow> string \<Rightarrow> bool" where
  "below dir p \<longleftrightarrow> p \<noteq> dir \<and> prefix (dirSlash dir) p"

definition relocate :: "string \<Rightarrow> string \<Rightarrow> string \<Rightarrow> string" where
  "relocate old new p =
     (if p = old then new else if below old p then new @ drop (length old) p else p)"

definition moveNode :: "string \<Rightarrow> string \<Rightarrow> 'z os_scheme \<Rightarrow> 'z os_scheme" where
  "moveNode old new s =
     (case nodeAt s old of
        None \<Rightarrow> s
      | Some (Directory i) \<Rightarrow>
          s\<lparr>osNodes := map (\<lambda>(p, n). (relocate old new p, n)) (mdel new (osNodes s))\<rparr>
      | Some n \<Rightarrow> putNode new n (delNode old s))"

definition os_rename :: "string \<Rightarrow> string \<Rightarrow> ('z os_scheme, unit res) state" where
  "os_rename old new = sysCall (\<lambda>_ s.
     case (nodeAt s old, nodeAt s new) of
       (None, _) \<Rightarrow> (Inl (Errno ENOENT), s)
     | (Some (Directory _), Some m) \<Rightarrow>
         if old = new then (Inr (), s)
         else if isDirNode m then (Inl (Errno ENOTEMPTY), s) else (Inl (Errno ENOTDIR), s)
     | (Some n, Some (Directory _)) \<Rightarrow> (Inl (Errno EISDIR), s)
     | (Some n, _) \<Rightarrow> (Inr (), if old = new then s else moveNode old new s))"

definition renameNoReplace :: "string \<Rightarrow> string \<Rightarrow> ('z os_scheme, unit res) state" where
  "renameNoReplace old new = sysCall (\<lambda>_ s.
     case (nodeAt s old, nodeAt s new) of
       (None, _) \<Rightarrow> (Inl (Errno ENOENT), s)
     | (Some _, Some _) \<Rightarrow> (Inl (Errno EEXIST), s)
     | (Some _, None) \<Rightarrow> (Inr (), moveNode old new s))"

definition swapPath :: "string \<Rightarrow> string \<Rightarrow> string \<Rightarrow> string" where
  "swapPath a b p =
     (if p = a \<or> below a p then relocate a b p else if p = b \<or> below b p then relocate b a p else p)"

definition exchangePaths :: "string \<Rightarrow> string \<Rightarrow> ('z os_scheme, unit res) state" where
  "exchangePaths a b = sysCall (\<lambda>_ s.
     case (nodeAt s a, nodeAt s b) of
       (Some m, Some n) \<Rightarrow>
         (Inr (),
          if isDirNode m \<or> isDirNode n
          then s\<lparr>osNodes := map (\<lambda>(p, x). (swapPath a b p, x)) (osNodes s)\<rparr>
          else putNode a n (putNode b m s))
     | _ \<Rightarrow> (Inl (Errno ENOENT), s))"

definition os_remove :: "string \<Rightarrow> ('z os_scheme, unit res) state" where
  "os_remove p = sysCall (\<lambda>_ s.
     case nodeAt s p of
       None \<Rightarrow> (Inl (Errno ENOENT), s)
     | Some n \<Rightarrow>
         if isDirNode n \<and> list_ex (\<lambda>(q, _). below p q) (osNodes s) then (Inl (Errno ENOTEMPTY), s)
         else (Inr (), delNode p s))"

definition delTree :: "string \<Rightarrow> 'z os_scheme \<Rightarrow> 'z os_scheme" where
  "delTree p s = s\<lparr>osNodes := filter (\<lambda>(q, _). q \<noteq> p \<and> \<not> below p q) (osNodes s)\<rparr>"

definition os_removeAll :: "string \<Rightarrow> ('z os_scheme, unit res) state" where
  "os_removeAll p = sysCall (\<lambda>_ s. (Inr (), delTree p s))"

text \<open>\<open>os.MkdirAll\<close>: the ancestors of a clean absolute path, outermost first.\<close>

definition ancestors :: "string \<Rightarrow> string list" where
  "ancestors p = map (render (isAbs p)) (prefixes (comps p))"

fun mkdirs :: "environ \<Rightarrow> nat \<Rightarrow> u32 \<Rightarrow> string list \<Rightarrow> 'z os_scheme \<Rightarrow> unit res \<times> 'z os_scheme" where
  "mkdirs e i perm [] s = (Inr (), s)"
| "mkdirs e i perm (p # ps) s =
     (case nodeAt s p of
        Some (Directory _) \<Rightarrow> mkdirs e i perm ps s
      | Some _ \<Rightarrow> (Inl (Errno ENOTDIR), s)
      | None \<Rightarrow> mkdirs e i perm ps (putNode p (Directory (freshInfo e i perm)) s))"

definition os_mkdirAll :: "string \<Rightarrow> u32 \<Rightarrow> ('z os_scheme, unit res) state" where
  "os_mkdirAll p perm = sysCall (\<lambda>i s. mkdirs (osEnv s) i perm (ancestors p) s)"

text \<open>\<open>os.ReadDir\<close>: the entries of a directory, sorted by name.\<close>

definition childNames :: "'z os_scheme \<Rightarrow> string \<Rightarrow> (string \<times> node) list" where
  "childNames s dir =
     sort_key fst
       (map (\<lambda>(p, n). (drop (length (dirSlash dir)) p, n))
         (filter (\<lambda>(p, n). below dir p \<and> slash \<notin> set (drop (length (dirSlash dir)) p)) (osNodes s)))"

definition os_readDir :: "string \<Rightarrow> ('z os_scheme, (string \<times> node) list res) state" where
  "os_readDir dir = sysCall (\<lambda>_ s.
     (case nodeAt s dir of
        Some (Directory _) \<Rightarrow> Inr (childNames s dir)
      | Some _ \<Rightarrow> Inl (Errno ENOTDIR)
      | None \<Rightarrow> Inl (Errno ENOENT), s))"

text \<open>\<open>os.Open\<close> followed by \<open>io.ReadAll\<close>; the read may fail too.\<close>

definition os_readFile :: "string \<Rightarrow> ('z os_scheme, bytes res) state" where
  "os_readFile p = andThen (os_open p) (\<lambda>d. andThen os_nop (\<lambda>_. ret (Inr d)))"

text \<open>
  \<open>filepath.WalkDir\<close>: the callback sees the path and either its node or the error of reading
  the directory, and threads the variables it captures. The first argument bounds the depth;
  \<open>walkDir\<close> passes the number of nodes of the tree, which no path of the tree exceeds.
\<close>

fun walkEntry ::
  "nat \<Rightarrow> (string \<Rightarrow> node res \<Rightarrow> 'b \<Rightarrow> ('z os_scheme, 'b res) state) \<Rightarrow> string \<Rightarrow> node \<Rightarrow> 'b \<Rightarrow>
   ('z os_scheme, 'b res) state"
  and walkEntries ::
  "nat \<Rightarrow> (string \<Rightarrow> node res \<Rightarrow> 'b \<Rightarrow> ('z os_scheme, 'b res) state) \<Rightarrow> string \<Rightarrow> (string \<times> node) list \<Rightarrow>
   'b \<Rightarrow> ('z os_scheme, 'b res) state" where
  "walkEntry 0 f path n b = f path (Inr n) b"
| "walkEntry (Suc k) f path n b =
     andThen (f path (Inr n) b) (\<lambda>b'.
       if \<not> isDirNode n then ret (Inr b')
       else do {
         r \<leftarrow> os_readDir path;
         (case r of Inl e \<Rightarrow> f path (Inl e) b' | Inr es \<Rightarrow> walkEntries k f path es b') })"
| "walkEntries k f path [] b = ret (Inr b)"
| "walkEntries k f path ((name, n) # es) b =
     andThen (walkEntry k f (pathJoin [path, name]) n b) (\<lambda>b'. walkEntries k f path es b')"

definition walkDir ::
  "string \<Rightarrow> (string \<Rightarrow> node res \<Rightarrow> 'b \<Rightarrow> ('z os_scheme, 'b res) state) \<Rightarrow> 'b \<Rightarrow> ('z os_scheme, 'b res) state" where
  "walkDir root f b = do {
     r \<leftarrow> os_lstat root;
     k \<leftarrow> gets (\<lambda>s. length (osNodes s));
     (case r of Inl e \<Rightarrow> f root (Inl e) b | Inr n \<Rightarrow> walkEntry k f root n b) }"

text \<open>A loop over a Go map or slice whose body may fail.\<close>

fun forEach :: "'a list \<Rightarrow> ('a \<Rightarrow> ('s, unit res) state) \<Rightarrow> ('s, unit res) state" where
  "forEach [] f = ret (Inr ())"
| "forEach (x # xs) f = andThen (f x) (\<lambda>_. forEach xs f)"

text \<open>A loop that also carries a value.\<close>

fun foldRes :: "('a \<Rightarrow> 'b \<Rightarrow> ('s, 'b res) state) \<Rightarrow> 'a list \<Rightarrow> 'b \<Rightarrow> ('s, 'b res) state" where
  "foldRes f [] b = ret (Inr b)"
| "foldRes f (x # xs) b = andThen (f x b) (\<lambda>b'. foldRes f xs b')"

section \<open>Durable writes (config.go)\<close>

definition syncDirectory :: "string \<Rightarrow> ('z os_scheme, unit res) state" where
  "syncDirectory path =
     andThen (os_open path) (\<lambda>_. do {
       r \<leftarrow> os_nop;
       ret (case r of Inl e \<Rightarrow> if errorsIsErrno e EINVAL then Inr () else Inl e | Inr u \<Rightarrow> Inr u) })"

definition WriteFileAtomic :: "string \<Rightarrow> bytes \<Rightarrow> u32 \<Rightarrow> ('z os_scheme, unit res) state" where
  "WriteFileAtomic path data mode =
     (let directory = pathDir path in
      andThen (os_mkdirAll directory mode0700) (\<lambda>_.
      andThen (os_createTemp directory ''.passfs-config-'') (\<lambda>tempPath.
      deferring (os_remove tempPath) (
        andThen (os_chmod tempPath mode) (\<lambda>_.
        andThen (os_write tempPath data) (\<lambda>_.
        andThen os_nop (\<lambda>_. \<comment> \<open>\<open>file.Sync()\<close>\<close>
        andThen os_nop (\<lambda>_. \<comment> \<open>\<open>file.Close()\<close>\<close>
        andThen (os_rename tempPath path) (\<lambda>_.
        syncDirectory directory)))))))))"

definition ensureEmptyDirectory :: "string \<Rightarrow> ('z os_scheme, unit res) state" where
  "ensureEmptyDirectory path = do {
     r \<leftarrow> os_stat path;
     (case r of
        Inl e \<Rightarrow> if errorsIs e ErrNotExist then os_mkdirAll path mode0700 else ret (Inl e)
      | Inr n \<Rightarrow>
          if \<not> isDirNode n then ret (Inl (Msg ''is not a directory''))
          else andThen (os_readDir path) (\<lambda>entries.
            ret (if entries \<noteq> [] then Inl (Msg ''is not empty'') else Inr ()))) }"

section \<open>Path resolution (path.go)\<close>

text \<open>
  \<open>filepath.EvalSymlinks\<close> on the elements of an absolute path, following at most 255 links.
\<close>

fun evalComps :: "(string, node) gomap \<Rightarrow> nat \<Rightarrow> string list \<Rightarrow> string list \<Rightarrow> string list res" where
  "evalComps N k cur [] = Inr cur"
| "evalComps N k cur (c # cs) =
     (if c = ''..'' then evalComps N k (butlast cur) cs
      else if c = [] \<or> c = ''.'' then evalComps N k cur cs
      else
        case map_of N (render True (cur @ [c])) of
          None \<Rightarrow> Inl (Errno ENOENT)
        | Some (Symlink _ t) \<Rightarrow>
            (case k of
               0 \<Rightarrow> Inl (Msg ''EvalSymlinks: too many links'')
             | Suc k' \<Rightarrow> evalComps N k' (if isAbs t then [] else cur) (splitOn slash t @ cs))
        | Some (Directory _) \<Rightarrow> evalComps N k (cur @ [c]) cs
        | Some (Regular _ _) \<Rightarrow>
            if cs = [] then Inr (cur @ [c]) else Inl (Errno ENOTDIR))"

definition evalSymlinks :: "string \<Rightarrow> ('z os_scheme, string res) state" where
  "evalSymlinks p = sysCall (\<lambda>_ s.
     (case evalComps (osNodes s) 255 [] (comps p) of Inl e \<Rightarrow> Inl e | Inr cs \<Rightarrow> Inr (render True cs), s))"

text \<open>
  \<open>ResolvePath\<close>: strip elements from the end until the prefix resolves, then put them back.
  The loop runs over the elements of the absolute path, last first.
\<close>

fun resolveLoop :: "string \<Rightarrow> string list \<Rightarrow> string list \<Rightarrow> ('z os_scheme, string res) state" where
  "resolveLoop absolute [] sfx = do {
     r \<leftarrow> evalSymlinks (render True []);
     ret (case r of
        Inr resolved \<Rightarrow> Inr (Clean (foldl (\<lambda>p c. pathJoin [p, c]) resolved sfx))
      | Inl e \<Rightarrow> if errorsIs e ErrNotExist then Inr (Clean absolute) else Inl e) }"
| "resolveLoop absolute (c # rcs) sfx = do {
     r \<leftarrow> evalSymlinks (render True (rev (c # rcs)));
     (case r of
        Inr resolved \<Rightarrow> ret (Inr (Clean (foldl (\<lambda>p c. pathJoin [p, c]) resolved sfx)))
      | Inl e \<Rightarrow>
          if errorsIs e ErrNotExist then resolveLoop absolute rcs (c # sfx) else ret (Inl e)) }"

definition ResolvePath :: "string \<Rightarrow> ('z os_scheme, string res) state" where
  "ResolvePath path = do {
     cwd \<leftarrow> gets (\<lambda>s. envCwd (osEnv s));
     (let absolute = absPath cwd path in resolveLoop absolute (rev (comps absolute)) []) }"

definition ResolvePathEntry :: "string \<Rightarrow> ('z os_scheme, string res) state" where
  "ResolvePathEntry path = do {
     cwd \<leftarrow> gets (\<lambda>s. envCwd (osEnv s));
     (let absolute = absPath cwd path in
      andThen (ResolvePath (pathDir absolute)) (\<lambda>resolvedParent.
        ret (Inr (pathJoin [resolvedParent, pathBase absolute])))) }"

section \<open>Weakest preconditions\<close>

lemma tickd_simps [simp]:
  "osNodes (tickd s) = osNodes s" "osEnv (tickd s) = osEnv s" "nodeAt (tickd s) p = nodeAt s p"
  "os.more (tickd s) = os.more s"
  by (simp_all add: tickd_def nodeAt_def)

lemma nodeAt_simps [simp]:
  "nodeAt (putNode p n s) q = (if q = p then Some n else nodeAt s q)"
  "nodeAt (delNode p s) q = (if q = p then None else nodeAt s q)"
  by (simp_all add: nodeAt_def putNode_def delNode_def)

lemma putNode_simps [simp]:
  "osEnv (putNode p n s) = osEnv s" "osCalls (putNode p n s) = osCalls s"
  "os.more (putNode p n s) = os.more s"
  "osEnv (delNode p s) = osEnv s" "osCalls (delNode p s) = osCalls s"
  "os.more (delNode p s) = os.more s"
  by (simp_all add: putNode_def delNode_def)

lemma map_of_filter_key: "map_of (filter (\<lambda>(q, _). P q) xs) k = (if P k then map_of xs k else None)"
  by (induction xs) auto

lemma delTree_simps [simp]:
  "nodeAt (delTree p s) q = (if q = p \<or> below p q then None else nodeAt s q)"
  "osEnv (delTree p s) = osEnv s" "osCalls (delTree p s) = osCalls s" "os.more (delTree p s) = os.more s"
  by (auto simp: delTree_def nodeAt_def map_of_filter_key)

text \<open>
  The demonic reading of a system call: whatever the environment decides, the postcondition
  holds.
\<close>

lemma wp_sysCallI:
  assumes "\<And>e. Q (Inl (Errno e)) (tickd s)"
    and "\<And>r t. f (osCalls s) (tickd s) = (r, t) \<Longrightarrow> Q r t"
  shows "wp (sysCall f) Q s"
  using assms by (auto simp: wp_def sysCall_def split: option.splits prod.splits)

lemma wp_timeNow [wp]: "wp timeNow Q = (\<lambda>s. Q (envNow (osEnv s) (osCalls s)) (tickd s))"
  by (simp add: wp_def timeNow_def fun_eq_iff)

lemma wp_randRead [wp]: "wp randRead Q = (\<lambda>s. Q (envRandom (osEnv s) (osCalls s)) (tickd s))"
  by (simp add: wp_def randRead_def fun_eq_iff)


text \<open>Introduction rules for the calls: one goal per way the call can end.\<close>

lemma wp_nopI:
  "(\<And>e. Q (Inl (Errno e)) (tickd s)) \<Longrightarrow> Q (Inr ()) (tickd s) \<Longrightarrow> wp os_nop Q s"
  unfolding os_nop_def by (rule wp_sysCallI) auto

lemma wp_lstatI:
  "(\<And>e. Q (Inl (Errno e)) (tickd s)) \<Longrightarrow>
   (\<And>n. nodeAt s p = Some n \<Longrightarrow> Q (Inr n) (tickd s)) \<Longrightarrow> wp (os_lstat p) Q s"
  unfolding os_lstat_def by (rule wp_sysCallI) (auto split: option.splits)

lemma wp_statI:
  "(\<And>e. Q (Inl e) (tickd s)) \<Longrightarrow>
   (\<And>n. followNode 40 (osNodes s) p = Inr n \<Longrightarrow> Q (Inr n) (tickd s)) \<Longrightarrow> wp (os_stat p) Q s"
  unfolding os_stat_def by (rule wp_sysCallI) (auto split: sum.splits, metis sumE)

lemma wp_openI:
  "(\<And>e. Q (Inl e) (tickd s)) \<Longrightarrow>
   (\<And>n. followNode 40 (osNodes s) p = Inr n \<Longrightarrow> Q (Inr (nodeData n)) (tickd s)) \<Longrightarrow>
   wp (os_open p) Q s"
  unfolding os_open_def by (rule wp_sysCallI) (auto split: sum.splits)

lemma wp_createTempI:
  "(\<And>e. Q (Inl e) (tickd s)) \<Longrightarrow>
   (\<And>x i p. p = tempName dir (pfx @ x) \<Longrightarrow> nodeAt s p = None \<Longrightarrow>
      x = envName (osEnv s) (osCalls s) \<Longrightarrow>
      Q (Inr p) (putNode p (Regular i []) (tickd s))) \<Longrightarrow>
   wp (os_createTemp dir pfx) Q s"
  unfolding os_createTemp_def
  by (rule wp_sysCallI) (auto simp: createNode_def split: option.splits node.splits)

lemma wp_mkdirTempI:
  "(\<And>e. Q (Inl e) (tickd s)) \<Longrightarrow>
   (\<And>x i p. p = tempName dir (pfx @ x) \<Longrightarrow> nodeAt s p = None \<Longrightarrow>
      x = envName (osEnv s) (osCalls s) \<Longrightarrow>
      Q (Inr p) (putNode p (Directory i) (tickd s))) \<Longrightarrow>
   wp (os_mkdirTemp dir pfx) Q s"
  unfolding os_mkdirTemp_def
  by (rule wp_sysCallI) (auto simp: createNode_def split: option.splits node.splits)

lemma wp_symlinkI:
  "(\<And>e. Q (Inl e) (tickd s)) \<Longrightarrow>
   (\<And>i. nodeAt s p = None \<Longrightarrow> Q (Inr p) (putNode p (Symlink i target) (tickd s))) \<Longrightarrow>
   wp (os_symlink target p) Q s"
  unfolding os_symlink_def
  by (rule wp_sysCallI) (auto simp: createNode_def split: option.splits node.splits)

lemma wp_createExclI:
  "(\<And>e. Q (Inl e) (tickd s)) \<Longrightarrow>
   (\<And>i. nodeAt s p = None \<Longrightarrow> Q (Inr p) (putNode p (Regular i []) (tickd s))) \<Longrightarrow>
   wp (os_createExcl p perm) Q s"
  unfolding os_createExcl_def
  by (rule wp_sysCallI) (auto simp: createNode_def split: option.splits node.splits)

lemma wp_readlinkI:
  "(\<And>e. Q (Inl (Errno e)) (tickd s)) \<Longrightarrow>
   (\<And>i t. nodeAt s p = Some (Symlink i t) \<Longrightarrow> Q (Inr t) (tickd s)) \<Longrightarrow>
   wp (os_readlink p) Q s"
  unfolding os_readlink_def
  by (rule wp_sysCallI) (auto split: option.splits node.splits)

lemma childNames_tickd [simp]: "childNames (tickd s) dir = childNames s dir"
  by (simp add: childNames_def)

lemma wp_readDirI:
  "(\<And>e. Q (Inl (Errno e)) (tickd s)) \<Longrightarrow> Q (Inr (childNames s dir)) (tickd s) \<Longrightarrow> wp (os_readDir dir) Q s"
  unfolding os_readDir_def by (rule wp_sysCallI) (auto split: option.splits node.splits)

lemma wp_removeAllI:
  "(\<And>e. Q (Inl (Errno e)) (tickd s)) \<Longrightarrow> Q (Inr ()) (delTree p (tickd s)) \<Longrightarrow> wp (os_removeAll p) Q s"
  unfolding os_removeAll_def by (rule wp_sysCallI) auto

lemma nodeAt_setData [simp]:
  "nodeAt (setData p d t s) q =
     (if q = p then (case nodeAt s p of
        Some (Regular i _) \<Rightarrow> Some (Regular (i\<lparr>fi_mtime := t\<rparr>) d) | x \<Rightarrow> x) else nodeAt s q)"
  by (auto simp: setData_def split: option.splits node.splits)

lemma setData_simps [simp]:
  "osEnv (setData p d t s) = osEnv s" "os.more (setData p d t s) = os.more s"
  "osCalls (setData p d t s) = osCalls s"
  by (auto simp: setData_def split: option.splits node.splits)

lemma wp_writeI:
  "(\<And>e k t. Q (Inl (Errno e)) (setData p (take k d) t (tickd s))) \<Longrightarrow>
   (\<And>t. Q (Inr ()) (setData p d t (tickd s))) \<Longrightarrow> wp (os_write p d) Q s"
  by (auto simp: wp_def os_write_def Let_def split: option.splits)

lemma wp_writeSomeI:
  "(\<And>e k t. Q (Inl (Errno e)) (setData p (take k d) t (tickd s))) \<Longrightarrow>
   (\<And>k t. Q (Inr ()) (setData p (take k d) t (tickd s))) \<Longrightarrow> wp (os_writeSome p d) Q s"
  by (auto simp: wp_def os_writeSome_def Let_def split: option.splits)

lemma wp_chmodI:
  "(\<And>e. Q (Inl (Errno e)) (tickd s)) \<Longrightarrow>
   (\<And>n. nodeAt s p = Some n \<Longrightarrow>
      Q (Inr ()) (putNode p (withInfo ((ninfo n)\<lparr>fi_perm := m\<rparr>) n) (tickd s))) \<Longrightarrow>
   wp (os_chmod p m) Q s"
  unfolding os_chmod_def by (rule wp_sysCallI) (auto split: option.splits)

lemma wp_renameI:
  assumes "old \<noteq> new" and "\<And>n. nodeAt s old = Some n \<Longrightarrow> \<not> isDirNode n"
    and "\<And>e. Q (Inl (Errno e)) (tickd s)"
    and "\<And>n. nodeAt s old = Some n \<Longrightarrow> Q (Inr ()) (putNode new n (delNode old (tickd s)))"
  shows "wp (os_rename old new) Q s"
  unfolding os_rename_def
  by (rule wp_sysCallI) (use assms in \<open>auto simp: moveNode_def split: option.splits node.splits\<close>)

lemma wp_renameNoReplaceI:
  assumes "\<And>n. nodeAt s old = Some n \<Longrightarrow> \<not> isDirNode n"
    and "\<And>e. Q (Inl (Errno e)) (tickd s)"
    and "\<And>n. nodeAt s old = Some n \<Longrightarrow> nodeAt s new = None \<Longrightarrow>
      Q (Inr ()) (putNode new n (delNode old (tickd s)))"
  shows "wp (renameNoReplace old new) Q s"
  unfolding renameNoReplace_def
  by (rule wp_sysCallI) (use assms in \<open>auto simp: moveNode_def split: option.splits node.splits\<close>)

lemma wp_exchangeI:
  assumes "\<And>m. nodeAt s a = Some m \<Longrightarrow> \<not> isDirNode m"
    and "\<And>n. nodeAt s b = Some n \<Longrightarrow> \<not> isDirNode n"
    and "\<And>e. Q (Inl (Errno e)) (tickd s)"
    and "\<And>m n. nodeAt s a = Some m \<Longrightarrow> nodeAt s b = Some n \<Longrightarrow>
      Q (Inr ()) (putNode a n (putNode b m (tickd s)))"
  shows "wp (exchangePaths a b) Q s"
  unfolding exchangePaths_def
  by (rule wp_sysCallI) (use assms in \<open>auto split: option.splits\<close>)

lemma wp_removeI:
  assumes "\<And>e. Q (Inl (Errno e)) (tickd s)" and "Q (Inr ()) (delNode p (tickd s))"
  shows "wp (os_remove p) Q s"
  unfolding os_remove_def
  by (rule wp_sysCallI) (use assms in \<open>auto split: option.splits if_splits\<close>)

lemma wp_syncDirectoryI:
  "(\<And>e. Q (Inl e) (tickd s)) \<Longrightarrow> (\<And>e. Q (Inl e) (tickd (tickd s))) \<Longrightarrow>
   Q (Inr ()) (tickd (tickd s)) \<Longrightarrow> wp (syncDirectory d) Q s"
  unfolding syncDirectory_def wp
  by (rule wp_openI) (auto simp: wp intro!: wp_nopI)

lemma mkdirs_spec:
  assumes "mkdirs e i perm ps s = (r, t)"
  shows "osEnv t = osEnv s \<and> os.more t = os.more s \<and>
    (\<forall>q. nodeAt t q = nodeAt s q \<or>
       (nodeAt s q = None \<and> q \<in> set ps \<and> (\<exists>f. nodeAt t q = Some (Directory f))))"
  using assms
proof (induction ps arbitrary: s)
  case (Cons p ps)
  show ?case
  proof (cases "nodeAt s p")
    case None
    let ?u = "putNode p (Directory (freshInfo e i perm)) s"
    have "mkdirs e i perm ps ?u = (r, t)" using Cons.prems None by simp
    note ih = Cons.IH [OF this]
    have "nodeAt t q = nodeAt s q \<or>
       (nodeAt s q = None \<and> q \<in> set (p # ps) \<and> (\<exists>f. nodeAt t q = Some (Directory f)))" for q
      using ih None by (cases "q = p") (auto split: if_splits)
    then show ?thesis using ih by simp
  next
    case (Some n)
    then show ?thesis using Cons by (cases n) auto
  qed
qed simp

lemma wp_mkdirAllI:
  assumes "\<And>r t. (\<And>q. nodeAt t q = nodeAt s q \<or>
      (nodeAt s q = None \<and> q \<in> set (ancestors p) \<and> (\<exists>f. nodeAt t q = Some (Directory f)))) \<Longrightarrow>
      osEnv t = osEnv s \<Longrightarrow> os.more t = os.more s \<Longrightarrow> Q r t"
  shows "wp (os_mkdirAll p perm) Q s"
  unfolding os_mkdirAll_def
proof (rule wp_sysCallI)
  show "Q (Inl (Errno e)) (tickd s)" for e by (rule assms) simp_all
next
  fix r t
  assume "mkdirs (osEnv (tickd s)) (osCalls s) perm (ancestors p) (tickd s) = (r, t)"
  from mkdirs_spec [OF this] show "Q r t" by (intro assms) auto
qed

lemma wp_readFileI:
  "(\<And>e. Q (Inl e) (tickd s)) \<Longrightarrow> (\<And>e. Q (Inl e) (tickd (tickd s))) \<Longrightarrow>
   (\<And>n. followNode 40 (osNodes s) p = Inr n \<Longrightarrow> Q (Inr (nodeData n)) (tickd (tickd s))) \<Longrightarrow>
   wp (os_readFile p) Q s"
  unfolding os_readFile_def wp
  by (rule wp_openI) (auto simp: wp intro!: wp_nopI)

section \<open>Atomic replacement\<close>

lemma tempName_inj [simp]: "tempName d a = tempName d b \<longleftrightarrow> a = b"
  by (simp add: tempName_def)

lemma clean_abs_last:
  assumes "isAbs p" "Clean p = p" "comps p \<noteq> []"
  shows "last p \<noteq> slash"
proof -
  obtain ds e where e: "comps p = ds @ [e]" using assms(3) by (cases "comps p" rule: rev_cases) auto
  then have "e \<noteq> []" "slash \<notin> set e" using isAbs_comps_proper [OF assms(1)] by (simp_all add: proper_def)
  moreover from this have "last e \<noteq> slash" by (metis last_in_set)
  ultimately show ?thesis
    using clean_abs_split [OF assms(1) e] assms(2) by (metis last_appendR last_ConsR list.distinct(1))
qed

lemma clean_abs_tempName:
  assumes "isAbs p" "Clean p = p" "comps p = cs @ [c]"
  shows "p = tempName (pathDir p) c" "pathBase p = c"
    "render True (cs @ [c]) = p" "comps (pathDir p) = cs" "isAbs (pathDir p)"
proof -
  note d = pathDir_Clean [OF assms(1,3), unfolded assms(2)]
  show "pathBase p = c" using pathBase_Clean [OF assms(1,3)] assms(2) by simp
  show cs: "comps (pathDir p) = cs" "isAbs (pathDir p)" using d by simp_all
  show "render True (cs @ [c]) = p" using Clean_eq [of p] assms by simp
  have dir: "pathDir p = slash # joinWith slash cs" using d Clean_abs [of "pathDir p"] by simp
  have last: "cs \<noteq> [] \<Longrightarrow> last (joinWith slash cs) \<noteq> slash"
  proof -
    assume "cs \<noteq> []"
    then obtain ds e where e: "cs = ds @ [e]" by (cases cs rule: rev_cases) auto
    then have "proper e" using isAbs_comps_proper [OF assms(1)] assms(3) by simp
    then have "e \<noteq> []" and "slash \<notin> set e" by (simp_all add: proper_def)
    moreover from this have "last e \<noteq> slash" by (metis last_in_set)
    ultimately have "e \<noteq> []" "last e \<noteq> slash" by simp_all
    then show ?thesis using e by (cases "ds = []") (auto simp: joinWith_append)
  qed
  have "cs \<noteq> [[]]" using isAbs_comps_proper [OF assms(1)] assms(3) by (auto simp: proper_def)
  then show "p = tempName (pathDir p) c"
    using clean_abs_split [OF assms(1,3)] assms(2) dir last
    by (cases "cs = []") (auto simp: tempName_def dirSlash_def)
qed

lemma tempName_clean:
  assumes "isAbs d" "Clean d = d" "proper y"
  shows "isAbs (tempName d y)" "Clean (tempName d y) = tempName d y"
    "comps (tempName d y) = comps d @ [y]" "pathDir (tempName d y) = d" "pathJoin [d, y] = tempName d y"
proof -
  have n: "normalComps True (comps d @ [y])"
    using normalCompsI [of "comps d @ [y]" True 0] isAbs_comps_proper [OF assms(1)] assms(3) by simp
  let ?p = "render True (comps d @ [y])"
  have p: "isAbs ?p" "Clean ?p = ?p" "comps ?p = comps d @ [y]"
    using isAbs_render [OF n] Clean_render [OF n] comps_render [OF n] by simp_all
  note t = clean_abs_tempName [OF p]
  have "Clean (pathDir ?p) = pathDir ?p" by (simp add: pathDir_def)
  then have d: "pathDir ?p = d" using t(4,5) assms(1,2) Clean_eq_iff [of "pathDir ?p" d] by simp
  then show "isAbs (tempName d y)" "Clean (tempName d y) = tempName d y"
    "comps (tempName d y) = comps d @ [y]" "pathDir (tempName d y) = d"
    using t(1) p by simp_all
  have ne: "d \<noteq> []" using assms(1) by auto
  then have "pathJoin [d, y] = Clean (d @ slash # y)" by (rule pathJoin2)
  moreover have "comps (d @ slash # y) = comps d @ [y]"
    using ne comps_join_descends [of d y] comps_proper [OF assms(3)] by simp
  ultimately have "pathJoin [d, y] = ?p" using assms(1) ne by (simp add: Clean_eq)
  then show "pathJoin [d, y] = tempName d y" using t(1) d by simp
qed

text \<open>\<open>os.CreateTemp\<close> and \<open>os.MkdirTemp\<close> put a decimal number in the place of the star.\<close>

definition digitNames :: "environ \<Rightarrow> bool" where
  "digitNames e \<longleftrightarrow> (\<forall>i. envName e i \<noteq> [] \<and> set (envName e i) \<subseteq> set ''0123456789'')"

lemma digitNames_proper:
  assumes "digitNames e" "slash \<notin> set pfx" "length pfx > 1"
  shows "proper (pfx @ envName e i)"
proof -
  have n: "set (envName e i) \<subseteq> set ''0123456789''" "envName e i \<noteq> []"
    using assms(1) by (auto simp: digitNames_def)
  then have "slash \<notin> set (pfx @ envName e i)" using assms(2) by auto
  moreover have "length (envName e i) > 0" using n(2) by simp
  then have "length (pfx @ envName e i) > 2" using assms(3) unfolding length_append by linarith
  then have "pfx @ envName e i \<notin> {[], ''.'', ''..''}" by (metis empty_iff insert_iff length_Cons
        list.size(3) less_Suc_eq not_less_zero numeral_2_eq_2)
  ultimately show ?thesis by (simp add: proper_def)
qed

text \<open>An entry of a directory is not below another new entry of it.\<close>

lemma not_below_sibling:
  assumes "isAbs p" "Clean p = p" "comps p = cs @ [c]" "y \<noteq> []"
  shows "\<not> below (tempName (pathDir p) y) p"
proof
  assume b: "below (tempName (pathDir p) y) p"
  have p: "p = tempName (pathDir p) c" by (rule clean_abs_tempName(1) [OF assms(1-3)])
  have "prefix (dirSlash (tempName (pathDir p) y)) (tempName (pathDir p) c)" using b p by (simp add: below_def)
  moreover have "dirSlash (tempName (pathDir p) y) = tempName (pathDir p) (dirSlash y)"
    using assms(4) by (simp add: dirSlash_def tempName_def)
  ultimately have "prefix (dirSlash y) c" by (simp add: tempName_def)
  moreover have "slash \<in> set (dirSlash y)" using last_in_set [OF assms(4)] by (cases "last y = slash") (auto simp: dirSlash_def)
  ultimately have "slash \<in> set c" using set_mono_prefix by blast
  then show False using isAbs_comps_proper [OF assms(1)] assms(3) by (simp add: proper_def)
qed

lemma not_own_ancestor:
  assumes "isAbs p" "Clean p = p" "comps p = cs @ [c]"
  shows "p \<notin> set (ancestors (pathDir p))"
proof
  assume "p \<in> set (ancestors (pathDir p))"
  then obtain ds where ds: "p = render True ds" "prefix ds cs"
    using clean_abs_tempName [OF assms] by (auto simp: ancestors_def)
  then have "list_all proper ds"
    using isAbs_comps_proper [OF assms(1)] assms(3) by (auto simp: prefix_def)
  then have "normalComps True ds" using normalCompsI [of ds True 0] by simp
  then have "comps p = ds" using ds(1) by simp
  then show False using ds(2) assms(3) by (auto simp: prefix_def)
qed

text \<open>Two states whose trees agree outside a set of paths and that agree on everything else.\<close>

definition sameExcept :: "string set \<Rightarrow> 'z os_scheme \<Rightarrow> 'z os_scheme \<Rightarrow> bool" where
  "sameExcept X s t \<longleftrightarrow>
     osEnv t = osEnv s \<and> os.more t = os.more s \<and> (\<forall>p. p \<notin> X \<longrightarrow> nodeAt t p = nodeAt s p)"

lemma sameExcept_refl [simp]: "sameExcept X s s"
  by (simp add: sameExcept_def)

lemma sameExcept_simps [simp]:
  "sameExcept X s (tickd t) = sameExcept X s t"
  "p \<in> X \<Longrightarrow> sameExcept X s (putNode p n t) = sameExcept X s t"
  "p \<in> X \<Longrightarrow> sameExcept X s (delNode p t) = sameExcept X s t"
  "p \<in> X \<Longrightarrow> sameExcept X s (setData p d i t) = sameExcept X s t"
  by (auto simp: sameExcept_def)

lemma sameExcept_nodeAt: "sameExcept X s t \<Longrightarrow> p \<notin> X \<Longrightarrow> nodeAt t p = nodeAt s p"
  by (simp add: sameExcept_def)

lemma sameExcept_trans: "sameExcept X s t \<Longrightarrow> sameExcept Y t u \<Longrightarrow> sameExcept (X \<union> Y) s u"
  by (simp add: sameExcept_def)

lemma sameExcept_mono: "sameExcept X s t \<Longrightarrow> X \<subseteq> Y \<Longrightarrow> sameExcept Y s t"
  by (auto simp: sameExcept_def)

text \<open>What an atomic write of one file may do to the tree.\<close>

definition holdsFile :: "'z os_scheme \<Rightarrow> string \<Rightarrow> bytes \<Rightarrow> u32 \<Rightarrow> bool" where
  "holdsFile s p d m \<longleftrightarrow> (\<exists>i. nodeAt s p = Some (Regular i d) \<and> fi_perm i = m)"

text \<open>The paths that a durable write of \<open>path\<close> may create besides \<open>path\<close> itself.\<close>

definition scratchPaths :: "string \<Rightarrow> string \<Rightarrow> string set" where
  "scratchPaths path pfx =
     set (ancestors (pathDir path)) \<union> {q. \<exists>x. q = tempName (pathDir path) (pfx @ x)}"

definition onlyCreates :: "string set \<Rightarrow> string set \<Rightarrow> 'z os_scheme \<Rightarrow> 'z os_scheme \<Rightarrow> bool" where
  "onlyCreates X C s t \<longleftrightarrow>
     osEnv t = osEnv s \<and> os.more t = os.more s \<and>
     (\<forall>q. q \<notin> X \<longrightarrow> nodeAt t q = nodeAt s q \<or> (nodeAt s q = None \<and> q \<in> C))"

lemma onlyCreates_refl [simp]: "onlyCreates X C s s"
  by (simp add: onlyCreates_def)

lemma onlyCreates_tickd [simp]: "onlyCreates X C s (tickd t) = onlyCreates X C s t"
  by (simp add: onlyCreates_def)

lemma onlyCreates_trans:
  "onlyCreates X C s t \<Longrightarrow> onlyCreates Y D t u \<Longrightarrow> onlyCreates (X \<union> Y) (C \<union> D) s u"
  by (simp add: onlyCreates_def) (metis Un_iff)

lemma onlyCreates_mono: "onlyCreates X C s t \<Longrightarrow> X \<subseteq> Y \<Longrightarrow> C \<subseteq> D \<Longrightarrow> onlyCreates Y D s t"
  by (auto simp: onlyCreates_def)

lemma onlyCreates_nodeAt: "onlyCreates X C s t \<Longrightarrow> p \<notin> X \<Longrightarrow> p \<notin> C \<Longrightarrow> nodeAt t p = nodeAt s p"
  by (auto simp: onlyCreates_def)

lemma onlyCreates_keeps: "onlyCreates X C s t \<Longrightarrow> p \<notin> X \<Longrightarrow> nodeAt s p = Some n \<Longrightarrow> nodeAt t p = Some n"
  by (auto simp: onlyCreates_def)

lemma onlyCreates_more: "onlyCreates X C s t \<Longrightarrow> os.more t = os.more s"
  by (simp add: onlyCreates_def)

lemma onlyCreates_extend:
  assumes "onlyCreates X C s t" and "sameExcept ({q} \<union> Y) t v" and "nodeAt s q = None" and "q \<in> C"
  shows "onlyCreates (X \<union> Y) C s v"
  using assms by (auto simp: onlyCreates_def sameExcept_def) metis+

definition atomicWrite ::
  "string \<Rightarrow> bytes \<Rightarrow> u32 \<Rightarrow> 'z os_scheme \<Rightarrow> unit res \<Rightarrow> 'z os_scheme \<Rightarrow> bool" where
  "atomicWrite path data mode s r t \<longleftrightarrow>
     (nodeAt t path = nodeAt s path \<or> holdsFile t path data mode) \<and>
     (r = Inr () \<longrightarrow> holdsFile t path data mode) \<and>
     onlyCreates {path} (scratchPaths path ''.passfs-config-'') s t"

lemma atomicReplace_body:
  assumes "q \<noteq> path" and "nodeAt u q = Some (Regular i d0)" and "sameExcept {q} s u"
  shows "wp (andThen (os_chmod q mode) (\<lambda>_. andThen (os_write q data) (\<lambda>_.
      andThen os_nop (\<lambda>_. andThen os_nop (\<lambda>_. andThen (os_rename q path) (\<lambda>_.
      syncDirectory dir))))))
    (\<lambda>r. wp (os_remove q) (\<lambda>_ t. sameExcept {q, path} s t \<and>
       (nodeAt t path = nodeAt s path \<or> holdsFile t path data mode) \<and>
       (r = Inr () \<longrightarrow> holdsFile t path data mode))) u"
proof -
  have path: "nodeAt u path = nodeAt s path" using assms(1,3) by (simp add: sameExcept_def)
  have same: "sameExcept {q, path} s u" using assms(3) by (rule sameExcept_mono) simp
  show ?thesis
    unfolding wp
    using assms(1,2) path same
    by (auto intro!: wp_chmodI wp_writeI wp_nopI wp_renameI wp_syncDirectoryI wp_removeI
        simp: wp holdsFile_def)
qed

lemma WriteFileAtomic_wp:
  assumes p: "isAbs path" "Clean path = path" "comps path = cs @ [c]"
    and base: "\<not> prefix ''.passfs-config-'' c"
  shows "wp (WriteFileAtomic path data mode) (atomicWrite path data mode s) s"
proof -
  have own: "path \<notin> set (ancestors (pathDir path))" by (rule not_own_ancestor [OF p])
  have ne: "tempName (pathDir path) (''.passfs-config-'' @ x) \<noteq> path" for x
    using base clean_abs_tempName(1) [OF p]
      tempName_inj [of "pathDir path" "''.passfs-config-'' @ x" c] by auto
  show ?thesis
    unfolding WriteFileAtomic_def Let_def wp_andThen
  proof (rule wp_mkdirAllI, goal_cases)
    case (1 r1 t1)
    note t1 = 1
    have p1: "nodeAt t1 path = nodeAt s path" using t1(1) [of path] own by auto
    have only: "onlyCreates {} (scratchPaths path ''.passfs-config-'') s t1"
      using t1 by (auto simp: onlyCreates_def scratchPaths_def)
    have fail: "atomicWrite path data mode s (Inl e) t2" if "sameExcept {} t1 t2" for e t2
      using that only p1 by (auto simp: atomicWrite_def onlyCreates_def sameExcept_def)
    show ?case
    proof (cases r1)
      case (Inl e)
      then show ?thesis using fail by simp
    next
      case (Inr u)
      show ?thesis
        unfolding Inr sum.case
      proof (rule wp_createTempI, goal_cases)
        case (1 e)
        show ?case using fail by simp
      next
        case (2 x i q)
        have q: "q \<noteq> path" unfolding 2(1) by (rule ne)
        have sq: "nodeAt s q = None" using t1(1) [of q] 2(2) by auto
        have qs: "q \<in> scratchPaths path ''.passfs-config-''" using 2(1) by (auto simp: scratchPaths_def)
        show ?case
          unfolding sum.case wp_deferring
        proof (rule wp_mono [OF atomicReplace_body [where s = t1 and i = i and ?d0.0 = "[]"]], goal_cases)
          case (4 r t)
          then show ?case
          proof (rule wp_mono)
            fix a v
            assume v: "sameExcept {q, path} t1 v \<and>
               (nodeAt v path = nodeAt t1 path \<or> holdsFile v path data mode) \<and>
               (r = Inr () \<longrightarrow> holdsFile v path data mode)"
            then have "onlyCreates {path} (scratchPaths path ''.passfs-config-'') s v"
              using onlyCreates_extend [OF only _ sq qs, of "{path}" v] by (simp add: insert_commute)
            then show "atomicWrite path data mode s r v"
              using v p1 by (simp add: atomicWrite_def)
          qed
        qed (use q in auto)
      qed
    qed
  qed
qed

end
