(* ===== verification/Symlink.thy ===== *)
theory Symlink
  imports Os
begin

text \<open>
  The project-side symbolic links (symlink.go, and \<open>inspectProtectedLink\<close> and
  \<open>replaceProtectedLink\<close> of links.go): inspecting a link, installing one atomically in place of
  another entry, and retiring one. The theorems say that under every schedule of system-call
  failures an entry that is not the expected link is never deleted.
\<close>

section \<open>Definitions\<close>

record protectedLink =
  plExists :: bool
  plIsSymlink :: bool
  plTarget :: string

definition noLink :: protectedLink where
  "noLink = \<lparr>plExists = False, plIsSymlink = False, plTarget = []\<rparr>"

definition linkTargetOf :: "string \<Rightarrow> string \<Rightarrow> string" where
  "linkTargetOf sourcePath t = Clean (if isAbs t then t else pathJoin [pathDir sourcePath, t])"

definition inspectProtectedLink :: "string \<Rightarrow> ('z os_scheme, protectedLink res) state" where
  "inspectProtectedLink sourcePath = do {
     r \<leftarrow> os_lstat sourcePath;
     (case r of
        Inl e \<Rightarrow> ret (if errorsIs e ErrNotExist then Inr noLink else Inl e)
      | Inr n \<Rightarrow>
          if \<not> isLinkNode n then ret (Inr (noLink\<lparr>plExists := True\<rparr>))
          else do {
            l \<leftarrow> os_readlink sourcePath;
            ret (case l of
               Inl e \<Rightarrow> if errorsIs e ErrNotExist then Inr noLink else Inl e
             | Inr t \<Rightarrow>
                 Inr \<lparr>plExists = True, plIsSymlink = True, plTarget = linkTargetOf sourcePath t\<rparr>) }) }"

text \<open>
  \<open>exchangePathWithSymlink\<close>: the first component says whether the link is installed. The body
  also reports the \<open>cleanup\<close> variable that the deferred function reads.
\<close>

definition exchangeRollback ::
  "string \<Rightarrow> string \<Rightarrow> goerr \<Rightarrow> ('z os_scheme, bool \<times> bool \<times> unit res) state" where
  "exchangeRollback temporaryPath path cause = do {
     r \<leftarrow> exchangePaths temporaryPath path;
     (case r of
        Inr _ \<Rightarrow> do {
          y \<leftarrow> syncDirectory (pathDir path);
          ret (True, False, resOf (errorsJoin [Some cause, errOf y])) }
      | Inl e \<Rightarrow>
          ret (False, True, resOf (errorsJoin
            [Some cause, Some (Wrap ''rollback protected link'' e),
             Some (Msg ''the displaced source entry was preserved'')]))) }"

definition exchangeBody ::
  "string \<Rightarrow> string \<Rightarrow> (string \<Rightarrow> ('z os_scheme, unit res) state) \<Rightarrow> string \<Rightarrow>
   ('z os_scheme, bool \<times> bool \<times> unit res) state" where
  "exchangeBody path target validateDisplaced temporaryDirectory =
     (let temporaryPath = pathJoin [temporaryDirectory, ''link'']; parent = pathDir path in do {
       a \<leftarrow> os_symlink target temporaryPath;
       (case a of
          Inl e \<Rightarrow> ret (True, False, Inl (Wrap ''create protected link'' e))
        | Inr _ \<Rightarrow> do {
          b \<leftarrow> exchangePaths temporaryPath path;
          (case b of
             Inl e \<Rightarrow> ret (True, False, Inl (Wrap ''atomically install protected link'' e))
           | Inr _ \<Rightarrow> do {
             v \<leftarrow> validateDisplaced temporaryPath;
             (case v of
                Inl e \<Rightarrow> exchangeRollback temporaryPath path e
              | Inr _ \<Rightarrow> do {
                c \<leftarrow> os_remove temporaryPath;
                (case c of
                   Inl e \<Rightarrow> exchangeRollback temporaryPath path (Wrap ''remove displaced entry'' e)
                 | Inr _ \<Rightarrow> do {
                   d \<leftarrow> syncDirectory temporaryDirectory;
                   (case d of
                      Inl e \<Rightarrow> ret (True, True, Inl (Wrap ''sync displaced entry removal'' e))
                    | Inr _ \<Rightarrow> do {
                      f \<leftarrow> os_remove temporaryDirectory;
                      (case f of
                         Inl e \<Rightarrow> ret (True, True, Inl (Wrap ''remove protected link staging directory'' e))
                       | Inr _ \<Rightarrow> do {
                         g \<leftarrow> syncDirectory parent;
                         ret (False, True, wrapErr ''sync protected link'' g) }) }) }) }) }) }) })"

definition exchangePathWithSymlink ::
  "string \<Rightarrow> string \<Rightarrow> (string \<Rightarrow> ('z os_scheme, unit res) state) \<Rightarrow>
   ('z os_scheme, bool \<times> unit res) state" where
  "exchangePathWithSymlink path target validateDisplaced = do {
     t \<leftarrow> os_mkdirTemp (pathDir path) ''.passfs-link-'';
     (case t of
        Inl e \<Rightarrow> ret (False, Inl (Wrap ''create protected link directory'' e))
      | Inr temporaryDirectory \<Rightarrow> do {
          (cleanup, installed, result) \<leftarrow> exchangeBody path target validateDisplaced temporaryDirectory;
          (if cleanup
           then do { _ \<leftarrow> os_removeAll temporaryDirectory; ret (installed, result) }
           else ret (installed, result)) }) }"

definition expectLink :: "string \<Rightarrow> string \<Rightarrow> ('z os_scheme, unit res) state" where
  "expectLink expectedTarget displacedPath =
     andThen (inspectProtectedLink displacedPath) (\<lambda>link.
       ret (if \<not> plIsSymlink link \<or> plTarget link \<noteq> Clean expectedTarget
            then Inl (Msg ''protected link changed while its target was being updated'')
            else Inr ()))"

definition replaceProtectedLink :: "string \<Rightarrow> string \<Rightarrow> string \<Rightarrow> ('z os_scheme, unit res) state" where
  "replaceProtectedLink sourcePath targetPath expectedTarget = do {
     (_, r) \<leftarrow> exchangePathWithSymlink sourcePath targetPath (expectLink expectedTarget);
     ret r }"

text \<open>\<open>retireProtectedLink\<close>; the body again reports \<open>cleanup\<close>.\<close>

definition retireRestore ::
  "string \<Rightarrow> string \<Rightarrow> goerr \<Rightarrow> ('z os_scheme, bool \<times> unit res) state" where
  "retireRestore displaced path cause = do {
     r \<leftarrow> renameNoReplace displaced path;
     (case r of
        Inl e \<Rightarrow> ret (False, resOf (errorsJoin
          [Some cause, Some (Wrap ''restore concurrent replacement'' e),
           Some (Msg ''the displaced entry was preserved'')]))
      | Inr _ \<Rightarrow> do {
          y \<leftarrow> syncDirectory (pathDir path);
          ret (True, resOf (errorsJoin [Some cause, errOf y])) }) }"

definition retireBody ::
  "string \<Rightarrow> string \<Rightarrow> string \<Rightarrow> ('z os_scheme, bool \<times> unit res) state" where
  "retireBody path storage staging =
     (let displaced = pathJoin [staging, ''link'']; parent = pathDir path in do {
       a \<leftarrow> os_rename path displaced;
       (case a of
          Inl e \<Rightarrow> ret (True, Inl e)
        | Inr _ \<Rightarrow> do {
          l \<leftarrow> inspectProtectedLink displaced;
          (case l of
             Inl e \<Rightarrow> retireRestore displaced path e
           | Inr link \<Rightarrow>
               if \<not> plIsSymlink link \<or> \<not> targetMatchesStorage (plTarget link) storage
               then retireRestore displaced path (Msg ''moved entry is no longer the expected PassFS link'')
               else do {
                 b \<leftarrow> os_remove displaced;
                 (case b of
                    Inl e \<Rightarrow> retireRestore displaced path e
                  | Inr _ \<Rightarrow> do {
                    c \<leftarrow> os_remove staging;
                    (case c of
                       Inl e \<Rightarrow> ret (True, Inl e)
                     | Inr _ \<Rightarrow> do {
                       d \<leftarrow> syncDirectory parent;
                       ret (False, d) }) }) }) }) })"

definition retireProtectedLink :: "string \<Rightarrow> string \<Rightarrow> ('z os_scheme, unit res) state" where
  "retireProtectedLink path storage = do {
     t \<leftarrow> os_mkdirTemp (pathDir path) ''.passfs-retire-'';
     (case t of
        Inl e \<Rightarrow> ret (Inl e)
      | Inr staging \<Rightarrow> do {
          (cleanup, result) \<leftarrow> retireBody path storage staging;
          (if cleanup then do { _ \<leftarrow> os_removeAll staging; ret result } else ret result) }) }"

section \<open>No entry is lost\<close>

lemma wp_inspectI:
  assumes "\<And>e. Q (Inl e) (tickd s)" and "\<And>e. Q (Inl e) (tickd (tickd s))"
    and "\<And>l. \<not> plIsSymlink l \<Longrightarrow> Q (Inr l) (tickd s)"
    and "\<And>l. \<not> plIsSymlink l \<Longrightarrow> Q (Inr l) (tickd (tickd s))"
    and "\<And>i t. nodeAt s p = Some (Symlink i t) \<Longrightarrow>
      Q (Inr \<lparr>plExists = True, plIsSymlink = True, plTarget = linkTargetOf p t\<rparr>) (tickd (tickd s))"
  shows "wp (inspectProtectedLink p) Q s"
  unfolding inspectProtectedLink_def wp
  using assms
  by (auto intro!: wp_lstatI wp_readlinkI simp: wp noLink_def split: node.splits)

text \<open>The link that \<open>expectLink\<close> accepts.\<close>

definition isExpectedLink :: "string \<Rightarrow> string \<Rightarrow> node \<Rightarrow> bool" where
  "isExpectedLink path expected n \<longleftrightarrow>
     (\<exists>i t. n = Symlink i t \<and> linkTargetOf path t = Clean expected)"

lemma wp_expectLinkI:
  assumes "\<And>e. Q (Inl e) (tickd s)" and "\<And>e. Q (Inl e) (tickd (tickd s))"
    and "\<And>n. nodeAt s p = Some n \<Longrightarrow> isExpectedLink p expected n \<Longrightarrow> Q (Inr ()) (tickd (tickd s))"
  shows "wp (expectLink expected p) Q s"
  unfolding expectLink_def wp
  using assms by (auto intro!: wp_inspectI simp: wp isExpectedLink_def)

text \<open>
  The outcome of an exchange of the entry \<open>n\<close> at \<open>path\<close>: the old entry is back, or the new
  link is there and the old entry was either accepted or is kept in the staging directory.
\<close>

definition exchanged ::
  "string \<Rightarrow> string \<Rightarrow> string \<Rightarrow> (node \<Rightarrow> bool) \<Rightarrow> node \<Rightarrow> bool \<Rightarrow> 'z os_scheme \<Rightarrow> bool" where
  "exchanged path target tmp accept n installed t \<longleftrightarrow>
     (if installed
      then (\<exists>i. nodeAt t path = Some (Symlink i target)) \<and> (accept n \<or> nodeAt t tmp = Some n)
      else nodeAt t path = Some n)"

lemma exchanged_back: "nodeAt t path = Some n \<Longrightarrow> exchanged path target tmp accept n False t"
  by (simp add: exchanged_def)

lemma exchanged_new:
  "\<exists>i. nodeAt t path = Some (Symlink i target) \<Longrightarrow> accept n \<Longrightarrow> exchanged path target tmp accept n True t"
  by (simp add: exchanged_def)

lemma wp_exchangeRollbackI:
  assumes "nodeAt s path = Some (Symlink i target)" "nodeAt s tmp = Some n" "\<not> isDirNode n"
    and "tmp \<noteq> path" "sameExcept {path, tmp} s0 s"
  shows "wp (exchangeRollback tmp path cause)
    (\<lambda>(cleanup, installed, r) t. sameExcept {path, tmp} s0 t \<and> r \<noteq> Inr () \<and>
       (if cleanup then \<not> installed \<and> nodeAt t path = Some n
        else exchanged path target tmp (\<lambda>_. False) n installed t)) s"
  unfolding exchangeRollback_def wp
  by (rule wp_exchangeI)
    (use assms in \<open>auto intro!: wp_syncDirectoryI simp: wp exchanged_def resOf_def split: option.splits\<close>)

text \<open>
  The contract of the check that \<open>exchangePathWithSymlink\<close> runs on the displaced entry: it only
  looks, and when it succeeds the entry is one that it may accept.
\<close>

locale displaced_check =
  fixes validate :: "string \<Rightarrow> ('z os_scheme, unit res) state"
    and accept :: "string \<Rightarrow> node \<Rightarrow> bool"
  assumes looks: "run_state (validate q) u = (r, u') \<Longrightarrow> sameExcept {} u u'"
    and accepts: "run_state (validate q) u = (Inr (), u') \<Longrightarrow> nodeAt u q = Some n \<Longrightarrow> accept q n"
begin

lemma wp_validateI:
  assumes "nodeAt u q = Some n"
    and "\<And>e u'. sameExcept {} u u' \<Longrightarrow> Q (Inl e) u'"
    and "\<And>u'. sameExcept {} u u' \<Longrightarrow> accept q n \<Longrightarrow> Q (Inr ()) u'"
  shows "wp (validate q) Q u"
proof (rule wpI)
  fix a t assume run: "run_state (validate q) u = (a, t)"
  show "Q a t"
  proof (cases a)
    case (Inr x)
    then show ?thesis using run looks [OF run] accepts [of q u t n] assms by simp
  qed (use looks [OF run] assms(2) in simp)
qed

lemma exchangeBody_wp:
  fixes s :: "'z os_scheme"
  assumes n: "nodeAt s path = Some n" "\<not> isDirNode n" and d: "nodeAt s dir = Some (Directory j)"
    and tmp: "tmp = pathJoin [dir, ''link'']"
  shows "wp (exchangeBody path target validate dir)
    (\<lambda>(cleanup, installed, r) t. sameExcept {path, tmp, dir} s t \<and> (r = Inr () \<longrightarrow> installed) \<and>
       exchanged path target tmp (accept tmp) n installed t \<and>
       (cleanup \<longrightarrow> installed \<longrightarrow> accept tmp n)) s"
    (is "wp _ ?Q s")
  unfolding exchangeBody_def Let_def tmp [symmetric] wp
proof (rule wp_symlinkI, goal_cases)
  case (1 e)
  then show ?case using n by (simp add: exchanged_def wp)
next
  case (2 i)
  then have ne: "tmp \<noteq> path" "tmp \<noteq> dir" using n d by auto
  have dp: "dir \<noteq> path" using n d by auto
  have roll: "wp (exchangeRollback tmp path c) Q u"
    if "nodeAt u path = Some (Symlink i target)" "nodeAt u tmp = Some n" "sameExcept {path, tmp} s u"
      and "\<And>a t. ?Q a t \<Longrightarrow> Q a t" for c Q and u :: "'z os_scheme"
    using wp_exchangeRollbackI [OF that(1,2) n(2) ne(1) that(3), of c]
    by (rule wp_mono)
      (auto intro!: that(4) simp: exchanged_def split: if_splits elim: sameExcept_mono)
  show ?case
    using n ne ne [symmetric] dp dp [symmetric]
    by (auto intro!: wp_exchangeI wp_validateI [where n = n] wp_removeI wp_syncDirectoryI roll exchanged_back
        exchanged_new simp: wp wrapErr_def sameExcept_def)
qed

text \<open>
  For every schedule of failures an exchange leaves at \<open>path\<close> the entry that was there or the new
  link, the old entry disappears only if the check accepted it, and nothing else changes but the
  scratch directory.
\<close>

lemma exchange_wp:
  assumes p: "isAbs path" "Clean path = path" "comps path = cs @ [c]"
    and n: "nodeAt s path = Some n" "\<not> isDirNode n"
  shows "wp (exchangePathWithSymlink path target validate)
    (\<lambda>(installed, r) t. \<exists>dir tmp. dir = tempName (pathDir path) (''.passfs-link-'' @ envName (osEnv s) (osCalls s)) \<and>
       tmp = pathJoin [dir, ''link''] \<and> osEnv t = osEnv s \<and> os.more t = os.more s \<and> (r = Inr () \<longrightarrow> installed) \<and>
       exchanged path target tmp (accept tmp) n installed t \<and>
       (\<forall>q. q \<noteq> path \<longrightarrow> q \<noteq> tmp \<longrightarrow> q \<noteq> dir \<longrightarrow> \<not> below dir q \<longrightarrow> nodeAt t q = nodeAt s q)) s"
  unfolding exchangePathWithSymlink_def wp
proof (rule wp_mkdirTempI, goal_cases)
  case (1 e)
  then show ?case using n by (simp add: wp exchanged_def)
next
  case (2 x i dir)
  have nb: "\<not> below dir path" unfolding 2(1) by (rule not_below_sibling [OF p]) simp
  have dp: "dir \<noteq> path" using 2(2) n by auto
  define tmp where "tmp = pathJoin [dir, ''link'']"
  show ?case
    unfolding sum.case wp
  proof (rule wp_mono [OF exchangeBody_wp [where n = n and j = i and tmp = tmp]], goal_cases)
    case (5 a t)
    then show ?case
      using nb dp 2(1,3)
      by (auto intro!: wp_removeAllI exI [of _ tmp] simp: wp exchanged_def sameExcept_def tmp_def split: prod.splits if_splits)
  qed (use n dp in \<open>auto simp: tmp_def\<close>)
qed

end

text \<open>The check of \<open>replaceProtectedLink\<close> accepts the expected link only.\<close>

interpretation expected_link: displaced_check "expectLink expected" "\<lambda>q. isExpectedLink q expected"
proof
  fix q u r u'
  assume run: "run_state (expectLink expected q) u = (r, u')"
  show "sameExcept {} u u'" by (rule wpD [OF _ run], rule wp_expectLinkI) simp_all
next
  fix q u u' n
  assume run: "run_state (expectLink expected q) u = (Inr (), u')" and n: "nodeAt u q = Some n"
  have "wp (expectLink expected q) (\<lambda>r _. r = Inr () \<longrightarrow> isExpectedLink q expected n) u"
    by (rule wp_expectLinkI) (use n in simp_all)
  from wpD [OF this run] show "isExpectedLink q expected n" by simp
qed

lemma replaceProtectedLink_wp:
  assumes p: "isAbs path" "Clean path = path" "comps path = cs @ [c]"
    and n: "nodeAt s path = Some n" "\<not> isDirNode n"
  shows "wp (replaceProtectedLink path target expected)
    (\<lambda>r t. (r = Inr () \<longrightarrow> (\<exists>i. nodeAt t path = Some (Symlink i target))) \<and>
       (\<exists>tmp. nodeAt t path = Some n \<or>
         ((\<exists>i. nodeAt t path = Some (Symlink i target)) \<and>
          (isExpectedLink tmp expected n \<or> nodeAt t tmp = Some n)))) s"
  unfolding replaceProtectedLink_def wp
  by (rule wp_mono [OF expected_link.exchange_wp [OF assms]])
    (auto simp: wp exchanged_def split: prod.splits if_splits)

text \<open>The link that \<open>retireProtectedLink\<close> may delete.\<close>

definition isStorageLink :: "string \<Rightarrow> string \<Rightarrow> node \<Rightarrow> bool" where
  "isStorageLink path storage n \<longleftrightarrow>
     (\<exists>i t. n = Symlink i t \<and> targetMatchesStorage (linkTargetOf path t) storage)"

lemma wp_retireRestoreI:
  assumes "nodeAt s displaced = Some n" "\<not> isDirNode n" "displaced \<noteq> path"
    and "\<And>r t. r \<noteq> Inr () \<Longrightarrow> nodeAt t path = Some n \<Longrightarrow> Q (True, r) t"
    and "\<And>r t. r \<noteq> Inr () \<Longrightarrow> nodeAt t displaced = Some n \<Longrightarrow> Q (False, r) t"
  shows "wp (retireRestore displaced path cause) Q s"
  unfolding retireRestore_def wp
  by (rule wp_renameNoReplaceI)
    (use assms in \<open>auto intro!: wp_syncDirectoryI simp: wp resOf_def split: option.splits\<close>)

definition retired :: "string \<Rightarrow> string \<Rightarrow> string \<Rightarrow> node \<Rightarrow> bool \<Rightarrow> unit res \<Rightarrow> 'z os_scheme \<Rightarrow> bool" where
  "retired path displaced storage n cleanup r t \<longleftrightarrow>
     (r = Inr () \<longrightarrow> isStorageLink displaced storage n) \<and>
     (nodeAt t path = Some n \<or> isStorageLink displaced storage n \<or>
      \<not> cleanup \<and> nodeAt t displaced = Some n)"

lemma retireBody_wp:
  assumes n: "nodeAt s path = Some n" "\<not> isDirNode n" and ne: "displaced \<noteq> path"
    and d: "displaced = pathJoin [staging, ''link'']"
  shows "wp (retireBody path storage staging)
    (\<lambda>(cleanup, r). retired path displaced storage n cleanup r) s"
  unfolding retireBody_def Let_def d [symmetric] wp
  using n ne ne [symmetric]
  by (auto intro!: wp_renameI wp_inspectI wp_retireRestoreI [where n = n] wp_removeI wp_syncDirectoryI
      simp: wp retired_def isStorageLink_def)

lemma retireProtectedLink_wp:
  assumes p: "isAbs path" "Clean path = path" "comps path = cs @ [c]"
    and n: "nodeAt s path = Some n" "\<not> isDirNode n"
    and names: "\<forall>i. slash \<notin> set (envName (osEnv s) i)"
  shows "wp (retireProtectedLink path storage)
    (\<lambda>r t. \<exists>displaced. (r = Inr () \<longrightarrow> isStorageLink displaced storage n) \<and>
       (nodeAt t path = Some n \<or> isStorageLink displaced storage n \<or> nodeAt t displaced = Some n)) s"
  unfolding retireProtectedLink_def wp
proof (rule wp_mkdirTempI, goal_cases)
  case (1 e)
  then show ?case using n by (auto simp: wp)
next
  case (2 x i staging)
  have nb: "\<not> below staging path" unfolding 2(1) by (rule not_below_sibling [OF p]) simp
  have dp: "staging \<noteq> path" using 2(2) n by auto
  define displaced where "displaced = pathJoin [staging, ''link'']"
  have pr: "proper (''.passfs-retire-'' @ x)" using 2(3) names by (auto simp: proper_def)
  have dir: "isAbs (pathDir path)" "Clean (pathDir path) = pathDir path" "comps (pathDir path) = cs"
    using clean_abs_tempName [OF p] by (simp_all add: pathDir_def)
  note st = tempName_clean [OF dir(1,2) pr, folded 2(1)]
  have "comps displaced = cs @ [''.passfs-retire-'' @ x, ''link'']"
    using tempName_clean [OF st(1,2), of "''link''"] st(3) dir(3) by (simp add: displaced_def proper_def)
  then have ne: "displaced \<noteq> path" using p(3) by auto
  show ?case
    unfolding sum.case wp
  proof (rule wp_mono [OF retireBody_wp [where n = n and displaced = displaced]], goal_cases)
    case (5 a t)
    then show ?case
      using nb dp
      by (auto intro!: wp_removeAllI exI [of _ displaced] simp: wp retired_def split: prod.splits)
  qed (use n dp ne in \<open>auto simp: displaced_def\<close>)
qed

end
