(* ===== verification/Json.thy ===== *)
theory Json
  imports ObjectId
begin

text \<open>
  The fragment of Go's \<open>encoding/json\<close> that passfs relies on: \<open>json.MarshalIndent\<close> with two
  spaces of indentation (config.go \<open>WriteJSONFileAtomic\<close>) and \<open>json.Unmarshal\<close> behind the size
  bound of \<open>decodeBoundedJSON\<close>. Strings are byte strings; the printer replaces invalid UTF-8
  by the replacement character, as Go does, so the round trip is proved for valid UTF-8.
\<close>

section \<open>UTF-8\<close>

definition code :: "char \<Rightarrow> nat" where
  "code c = of_char c"

definition cont :: "nat \<Rightarrow> nat \<Rightarrow> char \<Rightarrow> bool" where
  "cont lo hi c \<longleftrightarrow> lo \<le> code c \<and> code c \<le> hi"

text \<open>The length of the valid encoding at the head of a string, 0 when there is none.\<close>

fun runeLen :: "string \<Rightarrow> nat" where
  "runeLen [] = 0"
| "runeLen (a # r) =
     (let x = code a in
      if x < 0x80 then 1
      else if 0xC2 \<le> x \<and> x \<le> 0xDF then
        (case r of b # _ \<Rightarrow> if cont 0x80 0xBF b then 2 else 0 | _ \<Rightarrow> 0)
      else if 0xE0 \<le> x \<and> x \<le> 0xEF then
        (case r of
           b # c # _ \<Rightarrow>
             if cont (if x = 0xE0 then 0xA0 else 0x80) (if x = 0xED then 0x9F else 0xBF) b \<and>
                cont 0x80 0xBF c then 3 else 0
         | _ \<Rightarrow> 0)
      else if 0xF0 \<le> x \<and> x \<le> 0xF4 then
        (case r of
           b # c # d # _ \<Rightarrow>
             if cont (if x = 0xF0 then 0x90 else 0x80) (if x = 0xF4 then 0x8F else 0xBF) b \<and>
                cont 0x80 0xBF c \<and> cont 0x80 0xBF d then 4 else 0
         | _ \<Rightarrow> 0)
      else 0)"

declare runeLen.simps [simp del]

function validUtf8 :: "string \<Rightarrow> bool" where
  "validUtf8 s =
     (if s = [] then True else if runeLen s = 0 then False else validUtf8 (drop (runeLen s) s))"
  by pat_completeness auto
termination by (relation "measure length") auto

declare validUtf8.simps [simp del]

definition chars :: "nat list \<Rightarrow> string" where
  "chars = map char_of"

definition encodeRune :: "nat \<Rightarrow> string" where
  "encodeRune r =
     (if r < 0x80 then chars [r]
      else if r < 0x800 then chars [0xC0 + r div 64, 0x80 + r mod 64]
      else if r < 0x10000 then chars [0xE0 + r div 4096, 0x80 + r div 64 mod 64, 0x80 + r mod 64]
      else chars [0xF0 + r div 262144, 0x80 + r div 4096 mod 64, 0x80 + r div 64 mod 64, 0x80 + r mod 64])"

definition replacementChar :: string where
  "replacementChar = chars [0xEF, 0xBF, 0xBD]"

section \<open>Printing\<close>

abbreviation quoteC :: char where "quoteC \<equiv> CHR 0x22"
abbreviation backslash :: char where "backslash \<equiv> CHR 0x5C"
abbreviation newline :: char where "newline \<equiv> CHR 0x0A"

definition hex4 :: "nat \<Rightarrow> string" where
  "hex4 r = backslash # CHR ''u'' #
     [hexDigit (r div 4096 mod 16), hexDigit (r div 256 mod 16), hexDigit (r div 16 mod 16), hexDigit (r mod 16)]"

text \<open>The HTML-escaping table \<open>htmlSafeSet\<close> and the escapes of \<open>appendString\<close>.\<close>

definition escapeAscii :: "char \<Rightarrow> string" where
  "escapeAscii c =
     (if c = quoteC \<or> c = backslash then [backslash, c]
      else if code c = 0x08 then [backslash, CHR ''b'']
      else if code c = 0x0C then [backslash, CHR ''f'']
      else if code c = 0x0A then [backslash, CHR ''n'']
      else if code c = 0x0D then [backslash, CHR ''r'']
      else if code c = 0x09 then [backslash, CHR ''t'']
      else if code c < 0x20 \<or> c = CHR ''<'' \<or> c = CHR ''>'' \<or> c = CHR ''&'' then hex4 (code c)
      else [c])"

function appendString :: "string \<Rightarrow> string" where
  "appendString s =
     (case s of
        [] \<Rightarrow> []
      | c # r \<Rightarrow>
          if code c < 0x80 then escapeAscii c @ appendString r
          else if runeLen s = 0 then hex4 0xFFFD @ appendString r
          else if take (runeLen s) s = encodeRune 0x2028 then hex4 0x2028 @ appendString (drop (runeLen s) s)
          else if take (runeLen s) s = encodeRune 0x2029 then hex4 0x2029 @ appendString (drop (runeLen s) s)
          else take (runeLen s) s @ appendString (drop (runeLen s) s))"
  by pat_completeness auto
termination by (relation "measure length") auto

declare appendString.simps [simp del]

definition quoteString :: "string \<Rightarrow> string" where
  "quoteString s = quoteC # appendString s @ [quoteC]"

definition digitChar :: "nat \<Rightarrow> char" where
  "digitChar n = char_of (48 + n)"

fun showNat :: "nat \<Rightarrow> string" where
  "showNat n = (if n < 10 then [digitChar n] else showNat (n div 10) @ [digitChar (n mod 10)])"

declare showNat.simps [simp del]

definition showInt :: "int \<Rightarrow> string" where
  "showInt i = (if i < 0 then CHR ''-'' # showNat (nat (- i)) else showNat (nat i))"

text \<open>A JSON value; a number is kept as the literal that the document has.\<close>

datatype json = JNull | JBool bool | JNum string | JStr string | JArr "json list"
  | JObj "(string \<times> json) list"

definition indentation :: "nat \<Rightarrow> string" where
  "indentation d = replicate (2 * d) (CHR '' '')"

fun separate :: "string \<Rightarrow> string list \<Rightarrow> string" where
  "separate sep [] = []"
| "separate sep [x] = x"
| "separate sep (x # y # ys) = x @ sep @ separate sep (y # ys)"

text \<open>\<open>json.MarshalIndent(value, "", "  ")\<close>, with the nesting depth as an argument.\<close>

fun printJson :: "nat \<Rightarrow> json \<Rightarrow> string" where
  "printJson d JNull = ''null''"
| "printJson d (JBool b) = (if b then ''true'' else ''false'')"
| "printJson d (JNum n) = n"
| "printJson d (JStr s) = quoteString s"
| "printJson d (JArr []) = ''[]''"
| "printJson d (JArr (v # vs)) =
     CHR ''['' # newline #
     separate [CHR '','', newline]
       (map (\<lambda>v. indentation (Suc d) @ printJson (Suc d) v) (v # vs)) @
     newline # indentation d @ '']''"
| "printJson d (JObj []) = ''{}''"
| "printJson d (JObj (m # ms)) =
     CHR ''{'' # newline #
     separate [CHR '','', newline]
       (map (\<lambda>(k, v). indentation (Suc d) @ quoteString k @ '': '' @ printJson (Suc d) v) (m # ms)) @
     newline # indentation d @ ''}''"

section \<open>Parsing\<close>

definition isWs :: "char \<Rightarrow> bool" where
  "isWs c \<longleftrightarrow> code c \<in> {0x20, 0x09, 0x0A, 0x0D}"

abbreviation skipWs :: "string \<Rightarrow> string" where
  "skipWs \<equiv> dropWhile isWs"

fun getu4 :: "string \<Rightarrow> (nat \<times> string) option" where
  "getu4 (a # b # c # d # r) =
     (case (hexVal a, hexVal b, hexVal c, hexVal d) of
        (Some w, Some x, Some y, Some z) \<Rightarrow> Some (4096 * w + 256 * x + 16 * y + z, r)
      | _ \<Rightarrow> None)"
| "getu4 _ = None"

text \<open>The part of \<open>unquote\<close> after a backslash: an escape, with surrogate pairs joined.\<close>

definition unescapeU :: "nat \<Rightarrow> string \<Rightarrow> string \<times> string" where
  "unescapeU rr r =
     (if 0xD800 \<le> rr \<and> rr < 0xE000 then
        (case r of
           b # u # r2 \<Rightarrow>
             if b = backslash \<and> u = CHR ''u'' then
               (case getu4 r2 of
                  Some (rr1, r3) \<Rightarrow>
                    if rr < 0xDC00 \<and> 0xDC00 \<le> rr1 \<and> rr1 < 0xE000
                    then (encodeRune ((rr - 0xD800) * 1024 + (rr1 - 0xDC00) + 0x10000), r3)
                    else (replacementChar, r)
                | None \<Rightarrow> (replacementChar, r))
             else (replacementChar, r)
         | _ \<Rightarrow> (replacementChar, r))
      else (encodeRune rr, r))"

definition unescape :: "string \<Rightarrow> (string \<times> string) option" where
  "unescape s =
     (case s of
        [] \<Rightarrow> None
      | e # r \<Rightarrow>
          if e = quoteC \<or> e = backslash \<or> e = CHR ''/'' then Some ([e], r)
          else if e = CHR ''b'' then Some (chars [0x08], r)
          else if e = CHR ''f'' then Some (chars [0x0C], r)
          else if e = CHR ''n'' then Some (chars [0x0A], r)
          else if e = CHR ''r'' then Some (chars [0x0D], r)
          else if e = CHR ''t'' then Some (chars [0x09], r)
          else if e = CHR ''u'' then
            (case getu4 r of None \<Rightarrow> None | Some (rr, r') \<Rightarrow> Some (unescapeU rr r'))
          else None)"

definition prepend :: "string \<Rightarrow> (string \<times> string) option \<Rightarrow> (string \<times> string) option" where
  "prepend u p = map_option (\<lambda>(s, r). (u @ s, r)) p"

lemma getu4_length: "getu4 s = Some (x, r) \<Longrightarrow> length r < length s"
  by (cases s rule: getu4.cases) (auto split: option.splits)

lemma unescape_length: "unescape s = Some (u, r) \<Longrightarrow> length r < length s"
  by (auto simp: unescape_def unescapeU_def split: list.splits if_splits option.splits
      dest!: getu4_length)

function pString :: "string \<Rightarrow> (string \<times> string) option" where
  "pString s =
     (case s of
        [] \<Rightarrow> None
      | c # r \<Rightarrow>
          if c = quoteC then Some ([], r)
          else if c = backslash then
            (case unescape r of None \<Rightarrow> None | Some (u, r') \<Rightarrow> prepend u (pString r'))
          else if code c < 0x20 then None
          else if runeLen s = 0 then prepend replacementChar (pString r)
          else prepend (take (runeLen s) s) (pString (drop (runeLen s) s)))"
  by pat_completeness auto
termination by (relation "measure length") (auto dest: unescape_length)

declare pString.simps [simp del]

definition isDigit :: "char \<Rightarrow> bool" where
  "isDigit c \<longleftrightarrow> 48 \<le> code c \<and> code c \<le> 57"

text \<open>The number grammar of the scanner: sign, integer part, fraction, exponent.\<close>

definition pDigits :: "string \<Rightarrow> (string \<times> string) option" where
  "pDigits s = (if takeWhile isDigit s = [] then None else Some (takeWhile isDigit s, dropWhile isDigit s))"

definition pInteger :: "string \<Rightarrow> (string \<times> string) option" where
  "pInteger s = (case s of c # r \<Rightarrow> if c = CHR ''0'' then Some (''0'', r) else pDigits s | [] \<Rightarrow> None)"

definition pFraction :: "string \<Rightarrow> (string \<times> string) option" where
  "pFraction s =
     (case s of
        c # r \<Rightarrow> if c = CHR ''.'' then prepend [c] (pDigits r) else Some ([], s)
      | [] \<Rightarrow> Some ([], s))"

definition pExponent :: "string \<Rightarrow> (string \<times> string) option" where
  "pExponent s =
     (case s of
        c # r \<Rightarrow>
          if c = CHR ''e'' \<or> c = CHR ''E'' then
            (case r of
               x # r' \<Rightarrow>
                 if x = CHR ''+'' \<or> x = CHR ''-'' then prepend [c, x] (pDigits r')
                 else prepend [c] (pDigits r)
             | [] \<Rightarrow> None)
          else Some ([], s)
      | [] \<Rightarrow> Some ([], s))"

definition pNumber :: "string \<Rightarrow> (string \<times> string) option" where
  "pNumber s =
     (let (sign, r) = (case s of c # r \<Rightarrow> if c = CHR ''-'' then ([c], r) else ([], s) | [] \<Rightarrow> ([], s)) in
      case pInteger r of
        None \<Rightarrow> None
      | Some (i, r1) \<Rightarrow>
          (case pFraction r1 of
             None \<Rightarrow> None
           | Some (f, r2) \<Rightarrow>
               (case pExponent r2 of
                  None \<Rightarrow> None
                | Some (e, r3) \<Rightarrow> Some (sign @ i @ f @ e, r3))))"

lemma skipWs_length: "skipWs s = c # r \<Longrightarrow> length r < length s"
  using length_dropWhile_le [of isWs s] by simp

text \<open>
  A value, the members of an object and the elements of an array. The first argument is the
  nesting depth that is left (the scanner allows 10000). A recursive call is on a strictly
  shorter input; the comparisons of lengths only make that visible.
\<close>

function pValue :: "nat \<Rightarrow> string \<Rightarrow> (json \<times> string) option"
  and pMembers :: "nat \<Rightarrow> string \<Rightarrow> ((string \<times> json) list \<times> string) option"
  and pElements :: "nat \<Rightarrow> string \<Rightarrow> (json list \<times> string) option" where
  "pValue d s =
     (case skipWs s of
        [] \<Rightarrow> None
      | c # r \<Rightarrow>
          if c = CHR ''{'' then
            (if d = 0 then None
             else if prefix ''}'' (skipWs r) then Some (JObj [], tl (skipWs r))
             else map_option (\<lambda>(ms, r'). (JObj ms, r')) (pMembers (d - 1) r))
          else if c = CHR ''['' then
            (if d = 0 then None
             else if prefix '']'' (skipWs r) then Some (JArr [], tl (skipWs r))
             else map_option (\<lambda>(vs, r'). (JArr vs, r')) (pElements (d - 1) r))
          else if c = quoteC then map_option (\<lambda>(x, r'). (JStr x, r')) (pString r)
          else if c = CHR ''-'' \<or> isDigit c then
            map_option (\<lambda>(x, r'). (JNum x, r')) (pNumber (c # r))
          else if prefix ''true'' (c # r) then Some (JBool True, drop 4 (c # r))
          else if prefix ''false'' (c # r) then Some (JBool False, drop 5 (c # r))
          else if prefix ''null'' (c # r) then Some (JNull, drop 4 (c # r))
          else None)"
| "pMembers d s =
     (case skipWs s of
        [] \<Rightarrow> None
      | c # r \<Rightarrow>
          if c \<noteq> quoteC then None
          else
            (case pString r of
               None \<Rightarrow> None
             | Some (k, r1) \<Rightarrow>
                 (case skipWs r1 of
                    [] \<Rightarrow> None
                  | e # r2 \<Rightarrow>
                      if e \<noteq> CHR '':'' \<or> \<not> length r2 < length s then None
                      else
                        (case pValue d r2 of
                           None \<Rightarrow> None
                         | Some (v, r3) \<Rightarrow>
                             (case skipWs r3 of
                                [] \<Rightarrow> None
                              | f # r4 \<Rightarrow>
                                  if f = CHR ''}'' then Some ([(k, v)], r4)
                                  else if f = CHR '','' \<and> length r4 < length s then
                                    map_option (\<lambda>(ms, r'). ((k, v) # ms, r')) (pMembers d r4)
                                  else None)))))"
| "pElements d s =
     (case pValue d s of
        None \<Rightarrow> None
      | Some (v, r3) \<Rightarrow>
          (case skipWs r3 of
             [] \<Rightarrow> None
           | f # r4 \<Rightarrow>
               if f = CHR '']'' then Some ([v], r4)
               else if f = CHR '','' \<and> length r4 < length s then
                 map_option (\<lambda>(vs, r'). (v # vs, r')) (pElements d r4)
               else None))"
  by pat_completeness auto

termination
  by (relation "measure (\<lambda>x. case x of Inl (d, s) \<Rightarrow> 2 * length s + 1
        | Inr (Inl (d, s)) \<Rightarrow> 2 * length s | Inr (Inr (d, s)) \<Rightarrow> 2 * length s + 2)")
    (auto dest: skipWs_length)

declare pValue.simps [simp del] pMembers.simps [simp del] pElements.simps [simp del]

definition parseJson :: "string \<Rightarrow> json res" where
  "parseJson s =
     (case pValue 10000 s of
        Some (v, r) \<Rightarrow> if skipWs r = [] then Inr v else Inl (Msg ''invalid character after top-level value'')
      | None \<Rightarrow> Inl (Msg ''invalid JSON''))"

text \<open>\<open>strconv.ParseInt\<close> and \<open>strconv.ParseUint\<close> on a number literal, in base 10.\<close>

definition digitsVal :: "string \<Rightarrow> nat option" where
  "digitsVal s =
     (if s \<noteq> [] \<and> list_all isDigit s then Some (foldl (\<lambda>n c. 10 * n + (code c - 48)) 0 s) else None)"

definition parseUint :: "string \<Rightarrow> int option" where
  "parseUint s = map_option int (digitsVal s)"

definition parseInt :: "string \<Rightarrow> int option" where
  "parseInt s =
     (case s of
        c # r \<Rightarrow>
          if c = CHR ''-'' then map_option (\<lambda>n. - int n) (digitsVal r)
          else if c = CHR ''+'' then map_option int (digitsVal r)
          else map_option int (digitsVal s)
      | [] \<Rightarrow> None)"

section \<open>Strings: what is printed is parsed\<close>

text \<open>What a reader gets back for a printed string: invalid bytes become U+FFFD.\<close>

function sanitize :: "string \<Rightarrow> string" where
  "sanitize s =
     (case s of
        [] \<Rightarrow> []
      | c # r \<Rightarrow>
          if runeLen s = 0 then replacementChar @ sanitize r
          else take (runeLen s) s @ sanitize (drop (runeLen s) s))"
  by pat_completeness auto
termination by (relation "measure length") auto

declare sanitize.simps [simp del]

lemma code_char_of [simp]: "code (char_of n) = n mod 256"
  by (simp add: code_def)

lemma char_of_code [simp]: "char_of (code c) = c"
  by (simp add: code_def)

lemma code_lt [simp]: "code c < 256"
  by (simp add: code_def of_char_lt)

lemma runeLen_ascii [simp]: "code c < 0x80 \<Longrightarrow> runeLen (c # r) = 1"
  by (simp add: runeLen.simps)

lemma upto4:
  obtains "s = []" | a where "s = [a]" | a b where "s = [a, b]" | a b c where "s = [a, b, c]"
  | a b c d r where "s = a # b # c # d # r"
  by (metis list.exhaust)

lemma runeLen_le: "runeLen s \<le> length s"
  by (cases s rule: upto4) (auto simp: runeLen.simps Let_def)

lemma runeLen_local:
  assumes "runeLen s = k" "k \<noteq> 0"
  shows "runeLen (take k s @ t) = k"
  using assms by (cases s rule: upto4) (auto simp: runeLen.simps Let_def split: if_splits)

lemma validUtf8_Nil [simp]: "validUtf8 []"
  by (simp add: validUtf8.simps)

lemma validUtf8_step: "s \<noteq> [] \<Longrightarrow> validUtf8 s = (runeLen s \<noteq> 0 \<and> validUtf8 (drop (runeLen s) s))"
  by (subst validUtf8.simps) simp

lemma validUtf8_ascii: "list_all (\<lambda>c. code c < 0x80) s \<Longrightarrow> validUtf8 s"
  by (induction s) (auto simp: validUtf8_step)

lemma sanitize_Nil [simp]: "sanitize [] = []"
  by (simp add: sanitize.simps)

lemma sanitize_Cons:
  "sanitize (c # r) =
     (if runeLen (c # r) = 0 then replacementChar @ sanitize r
      else take (runeLen (c # r)) (c # r) @ sanitize (drop (runeLen (c # r)) (c # r)))"
  by (subst sanitize.simps) (simp only: list.case)

lemma sanitize_valid: "validUtf8 s \<Longrightarrow> sanitize s = s"
proof (induction s rule: sanitize.induct)
  case (1 s)
  then show ?case
    by (cases s) (simp_all add: sanitize_Cons validUtf8_step)
qed

lemma validUtf8_append_rune:
  "runeLen u = length u \<Longrightarrow> u \<noteq> [] \<Longrightarrow> validUtf8 (u @ t) = validUtf8 t"
  using runeLen_local [of u "length u" t] by (simp add: validUtf8_step)

lemma validUtf8_sanitize: "validUtf8 (sanitize s)"
proof (induction s rule: sanitize.induct)
  case (1 s)
  show ?case
  proof (cases s)
    case (Cons c r)
    show ?thesis
    proof (cases "runeLen s = 0")
      case True
      have "runeLen replacementChar = length replacementChar" "replacementChar \<noteq> []"
        by (simp_all add: replacementChar_def chars_def runeLen.simps cont_def)
      then show ?thesis
        using 1 Cons True by (simp add: sanitize_Cons validUtf8_append_rune)
    next
      case False
      let ?u = "take (runeLen s) s"
      have "runeLen ?u = length ?u" "?u \<noteq> []"
        using runeLen_local [of s _ "[]"] runeLen_le [of s] False Cons by auto
      then show ?thesis
        using 1 Cons False by (simp add: sanitize_Cons validUtf8_append_rune)
    qed
  qed simp
qed

text \<open>So a string survives a round trip exactly when it is valid UTF-8.\<close>

lemma sanitize_eq_iff: "sanitize s = s \<longleftrightarrow> validUtf8 s"
  using sanitize_valid validUtf8_sanitize by metis

lemma hexVal_nat: "hexVal c = Some n \<Longrightarrow> n < 16"
  by (auto simp: hexVal_def Let_def split: if_splits)

lemma nibble_step: "m * (n div k mod 16) + m * 16 * (n div (k * 16)) = m * (n div k :: nat)"
  by (metis add.commute div_mult2_eq distrib_left mult.assoc mult.commute mod_mult_div_eq)

lemma nibbles:
  assumes "n < 65536"
  shows "4096 * (n div 4096 mod 16) + 256 * (n div 256 mod 16) + 16 * (n div 16 mod 16) + n mod 16 = (n :: nat)"
proof -
  have "n div 4096 mod 16 = n div 4096" using assms by simp
  then have "4096 * (n div 4096 mod 16) = 4096 * (n div 4096)" by (rule arg_cong)
  moreover have "256 * (n div 256 mod 16) + 4096 * (n div 4096) = 256 * (n div 256)"
    using nibble_step [of 256 n 256] by simp
  moreover have "16 * (n div 16 mod 16) + 256 * (n div 256) = 16 * (n div 16)"
    using nibble_step [of 16 n 16] by simp
  moreover have "16 * (n div 16) + n mod 16 = n" by (rule mult_div_mod_eq)
  moreover have "a + b + c + d = n"
    if "a = a'" "b + a' = e" "c + e = f" "f + d = n" for a a' b c d e f :: nat
    using that by linarith
  ultimately show ?thesis by blast
qed

lemma getu4_hex:
  assumes "n < 65536"
  shows "getu4 (drop 2 (hex4 n) @ t) = Some (n, t)"
  using nibbles [OF assms] by (simp add: hex4_def hexVal_hexDigit del: mod_less div_less)

lemma pString_Cons:
  "pString (c # r) =
     (if c = quoteC then Some ([], r)
      else if c = backslash then
        (case unescape r of None \<Rightarrow> None | Some (u, r') \<Rightarrow> prepend u (pString r'))
      else if code c < 0x20 then None
      else if runeLen (c # r) = 0 then prepend replacementChar (pString r)
      else prepend (take (runeLen (c # r)) (c # r)) (pString (drop (runeLen (c # r)) (c # r))))"
  by (subst pString.simps) (simp only: list.case)

lemma appendString_Nil [simp]: "appendString [] = []"
  by (simp add: appendString.simps)

lemma appendString_Cons:
  "appendString (c # r) =
     (if code c < 0x80 then escapeAscii c @ appendString r
      else if runeLen (c # r) = 0 then hex4 0xFFFD @ appendString r
      else
        (let u = take (runeLen (c # r)) (c # r) in
         (if u = encodeRune 0x2028 then hex4 0x2028
          else if u = encodeRune 0x2029 then hex4 0x2029 else u) @
         appendString (drop (runeLen (c # r)) (c # r))))"
  by (subst appendString.simps) (simp only: list.case Let_def if_distrib [of "\<lambda>x. x @ _"] if_distribR)

lemma pString_hex4:
  assumes "n < 65536" "n < 0xD800 \<or> 0xE000 \<le> n"
  shows "pString (hex4 n @ t) = prepend (encodeRune n) (pString t)"
proof -
  have "hex4 n @ t = backslash # CHR ''u'' # drop 2 (hex4 n) @ t" by (simp add: hex4_def)
  moreover have "unescape (CHR ''u'' # drop 2 (hex4 n) @ t) = Some (encodeRune n, t)"
    using assms getu4_hex [OF assms(1)] by (auto simp: unescape_def unescapeU_def)
  ultimately show ?thesis by (simp only:) (simp add: pString_Cons)
qed

lemma encodeRune_ascii: "code c < 0x80 \<Longrightarrow> encodeRune (code c) = [c]"
  by (simp add: encodeRune_def chars_def)

lemma code_eqD: "code c = n \<Longrightarrow> c = char_of n"
  by auto

lemma unescape_simple:
  "unescape (quoteC # t) = Some ([quoteC], t)" "unescape (backslash # t) = Some ([backslash], t)"
  "unescape (CHR ''b'' # t) = Some ([char_of (8 :: nat)], t)"
  "unescape (CHR ''f'' # t) = Some ([char_of (12 :: nat)], t)"
  "unescape (CHR ''n'' # t) = Some ([char_of (10 :: nat)], t)"
  "unescape (CHR ''r'' # t) = Some ([char_of (13 :: nat)], t)"
  "unescape (CHR ''t'' # t) = Some ([char_of (9 :: nat)], t)"
  by (simp_all add: unescape_def chars_def)

lemma pString_escapeAscii:
  assumes "code c < 0x80"
  shows "pString (escapeAscii c @ t) = prepend [c] (pString t)"
proof (cases "escapeAscii c = [c]")
  case True
  then have "c \<noteq> quoteC" "c \<noteq> backslash" "\<not> code c < 0x20"
    by (auto simp: escapeAscii_def hex4_def split: if_splits)
  then show ?thesis using True assms by (simp add: pString_Cons)
next
  case False
  show ?thesis
  proof (cases "escapeAscii c = hex4 (code c)")
    case True
    then show ?thesis using pString_hex4 [of "code c" t] assms encodeRune_ascii [OF assms] by simp
  next
    case no_hex: False
    have "\<exists>e. escapeAscii c = [backslash, e] \<and> (\<forall>t. unescape (e # t) = Some ([c], t))"
      using False no_hex
      by (auto simp: escapeAscii_def unescape_simple split: if_splits dest: code_eqD)
    then show ?thesis by (auto simp: pString_Cons)
  qed
qed

lemma prepend_Some [simp]: "prepend u (Some (s, r)) = Some (u @ s, r)"
  by (simp add: prepend_def)

lemma encodeRune_replacement: "encodeRune 0xFFFD = replacementChar"
  by (simp add: encodeRune_def replacementChar_def)

lemma pString_rune:
  assumes "runeLen s = k" "k \<noteq> 0" "0x80 \<le> code (hd s)"
  shows "pString (take k s @ t) = prepend (take k s) (pString t)"
proof -
  from assms obtain c r where s: "s = c # r" by (cases s) (auto simp: runeLen.simps)
  have c: "c \<noteq> quoteC" "c \<noteq> backslash" "\<not> code c < 0x20"
    using assms(3) s by (auto simp: code_def)
  have hd: "take k s @ t = c # (take (k - 1) r @ t)" using s assms(2) by (cases k) auto
  have len: "runeLen (take k s @ t) = k" using runeLen_local assms by blast
  have le: "k \<le> length s" using runeLen_le assms(1) by blast
  show ?thesis
    unfolding hd pString_Cons unfolding hd [symmetric] using c len le assms(2) by simp
qed

lemma pString_appendString: "pString (appendString s @ quoteC # r) = Some (sanitize s, r)"
proof (induction "length s" arbitrary: s rule: less_induct)
  case less
  show ?case
  proof (cases s)
    case Nil
    then show ?thesis by (simp add: pString_Cons)
  next
    case (Cons c q)
    let ?k = "runeLen (c # q)"
    have ih1: "pString (appendString q @ quoteC # r) = Some (sanitize q, r)"
      using less Cons by simp
    have ihk: "?k \<noteq> 0 \<Longrightarrow> pString (appendString (drop ?k (c # q)) @ quoteC # r) = Some (sanitize (drop ?k (c # q)), r)"
      using less Cons by simp
    have rune: "pString (take ?k (c # q) @ t) = prepend (take ?k (c # q)) (pString t)"
      if "?k \<noteq> 0" "\<not> code c < 0x80" for t
      using pString_rune [of "c # q" ?k t] that by simp
    show ?thesis
    proof (cases "code c < 0x80")
      case True
      then show ?thesis
        using ih1 Cons by (simp add: appendString_Cons sanitize_Cons pString_escapeAscii)
    next
      case False
      then show ?thesis
        using ih1 ihk rune Cons
        by (cases "?k = 0")
          (auto simp: appendString_Cons sanitize_Cons pString_hex4 encodeRune_replacement Let_def)
    qed
  qed
qed

section \<open>Numbers and values\<close>

lemma isDigit_digitChar [simp]: "n < 10 \<Longrightarrow> isDigit (digitChar n)"
  by (simp add: isDigit_def digitChar_def)

lemma code_digitChar [simp]: "n < 10 \<Longrightarrow> code (digitChar n) = 48 + n"
  by (simp add: digitChar_def)

lemma code_zero: "code (CHR ''0'') = 48"
  by (simp add: code_def)

lemma digitChar_zero: "digitChar 0 = CHR ''0''"
  using char_of_code [of "CHR ''0''"] by (simp add: digitChar_def code_zero)

lemma showNat_digits: "list_all isDigit (showNat n) \<and> showNat n \<noteq> []"
  by (induction n rule: showNat.induct) (subst showNat.simps, subst (2) showNat.simps, simp)

lemma showNat_hd: "n \<noteq> 0 \<Longrightarrow> hd (showNat n) \<noteq> CHR ''0''"
proof (induction n rule: showNat.induct)
  case (1 n)
  show ?case
  proof (cases "n < 10")
    case True
    then have "code (digitChar n) \<noteq> code (CHR ''0'')" using 1 by (simp add: code_zero)
    then have "digitChar n \<noteq> CHR ''0''" by metis
    then show ?thesis using True by (subst showNat.simps) simp
  next
    case False
    then show ?thesis using 1 showNat_digits [of "n div 10"] by (subst showNat.simps) simp
  qed
qed

lemma digitsVal_showNat [simp]: "digitsVal (showNat n) = Some n"
proof -
  have "foldl (\<lambda>n c. 10 * n + (code c - 48)) 0 (showNat n) = n"
    by (induction n rule: showNat.induct) (subst showNat.simps, simp)
  then show ?thesis using showNat_digits [of n] by (simp add: digitsVal_def)
qed

lemma isDigit_neq [simp]:
  "isDigit c \<Longrightarrow> c \<noteq> CHR ''-''" "isDigit c \<Longrightarrow> c \<noteq> CHR ''+''" "isDigit c \<Longrightarrow> c \<noteq> quoteC"
  "isDigit c \<Longrightarrow> c \<noteq> CHR ''{''" "isDigit c \<Longrightarrow> c \<noteq> CHR ''[''" "isDigit c \<Longrightarrow> \<not> isWs c"
  by (auto simp: isDigit_def isWs_def code_def)

lemma parseUint_showNat [simp]: "parseUint (showNat n) = Some (int n)"
  by (simp add: parseUint_def)

lemma parseInt_showInt [simp]: "parseInt (showInt i) = Some i"
proof (cases "i < 0")
  case False
  obtain c r where c: "showNat (nat i) = c # r" "isDigit c"
    using showNat_digits [of "nat i"] by (cases "showNat (nat i)") auto
  then have "digitsVal (c # r) = Some (nat i)" using digitsVal_showNat [of "nat i"] by simp
  then show ?thesis using False c by (simp add: showInt_def parseInt_def)
qed (simp add: showInt_def parseInt_def)

text \<open>What may follow a number so that it ends there.\<close>

definition stops :: "string \<Rightarrow> bool" where
  "stops r \<longleftrightarrow> (case r of [] \<Rightarrow> True | c # _ \<Rightarrow> \<not> isDigit c \<and> c \<notin> {CHR ''.'', CHR ''e'', CHR ''E''})"

lemma stops_simps [simp]:
  "stops []" "stops (CHR '','' # r)" "stops (newline # r)" "stops (CHR ''}'' # r)" "stops (CHR '']'' # r)"
  by (auto simp: stops_def isDigit_def code_def)

lemma pDigits_append:
  assumes "list_all isDigit s" "s \<noteq> []" "stops r"
  shows "pDigits (s @ r) = Some (s, r)"
proof -
  have "takeWhile isDigit (s @ r) = s" "dropWhile isDigit (s @ r) = r"
    using assms by (auto simp: takeWhile_append dropWhile_append list_all_iff stops_def split: list.splits)
  then show ?thesis using assms(2) by (simp add: pDigits_def)
qed

lemma pNumber_tail: "stops r \<Longrightarrow> pFraction r = Some ([], r) \<and> pExponent r = Some ([], r)"
  by (auto simp: stops_def pFraction_def pExponent_def split: list.splits)

lemma pInteger_showNat:
  assumes "stops r"
  shows "pInteger (showNat n @ r) = Some (showNat n, r)"
proof (cases "n = 0")
  case True
  then show ?thesis by (simp add: showNat.simps pInteger_def digitChar_zero)
next
  case False
  obtain c q where c: "showNat n = c # q" using showNat_digits [of n] by (cases "showNat n") auto
  then show ?thesis
    using showNat_hd [OF False] showNat_digits [of n] pDigits_append [of "showNat n" r] assms
    by (simp add: pInteger_def)
qed

lemma pNumber_showInt:
  assumes "stops r"
  shows "pNumber (showInt i @ r) = Some (showInt i, r)"
proof -
  obtain c q where c: "showNat (nat i) = c # q" "isDigit c"
    using showNat_digits [of "nat i"] by (cases "showNat (nat i)") auto
  then show ?thesis
    using pInteger_showNat [OF assms, of "nat i"] pInteger_showNat [OF assms, of "nat (- i)"]
      pNumber_tail [OF assms]
    by (simp add: showInt_def pNumber_def)
qed

text \<open>The documents the program prints: valid strings, decimal integers, bounded nesting.\<close>

fun wfJson :: "nat \<Rightarrow> json \<Rightarrow> bool" where
  "wfJson d JNull = True"
| "wfJson d (JBool b) = True"
| "wfJson d (JNum n) = (\<exists>i. n = showInt i)"
| "wfJson d (JStr s) = validUtf8 s"
| "wfJson d (JArr vs) = (d \<noteq> 0 \<and> (\<forall>v \<in> set vs. wfJson (d - 1) v))"
| "wfJson d (JObj ms) = (d \<noteq> 0 \<and> (\<forall>m \<in> set ms. validUtf8 (fst m) \<and> wfJson (d - 1) (snd m)))"

lemma isWs_simps [simp]:
  "isWs (CHR '' '')" "isWs newline" "\<not> isWs quoteC" "\<not> isWs (CHR ''{'')" "\<not> isWs (CHR ''['')"
  "\<not> isWs (CHR ''}'')" "\<not> isWs (CHR '']'')" "\<not> isWs (CHR '','')" "\<not> isWs (CHR '':'')"
  "\<not> isWs (CHR ''t'')" "\<not> isWs (CHR ''f'')" "\<not> isWs (CHR ''n'')" "\<not> isWs (CHR ''-'')"
  by (simp_all add: isWs_def code_def)

lemma skipWs_append [simp]: "list_all isWs w \<Longrightarrow> skipWs (w @ s) = skipWs s"
  by (induction w) auto

lemma indentation_ws [simp]: "list_all isWs (indentation d)"
  by (simp add: indentation_def list_all_iff)

lemma pString_quote: "validUtf8 s \<Longrightarrow> pString (appendString s @ quoteC # r) = Some (s, r)"
  by (simp add: pString_appendString sanitize_valid)

definition printsBack :: "nat \<Rightarrow> nat \<Rightarrow> json \<Rightarrow> bool" where
  "printsBack d k v \<longleftrightarrow> (\<forall>w r. list_all isWs w \<longrightarrow> stops r \<longrightarrow> pValue d (w @ printJson k v @ r) = Some (v, r))"

lemma printsBackD:
  "printsBack d k v \<Longrightarrow> list_all isWs w \<Longrightarrow> stops r \<Longrightarrow> pValue d (w @ printJson k v @ r) = Some (v, r)"
  by (simp add: printsBack_def)

lemma pMembers_print:
  assumes "ms \<noteq> []" "\<forall>m \<in> set ms. validUtf8 (fst m) \<and> printsBack d k (snd m)" "list_all isWs w"
  shows "pMembers d (w @ separate [CHR '','', newline]
      (map (\<lambda>(n, v). indentation k @ quoteString n @ '': '' @ printJson k v) ms) @
      newline # indentation j @ CHR ''}'' # r) = Some (ms, r)"
  using assms
proof (induction ms arbitrary: w rule: induct_list012)
  case (2 m)
  obtain n v where m: "m = (n, v)" by (cases m)
  have v: "pValue d (CHR '' '' # printJson k v @ newline # indentation j @ CHR ''}'' # r) =
      Some (v, newline # indentation j @ CHR ''}'' # r)"
    using 2 m printsBackD [of d k v "'' ''" "newline # indentation j @ CHR ''}'' # r"] by simp
  show ?case
    using 2 m v by (subst pMembers.simps) (simp add: quoteString_def pString_quote)
next
  case (3 m m' ms)
  obtain n v where m: "m = (n, v)" by (cases m)
  let ?rest = "separate [CHR '','', newline]
      (map (\<lambda>(n, v). indentation k @ quoteString n @ '': '' @ printJson k v) (m' # ms)) @
      newline # indentation j @ CHR ''}'' # r"
  have v: "pValue d (CHR '' '' # printJson k v @ CHR '','' # newline # ?rest) =
      Some (v, CHR '','' # newline # ?rest)"
    using 3(4) m printsBackD [of d k v "'' ''" "CHR '','' # newline # ?rest"] by simp
  have ih: "pMembers d (newline # ?rest) = Some (m' # ms, r)"
    using 3(2) [of "[newline]"] 3(4) by simp
  show ?case
    using 3 m v ih by (subst pMembers.simps) (simp add: quoteString_def pString_quote)
qed simp

lemma pElements_print:
  assumes "vs \<noteq> []" "\<forall>v \<in> set vs. printsBack d k v" "list_all isWs w"
  shows "pElements d (w @ separate [CHR '','', newline] (map (\<lambda>v. indentation k @ printJson k v) vs) @
      newline # indentation j @ CHR '']'' # r) = Some (vs, r)"
  using assms
proof (induction vs arbitrary: w rule: induct_list012)
  case (2 v)
  have "pValue d ((w @ indentation k) @ printJson k v @ newline # indentation j @ CHR '']'' # r) =
      Some (v, newline # indentation j @ CHR '']'' # r)"
    using 2 by (intro printsBackD) simp_all
  then show ?case by (subst pElements.simps) simp
next
  case (3 v v' vs)
  let ?rest = "separate [CHR '','', newline]
      (map (\<lambda>v. indentation k @ printJson k v) (v' # vs)) @ newline # indentation j @ CHR '']'' # r"
  have "pValue d ((w @ indentation k) @ printJson k v @ CHR '','' # newline # ?rest) =
      Some (v, CHR '','' # newline # ?rest)"
    using 3(4,5) by (intro printsBackD) simp_all
  moreover have "pElements d (newline # ?rest) = Some (v' # vs, r)"
    using 3(2) [of "[newline]"] 3(4) by simp
  ultimately show ?case by (subst pElements.simps) simp
qed simp

lemma skipWs_nonws: "\<not> isWs c \<Longrightarrow> list_all isWs w \<Longrightarrow> skipWs (w @ c # r) = c # r"
  by simp

lemma skipWs_Cons_append: "skipWs x = c # q \<Longrightarrow> skipWs (x @ r) = c # q @ r"
  by (induction x) (auto split: if_splits)

lemma skipWs_separate_ne:
  "xs \<noteq> [] \<Longrightarrow> (\<And>x. x \<in> set xs \<Longrightarrow> \<exists>c q. skipWs x = c # q \<and> c \<noteq> b) \<Longrightarrow>
   \<exists>c q. skipWs (separate sep xs @ r) = c # q \<and> c \<noteq> b"
proof (induction xs rule: induct_list012)
  case (2 x)
  then obtain c q where "skipWs x = c # q" "c \<noteq> b" by auto
  then show ?case by (auto simp: skipWs_Cons_append)
next
  case (3 x y zs)
  then obtain c q where "skipWs x = c # q" "c \<noteq> b" by force
  then show ?case by (auto simp: skipWs_Cons_append)
qed simp

lemma printJson_hd: "wfJson d v \<Longrightarrow> \<exists>c q. printJson k v = c # q \<and> \<not> isWs c \<and> c \<noteq> CHR '']''"
proof (cases v)
  case (JNum n)
  assume "wfJson d v"
  then obtain i where i: "n = showInt i" using JNum by auto
  have "showInt i \<noteq> [] \<and> \<not> isWs (hd (showInt i)) \<and> hd (showInt i) \<noteq> CHR '']''"
    using showNat_digits [of "nat i"]
    by (cases "showNat (nat i)") (auto simp: showInt_def isDigit_def code_def isWs_def)
  then show ?thesis using JNum i by (cases "showInt i") auto
next
  case (JArr vs)
  then show ?thesis by (cases vs) auto
next
  case (JObj ms)
  then show ?thesis by (cases ms) auto
qed (auto simp: quoteString_def)

lemma pValue_printJson: "wfJson d v \<Longrightarrow> printsBack d k v"
proof (induction v arbitrary: d k)
  case (JArr vs)
  show ?case
  proof (cases vs)
    case Nil
    then show ?thesis using JArr by (auto simp: printsBack_def pValue.simps skipWs_nonws)
  next
    case (Cons v us)
    have el: "\<forall>v \<in> set vs. printsBack (d - 1) (Suc k) v" using JArr by auto
    show ?thesis
      unfolding printsBack_def
    proof (intro allI impI)
      fix w r
      assume w: "list_all isWs w" and r: "stops r"
      let ?body = "separate [CHR '','', newline]
        (map (\<lambda>v. indentation (Suc k) @ printJson (Suc k) v) vs) @ newline # indentation k @ CHR '']'' # r"
      have "pElements (d - 1) (newline # ?body) = Some (vs, r)"
        using pElements_print [OF _ el, of "[newline]" k r] Cons by simp
      moreover have "\<exists>c q. skipWs ?body = c # q \<and> c \<noteq> CHR '']''"
      proof (rule skipWs_separate_ne)
        fix x
        assume "x \<in> set (map (\<lambda>v. indentation (Suc k) @ printJson (Suc k) v) vs)"
        then obtain u where u: "u \<in> set vs" "x = indentation (Suc k) @ printJson (Suc k) u" by auto
        then show "\<exists>c q. skipWs x = c # q \<and> c \<noteq> CHR '']''"
          using printJson_hd [of "d - 1" u "Suc k"] JArr.prems by auto
      qed (use Cons in simp)
      moreover have "printJson k (JArr vs) @ r = CHR ''['' # newline # ?body" using Cons by simp
      ultimately show "pValue d (w @ printJson k (JArr vs) @ r) = Some (JArr vs, r)"
        using JArr.prems w by (subst pValue.simps) auto
    qed
  qed
next
  case (JObj ms)
  show ?case
  proof (cases ms)
    case Nil
    then show ?thesis using JObj by (auto simp: printsBack_def pValue.simps skipWs_nonws)
  next
    case (Cons m ns)
    have el: "\<forall>m \<in> set ms. validUtf8 (fst m) \<and> printsBack (d - 1) (Suc k) (snd m)"
      using JObj by (force simp: snds.simps)
    show ?thesis
      unfolding printsBack_def
    proof (intro allI impI)
      fix w r
      assume w: "list_all isWs w" and r: "stops r"
      let ?body = "separate [CHR '','', newline]
        (map (\<lambda>(n, v). indentation (Suc k) @ quoteString n @ '': '' @ printJson (Suc k) v) ms) @
        newline # indentation k @ CHR ''}'' # r"
      have "pMembers (d - 1) (newline # ?body) = Some (ms, r)"
        using pMembers_print [OF _ el, of "[newline]" k r] Cons by simp
      moreover have "\<exists>c q. skipWs ?body = c # q \<and> c \<noteq> CHR ''}''"
        by (rule skipWs_separate_ne) (use Cons in \<open>auto simp: quoteString_def case_prod_beta\<close>)
      moreover have "printJson k (JObj ms) @ r = CHR ''{'' # newline # ?body" using Cons by simp
      ultimately show "pValue d (w @ printJson k (JObj ms) @ r) = Some (JObj ms, r)"
        using JObj.prems w by (subst pValue.simps) auto
    qed
  qed
next
  case (JNum n)
  then obtain i where i: "n = showInt i" by auto
  have "\<exists>c q. showInt i = c # q \<and> (c = CHR ''-'' \<or> isDigit c)"
    using showNat_digits [of "nat i"] by (cases "showNat (nat i)") (auto simp: showInt_def)
  then obtain c q where c: "showInt i = c # q" "c = CHR ''-'' \<or> isDigit c" by blast
  then have ne: "c \<noteq> CHR ''{''" "c \<noteq> CHR ''[''" "c \<noteq> quoteC" "\<not> isWs c"
    by (auto simp: isDigit_def code_def isWs_def)
  have "pValue d (w @ showInt i @ r) = Some (JNum (showInt i), r)" if "list_all isWs w" "stops r" for w r
    using c ne that pNumber_showInt [OF that(2), of i] by (subst pValue.simps) simp
  then show ?case using i by (simp add: printsBack_def)
next
  case (JStr s)
  then show ?case by (auto simp: printsBack_def pValue.simps quoteString_def pString_quote skipWs_nonws)
qed (auto simp: printsBack_def pValue.simps skipWs_nonws isDigit_def code_def)

lemma parseJson_printJson:
  assumes "wfJson 10000 v"
  shows "parseJson (printJson 0 v @ [newline]) = Inr v"
  using printsBackD [OF pValue_printJson [OF assms], of "[]" "[newline]" 0] by (simp add: parseJson_def)

end
