(* ===== verification/MetaStore.thy ===== *)
theory MetaStore
  imports Symlink Json
begin

text \<open>
  The metadata document of a vault: its data model (volume.go \<open>FileMeta\<close>, \<open>RecoveryEntry\<close>,
  \<open>Metadata\<close>), its JSON form, the public configuration, the cross-process lock
  (metadata_lock.go), reading, saving, reconciling with the objects directory and the
  migration of the version 1 layout (metadata_migration.go).
\<close>

section \<open>Data model\<close>

record FileMeta =
  Size :: u64
  Mode :: u32
  MTime :: int
  ATime :: int
  Inode :: u64

record RecoveryEntry =
  rePath :: string
  reState :: string
  reReason :: string
  reObserved :: int

record Metadata =
  Version :: int
  Files :: "(string, FileMeta) gomap"
  Links :: "(string, string) gomap"
  Orphaned :: "(string, int) gomap"
  Recovery :: "(string, RecoveryEntry) gomap"
  LegacyTargets :: "(string, string) gomap"
  DisplacedLinks :: "(string, string) gomap option"

record PublicConfig =
  cfgVersion :: int
  cfgVolumeID :: string
  cfgRecipient :: string

definition metadataFormatVersion :: int where "metadataFormatVersion = 3"
definition previousMetadataFormatVersion :: int where "previousMetadataFormatVersion = 2"
definition legacyMetadataFormatVersion :: int where "legacyMetadataFormatVersion = 1"
definition formatVersion :: int where "formatVersion = 1"
definition RecoveryTrash :: string where "RecoveryTrash = ''trash''"
definition RecoveryConflict :: string where "RecoveryConflict = ''conflict''"

definition zeroFileMeta :: FileMeta where
  "zeroFileMeta = \<lparr>Size = 0, Mode = 0, MTime = 0, ATime = 0, Inode = 0\<rparr>"

definition zeroRecovery :: RecoveryEntry where
  "zeroRecovery = \<lparr>rePath = [], reState = [], reReason = [], reObserved = 0\<rparr>"

definition emptyMetadata :: Metadata where
  "emptyMetadata =
     \<lparr>Version = metadataFormatVersion, Files = [], Links = [], Orphaned = [], Recovery = [],
      LegacyTargets = [], DisplacedLinks = None\<rparr>"

section \<open>JSON form\<close>

text \<open>\<open>omitempty\<close>: a field with the empty value is left out.\<close>

definition omitEmpty :: "bool \<Rightarrow> string \<Rightarrow> json \<Rightarrow> (string \<times> json) list" where
  "omitEmpty isEmpty k v = (if isEmpty then [] else [(k, v)])"

definition jint :: "int \<Rightarrow> json" where "jint i = JNum (showInt i)"

text \<open>The members of a map are printed in the order of their keys.\<close>

definition encodeMap :: "('v \<Rightarrow> json) \<Rightarrow> (string, 'v) gomap \<Rightarrow> json" where
  "encodeMap f m = JObj (map (\<lambda>(k, v). (k, f v)) (sort_key fst m))"

definition encodeFileMeta :: "FileMeta \<Rightarrow> json" where
  "encodeFileMeta m = JObj
     ([(''size'', jint (uint (Size m))), (''mode'', jint (uint (Mode m))), (''mtime'', jint (MTime m))] @
      omitEmpty (ATime m = 0) ''atime'' (jint (ATime m)) @
      omitEmpty (Inode m = 0) ''inode'' (jint (uint (Inode m))))"

definition encodeRecovery :: "RecoveryEntry \<Rightarrow> json" where
  "encodeRecovery r = JObj
     ([(''path'', JStr (rePath r)), (''state'', JStr (reState r))] @
      omitEmpty (reReason r = []) ''reason'' (JStr (reReason r)) @
      [(''observedUnixNano'', jint (reObserved r))])"

definition encodeMetadata :: "Metadata \<Rightarrow> json" where
  "encodeMetadata m = JObj
     ([(''version'', jint (Version m)), (''files'', encodeMap encodeFileMeta (Files m))] @
      omitEmpty (Links m = []) ''links'' (encodeMap JStr (Links m)) @
      omitEmpty (Orphaned m = []) ''orphaned'' (encodeMap jint (Orphaned m)) @
      omitEmpty (Recovery m = []) ''recovery'' (encodeMap encodeRecovery (Recovery m)) @
      omitEmpty (LegacyTargets m = []) ''legacyTargets'' (encodeMap JStr (LegacyTargets m)) @
      (case DisplacedLinks m of
         None \<Rightarrow> []
       | Some d \<Rightarrow> omitEmpty (d = []) ''displacedLinks'' (encodeMap JStr d)))"

definition typeError :: goerr where
  "typeError = Msg ''json: cannot unmarshal value of the wrong type''"

text \<open>Decoding into a variable that already has a value; \<open>null\<close> leaves it as it is.\<close>

definition decodeInt :: "int \<Rightarrow> json \<Rightarrow> int res" where
  "decodeInt old j =
     (case j of
        JNull \<Rightarrow> Inr old
      | JNum l \<Rightarrow> (case parseInt l of Some i \<Rightarrow> if in64 i then Inr i else Inl typeError | None \<Rightarrow> Inl typeError)
      | _ \<Rightarrow> Inl typeError)"

definition decodeUint :: "nat \<Rightarrow> 'w :: len word \<Rightarrow> json \<Rightarrow> 'w word res" where
  "decodeUint w old j =
     (case j of
        JNull \<Rightarrow> Inr old
      | JNum l \<Rightarrow>
          (case parseUint l of
             Some i \<Rightarrow> if i < 2 ^ w then Inr (word_of_int i) else Inl typeError
           | None \<Rightarrow> Inl typeError)
      | _ \<Rightarrow> Inl typeError)"

definition decodeString :: "string \<Rightarrow> json \<Rightarrow> string res" where
  "decodeString old j = (case j of JNull \<Rightarrow> Inr old | JStr s \<Rightarrow> Inr s | _ \<Rightarrow> Inl typeError)"

fun decodeMembers ::
  "('v \<Rightarrow> json \<Rightarrow> 'v res) \<Rightarrow> 'v \<Rightarrow> (string \<times> json) list \<Rightarrow> (string, 'v) gomap \<Rightarrow> (string, 'v) gomap res" where
  "decodeMembers dec z [] m = Inr m"
| "decodeMembers dec z ((k, j) # r) m =
     (case dec z j of Inl e \<Rightarrow> Inl e | Inr v \<Rightarrow> decodeMembers dec z r (mset_key k v m))"

text \<open>\<open>null\<close> makes a map nil, which is read as the empty map.\<close>

definition decodeMap ::
  "('v \<Rightarrow> json \<Rightarrow> 'v res) \<Rightarrow> 'v \<Rightarrow> (string, 'v) gomap \<Rightarrow> json \<Rightarrow> (string, 'v) gomap res" where
  "decodeMap dec z old j =
     (case j of JNull \<Rightarrow> Inr [] | JObj ms \<Rightarrow> decodeMembers dec z ms old | _ \<Rightarrow> Inl typeError)"

text \<open>A member names a field when it equals the field's tag up to letter case.\<close>

definition fieldIs :: "string \<Rightarrow> string \<Rightarrow> bool" where
  "fieldIs tag k \<longleftrightarrow> toLower k = toLower tag"

definition setField :: "'v res \<Rightarrow> ('v \<Rightarrow> 'r) \<Rightarrow> 'r res" where
  "setField d upd = (case d of Inl e \<Rightarrow> Inl e | Inr v \<Rightarrow> Inr (upd v))"

fun decodeStruct ::
  "(string \<Rightarrow> json \<Rightarrow> 'r \<Rightarrow> 'r res) \<Rightarrow> (string \<times> json) list \<Rightarrow> 'r \<Rightarrow> 'r res" where
  "decodeStruct f [] x = Inr x"
| "decodeStruct f ((k, j) # r) x = (case f k j x of Inl e \<Rightarrow> Inl e | Inr y \<Rightarrow> decodeStruct f r y)"

definition decodeObject :: "(string \<Rightarrow> json \<Rightarrow> 'r \<Rightarrow> 'r res) \<Rightarrow> 'r \<Rightarrow> json \<Rightarrow> 'r res" where
  "decodeObject f x j =
     (case j of JNull \<Rightarrow> Inr x | JObj ms \<Rightarrow> decodeStruct f ms x | _ \<Rightarrow> Inl typeError)"

definition fileMetaField :: "string \<Rightarrow> json \<Rightarrow> FileMeta \<Rightarrow> FileMeta res" where
  "fileMetaField k j m =
     (if fieldIs ''size'' k then setField (decodeUint 64 (Size m) j) (\<lambda>v. m\<lparr>Size := v\<rparr>)
      else if fieldIs ''mode'' k then setField (decodeUint 32 (Mode m) j) (\<lambda>v. m\<lparr>Mode := v\<rparr>)
      else if fieldIs ''mtime'' k then setField (decodeInt (MTime m) j) (\<lambda>v. m\<lparr>MTime := v\<rparr>)
      else if fieldIs ''atime'' k then setField (decodeInt (ATime m) j) (\<lambda>v. m\<lparr>ATime := v\<rparr>)
      else if fieldIs ''inode'' k then setField (decodeUint 64 (Inode m) j) (\<lambda>v. m\<lparr>Inode := v\<rparr>)
      else Inr m)"

definition recoveryField :: "string \<Rightarrow> json \<Rightarrow> RecoveryEntry \<Rightarrow> RecoveryEntry res" where
  "recoveryField k j r =
     (if fieldIs ''path'' k then setField (decodeString (rePath r) j) (\<lambda>v. r\<lparr>rePath := v\<rparr>)
      else if fieldIs ''state'' k then setField (decodeString (reState r) j) (\<lambda>v. r\<lparr>reState := v\<rparr>)
      else if fieldIs ''reason'' k then setField (decodeString (reReason r) j) (\<lambda>v. r\<lparr>reReason := v\<rparr>)
      else if fieldIs ''observedUnixNano'' k then setField (decodeInt (reObserved r) j) (\<lambda>v. r\<lparr>reObserved := v\<rparr>)
      else Inr r)"

definition metadataField :: "string \<Rightarrow> json \<Rightarrow> Metadata \<Rightarrow> Metadata res" where
  "metadataField k j m =
     (if fieldIs ''version'' k then setField (decodeInt (Version m) j) (\<lambda>v. m\<lparr>Version := v\<rparr>)
      else if fieldIs ''files'' k then
        setField (decodeMap (decodeObject fileMetaField) zeroFileMeta (Files m) j) (\<lambda>v. m\<lparr>Files := v\<rparr>)
      else if fieldIs ''links'' k then
        setField (decodeMap decodeString [] (Links m) j) (\<lambda>v. m\<lparr>Links := v\<rparr>)
      else if fieldIs ''orphaned'' k then
        setField (decodeMap decodeInt 0 (Orphaned m) j) (\<lambda>v. m\<lparr>Orphaned := v\<rparr>)
      else if fieldIs ''recovery'' k then
        setField (decodeMap (decodeObject recoveryField) zeroRecovery (Recovery m) j) (\<lambda>v. m\<lparr>Recovery := v\<rparr>)
      else if fieldIs ''legacyTargets'' k then
        setField (decodeMap decodeString [] (LegacyTargets m) j) (\<lambda>v. m\<lparr>LegacyTargets := v\<rparr>)
      else if fieldIs ''displacedLinks'' k then
        (if j = JNull then Inr (m\<lparr>DisplacedLinks := None\<rparr>)
         else setField (decodeMap decodeString [] (case DisplacedLinks m of None \<Rightarrow> [] | Some d \<Rightarrow> d) j)
                (\<lambda>v. m\<lparr>DisplacedLinks := Some v\<rparr>))
      else Inr m)"

definition publicConfigField :: "string \<Rightarrow> json \<Rightarrow> PublicConfig \<Rightarrow> PublicConfig res" where
  "publicConfigField k j c =
     (if fieldIs ''version'' k then setField (decodeInt (cfgVersion c) j) (\<lambda>v. c\<lparr>cfgVersion := v\<rparr>)
      else if fieldIs ''volumeId'' k then setField (decodeString (cfgVolumeID c) j) (\<lambda>v. c\<lparr>cfgVolumeID := v\<rparr>)
      else if fieldIs ''recipient'' k then setField (decodeString (cfgRecipient c) j) (\<lambda>v. c\<lparr>cfgRecipient := v\<rparr>)
      else Inr c)"

definition decodeMetadata :: "Metadata \<Rightarrow> json \<Rightarrow> Metadata res" where
  "decodeMetadata = decodeObject metadataField"

text \<open>\<open>decodeBoundedJSON\<close>: the document is refused when it is longer than the bound.\<close>

definition decodeBoundedJSON :: "int \<Rightarrow> (json \<Rightarrow> 'r res) \<Rightarrow> bytes \<Rightarrow> 'r res" where
  "decodeBoundedJSON maximum dec data =
     (if int (length data) > maximum then Inl (Msg ''JSON document exceeds the maximum size'')
      else case parseJson (bytesStr data) of Inl e \<Rightarrow> Inl e | Inr j \<Rightarrow> dec j)"

definition jsonDocument :: "json \<Rightarrow> bytes" where
  "jsonDocument j = strBytes (printJson 0 j @ [newline])"

definition WriteJSONFileAtomic :: "string \<Rightarrow> json \<Rightarrow> u32 \<Rightarrow> ('z os_scheme, unit res) state" where
  "WriteJSONFileAtomic path value mode = WriteFileAtomic path (jsonDocument value) mode"

section \<open>Files of the vault\<close>

definition metadataLockFileName :: string where "metadataLockFileName = ''metadata.lock''"

definition loadPublicConfig :: "string \<Rightarrow> ('z os_scheme, PublicConfig res) state" where
  "loadPublicConfig cipherDir =
     andThen (mapErr (Wrap ''read public config'')
       (os_readFile (pathJoin [cipherDir, internalDirName, publicConfigName]))) (\<lambda>data.
       ret (case decodeBoundedJSON (1024 * 1024)
              (decodeObject publicConfigField \<lparr>cfgVersion = 0, cfgVolumeID = [], cfgRecipient = []\<rparr>) data of
          Inl e \<Rightarrow> Inl (Wrap ''parse public config'' e)
        | Inr config \<Rightarrow>
            if cfgVersion config \<noteq> formatVersion then Inl (Msg ''unsupported volume format version'')
            else if cfgVolumeID config = [] \<or> cfgRecipient config = [] then Inl (Msg ''invalid public config'')
            else Inr config))"

text \<open>metadata_lock.go: the lock file is created when it is missing, then locked with \<open>flock\<close>.\<close>

definition openCoordinationLock :: "string \<Rightarrow> ('z os_scheme, unit res) state" where
  "openCoordinationLock path = do {
     r \<leftarrow> os_open path;
     (case r of
        Inr _ \<Rightarrow> ret (Inr ())
      | Inl e \<Rightarrow>
          if \<not> errorsIs e ErrNotExist then ret (Inl e)
          else do {
            c \<leftarrow> os_createExcl path mode0600;
            (case c of
               Inr _ \<Rightarrow> ret (Inr ())
             | Inl e' \<Rightarrow>
                 if errorsIsErrno e' EEXIST then do {
                   o2 \<leftarrow> os_open path;
                   ret (case o2 of Inl x \<Rightarrow> Inl x | Inr _ \<Rightarrow> Inr ()) }
                 else ret (Inl e')) }) }"

definition withMetadataFileLock ::
  "string \<Rightarrow> ('z os_scheme, 'a res) state \<Rightarrow> ('z os_scheme, 'a res) state" where
  "withMetadataFileLock root action =
     andThen (mapErr (Wrap ''open metadata lock'')
       (openCoordinationLock (pathJoin [root, internalDirName, metadataLockFileName]))) (\<lambda>_.
     andThen (mapErr (Wrap ''lock metadata'') os_nop) (\<lambda>_. do {
       r \<leftarrow> action;
       u \<leftarrow> mapErr (Wrap ''unlock metadata'') os_nop;
       c \<leftarrow> mapErr (Wrap ''close metadata lock'') os_nop;
       ret (case errorsJoin [errOf r, errOf u, errOf c] of None \<Rightarrow> r | Some e \<Rightarrow> Inl e) }))"

definition metadataPath :: "string \<Rightarrow> string" where
  "metadataPath root = pathJoin [root, internalDirName, metadataFileName]"

definition saveMetadata :: "string \<Rightarrow> Metadata \<Rightarrow> ('z os_scheme, unit res) state" where
  "saveMetadata root m = WriteJSONFileAtomic (metadataPath root) (encodeMetadata m) mode0600"

section \<open>The document is read back as it was written\<close>

text \<open>
  A reader gets the maps in the order of their keys, and no displaced links instead of an
  empty map of them; as maps, nothing changes.
\<close>

definition canonical :: "Metadata \<Rightarrow> Metadata" where
  "canonical m =
     m\<lparr>Files := sort_key fst (Files m), Links := sort_key fst (Links m),
       Orphaned := sort_key fst (Orphaned m), Recovery := sort_key fst (Recovery m),
       LegacyTargets := sort_key fst (LegacyTargets m),
       DisplacedLinks := (case DisplacedLinks m of
          None \<Rightarrow> None | Some d \<Rightarrow> if d = [] then None else Some (sort_key fst d))\<rparr>"

definition okMap :: "('v \<Rightarrow> bool) \<Rightarrow> (string, 'v) gomap \<Rightarrow> bool" where
  "okMap P m \<longleftrightarrow> mwf m \<and> list_all (\<lambda>(k, v). validUtf8 k \<and> P v) m"

definition okFileMeta :: "FileMeta \<Rightarrow> bool" where
  "okFileMeta m \<longleftrightarrow> in64 (MTime m) \<and> in64 (ATime m)"

definition okRecovery :: "RecoveryEntry \<Rightarrow> bool" where
  "okRecovery r \<longleftrightarrow> validUtf8 (rePath r) \<and> validUtf8 (reState r) \<and> validUtf8 (reReason r) \<and> in64 (reObserved r)"

definition okMetadata :: "Metadata \<Rightarrow> bool" where
  "okMetadata m \<longleftrightarrow>
     in64 (Version m) \<and> okMap okFileMeta (Files m) \<and> okMap validUtf8 (Links m) \<and>
     okMap in64 (Orphaned m) \<and> okMap okRecovery (Recovery m) \<and> okMap validUtf8 (LegacyTargets m) \<and>
     (case DisplacedLinks m of None \<Rightarrow> True | Some d \<Rightarrow> okMap validUtf8 d)"

lemma update_fresh: "k \<notin> fst ` set m \<Longrightarrow> mset_key k v m = m @ [(k, v)]"
  by (induction m) (auto simp: mset_key_def)

lemma decodeMembers_encode:
  assumes "\<And>k v. (k, v) \<in> set xs \<Longrightarrow> dec z (f v) = Inr v"
    and "distinct (map fst (m @ xs))"
  shows "decodeMembers dec z (map (\<lambda>(k, v). (k, f v)) xs) m = Inr (m @ xs)"
  using assms
proof (induction xs arbitrary: m)
  case (Cons x xs)
  obtain k v where x: "x = (k, v)" by (cases x)
  have "dec z (f v) = Inr v" using Cons.prems(1) [of k v] x by simp
  moreover have "mset_key k v m = m @ [(k, v)]" using Cons.prems(2) x by (intro update_fresh) auto
  moreover have "decodeMembers dec z (map (\<lambda>(k, v). (k, f v)) xs) (m @ [(k, v)]) = Inr ((m @ [(k, v)]) @ xs)"
    using Cons.prems x by (intro Cons.IH) auto
  ultimately show ?case using x by simp
qed simp

lemma decodeMap_encodeMap:
  assumes "okMap P m" and "\<And>v. P v \<Longrightarrow> dec z (f v) = Inr v"
  shows "decodeMap dec z [] (encodeMap f m) = Inr (sort_key fst m)"
proof -
  have "distinct (map fst (sort_key fst m))"
    using assms(1) by (simp add: okMap_def mwf_def distinct_map distinct_sort inj_on_def)
  moreover have "dec z (f v) = Inr v" if "(k, v) \<in> set (sort_key fst m)" for k v
    using assms that by (auto simp: okMap_def list_all_iff)
  ultimately show ?thesis
    using decodeMembers_encode [of "sort_key fst m" dec z f "[]"]
    by (simp add: decodeMap_def encodeMap_def)
qed

lemma decodeInt_jint [simp]: "in64 i \<Longrightarrow> decodeInt old (jint i) = Inr i"
  by (simp add: decodeInt_def jint_def)

lemma parseUint_showInt: "0 \<le> i \<Longrightarrow> parseUint (showInt i) = Some i"
  by (simp add: showInt_def)

lemma decodeUint_jint [simp]: "decodeUint (LENGTH('w)) old (jint (uint (w :: 'w :: len word))) = Inr w"
  using uint_lt2p [of w] by (simp add: decodeUint_def jint_def parseUint_showInt)

lemma decodeUint_jint64 [simp]: "decodeUint 64 old (jint (uint (w :: u64))) = Inr w"
  using decodeUint_jint [of old w] by simp

lemma decodeUint_jint32 [simp]: "decodeUint 32 old (jint (uint (w :: u32))) = Inr w"
  using decodeUint_jint [of old w] by simp

lemma decodeString_JStr [simp]: "decodeString old (JStr s) = Inr s"
  by (simp add: decodeString_def)

lemma setField_Inr [simp]: "setField (Inr v) f = Inr (f v)"
  by (simp add: setField_def)

text \<open>The tags of the fields are different, so each member reaches its own field.\<close>

lemmas fields = fieldIs_def toLower_def lowerChar_def

lemma decodeStruct_append:
  "decodeStruct f (xs @ ys) x = (case decodeStruct f xs x of Inl e \<Rightarrow> Inl e | Inr y \<Rightarrow> decodeStruct f ys y)"
  by (induction f xs x rule: decodeStruct.induct) (auto split: sum.splits)

lemma decodeStruct_omitEmpty:
  "decodeStruct f (omitEmpty b k j) x = (if b then Inr x else f k j x)"
  by (auto simp: omitEmpty_def split: sum.splits)

lemma decode_encodeFileMeta:
  assumes "okFileMeta m"
  shows "decodeObject fileMetaField zeroFileMeta (encodeFileMeta m) = Inr m"
  using assms
  by (cases m)
    (simp add: decodeObject_def encodeFileMeta_def decodeStruct_append decodeStruct_omitEmpty
      fileMetaField_def fields okFileMeta_def zeroFileMeta_def)

lemma decode_encodeRecovery:
  assumes "okRecovery r"
  shows "decodeObject recoveryField zeroRecovery (encodeRecovery r) = Inr r"
  using assms
  by (cases r)
    (simp add: decodeObject_def encodeRecovery_def decodeStruct_append decodeStruct_omitEmpty
      recoveryField_def fields okRecovery_def zeroRecovery_def)

lemma metadataField_encode:
  assumes "okMetadata m"
  shows "metadataField ''version'' (jint (Version m)) x = Inr (x\<lparr>Version := Version m\<rparr>)"
    "Files x = [] \<Longrightarrow> metadataField ''files'' (encodeMap encodeFileMeta (Files m)) x =
       Inr (x\<lparr>Files := sort_key fst (Files m)\<rparr>)"
    "Links x = [] \<Longrightarrow> metadataField ''links'' (encodeMap JStr (Links m)) x =
       Inr (x\<lparr>Links := sort_key fst (Links m)\<rparr>)"
    "Orphaned x = [] \<Longrightarrow> metadataField ''orphaned'' (encodeMap jint (Orphaned m)) x =
       Inr (x\<lparr>Orphaned := sort_key fst (Orphaned m)\<rparr>)"
    "Recovery x = [] \<Longrightarrow> metadataField ''recovery'' (encodeMap encodeRecovery (Recovery m)) x =
       Inr (x\<lparr>Recovery := sort_key fst (Recovery m)\<rparr>)"
    "LegacyTargets x = [] \<Longrightarrow> metadataField ''legacyTargets'' (encodeMap JStr (LegacyTargets m)) x =
       Inr (x\<lparr>LegacyTargets := sort_key fst (LegacyTargets m)\<rparr>)"
    "DisplacedLinks x = None \<Longrightarrow> DisplacedLinks m = Some d \<Longrightarrow>
       metadataField ''displacedLinks'' (encodeMap JStr d) x =
       Inr (x\<lparr>DisplacedLinks := Some (sort_key fst d)\<rparr>)"
  using assms decodeMap_encodeMap [of validUtf8 _ decodeString "[]" JStr]
    decodeMap_encodeMap [of okFileMeta "Files m" "decodeObject fileMetaField" zeroFileMeta encodeFileMeta]
    decodeMap_encodeMap [of okRecovery "Recovery m" "decodeObject recoveryField" zeroRecovery encodeRecovery]
    decodeMap_encodeMap [of in64 "Orphaned m" decodeInt 0 jint]
  by (simp_all add: metadataField_def fields okMetadata_def decode_encodeFileMeta decode_encodeRecovery)
    (simp add: encodeMap_def)

lemma decode_encodeMetadata:
  assumes "okMetadata m"
  shows "decodeMetadata emptyMetadata (encodeMetadata m) = Inr (canonical m)"
proof -
  note e = decodeStruct_append decodeStruct_omitEmpty metadataField_encode [OF assms] emptyMetadata_def
  show ?thesis
    unfolding decodeMetadata_def decodeObject_def encodeMetadata_def canonical_def
    by (cases "DisplacedLinks m") (auto simp: e intro!: Metadata.equality)
qed

lemma wfJson_encodeMap:
  assumes "okMap P m" and "\<And>v. P v \<Longrightarrow> wfJson d (f v)"
  shows "wfJson (Suc d) (encodeMap f m)"
  using assms by (auto simp: encodeMap_def okMap_def list_all_iff)

lemma wfJson_jint [simp]: "wfJson d (jint i)"
  by (auto simp: jint_def)

lemma validUtf8_tags [simp]:
  "validUtf8 ''size''" "validUtf8 ''mode''" "validUtf8 ''mtime''" "validUtf8 ''atime''" "validUtf8 ''inode''"
  "validUtf8 ''path''" "validUtf8 ''state''" "validUtf8 ''reason''" "validUtf8 ''observedUnixNano''"
  "validUtf8 ''version''" "validUtf8 ''files''" "validUtf8 ''links''" "validUtf8 ''orphaned''"
  "validUtf8 ''recovery''" "validUtf8 ''legacyTargets''" "validUtf8 ''displacedLinks''"
  by (rule validUtf8_ascii, simp add: code_def)+

lemma wfJson_encodeMetadata:
  assumes "okMetadata m"
  shows "wfJson 10000 (encodeMetadata m)"
proof -
  have f: "wfJson 9998 (encodeFileMeta x)" for x
    by (auto simp: encodeFileMeta_def omitEmpty_def)
  have r: "okRecovery x \<Longrightarrow> wfJson 9998 (encodeRecovery x)" for x
    by (auto simp: encodeRecovery_def omitEmpty_def okRecovery_def)
  note w = wfJson_encodeMap [where d = 9998, simplified]
  have "wfJson 9999 (encodeMap encodeFileMeta (Files m))" "wfJson 9999 (encodeMap JStr (Links m))"
    "wfJson 9999 (encodeMap jint (Orphaned m))" "wfJson 9999 (encodeMap encodeRecovery (Recovery m))"
    "wfJson 9999 (encodeMap JStr (LegacyTargets m))"
    "\<And>d. DisplacedLinks m = Some d \<Longrightarrow> wfJson 9999 (encodeMap JStr d)"
    using assms f r w [of okFileMeta "Files m" encodeFileMeta] w [of okRecovery "Recovery m" encodeRecovery]
      w [of validUtf8 _ JStr] w [of in64 "Orphaned m" jint]
    by (simp_all add: okMetadata_def)
  then show ?thesis
    by (auto simp: encodeMetadata_def omitEmpty_def split: option.splits)
qed

text \<open>The document of a printable index is read back as the same index, up to the bound.\<close>

lemma decode_jsonDocument:
  assumes "okMetadata m" "int (length (jsonDocument (encodeMetadata m))) \<le> maximum"
  shows "decodeBoundedJSON maximum (decodeMetadata emptyMetadata) (jsonDocument (encodeMetadata m)) =
    Inr (canonical m)"
  using assms parseJson_printJson [OF wfJson_encodeMetadata [OF assms(1)]] decode_encodeMetadata [OF assms(1)]
  by (simp add: decodeBoundedJSON_def jsonDocument_def)

lemma map_of_sort_key: "mwf m \<Longrightarrow> map_of (sort_key fst m) = map_of m"
  by (rule map_of_eqI)
    (auto simp: mwf_def distinct_map distinct_sort inj_on_def intro!: map_of_inject_set [THEN iffD2])

text \<open>Strings that a document holds as they are: printable ASCII without escapes, as in digests.\<close>

definition visible :: "char \<Rightarrow> bool" where
  "visible c \<longleftrightarrow> 0x20 < code c \<and> code c < 0x80"

definition plainChar :: "char \<Rightarrow> bool" where
  "plainChar c \<longleftrightarrow> visible c \<and> escapeAscii c = [c]"

lemma plain_string:
  assumes "list_all plainChar s"
  shows "validUtf8 s" "appendString s = s"
proof -
  have "validUtf8 s \<and> appendString s = s" using assms
  proof (induction s)
    case (Cons c r)
    then have c: "code c < 0x80" "escapeAscii c = [c]" by (simp_all add: plainChar_def visible_def)
    then show ?case using Cons by (subst validUtf8.simps, subst appendString.simps) simp
  qed (simp add: validUtf8.simps appendString.simps)
  then show "validUtf8 s" "appendString s = s" by simp_all
qed

lemma hex_plain: "isLowerHex c \<Longrightarrow> plainChar c"
  by (auto simp: plainChar_def visible_def escapeAscii_def isLowerHex_def code_def Let_def)

lemma hexEncode_plain: "list_all plainChar (hexEncode bs)"
  using hexEncode_lower [of bs] hex_plain by (auto simp: list_all_iff)

end
