(* ===== verification/Migration.thy ===== *)
theory Migration
  imports MetaStore
begin

text \<open>
  Loading a vault's metadata: the migration of the version 1 layout and the reconciliation of
  the index with the ciphertext on disk (volume.go \<open>readMetadata\<close>, \<open>loadMetadata\<close>,
  \<open>reconcileLegacyMetadata\<close>, \<open>cleanupStaleTemporaryFiles\<close>; metadata_migration.go).
\<close>

section \<open>Version 1: reconciliation\<close>

definition fallbackMeta :: "string \<Rightarrow> int \<Rightarrow> FileMeta" where
  "fallbackMeta key modTime =
     \<lparr>Size = 0, Mode = mode0600, MTime = modTime, ATime = modTime, Inode = stableInode key\<rparr>"

text \<open>
  The callback of the walk over \<open>files/\<close>: the encrypted files found, with the identity of the
  file behind each of them (one device, so the inode number identifies the file).
\<close>

definition legacyVisit ::
  "string \<Rightarrow> string \<Rightarrow> node res \<Rightarrow> (string, FileMeta) gomap \<times> (string, u64) gomap \<Rightarrow>
   ('z os_scheme, ((string, FileMeta) gomap \<times> (string, u64) gomap) res) state" where
  "legacyVisit root path entry acc =
     (case entry of
        Inl walkErr \<Rightarrow> ret (Inl walkErr)
      | Inr n \<Rightarrow>
          if \<not> isRegNode n \<or> \<not> hasSuffix (pathBase path) encryptedSuffix then ret (Inr acc)
          else
            case pathRel root (trimSuffix path encryptedSuffix) of
              None \<Rightarrow> ret (Inl (Msg ''Rel: cannot make path relative''))
            | Some relative \<Rightarrow>
                (case validateRelativePath relative of
                   Inl e \<Rightarrow> ret (Inl e)
                 | Inr _ \<Rightarrow>
                     if isReservedStorageMetadataPath relative then ret (Inr acc)
                     else andThen (os_lstat path) (\<lambda>info.
                       ret (let key = metadataKey relative in
                         Inr (mset_key key (fallbackMeta key (fi_mtime (ninfo info))) (fst acc),
                              mset_key key (fi_ino (ninfo info)) (snd acc))))))"

text \<open>
  A ciphertext without a link that is another name of a linked file is a leftover of an
  interrupted move: it is removed and forgotten.
\<close>

definition dropDuplicate ::
  "string \<Rightarrow> (string, u64) gomap \<Rightarrow> string \<times> u64 \<Rightarrow> (string, FileMeta) gomap \<times> Metadata \<times> bool \<Rightarrow>
   ('z os_scheme, ((string, FileMeta) gomap \<times> Metadata \<times> bool) res) state" where
  "dropDuplicate root linked = (\<lambda>(key, identity) (actual, m, changed).
     if mgetz [] (Links m) key \<noteq> [] \<or> identity \<notin> snd ` set linked then ret (Inr (actual, m, changed))
     else do {
       r \<leftarrow> os_remove (pathJoin [root, key @ encryptedSuffix]);
       ret (case r of
          Inl e \<Rightarrow>
            if errorsIs e ErrNotExist
            then Inr (mdel key actual,
                      m\<lparr>Files := mdel key (Files m), DisplacedLinks := map_option (mdel key) (DisplacedLinks m)\<rparr>, True)
            else Inl e
        | Inr _ \<Rightarrow>
            Inr (mdel key actual,
                 m\<lparr>Files := mdel key (Files m), DisplacedLinks := map_option (mdel key) (DisplacedLinks m)\<rparr>, True)) })"

definition legacyFileStep ::
  "(string, FileMeta) gomap \<Rightarrow> string \<times> FileMeta \<Rightarrow> Metadata \<times> bool \<Rightarrow> Metadata \<times> bool" where
  "legacyFileStep actual = (\<lambda>(key, meta) (m, changed).
     if \<not> mhas actual key then
       (m\<lparr>Files := mdel key (Files m), DisplacedLinks := map_option (mdel key) (DisplacedLinks m)\<rparr>, True)
     else if Inode meta < 2 then
       (m\<lparr>Files := mset_key key (meta\<lparr>Inode := stableInode key\<rparr>) (Files m)\<rparr>, True)
     else (m, changed))"

definition addMissing :: "string \<times> FileMeta \<Rightarrow> Metadata \<times> bool \<Rightarrow> Metadata \<times> bool" where
  "addMissing = (\<lambda>(key, fallback) (m, changed).
     if mhas (Files m) key then (m, changed)
     else (m\<lparr>Files := mset_key key fallback (Files m)\<rparr>, True))"

definition pruneDisplaced :: "Metadata \<times> bool \<Rightarrow> Metadata \<times> bool" where
  "pruneDisplaced = (\<lambda>(m, changed).
     (case DisplacedLinks m of
        None \<Rightarrow> (m, changed)
      | Some d \<Rightarrow>
          let kept = mfilter (\<lambda>key target.
                mhas (Files m) key \<and> Clean (mgetz [] (Links m) key) = Clean target) d
          in (m\<lparr>DisplacedLinks := Some kept\<rparr>, changed \<or> kept \<noteq> d)))"

definition reconcileLegacyMetadata ::
  "string \<Rightarrow> Metadata \<Rightarrow> ('z os_scheme, (Metadata \<times> bool) res) state" where
  "reconcileLegacyMetadata root metadata =
     (let filesRoot = pathJoin [root, ''files''] in
      andThen (os_lstat filesRoot) (\<lambda>filesInfo.
      if \<not> isDirNode filesInfo then ret (Inl (Msg ''is not a directory''))
      else
        andThen (walkDir filesRoot (legacyVisit root) ([], [])) (\<lambda>(actual, physicalIDs).
        let linked = mfilter (\<lambda>key _. mgetz [] (Links metadata) key \<noteq> []) physicalIDs in
        andThen (foldRes (dropDuplicate root linked) physicalIDs (actual, metadata, False))
          (\<lambda>(actual', m, changed).
            ret (Inr (pruneDisplaced
              (fold addMissing actual'
                (fold (legacyFileStep actual') (Files m) (m, changed)))))))))"

section \<open>Version 1 to version 3\<close>

definition moveLegacyCiphertext :: "string \<Rightarrow> string \<Rightarrow> string \<Rightarrow> ('z os_scheme, unit res) state" where
  "moveLegacyCiphertext root legacyStorage objectStorage =
     (let oldPath = pathJoin [root, Clean legacyStorage] @ encryptedSuffix;
          newPath = pathJoin [root, Clean objectStorage] @ encryptedSuffix in do {
       oldR \<leftarrow> os_lstat oldPath;
       newR \<leftarrow> os_lstat newPath;
       (case (oldR, newR) of
          (Inr oldInfo, Inr newInfo) \<Rightarrow>
            if \<not> isRegNode oldInfo then ret (Inl (Msg ''legacy ciphertext is not a regular file''))
            else if \<not> isRegNode newInfo then ret (Inl (Msg ''protected object is not a regular file''))
            else if fi_ino (ninfo oldInfo) \<noteq> fi_ino (ninfo newInfo)
            then ret (Inl (Msg ''legacy and object ciphertext both exist''))
            else andThen (os_remove oldPath) (\<lambda>_. syncDirectory (pathDir oldPath))
        | (Inr oldInfo, Inl newErr) \<Rightarrow>
            if \<not> isRegNode oldInfo then ret (Inl (Msg ''legacy ciphertext is not a regular file''))
            else if errorsIs newErr ErrNotExist then
              andThen (renameNoReplace oldPath newPath) (\<lambda>_. do {
                a \<leftarrow> syncDirectory (pathDir oldPath);
                b \<leftarrow> syncDirectory (pathDir newPath);
                ret (resOf (errorsJoin [errOf a, errOf b])) })
            else ret (Inl newErr)
        | (Inl oldErr, Inr newInfo) \<Rightarrow>
            ret (if \<not> isRegNode newInfo then Inl (Msg ''protected object is not a regular file'')
                 else if errorsIs oldErr ErrNotExist then Inr ()
                 else Inl oldErr)
        | (Inl oldErr, Inl newErr) \<Rightarrow>
            ret (if \<not> errorsIs oldErr ErrNotExist then Inl oldErr
                 else if \<not> errorsIs newErr ErrNotExist then Inl newErr
                 else Inl (Msg ''ciphertext is missing for legacy entry''))) })"

text \<open>Empty directories of the old layout, longest names first; errors are ignored.\<close>

definition pruneLegacyStorageTree :: "string \<Rightarrow> ('z os_scheme, unit) state" where
  "pruneLegacyStorageTree root = do {
     r \<leftarrow> walkDir root (\<lambda>path entry directories.
       ret (case entry of
          Inl _ \<Rightarrow> Inr directories
        | Inr n \<Rightarrow> Inr (if isDirNode n then directories @ [path] else directories))) [];
     _ \<leftarrow> forEach (rev (sort_key length (case r of Inl _ \<Rightarrow> [] | Inr ds \<Rightarrow> ds)))
       (\<lambda>d. do { _ \<leftarrow> os_remove d; ret (Inr ()) });
     ret () }"

text \<open>One entry of the loop of \<open>migrateLegacyMetadata\<close>.\<close>

definition orphanedLegacy :: "string \<Rightarrow> string \<Rightarrow> string \<Rightarrow> int \<Rightarrow> Metadata \<Rightarrow> Metadata" where
  "orphanedLegacy newKey sourcePath legacyTarget now m =
     m\<lparr>Links := mset_key newKey (Clean sourcePath) (Links m),
       Orphaned := mset_key newKey now (Orphaned m),
       LegacyTargets := mset_key newKey legacyTarget (LegacyTargets m)\<rparr>"

definition migrateEntry ::
  "string \<Rightarrow> PublicConfig \<Rightarrow> (string, string) gomap \<Rightarrow> int \<Rightarrow> string \<times> FileMeta \<Rightarrow> Metadata \<Rightarrow>
   ('z os_scheme, Metadata res) state" where
  "migrateEntry root public legacyLinks now = (\<lambda>(legacyKey, meta) migrated.
     let objectID = legacyObjectID (cfgVolumeID public) legacyKey in
     case objectStoragePath objectID of
       Inl e \<Rightarrow> ret (Inl e)
     | Inr objectStorage \<Rightarrow>
         andThen (moveLegacyCiphertext root legacyKey objectStorage) (\<lambda>_.
           let newKey = metadataKey objectStorage;
               meta' = (if Inode meta < 2 then meta\<lparr>Inode := stableInode newKey\<rparr> else meta);
               m = migrated\<lparr>Files := mset_key newKey meta' (Files migrated)\<rparr>;
               legacyTarget = Clean (mgetz [] legacyLinks legacyKey) in
           case OriginalPath legacyKey of
             Inl _ \<Rightarrow> ret (Inr (m\<lparr>Orphaned := mset_key newKey now (Orphaned m)\<rparr>))
           | Inr sourcePath \<Rightarrow>
               if legacyTarget = ''.'' \<or> legacyTarget = [] then
                 ret (Inr (m\<lparr>Orphaned := mset_key newKey now (Orphaned m)\<rparr>))
               else
                 case legacyMountPoint sourcePath legacyTarget of
                   None \<Rightarrow> ret (Inr (orphanedLegacy newKey sourcePath legacyTarget now m))
                 | Some mountPoint \<Rightarrow> do {
                     cwd \<leftarrow> gets (\<lambda>s. envCwd (osEnv s));
                     (case mountedObjectPath cwd mountPoint objectID of
                        Inl e \<Rightarrow> ret (Inl e)
                      | Inr newTarget \<Rightarrow>
                          andThen (inspectProtectedLink sourcePath) (\<lambda>link.
                            if plIsSymlink link \<and> plTarget link = Clean newTarget then
                              ret (Inr (m\<lparr>Links := mset_key newKey (Clean sourcePath) (Links m)\<rparr>))
                            else if plIsSymlink link \<and> plTarget link = legacyTarget then
                              andThen (mapErr (Wrap ''retarget legacy protected link'')
                                (replaceProtectedLink sourcePath newTarget legacyTarget)) (\<lambda>_.
                                ret (Inr (m\<lparr>Links := mset_key newKey (Clean sourcePath) (Links m)\<rparr>)))
                            else ret (Inr (orphanedLegacy newKey sourcePath legacyTarget now m)))) }))"

definition migrateLegacyMetadata :: "string \<Rightarrow> Metadata \<Rightarrow> ('z os_scheme, Metadata res) state" where
  "migrateLegacyMetadata root legacy =
     andThen (reconcileLegacyMetadata root legacy) (\<lambda>(legacy', _).
     andThen (loadPublicConfig root) (\<lambda>public.
     andThen (mapErr (Wrap ''create protected object directory'')
       (os_mkdirAll (pathJoin [root, objectStorageDirectory]) mode0700)) (\<lambda>_. do {
       now \<leftarrow> timeNow;
       andThen (foldRes (migrateEntry root public (Links legacy') now) (Files legacy') emptyMetadata)
         (\<lambda>migrated. andThen (saveMetadata root migrated) (\<lambda>_. do {
           _ \<leftarrow> pruneLegacyStorageTree (pathJoin [root, ''files'']);
           ret (Inr migrated) })) })))"

section \<open>Reading the document\<close>

definition recoveryInvalid :: "string \<times> RecoveryEntry \<Rightarrow> bool" where
  "recoveryInvalid = (\<lambda>(_, r).
     (reState r \<noteq> RecoveryTrash \<and> reState r \<noteq> RecoveryConflict) \<or> rePath r = [] \<or> \<not> isAbs (rePath r))"

text \<open>What \<open>readMetadata\<close> checks in a document of the current or the previous version.\<close>

definition checkMetadata :: "Metadata \<Rightarrow> Metadata res" where
  "checkMetadata metadata =
     (if Version metadata \<noteq> previousMetadataFormatVersion \<and> Version metadata \<noteq> metadataFormatVersion
      then Inl (Msg ''unsupported metadata format version'')
      else if list_ex recoveryInvalid (Recovery metadata) then Inl (Msg ''invalid recovery'')
      else Inr metadata)"

definition readMetadata :: "string \<Rightarrow> ('z os_scheme, Metadata res) state" where
  "readMetadata root = do {
     r \<leftarrow> os_readFile (metadataPath root);
     (case r of
        Inl e \<Rightarrow> ret (Inl (Wrap ''open metadata'' e))
      | Inr data \<Rightarrow>
          (case decodeBoundedJSON (16 * 1024 * 1024) (decodeMetadata emptyMetadata) data of
             Inl e \<Rightarrow> ret (Inl (Wrap ''parse metadata'' e))
           | Inr metadata \<Rightarrow>
               if Version metadata = legacyMetadataFormatVersion
               then mapErr (Wrap ''migrate metadata'') (migrateLegacyMetadata root metadata)
               else ret (checkMetadata metadata))) }"

section \<open>Reconciliation with the objects directory\<close>

definition objectEntry ::
  "string \<Rightarrow> string \<times> node \<Rightarrow> (string, FileMeta) gomap \<Rightarrow> ('z os_scheme, (string, FileMeta) gomap res) state" where
  "objectEntry objectsRoot = (\<lambda>(name, n) actual.
     if \<not> isRegNode n \<or> \<not> hasSuffix name encryptedSuffix then ret (Inr actual)
     else
       case normalizeObjectID (trimSuffix name encryptedSuffix) of
         Inl _ \<Rightarrow> ret (Inr actual)
       | Inr objectID \<Rightarrow>
           andThen (os_lstat (pathJoin [objectsRoot, name])) (\<lambda>info.
             ret (Inr (case objectStoragePath objectID of
                Inl _ \<Rightarrow> actual
              | Inr storage \<Rightarrow>
                  let key = metadataKey storage in
                  mset_key key (fallbackMeta key (fi_mtime (ninfo info))) actual))))"

definition forget :: "string \<Rightarrow> Metadata \<Rightarrow> Metadata" where
  "forget key m =
     m\<lparr>Files := mdel key (Files m), Links := mdel key (Links m), Orphaned := mdel key (Orphaned m),
       Recovery := mdel key (Recovery m), LegacyTargets := mdel key (LegacyTargets m)\<rparr>"

definition reconcileFileStep ::
  "(string, FileMeta) gomap \<Rightarrow> string \<times> FileMeta \<Rightarrow> Metadata \<times> bool \<Rightarrow> Metadata \<times> bool" where
  "reconcileFileStep actual = (\<lambda>(key, meta) (m, changed).
     if \<not> mhas actual key then
       (case objectIDFromStoragePath key of Inl _ \<Rightarrow> (forget key m, True) | Inr _ \<Rightarrow> (m, changed))
     else if Inode meta < 2 then
       (m\<lparr>Files := mset_key key (meta\<lparr>Inode := stableInode key\<rparr>) (Files m)\<rparr>, True)
     else (m, changed))"

definition adoptObject ::
  "string \<times> FileMeta \<Rightarrow> Metadata \<times> bool \<Rightarrow> ('z os_scheme, (Metadata \<times> bool) res) state" where
  "adoptObject = (\<lambda>(key, fallback) (m, changed).
     if mhas (Files m) key then ret (Inr (m, changed))
     else do {
       now \<leftarrow> timeNow;
       ret (Inr (m\<lparr>Files := mset_key key fallback (Files m),
                   Orphaned := mset_key key now (Orphaned m)\<rparr>, True)) })"

text \<open>The four loops that drop entries of forgotten files, and orphan marks of recovery items.\<close>

definition pruneIndex :: "Metadata \<times> bool \<Rightarrow> Metadata \<times> bool" where
  "pruneIndex = (\<lambda>(m, changed).
     let has = mhas (Files m);
         links = mfilter (\<lambda>key _. has key) (Links m);
         orphaned = mfilter (\<lambda>key _. has key) (Orphaned m);
         recovery = mfilter (\<lambda>key _. has key) (Recovery m);
         orphaned' = mfilter (\<lambda>key when. \<not> (mhas recovery key \<and> when \<noteq> 0)) orphaned;
         targets = mfilter (\<lambda>key _. has key) (LegacyTargets m)
     in (m\<lparr>Links := links, Orphaned := orphaned', Recovery := recovery, LegacyTargets := targets\<rparr>,
         changed \<or> links \<noteq> Links m \<or> orphaned' \<noteq> Orphaned m \<or> recovery \<noteq> Recovery m \<or>
         targets \<noteq> LegacyTargets m))"

definition reconcileIndex ::
  "(string, FileMeta) gomap \<Rightarrow> Metadata \<Rightarrow> ('z os_scheme, (Metadata \<times> bool) res) state" where
  "reconcileIndex actual metadata =
     (let changed = (Version metadata \<noteq> metadataFormatVersion \<or> DisplacedLinks metadata \<noteq> None);
          m = metadata\<lparr>Version := metadataFormatVersion, DisplacedLinks := None\<rparr>
      in andThen (foldRes adoptObject actual (fold (reconcileFileStep actual) (Files m) (m, changed)))
           (\<lambda>mc. ret (Inr (pruneIndex mc))))"

definition reconcileMetadata ::
  "string \<Rightarrow> Metadata \<Rightarrow> ('z os_scheme, (Metadata \<times> bool) res) state" where
  "reconcileMetadata root metadata =
     (let objectsRoot = pathJoin [root, objectStorageDirectory] in
      andThen (os_lstat objectsRoot) (\<lambda>info.
      if \<not> isDirNode info then ret (Inl (Msg ''is not a directory''))
      else
        andThen (os_readDir objectsRoot) (\<lambda>entries.
        andThen (foldRes (objectEntry objectsRoot) entries []) (\<lambda>actual. reconcileIndex actual metadata))))"

definition loadMetadata :: "string \<Rightarrow> ('z os_scheme, Metadata res) state" where
  "loadMetadata root = withMetadataFileLock root (
     andThen (readMetadata root) (\<lambda>metadata.
     andThen (mapErr (Wrap ''reconcile metadata'') (reconcileMetadata root metadata)) (\<lambda>(m, changed).
       if changed
       then andThen (mapErr (Wrap ''save reconciled metadata'') (saveMetadata root m)) (\<lambda>_. ret (Inr m))
       else ret (Inr m))))"

text \<open>
  \<open>cleanupStaleTemporaryFiles\<close>: transaction files of the objects directory that are at least a
  day old are removed; every error is ignored.
\<close>

definition day :: int where "day = 24 * 60 * 60 * 1000000000"

definition cleanupStaleTemporaryFiles :: "string \<Rightarrow> int \<Rightarrow> ('z os_scheme, unit) state" where
  "cleanupStaleTemporaryFiles root now =
     (let objectsRoot = pathJoin [root, objectStorageDirectory] in do {
       _ \<leftarrow> walkDir objectsRoot (\<lambda>path entry u.
         case entry of
           Inl e \<Rightarrow> ret (if path = objectsRoot then Inl (Msg ''skip this directory'') else Inr u)
         | Inr n \<Rightarrow>
             let name = pathBase path in
             if isDirNode n \<or> \<not> hasPrefix name temporaryPrefix \<or> hasSuffix name encryptedSuffix \<or> isLinkNode n
             then ret (Inr u)
             else do {
               i \<leftarrow> os_lstat path;
               (case i of
                  Inl _ \<Rightarrow> ret (Inr u)
                | Inr info \<Rightarrow>
                    if \<not> isRegNode info \<or> now - fi_mtime (ninfo info) < day then ret (Inr u)
                    else do { _ \<leftarrow> os_remove path; ret (Inr u) }) }) ();
       ret () })"

section \<open>Correctness of the reconciliation\<close>

text \<open>An index is a map of files with marks for some of its keys.\<close>

definition wfMaps :: "Metadata \<Rightarrow> bool" where
  "wfMaps m \<longleftrightarrow> mwf (Files m) \<and> mwf (Links m) \<and> mwf (Orphaned m) \<and> mwf (Recovery m) \<and> mwf (LegacyTargets m)"

definition wfIndex :: "Metadata \<Rightarrow> bool" where
  "wfIndex m \<longleftrightarrow> wfMaps m \<and>
     (\<forall>k. mhas (Links m) k \<or> mhas (Orphaned m) k \<or> mhas (Recovery m) k \<or> mhas (LegacyTargets m) k \<longrightarrow>
        mhas (Files m) k)"

text \<open>A key that reconciliation may forget: no ciphertext, and not the name of an object.\<close>

definition stale :: "(string, FileMeta) gomap \<Rightarrow> string \<Rightarrow> bool" where
  "stale actual k \<longleftrightarrow> \<not> mhas actual k \<and> isl (objectIDFromStoragePath k)"

definition repaired :: "(string, FileMeta) gomap \<Rightarrow> string \<Rightarrow> FileMeta \<Rightarrow> FileMeta" where
  "repaired actual k meta = (if mhas actual k \<and> Inode meta < 2 then meta\<lparr>Inode := stableInode k\<rparr> else meta)"

lemma wfMaps_forget [simp]: "wfMaps m \<Longrightarrow> wfMaps (forget k m)"
  by (simp add: wfMaps_def forget_def)

lemma wfMaps_setFile [simp]: "wfMaps m \<Longrightarrow> wfMaps (m\<lparr>Files := mset_key k v (Files m)\<rparr>)"
  by (simp add: wfMaps_def)

definition filesReconciled ::
  "(string, FileMeta) gomap \<Rightarrow> (string, FileMeta) gomap \<Rightarrow> Metadata \<times> bool \<Rightarrow> Metadata \<times> bool \<Rightarrow> bool" where
  "filesReconciled actual xs = (\<lambda>(m, c) (m', c').
     (\<forall>k. map_of (Files m') k = (case map_of xs k of
        None \<Rightarrow> map_of (Files m) k
      | Some v \<Rightarrow> if stale actual k then None else Some (repaired actual k v))) \<and>
     (\<forall>k. map_of (Links m') k = (if mhas xs k \<and> stale actual k then None else map_of (Links m) k)) \<and>
     (\<forall>k. map_of (Recovery m') k = (if mhas xs k \<and> stale actual k then None else map_of (Recovery m) k)) \<and>
     (wfMaps m \<longrightarrow> wfMaps m') \<and> Version m' = Version m \<and> DisplacedLinks m' = DisplacedLinks m \<and>
     (\<not> c' \<longrightarrow> m' = m \<and> \<not> c))"

lemma reconcileFileStep_spec:
  assumes "map_of (Files m) key = Some meta"
  shows "filesReconciled actual [(key, meta)] (m, c) (reconcileFileStep actual (key, meta) (m, c))"
  using assms
  by (auto simp: filesReconciled_def reconcileFileStep_def stale_def repaired_def forget_def wfMaps_def
      mhas_def split: sum.splits)

lemma filesReconciled_trans:
  assumes "filesReconciled actual [(key, v)] (m, c) (m1, c1)" "filesReconciled actual xs (m1, c1) (m2, c2)"
    and "map_of xs key = None"
  shows "filesReconciled actual ((key, v) # xs) (m, c) (m2, c2)"
  using assms by (auto simp: filesReconciled_def mhas_def split: option.splits)

lemma reconcileFiles_spec:
  assumes "distinct (map fst xs)" and "\<And>k v. map_of xs k = Some v \<Longrightarrow> map_of (Files m) k = Some v"
  shows "filesReconciled actual xs (m, c) (fold (reconcileFileStep actual) xs (m, c))"
  using assms
proof (induction xs arbitrary: m c)
  case Nil
  then show ?case by (simp add: filesReconciled_def mhas_def)
next
  case (Cons x xs)
  obtain key meta where x: "x = (key, meta)" by (cases x)
  obtain m1 c1 where st: "reconcileFileStep actual (key, meta) (m, c) = (m1, c1)" by fastforce
  have fresh: "map_of xs key = None" using Cons.prems(1) x by (simp add: map_of_eq_None_iff)
  have step: "filesReconciled actual [(key, meta)] (m, c) (m1, c1)"
    using reconcileFileStep_spec [of m key meta actual c] Cons.prems(2) [of key meta] x st by simp
  have "map_of (Files m1) j = Some v" if "map_of xs j = Some v" for j v
    using that step Cons.prems(2) [of j v] x fresh by (auto simp: filesReconciled_def split: if_splits)
  then have "filesReconciled actual xs (m1, c1) (fold (reconcileFileStep actual) xs (m1, c1))"
    using Cons x by simp
  then show ?case
    using filesReconciled_trans [OF step, of xs] x st fresh
    by (cases "fold (reconcileFileStep actual) xs (m1, c1)") simp
qed

text \<open>Objects on disk that the index does not know are adopted.\<close>

definition adopted :: "(string, FileMeta) gomap \<Rightarrow> Metadata \<times> bool \<Rightarrow> Metadata \<times> bool \<Rightarrow> bool" where
  "adopted actual = (\<lambda>(m, c) (m', c').
     (\<forall>k. map_of (Files m') k = (case map_of (Files m) k of None \<Rightarrow> map_of actual k | Some v \<Rightarrow> Some v)) \<and>
     Links m' = Links m \<and> Recovery m' = Recovery m \<and> Version m' = Version m \<and>
     DisplacedLinks m' = DisplacedLinks m \<and> (wfMaps m \<longrightarrow> wfMaps m') \<and> (\<not> c' \<longrightarrow> m' = m \<and> \<not> c))"

lemma wp_adoptObject:
  "wp (adoptObject (k, v) (m, c)) Q = (\<lambda>s.
     if mhas (Files m) k then Q (Inr (m, c)) s
     else Q (Inr (m\<lparr>Files := mset_key k v (Files m),
       Orphaned := mset_key k (envNow (osEnv s) (osCalls s)) (Orphaned m)\<rparr>, True)) (tickd s))"
  by (simp add: adoptObject_def wp)

lemma wp_adoptObjects:
  assumes "\<And>mc t. adopted xs mc0 mc \<Longrightarrow> osNodes t = osNodes s \<Longrightarrow> Q (Inr mc) t"
  shows "wp (foldRes adoptObject xs mc0) Q s"
  using assms
proof (induction xs arbitrary: mc0 s)
  case Nil
  then show ?case by (cases mc0) (simp add: wp adopted_def split: option.splits)
next
  case (Cons x xs)
  obtain k v where x: "x = (k, v)" by (cases x)
  obtain m c where mc: "mc0 = (m, c)" by (cases mc0)
  have tr: "adopted (x # xs) (m, c) mc"
    if "adopted xs (m1, c1) mc" "map_of (Files m1) = (if mhas (Files m) k then map_of (Files m) else (map_of (Files m))(k \<mapsto> v))"
      "Links m1 = Links m" "Recovery m1 = Recovery m" "Version m1 = Version m"
      "DisplacedLinks m1 = DisplacedLinks m" "wfMaps m \<longrightarrow> wfMaps m1" "\<not> c1 \<longrightarrow> m1 = m \<and> \<not> c"
    for m1 c1 mc
    using that x by (cases mc) (auto simp: adopted_def mhas_def split: option.splits if_splits)
  show ?case
    unfolding foldRes.simps wp x mc wp_adoptObject
  proof (simp, intro conjI impI)
    assume "mhas (Files m) k"
    then show "wp (foldRes adoptObject xs (m, c)) Q s"
      by (intro Cons.IH Cons.prems) (auto intro!: tr simp: mc)
  next
    assume "\<not> mhas (Files m) k"
    then show "wp (foldRes adoptObject xs (m\<lparr>Files := mset_key k v (Files m),
        Orphaned := mset_key k (envNow (osEnv s) (osCalls s)) (Orphaned m)\<rparr>, True)) Q (tickd s)"
      by (intro Cons.IH Cons.prems) (auto intro!: tr simp: mc wfMaps_def)
  qed
qed

text \<open>The key of the object that a directory entry holds, if it holds one.\<close>

definition objectFile :: "string \<times> node \<Rightarrow> string option" where
  "objectFile = (\<lambda>(name, n).
     if \<not> isRegNode n \<or> \<not> hasSuffix name encryptedSuffix then None
     else case normalizeObjectID (trimSuffix name encryptedSuffix) of
       Inl _ \<Rightarrow> None
     | Inr objectID \<Rightarrow>
         (case objectStoragePath objectID of Inl _ \<Rightarrow> None | Inr storage \<Rightarrow> Some (metadataKey storage)))"

lemma wp_objectEntry:
  assumes "\<And>e. Q (Inl e) (tickd s)" and "objectFile x = None \<Longrightarrow> Q (Inr actual) s"
    and "objectFile x = None \<Longrightarrow> Q (Inr actual) (tickd s)"
    and "\<And>k v. objectFile x = Some k \<Longrightarrow> Q (Inr (mset_key k v actual)) (tickd s)"
  shows "wp (objectEntry root x actual) Q s"
  using assms
  by (cases x)
    (auto simp: objectEntry_def objectFile_def wp Let_def intro!: wp_lstatI split: sum.splits if_splits)

lemma wp_objectEntries:
  assumes "\<And>e t. osNodes t = osNodes s \<Longrightarrow> Q (Inl e) t"
    and "\<And>actual t. osNodes t = osNodes s \<Longrightarrow>
      (\<forall>k. mhas actual k \<longleftrightarrow> mhas actual0 k \<or> Some k \<in> objectFile ` set es) \<Longrightarrow> Q (Inr actual) t"
  shows "wp (foldRes (objectEntry root) es actual0) Q s"
  using assms
proof (induction es arbitrary: actual0 s)
  case Nil
  then show ?case by (simp add: wp)
next
  case (Cons x xs)
  show ?case
    unfolding foldRes.simps wp
    by (rule wp_objectEntry) (auto intro!: Cons.IH Cons.prems)
qed

text \<open>The outcome that \<open>loadMetadata\<close> relies on.\<close>

definition reconciled :: "(string \<times> node) list \<Rightarrow> Metadata \<Rightarrow> Metadata \<Rightarrow> bool \<Rightarrow> bool" where
  "reconciled entries m m' changed \<longleftrightarrow>
     wfIndex m' \<and> Version m' = metadataFormatVersion \<and> DisplacedLinks m' = None \<and>
     (\<forall>e k. e \<in> set entries \<longrightarrow> objectFile e = Some k \<longrightarrow> mhas (Files m') k) \<and>
     (\<forall>k. mhas (Recovery m') k \<longrightarrow> mgetz 0 (Orphaned m') k = 0) \<and>
     (\<forall>k objectID v. objectIDFromStoragePath k = Inr objectID \<longrightarrow> map_of (Files m) k = Some v \<longrightarrow>
        (\<exists>ino. map_of (Files m') k = Some (v\<lparr>Inode := ino\<rparr>)) \<and>
        map_of (Links m') k = map_of (Links m) k \<and> map_of (Recovery m') k = map_of (Recovery m) k) \<and>
     (\<not> changed \<longrightarrow> m' = m)"

lemma pruneIndex_spec:
  assumes "wfMaps m" and "pruneIndex (m, c) = (m', c')"
  shows "wfIndex m'" and "Files m' = Files m" and "Version m' = Version m" and "DisplacedLinks m' = DisplacedLinks m"
    and "mhas (Files m) k \<Longrightarrow> map_of (Links m') k = map_of (Links m) k"
    and "mhas (Files m) k \<Longrightarrow> map_of (Recovery m') k = map_of (Recovery m) k"
    and "mhas (Recovery m') k \<Longrightarrow> mgetz 0 (Orphaned m') k = 0"
    and "\<not> c' \<Longrightarrow> m' = m \<and> \<not> c"
proof -
  note e = assms(2) [symmetric, unfolded pruneIndex_def prod.case Let_def prod.inject]
  have w: "mwf (Links m)" "mwf (Orphaned m)" "mwf (Recovery m)" "mwf (LegacyTargets m)" "mwf (Files m)"
    using assms(1) by (simp_all add: wfMaps_def)
  show "Files m' = Files m" "Version m' = Version m" "DisplacedLinks m' = DisplacedLinks m"
    using e by simp_all
  show "mhas (Files m) k \<Longrightarrow> map_of (Links m') k = map_of (Links m) k"
    "mhas (Files m) k \<Longrightarrow> map_of (Recovery m') k = map_of (Recovery m) k"
    "mhas (Recovery m') k \<Longrightarrow> mgetz 0 (Orphaned m') k = 0"
    using e w by (auto simp: mget_mfilter mhas_def mgetz_def split: option.splits if_splits)
  show "wfIndex m'"
    using e w by (auto simp: wfIndex_def wfMaps_def mhas_def mget_mfilter split: option.splits if_splits)
  show "\<not> c' \<Longrightarrow> m' = m \<and> \<not> c" using e by auto
qed

lemma reconcile_steps:
  assumes "wfMaps m0" and m: "m = m0\<lparr>Version := metadataFormatVersion, DisplacedLinks := None\<rparr>"
    and c: "c = (Version m0 \<noteq> metadataFormatVersion \<or> DisplacedLinks m0 \<noteq> None)"
    and actual: "\<forall>k. mhas actual k \<longleftrightarrow> Some k \<in> objectFile ` set es"
    and ad: "adopted actual (fold (reconcileFileStep actual) (Files m) (m, c)) (m2, c2)"
    and pr: "pruneIndex (m2, c2) = (m3, c3)"
  shows "reconciled es m0 m3 c3"
proof -
  obtain m1 c1 where f: "fold (reconcileFileStep actual) (Files m) (m, c) = (m1, c1)" by fastforce
  have wm: "wfMaps m" using assms(1) m by (simp add: wfMaps_def)
  have r1: "filesReconciled actual (Files m) (m, c) (m1, c1)"
    using reconcileFiles_spec [of "Files m" m actual c] wm f by (simp add: wfMaps_def mwf_def)
  have w2: "wfMaps m2" using ad f r1 wm by (simp add: adopted_def filesReconciled_def)
  note p = pruneIndex_spec [OF w2 pr]
  have has: "mhas (Files m3) k" if "mhas actual k" for k
    using that ad f p(2) by (auto simp: adopted_def mhas_def split: option.splits)
  have keep: "(\<exists>ino. map_of (Files m3) k = Some (v\<lparr>Inode := ino\<rparr>)) \<and>
      map_of (Links m3) k = map_of (Links m0) k \<and> map_of (Recovery m3) k = map_of (Recovery m0) k"
    if k: "objectIDFromStoragePath k = Inr objectID" "map_of (Files m0) k = Some v" for k objectID v
  proof -
    have ns: "\<not> stale actual k" using k by (simp add: stale_def)
    have "\<exists>ino. repaired actual k v = v\<lparr>Inode := ino\<rparr>"
      by (cases v) (auto simp: repaired_def)
    then have "\<exists>ino. map_of (Files m3) k = Some (v\<lparr>Inode := ino\<rparr>)"
      using r1 ad f p(2) k ns m by (auto simp: filesReconciled_def adopted_def)
    moreover have "map_of (Links m2) k = map_of (Links m0) k" "map_of (Recovery m2) k = map_of (Recovery m0) k"
      using r1 ad f ns m by (simp_all add: filesReconciled_def adopted_def)
    ultimately show ?thesis using p(2,5,6) by (auto simp: mhas_def)
  qed
  have "m3 = m0" if "\<not> c3"
    using that p(8) ad f r1 c m by (auto simp: adopted_def filesReconciled_def)
  then show ?thesis
    using p(1,3,4,7) ad f r1 m has keep actual
    by (auto simp: reconciled_def adopted_def filesReconciled_def image_iff) (metis imageI)+
qed

lemma reconcileIndex_wp:
  assumes "wfMaps m" and "\<forall>k. mhas actual k \<longleftrightarrow> Some k \<in> objectFile ` set es"
    and "\<And>r t. osNodes t = osNodes s \<Longrightarrow>
      \<forall>m' changed. r = Inr (m', changed) \<longrightarrow> reconciled es m m' changed \<Longrightarrow> Q r t"
  shows "wp (reconcileIndex actual m) Q s"
  unfolding wp reconcileIndex_def Let_def
proof (rule wp_adoptObjects, goal_cases)
  case (1 mc t)
  then show ?case
    using reconcile_steps [OF assms(1) refl refl assms(2), of "fst mc" "snd mc"] assms(3) by auto
qed

lemma reconcileMetadata_wp:
  assumes "wfMaps m"
  shows "wp (reconcileMetadata root m) (\<lambda>r t. osNodes t = osNodes s \<and>
    (\<forall>m' changed. r = Inr (m', changed) \<longrightarrow>
       reconciled (childNames s (pathJoin [root, objectStorageDirectory])) m m' changed)) s"
  unfolding reconcileMetadata_def Let_def
  by (intro wp_andThenI wp_lstatI)
    (auto intro!: wp_andThenI wp_readDirI wp_objectEntries
      reconcileIndex_wp [OF assms, where es = "childNames s (pathJoin [root, objectStorageDirectory])"]
      simp: wp_return wp_if)

end
