(* ===== verification/Index.thy ===== *)
theory Index
  imports Migration
begin

text \<open>
  The in-memory index of a volume and its transactions (volume.go): every mutation rereads
  the document under the cross-process lock, applies the change, saves the result atomically
  and only then publishes it. Each change is a named definition; the contract they share is
  the locale \<open>index_update\<close>, interpreted once for every operation.
\<close>

section \<open>State\<close>

record volume = os +
  vRoot :: string
  vConfig :: PublicConfig
  vMaxFileSize :: int
  vUid :: u32
  vGid :: u32
  vMetadata :: Metadata
  vPending :: "(string, int) gomap"
  vFlushTimer :: bool

section \<open>Transactions\<close>

definition mergeAccess :: "string \<times> int \<Rightarrow> Metadata \<Rightarrow> Metadata" where
  "mergeAccess = (\<lambda>(key, accessedAt) m.
     (case mget (Files m) key of
        None \<Rightarrow> m
      | Some meta \<Rightarrow>
          if accessedAt > ATime meta
          then m\<lparr>Files := mset_key key (meta\<lparr>ATime := accessedAt\<rparr>) (Files m)\<rparr> else m))"

definition mergePending :: "(string, int) gomap \<Rightarrow> Metadata \<Rightarrow> Metadata" where
  "mergePending pending m = fold mergeAccess pending m"

definition refreshMetadata :: "('z volume_scheme, unit res) state" where
  "refreshMetadata = do {
     root \<leftarrow> gets vRoot;
     pending \<leftarrow> gets vPending;
     andThen (withMetadataFileLock root (readMetadata root)) (\<lambda>current. do {
       _ \<leftarrow> modify (\<lambda>s. s\<lparr>vMetadata := mergePending pending current\<rparr>);
       ret (Inr ()) }) }"

text \<open>Publishing the saved document and forgetting the access times that it contains.\<close>

definition dropFlushed :: "string \<times> int \<Rightarrow> (string, int) gomap \<Rightarrow> (string, int) gomap" where
  "dropFlushed = (\<lambda>(key, flushedAt) p. if mgetz 0 p key \<le> flushedAt then mdel key p else p)"

definition publishMetadata :: "(string, int) gomap \<Rightarrow> Metadata \<Rightarrow> 'z volume_scheme \<Rightarrow> 'z volume_scheme" where
  "publishMetadata pending next s =
     (let left = fold dropFlushed pending (vPending s)
      in s\<lparr>vMetadata := next, vPending := left, vFlushTimer := (if left = [] then False else vFlushTimer s)\<rparr>)"

definition updateMetadataLocked ::
  "(Metadata \<Rightarrow> ('z volume_scheme, Metadata res) state) \<Rightarrow> ('z volume_scheme, unit res) state" where
  "updateMetadataLocked update = do {
     root \<leftarrow> gets vRoot;
     pending \<leftarrow> gets vPending;
     andThen (withMetadataFileLock root (
       andThen (readMetadata root) (\<lambda>current.
       andThen (update (mergePending pending current)) (\<lambda>next.
       andThen (saveMetadata root next) (\<lambda>_. ret (Inr next)))))) (\<lambda>next. do {
       _ \<leftarrow> modify (publishMetadata pending next);
       ret (Inr ()) }) }"

section \<open>Access times\<close>

definition accessTimeMinimumAdvance :: int where "accessTimeMinimumAdvance = 60 * 1000000000"

definition recordFileAccess :: "string \<Rightarrow> int \<Rightarrow> ('z volume_scheme, unit) state" where
  "recordFileAccess relative accessedAt = modify (\<lambda>s.
     let key = metadataKey relative in
     case mget (Files (vMetadata s)) key of
       None \<Rightarrow> s
     | Some meta \<Rightarrow>
         if accessedAt \<le> ATime meta \<or> wrap64 (accessedAt - ATime meta) < accessTimeMinimumAdvance then s
         else s\<lparr>vMetadata := (vMetadata s)\<lparr>Files :=
                  mset_key key (meta\<lparr>ATime := accessedAt\<rparr>) (Files (vMetadata s))\<rparr>,
                vPending := mset_key key accessedAt (vPending s),
                vFlushTimer := True\<rparr>)"

text \<open>The timer callback rearms the timer when the write failed.\<close>

definition flushAccessTimesInBackground :: "('z volume_scheme, unit) state" where
  "flushAccessTimesInBackground = do {
     _ \<leftarrow> modify (\<lambda>s. s\<lparr>vFlushTimer := False\<rparr>);
     pending \<leftarrow> gets vPending;
     (if pending = [] then ret ()
      else do {
        r \<leftarrow> updateMetadataLocked (\<lambda>m. ret (Inr m));
        pending' \<leftarrow> gets vPending;
        (if errOf r \<noteq> None \<and> pending' \<noteq> [] then modify (\<lambda>s. s\<lparr>vFlushTimer := True\<rparr>) else ret ()) }) }"

definition FlushAccessTimes :: "('z volume_scheme, unit res) state" where
  "FlushAccessTimes = do {
     _ \<leftarrow> modify (\<lambda>s. s\<lparr>vFlushTimer := False\<rparr>);
     pending \<leftarrow> gets vPending;
     (if pending = [] then ret (Inr ()) else updateMetadataLocked (\<lambda>m. ret (Inr m))) }"

section \<open>File records\<close>

definition leUint64 :: "bytes \<Rightarrow> u64" where
  "leUint64 b = foldr (\<lambda>x n. ucast x OR push_bit 8 n) (take 8 b) 0"

definition newVirtualInode :: "string \<Rightarrow> ('z os_scheme, u64) state" where
  "newVirtualInode relative = do {
     r \<leftarrow> randRead;
     (case r of
        Some b \<Rightarrow>
          let inode = leUint64 b OR push_bit 63 1 in
          if inode \<ge> 2 then ret inode
          else do { now \<leftarrow> timeNow; ret (stableInode (relative @ '':'' @ showInt now)) }
      | None \<Rightarrow> do { now \<leftarrow> timeNow; ret (stableInode (relative @ '':'' @ showInt now)) }) }"

definition inodeFromFileInfo :: "node option \<Rightarrow> u64 \<Rightarrow> u64" where
  "inodeFromFileInfo info fallback =
     (case info of
        Some n \<Rightarrow>
          if fi_ino (ninfo n) \<ge> 2 then fi_ino (ninfo n)
          else if fallback < 2 then fallback + 2 else fallback
      | None \<Rightarrow> if fallback < 2 then fallback + 2 else fallback)"

definition inodeFromFileMeta :: "FileMeta \<Rightarrow> string \<Rightarrow> u64" where
  "inodeFromFileMeta meta relative = (if Inode meta \<ge> 2 then Inode meta else stableInode relative)"

definition fileMeta :: "string \<Rightarrow> node option \<Rightarrow> ('z volume_scheme, FileMeta) state" where
  "fileMeta relative encryptedInfo =
     (let key = metadataKey relative;
          fallback = do {
            modTime \<leftarrow> (case encryptedInfo of None \<Rightarrow> timeNow | Some n \<Rightarrow> ret (fi_mtime (ninfo n)));
            ret \<lparr>Size = 0, Mode = mode0600, MTime = modTime, ATime = modTime,
                 Inode = inodeFromFileInfo encryptedInfo (stableInode relative)\<rparr> } in do {
       known \<leftarrow> gets (\<lambda>s. mget (Files (vMetadata s)) key);
       (case known of
          Some meta \<Rightarrow> ret meta
        | None \<Rightarrow> do {
            r \<leftarrow> refreshMetadata;
            again \<leftarrow> gets (\<lambda>s. mget (Files (vMetadata s)) key);
            (case (r, again) of
               (Inr _, Some meta) \<Rightarrow> ret meta
             | _ \<Rightarrow> fallback) }) })"

definition chooseInode :: "string \<Rightarrow> FileMeta \<Rightarrow> FileMeta option \<Rightarrow> ('z os_scheme, u64) state" where
  "chooseInode relative meta current =
     (if Inode meta < 2 then
        (case current of
           Some c \<Rightarrow> if Inode c \<ge> 2 then ret (Inode c) else newVirtualInode relative
         | None \<Rightarrow> newVirtualInode relative)
      else ret (Inode meta))"

definition storeFileMeta :: "string \<Rightarrow> FileMeta \<Rightarrow> Metadata \<Rightarrow> ('z os_scheme, Metadata res) state" where
  "storeFileMeta key meta metadata =
     (let m = metadata\<lparr>Files := mset_key key meta (Files metadata)\<rparr> in
      if \<not> mhas (Files metadata) key \<and> mgetz [] (Links metadata) key = [] then do {
        now \<leftarrow> timeNow;
        ret (Inr (m\<lparr>Orphaned := mset_key key now (Orphaned m)\<rparr>)) }
      else ret (Inr m))"

definition updSetFileMeta :: "string \<Rightarrow> FileMeta \<Rightarrow> Metadata \<Rightarrow> ('z os_scheme, Metadata res) state" where
  "updSetFileMeta relative meta metadata =
     (let key = metadataKey relative in do {
       inode \<leftarrow> chooseInode relative meta (mget (Files metadata) key);
       storeFileMeta key (meta\<lparr>Inode := inode\<rparr>) metadata })"

definition setFileMeta :: "string \<Rightarrow> FileMeta \<Rightarrow> ('z volume_scheme, unit res) state" where
  "setFileMeta relative meta =
     updateMetadataLocked (updSetFileMeta relative (meta\<lparr>Mode := Mode meta AND mode0777\<rparr>))"

definition deleteFileMetadata :: "Metadata \<Rightarrow> string \<Rightarrow> Metadata" where
  "deleteFileMetadata m key =
     m\<lparr>Files := mdel key (Files m), Links := mdel key (Links m), Orphaned := mdel key (Orphaned m),
       Recovery := mdel key (Recovery m), LegacyTargets := mdel key (LegacyTargets m),
       DisplacedLinks := map_option (mdel key) (DisplacedLinks m)\<rparr>"

definition removeFileMeta :: "string \<Rightarrow> ('z volume_scheme, unit res) state" where
  "removeFileMeta relative =
     updateMetadataLocked (\<lambda>m. ret (Inr (deleteFileMetadata m (metadataKey relative))))"

section \<open>Link records\<close>

record linkRecord =
  lrRelative :: string
  lrSourcePath :: string
  lrProtected :: bool
  lrOrphanedAt :: int
  lrRecovery :: RecoveryEntry
  lrLegacyTarget :: string

definition zeroRecord :: linkRecord where
  "zeroRecord = \<lparr>lrRelative = [], lrSourcePath = [], lrProtected = False, lrOrphanedAt = 0,
     lrRecovery = zeroRecovery, lrLegacyTarget = []\<rparr>"

definition recordOf :: "Metadata \<Rightarrow> string \<Rightarrow> linkRecord" where
  "recordOf m key =
     (let base = (if mhas (Files m) key
        then \<lparr>lrRelative = key, lrSourcePath = mgetz [] (Links m) key, lrProtected = True,
              lrOrphanedAt = mgetz 0 (Orphaned m) key, lrRecovery = mgetz zeroRecovery (Recovery m) key,
              lrLegacyTarget = mgetz [] (LegacyTargets m) key\<rparr>
        else zeroRecord)
      in if mgetz [] (Links m) key = [] then base
         else base\<lparr>lrRelative := key, lrSourcePath := mgetz [] (Links m) key\<rparr>)"

text \<open>The keys of both maps in sorted order, each once.\<close>

definition linkRecordsOf :: "Metadata \<Rightarrow> linkRecord list" where
  "linkRecordsOf m =
     map (recordOf m)
       (sort (remdups (map fst (Files m) @ map fst (mfilter (\<lambda>_ source. source \<noteq> []) (Links m)))))"

definition linkRecords :: "('z volume_scheme, linkRecord list) state" where
  "linkRecords = gets (\<lambda>s. linkRecordsOf (vMetadata s))"

text \<open>The change that \<open>setLinkSource\<close> and \<open>RegisterProtectedLinkInVault\<close> make.\<close>

definition linkSourceSet :: "string \<Rightarrow> string \<Rightarrow> Metadata \<Rightarrow> Metadata res" where
  "linkSourceSet key source m =
     (if \<not> mhas (Files m) key then Inl (Sentinel ErrNotExist)
      else Inr (m\<lparr>Links := mset_key key source (Links m), Orphaned := mdel key (Orphaned m),
                  Recovery := mdel key (Recovery m), LegacyTargets := mdel key (LegacyTargets m)\<rparr>))"

definition setLinkSource :: "string \<Rightarrow> string \<Rightarrow> ('z volume_scheme, unit res) state" where
  "setLinkSource relative source =
     andThen (ResolvePathEntry source) (\<lambda>resolved.
       updateMetadataLocked (\<lambda>m. ret (linkSourceSet (metadataKey relative) (Clean resolved) m)))"

definition linkOrphanMarked :: "string \<Rightarrow> int \<Rightarrow> Metadata \<Rightarrow> Metadata res" where
  "linkOrphanMarked key when m =
     (if \<not> mhas (Files m) key then Inl (Sentinel ErrNotExist)
      else Inr (if mgetz 0 (Orphaned m) key = 0
                then m\<lparr>Orphaned := mset_key key when (Orphaned m)\<rparr> else m))"

definition markLinkOrphan :: "string \<Rightarrow> int \<Rightarrow> ('z volume_scheme, unit res) state" where
  "markLinkOrphan relative when = do {
     known \<leftarrow> gets (\<lambda>s. mgetz 0 (Orphaned (vMetadata s)) (metadataKey relative));
     (if known \<noteq> 0 then ret (Inr ()) else updateMetadataLocked (\<lambda>m. ret (linkOrphanMarked (metadataKey relative) when m))) }"

definition linkOrphanCleared :: "string \<Rightarrow> Metadata \<Rightarrow> Metadata res" where
  "linkOrphanCleared key m =
     Inr (m\<lparr>Orphaned := mdel key (Orphaned m), Recovery := mdel key (Recovery m),
            LegacyTargets := mdel key (LegacyTargets m)\<rparr>)"

definition clearLinkOrphan :: "string \<Rightarrow> ('z volume_scheme, unit res) state" where
  "clearLinkOrphan relative = do {
     clean \<leftarrow> gets (\<lambda>s. let key = metadataKey relative; m = vMetadata s in
       mgetz 0 (Orphaned m) key = 0 \<and> mgetz [] (LegacyTargets m) key = [] \<and>
       reState (mgetz zeroRecovery (Recovery m) key) = []);
     (if clean then ret (Inr ()) else updateMetadataLocked (\<lambda>m. ret (linkOrphanCleared (metadataKey relative) m))) }"

definition linkRecoveryMarked :: "string \<Rightarrow> string \<Rightarrow> string \<Rightarrow> int \<Rightarrow> Metadata \<Rightarrow> Metadata res" where
  "linkRecoveryMarked key state reason when m =
     (let existing = mgetz zeroRecovery (Recovery m) key;
          path = (if rePath existing \<noteq> [] then rePath existing else mgetz [] (Links m) key) in
      if \<not> mhas (Files m) key then Inl (Sentinel ErrNotExist)
      else if path = [] \<or> \<not> isAbs path
      then Inl (Msg ''protected object has no absolute recovery path'')
      else Inr (m\<lparr>Recovery := mset_key key
                    \<lparr>rePath = Clean path, reState = state, reReason = reason, reObserved = when\<rparr> (Recovery m),
                  Orphaned := mdel key (Orphaned m),
                  LegacyTargets := mdel key (LegacyTargets m)\<rparr>))"

definition markLinkRecovery :: "string \<Rightarrow> string \<Rightarrow> string \<Rightarrow> int \<Rightarrow> ('z volume_scheme, unit res) state" where
  "markLinkRecovery relative state reason when =
     (if state \<noteq> RecoveryTrash \<and> state \<noteq> RecoveryConflict then ret (Inl (Msg ''invalid recovery state''))
      else updateMetadataLocked (\<lambda>m. ret (linkRecoveryMarked (metadataKey relative) state reason when m)))"

section \<open>Reading and locking\<close>

text \<open>The index that the document on disk holds, when it is readable and needs no migration.\<close>

definition diskMetadata :: "'z os_scheme \<Rightarrow> string \<Rightarrow> Metadata option" where
  "diskMetadata s root =
     (case nodeAt s (metadataPath root) of
        Some (Regular i d) \<Rightarrow>
          (case decodeBoundedJSON (16 * 1024 * 1024) (decodeMetadata emptyMetadata) d of
             Inr m \<Rightarrow>
               if Version m = legacyMetadataFormatVersion then None
               else (case checkMetadata m of Inr m' \<Rightarrow> Some m' | Inl _ \<Rightarrow> None)
           | Inl _ \<Rightarrow> None)
      | _ \<Rightarrow> None)"

lemma diskMetadata_cong:
  "nodeAt t (metadataPath root) = nodeAt s (metadataPath root) \<Longrightarrow> diskMetadata t root = diskMetadata s root"
  by (simp add: diskMetadata_def)

lemma wp_readMetadataI:
  assumes "diskMetadata s root = Some m"
    and "\<And>e. Q (Inl e) (tickd s)" and "\<And>e. Q (Inl e) (tickd (tickd s))" and "Q (Inr m) (tickd (tickd s))"
  shows "wp (readMetadata root) Q s"
proof -
  from assms(1) obtain i d m0 where d: "nodeAt s (metadataPath root) = Some (Regular i d)"
    "decodeBoundedJSON (16 * 1024 * 1024) (decodeMetadata emptyMetadata) d = Inr m0"
    "Version m0 \<noteq> legacyMetadataFormatVersion" "checkMetadata m0 = Inr m"
    by (auto simp: diskMetadata_def split: option.splits node.splits sum.splits if_splits)
  have f: "followNode 40 (osNodes s) (metadataPath root) = Inr (Regular i d)"
    using d(1) by (subst followNode.simps) (simp add: nodeAt_def)
  show ?thesis
    unfolding readMetadata_def wp
    by (rule wp_readFileI) (use assms d f in \<open>auto simp: wp\<close>)
qed

definition lockPath :: "string \<Rightarrow> string" where
  "lockPath root = pathJoin [root, internalDirName, metadataLockFileName]"

lemma wp_openCoordinationLockI:
  assumes "\<And>r t. onlyCreates {} {p} s t \<Longrightarrow> Q r t"
  shows "wp (openCoordinationLock p) Q s"
  unfolding openCoordinationLock_def wp
  by (rule wp_openI)
    (auto intro!: wp_createExclI wp_openI assms simp: wp onlyCreates_def)

lemma wp_withLockI:
  assumes "\<And>e t. onlyCreates {} {lockPath root} s t \<Longrightarrow> Q (Inl e) t"
    and "\<And>t. onlyCreates {} {lockPath root} s t \<Longrightarrow> wp action R t"
    and "\<And>r t. R r t \<Longrightarrow> Q r (tickd (tickd t))" and "\<And>e r t. R r t \<Longrightarrow> Q (Inl e) (tickd (tickd t))"
  shows "wp (withMetadataFileLock root action) Q s"
  unfolding withMetadataFileLock_def lockPath_def [symmetric] wp
proof (rule wp_openCoordinationLockI, goal_cases)
  case (1 r t)
  have after: "wp action (\<lambda>a. wp os_nop (\<lambda>u. wp os_nop (\<lambda>c.
      Q (case errorsJoin [errOf a, errOf (case u of Inl e \<Rightarrow> Inl (Wrap ''unlock metadata'' e) | Inr x \<Rightarrow> Inr x),
            errOf (case c of Inl e \<Rightarrow> Inl (Wrap ''close metadata lock'' e) | Inr x \<Rightarrow> Inr x)] of
          None \<Rightarrow> a | Some e \<Rightarrow> Inl e)))) t'" if "onlyCreates {} {lockPath root} s t'" for t'
    by (rule wp_mono [OF assms(2) [OF that]])
      (auto intro!: wp_nopI intro: assms(3,4) split: option.splits)
  show ?case
    using 1 assms(1) after by (cases r) (auto intro!: wp_nopI)
qed

section \<open>The contract of an index update\<close>

text \<open>Two states that differ only in the number of system calls made.\<close>

definition onlyTicks :: "'z os_scheme \<Rightarrow> 'z os_scheme \<Rightarrow> bool" where
  "onlyTicks s t \<longleftrightarrow> osNodes t = osNodes s \<and> osEnv t = osEnv s \<and> os.more t = os.more s"

lemma onlyTicks_simps [simp]: "onlyTicks s s" "onlyTicks s (tickd t) = onlyTicks s t"
  "onlyTicks (tickd s) t = onlyTicks s t"
  by (simp_all add: onlyTicks_def)

lemma onlyTicks_trans: "onlyTicks s t \<Longrightarrow> onlyTicks t u \<Longrightarrow> onlyTicks s u"
  by (simp add: onlyTicks_def)

lemma onlyTicks_onlyCreates: "onlyTicks t u \<Longrightarrow> onlyCreates X C s u = onlyCreates X C s t"
  by (simp add: onlyTicks_def onlyCreates_def nodeAt_def)

lemma onlyTicks_nodeAt: "onlyTicks t u \<Longrightarrow> nodeAt u p = nodeAt t p"
  by (simp add: onlyTicks_def nodeAt_def)

lemma more_volume:
  assumes "os.more t = os.more s"
  shows "vMetadata t = vMetadata s" "vPending t = vPending s" "vRoot t = vRoot s"
    "vFlushTimer t = vFlushTimer s" "vConfig t = vConfig s" "vMaxFileSize t = vMaxFileSize s"
    "vUid t = vUid s" "vGid t = vGid s" "volume.more t = volume.more s"
  using assms by (cases s, cases t, simp)+

lemma tickd_volume [simp]:
  "vMetadata (tickd s) = vMetadata s" "vPending (tickd s) = vPending s" "vRoot (tickd s) = vRoot s"
  "vFlushTimer (tickd s) = vFlushTimer s" "vConfig (tickd s) = vConfig s"
  "vMaxFileSize (tickd s) = vMaxFileSize s" "vUid (tickd s) = vUid s" "vGid (tickd s) = vGid s"
  "volume.more (tickd s) = volume.more s"
  by (simp_all add: tickd_def)

lemma publish_simps [simp]:
  "nodeAt (publishMetadata p m s) q = nodeAt s q" "osEnv (publishMetadata p m s) = osEnv s"
  "vMetadata (publishMetadata p m s) = m" "vRoot (publishMetadata p m s) = vRoot s"
  "vConfig (publishMetadata p m s) = vConfig s" "vMaxFileSize (publishMetadata p m s) = vMaxFileSize s"
  "vUid (publishMetadata p m s) = vUid s" "vGid (publishMetadata p m s) = vGid s"
  "volume.more (publishMetadata p m s) = volume.more s"
  by (simp_all add: publishMetadata_def nodeAt_def Let_def)

text \<open>What a transaction may create besides replacing the document.\<close>

definition metadataScratch :: "string \<Rightarrow> string set" where
  "metadataScratch root =
     {lockPath root} \<union> scratchPaths (metadataPath root) ''.passfs-config-''"

text \<open>
  Two states of a volume that agree on its settings and on the tree, except for the paths in
  \<open>X\<close> and for new entries in \<open>C\<close>. The index and its pending access times may differ.
\<close>

definition volFrame :: "string set \<Rightarrow> string set \<Rightarrow> 'z volume_scheme \<Rightarrow> 'z volume_scheme \<Rightarrow> bool" where
  "volFrame X C s t \<longleftrightarrow>
     osEnv t = osEnv s \<and> vRoot t = vRoot s \<and> vConfig t = vConfig s \<and> vMaxFileSize t = vMaxFileSize s \<and>
     vUid t = vUid s \<and> vGid t = vGid s \<and> volume.more t = volume.more s \<and>
     (\<forall>q. q \<notin> X \<longrightarrow> nodeAt t q = nodeAt s q \<or> (nodeAt s q = None \<and> q \<in> C))"

lemma volFrame_refl [simp]: "volFrame X C s s"
  by (simp add: volFrame_def)

lemma volFrame_trans: "volFrame X C s t \<Longrightarrow> volFrame Y D t u \<Longrightarrow> volFrame (X \<union> Y) (C \<union> D) s u"
  by (simp add: volFrame_def) (metis Un_iff)

lemma volFrame_mono: "volFrame X C s t \<Longrightarrow> X \<subseteq> Y \<Longrightarrow> C \<subseteq> D \<Longrightarrow> volFrame Y D s t"
  by (auto simp: volFrame_def)

lemma volFrame_nodeAt: "volFrame X C s t \<Longrightarrow> p \<notin> X \<Longrightarrow> p \<notin> C \<Longrightarrow> nodeAt t p = nodeAt s p"
  by (auto simp: volFrame_def)

lemma volFrame_fields:
  "volFrame X C s t \<Longrightarrow> osEnv t = osEnv s" "volFrame X C s t \<Longrightarrow> vRoot t = vRoot s"
  "volFrame X C s t \<Longrightarrow> vConfig t = vConfig s" "volFrame X C s t \<Longrightarrow> vMaxFileSize t = vMaxFileSize s"
  by (simp_all add: volFrame_def)

lemma onlyCreates_volFrame: "onlyCreates X C s t \<Longrightarrow> volFrame X C s t"
  using more_volume [of t s] by (simp add: onlyCreates_def volFrame_def)

lemma sameExcept_volFrame: "sameExcept X s t \<Longrightarrow> volFrame X C s t"
  using more_volume [of t s] by (simp add: sameExcept_def volFrame_def)

definition documentIs :: "'z os_scheme \<Rightarrow> string \<Rightarrow> Metadata \<Rightarrow> bool" where
  "documentIs s root m \<longleftrightarrow> holdsFile s (metadataPath root) (jsonDocument (encodeMetadata m)) mode0600"

definition transacted ::
  "(Metadata \<Rightarrow> Metadata \<Rightarrow> bool) \<Rightarrow> 'z volume_scheme \<Rightarrow> unit res \<Rightarrow> 'z volume_scheme \<Rightarrow> bool" where
  "transacted post s r t \<longleftrightarrow>
     (let root = vRoot s in
      volFrame {metadataPath root} (metadataScratch root) s t \<and>
      (\<exists>m. diskMetadata s root = Some m \<and>
        (case r of
           Inr _ \<Rightarrow>
             post (mergePending (vPending s) m) (vMetadata t) \<and> documentIs t root (vMetadata t)
         | Inl _ \<Rightarrow>
             vMetadata t = vMetadata s \<and> vPending t = vPending s \<and> vFlushTimer t = vFlushTimer s \<and>
             (nodeAt t (metadataPath root) = nodeAt s (metadataPath root) \<or>
              (\<exists>m'. post (mergePending (vPending s) m) m' \<and> documentIs t root m')))))"

lemma vault_file_paths:
  assumes "isAbs root" "Clean root = root"
  shows "isAbs (metadataPath root)" "Clean (metadataPath root) = metadataPath root"
    "comps (metadataPath root) = (comps root @ [internalDirName]) @ [metadataFileName]"
    "lockPath root \<noteq> metadataPath root"
proof -
  have pr: "proper metadataFileName" "proper metadataLockFileName"
    by (simp_all add: proper_def metadataFileName_def metadataLockFileName_def)
  note m = comps_pathJoin3 [OF assms(1), of internalDirName metadataFileName, simplified]
  note l = comps_pathJoin3 [OF assms(1), of internalDirName metadataLockFileName, simplified]
  show "isAbs (metadataPath root)" "Clean (metadataPath root) = metadataPath root"
    "comps (metadataPath root) = (comps root @ [internalDirName]) @ [metadataFileName]"
    using m pr by (simp_all add: metadataPath_def)
  have "comps (lockPath root) \<noteq> comps (metadataPath root)"
    using m l pr by (simp add: metadataPath_def lockPath_def metadataFileName_def metadataLockFileName_def)
  then show "lockPath root \<noteq> metadataPath root" by metis
qed

lemma saveMetadata_wp:
  assumes "isAbs root" "Clean root = root"
  shows "wp (saveMetadata root m)
    (atomicWrite (metadataPath root) (jsonDocument (encodeMetadata m)) mode0600 s) s"
  unfolding saveMetadata_def WriteJSONFileAtomic_def
  by (rule WriteFileAtomic_wp [OF vault_file_paths(1-3) [OF assms]])
    (simp add: metadataFileName_def)

lemma wp_saveMetadataI:
  assumes "isAbs root" "Clean root = root"
    and "\<And>r t. onlyCreates {metadataPath root} (scratchPaths (metadataPath root) ''.passfs-config-'') s t \<Longrightarrow>
      nodeAt t (metadataPath root) = nodeAt s (metadataPath root) \<or> documentIs t root m \<Longrightarrow>
      (r = Inr () \<longrightarrow> documentIs t root m) \<Longrightarrow> Q r t"
  shows "wp (saveMetadata root m) Q s"
  by (rule wp_mono [OF saveMetadata_wp [OF assms(1,2)]])
    (use assms(3) in \<open>auto simp: atomicWrite_def documentIs_def\<close>)

definition bodyPost ::
  "(Metadata \<Rightarrow> Metadata \<Rightarrow> bool) \<Rightarrow> string \<Rightarrow> Metadata \<Rightarrow> 'z os_scheme \<Rightarrow> Metadata res \<Rightarrow> 'z os_scheme \<Rightarrow> bool" where
  "bodyPost post root m s r t \<longleftrightarrow>
     onlyCreates {metadataPath root} (scratchPaths (metadataPath root) ''.passfs-config-'') s t \<and>
     (nodeAt t (metadataPath root) = nodeAt s (metadataPath root) \<or> (\<exists>m'. post m m' \<and> documentIs t root m')) \<and>
     (\<forall>m'. r = Inr m' \<longrightarrow> post m m' \<and> documentIs t root m')"

text \<open>An update of one key leaves what the index says of every other key.\<close>

definition keepsOthers :: "string \<Rightarrow> Metadata \<Rightarrow> Metadata \<Rightarrow> bool" where
  "keepsOthers key m m' \<longleftrightarrow> Version m' = Version m \<and>
     (\<forall>k. k \<noteq> key \<longrightarrow> map_of (Files m') k = map_of (Files m) k \<and> map_of (Links m') k = map_of (Links m) k \<and>
        map_of (Orphaned m') k = map_of (Orphaned m) k \<and> map_of (Recovery m') k = map_of (Recovery m) k \<and>
        map_of (LegacyTargets m') k = map_of (LegacyTargets m) k)"

lemma mergeAccess_spec:
  "wfIndex m \<Longrightarrow> wfIndex (mergeAccess x m)"
  by (cases x) (auto simp: mergeAccess_def wfIndex_def wfMaps_def mhas_def split: option.splits)

lemma wfIndex_mergePending: "wfIndex m \<Longrightarrow> wfIndex (mergePending p m)"
  unfolding mergePending_def by (induction p arbitrary: m) (auto intro: mergeAccess_spec)

locale index_transaction =
  fixes upd :: "Metadata \<Rightarrow> ('z volume_scheme, Metadata res) state"
    and post :: "Metadata \<Rightarrow> Metadata \<Rightarrow> bool"
  assumes upd_wp: "wp (upd m) (\<lambda>r t. onlyTicks s t \<and> (\<forall>m'. r = Inr m' \<longrightarrow> post m m')) s"
begin

lemma upd_wpI:
  assumes "\<And>e t. onlyTicks s t \<Longrightarrow> Q (Inl e) t" and "\<And>m' t. onlyTicks s t \<Longrightarrow> post m m' \<Longrightarrow> Q (Inr m') t"
  shows "wp (upd m) Q s"
  by (rule wp_mono [OF upd_wp]) (metis assms sumE)

lemma update_body:
  assumes root: "isAbs root" "Clean root = root" and disk: "diskMetadata s root = Some m"
  shows "wp (andThen (readMetadata root) (\<lambda>current.
      andThen (upd (mergePending pending current)) (\<lambda>next.
      andThen (saveMetadata root next) (\<lambda>_. ret (Inr next))))) (bodyPost post root (mergePending pending m) s) s"
proof -
  let ?Q = "bodyPost post root (mergePending pending m) s"
  have fail: "?Q (Inl e) t" if "onlyTicks s t" for e t
    using that by (simp add: bodyPost_def onlyTicks_onlyCreates [of s] onlyTicks_nodeAt)
  have save: "wp (andThen (saveMetadata root m') (\<lambda>_. ret (Inr m'))) ?Q u"
    if u: "onlyTicks s u" and m': "post (mergePending pending m) m'" for m' u
    unfolding wp
  proof (rule wp_saveMetadataI [OF root])
    fix r :: "unit res" and t
    assume a: "onlyCreates {metadataPath root} (scratchPaths (metadataPath root) ''.passfs-config-'') u t"
      "nodeAt t (metadataPath root) = nodeAt u (metadataPath root) \<or> documentIs t root m'"
      "r = Inr () \<longrightarrow> documentIs t root m'"
    have "onlyCreates {metadataPath root} (scratchPaths (metadataPath root) ''.passfs-config-'') s t"
      using onlyCreates_trans [of "{}" "{}" s u] a(1) u by (simp add: onlyTicks_onlyCreates)
    then show "case r of Inl e \<Rightarrow> ?Q (Inl e) t | Inr a \<Rightarrow> ?Q (Inr m') t"
      using a(2,3) m' onlyTicks_nodeAt [OF u, of "metadataPath root"]
      by (auto simp: bodyPost_def split: sum.splits)
  qed
  show ?thesis
    by (intro wp_andThenI wp_readMetadataI [OF disk])
      (auto intro!: fail wp_andThenI upd_wpI save [unfolded wp_andThen])
qed

text \<open>
  The transaction as a whole, for every schedule of failures: a success publishes an index
  that satisfies the postcondition and that the document on disk holds; a failure publishes
  nothing, and the document is the old one or a complete new one.
\<close>

lemma update_transacted:
  assumes root: "isAbs (vRoot s)" "Clean (vRoot s) = vRoot s" and disk: "diskMetadata s (vRoot s) = Some m"
  shows "wp (updateMetadataLocked upd) (transacted post s) s"
proof -
  let ?root = "vRoot s" and ?m = "mergePending (vPending s) m"
  let ?C = "{lockPath ?root} \<union> scratchPaths (metadataPath ?root) ''.passfs-config-''"
  have early: "transacted post s (Inl e) t" if "onlyCreates {} {lockPath ?root} s t" for e t
    using that disk vault_file_paths(4) [OF root] more_volume [OF onlyCreates_more [OF that]]
    by (auto simp: transacted_def volFrame_def Let_def onlyCreates_def metadataScratch_def)
  have late: "onlyCreates {metadataPath ?root} ?C s t \<and>
      (nodeAt t (metadataPath ?root) = nodeAt s (metadataPath ?root) \<or>
       (\<exists>m'. post ?m m' \<and> documentIs t ?root m')) \<and>
      (\<forall>m'. r = Inr m' \<longrightarrow> post ?m m' \<and> documentIs t ?root m')"
    if "onlyCreates {} {lockPath ?root} s u" "bodyPost post ?root ?m u r t" for u r t
    using that onlyCreates_trans [OF that(1)] vault_file_paths(4) [OF root]
      onlyCreates_nodeAt [OF that(1), of "metadataPath ?root"]
    by (auto simp: bodyPost_def)
  define R :: "Metadata res \<Rightarrow> 'z volume_scheme \<Rightarrow> bool" where "R = (\<lambda>r t. onlyCreates {metadataPath ?root} ?C s t \<and>
      (nodeAt t (metadataPath ?root) = nodeAt s (metadataPath ?root) \<or>
       (\<exists>m'. post ?m m' \<and> documentIs t ?root m')) \<and>
      (\<forall>m'. r = Inr m' \<longrightarrow> post ?m m' \<and> documentIs t ?root m'))"
  have act: "wp (andThen (readMetadata ?root) (\<lambda>current.
      andThen (upd (mergePending (vPending s) current)) (\<lambda>next.
      andThen (saveMetadata ?root next) (\<lambda>_. ret (Inr next))))) R u"
    if "onlyCreates {} {lockPath ?root} s u" for u
    using wp_mono [OF update_body [OF root, where pending = "vPending s"]] that disk late [OF that]
      diskMetadata_cong [of u ?root s] onlyCreates_nodeAt [OF that] vault_file_paths(4) [OF root]
    by (simp add: R_def)
  have err: "transacted post s (Inl e) (tickd (tickd t))" if "R r t" for e r t
    using that disk more_volume [of t s]
    by (auto simp: R_def transacted_def volFrame_def Let_def onlyCreates_def metadataScratch_def documentIs_def
        holdsFile_def)
  have ok: "transacted post s (Inr ()) (publishMetadata (vPending s) m' (tickd (tickd t)))"
    if "R (Inr m') t" for m' t
    using that disk more_volume [of t s]
    by (auto simp: R_def transacted_def volFrame_def Let_def onlyCreates_def metadataScratch_def documentIs_def
        holdsFile_def)
  show ?thesis
    unfolding updateMetadataLocked_def wp_bind wp_gets wp_andThen
    by (rule wp_withLockI [where R = R])
      (use early act err ok in \<open>auto simp: wp split: sum.splits\<close>)
qed

end

text \<open>
  An update of one key keeps the index well formed. Seen from a client, a success keeps every other
  key as it was.
\<close>

locale index_update = index_transaction +
  fixes key :: string
  assumes post_wf: "wfIndex m \<Longrightarrow> post m m' \<Longrightarrow> wfIndex m'"
    and post_frame: "post m m' \<Longrightarrow> keepsOthers key m m'"
begin

lemma update_succeeds:
  assumes "isAbs (vRoot s)" "Clean (vRoot s) = vRoot s" "diskMetadata s (vRoot s) = Some m" "wfIndex m"
    and "run_state (updateMetadataLocked upd) s = (Inr u, t)"
  shows "post (mergePending (vPending s) m) (vMetadata t)" "wfIndex (vMetadata t)"
    "keepsOthers key (mergePending (vPending s) m) (vMetadata t)" "documentIs t (vRoot s) (vMetadata t)"
proof -
  have "transacted post s (Inr u) t" by (rule wpD [OF update_transacted [OF assms(1-3)] assms(5)])
  then have p: "post (mergePending (vPending s) m) (vMetadata t)" "documentIs t (vRoot s) (vMetadata t)"
    using assms(3) by (auto simp: transacted_def Let_def)
  then show "post (mergePending (vPending s) m) (vMetadata t)" "documentIs t (vRoot s) (vMetadata t)"
    by simp_all
  show "wfIndex (vMetadata t)" by (rule post_wf [OF wfIndex_mergePending [OF assms(4)] p(1)])
  show "keepsOthers key (mergePending (vPending s) m) (vMetadata t)" by (rule post_frame [OF p(1)])
qed

end

section \<open>The operations implement the contract\<close>

text \<open>An update that is a function of the index satisfies the contract of the effectful ones.\<close>

locale pure_index_update =
  fixes f :: "Metadata \<Rightarrow> Metadata res" and key :: string
  assumes f_wf: "wfIndex m \<Longrightarrow> f m = Inr m' \<Longrightarrow> wfIndex m'"
    and f_frame: "f m = Inr m' \<Longrightarrow> keepsOthers key m m'"

sublocale pure_index_update \<subseteq> index_update "\<lambda>m. ret (f m)" "\<lambda>m m'. f m = Inr m'" key
  by unfold_locales (auto simp: wp f_wf f_frame)

lemmas index_defs = wfIndex_def wfMaps_def keepsOthers_def

interpretation flush: pure_index_update "\<lambda>m. Inr m" key for key
  by unfold_locales (auto simp: keepsOthers_def)

interpretation remove: pure_index_update "\<lambda>m. Inr (deleteFileMetadata m key)" key for key
  by unfold_locales (auto simp: deleteFileMetadata_def index_defs)

interpretation setLink: pure_index_update "linkSourceSet key source" key for key source
  by unfold_locales (auto simp: linkSourceSet_def index_defs split: if_splits)

interpretation orphan: pure_index_update "linkOrphanMarked key when" key for key "when"
  by unfold_locales (auto simp: linkOrphanMarked_def index_defs split: if_splits)

interpretation clearOrphan: pure_index_update "linkOrphanCleared key" key for key
  by unfold_locales (auto simp: linkOrphanCleared_def index_defs)

interpretation recover: pure_index_update "linkRecoveryMarked key state reason when" key
  for key state reason "when"
  by unfold_locales (auto simp: linkRecoveryMarked_def Let_def index_defs split: if_splits)

text \<open>\<open>setFileMeta\<close>: the record is stored with a usable inode number, and a new object without a
  link is marked as an orphan.\<close>

definition fileMetaSet :: "string \<Rightarrow> FileMeta \<Rightarrow> Metadata \<Rightarrow> Metadata \<Rightarrow> bool" where
  "fileMetaSet key meta m m' \<longleftrightarrow>
     (\<exists>ino now. ino \<ge> 2 \<and> (Inode meta \<ge> 2 \<longrightarrow> ino = Inode meta) \<and>
        (\<forall>c. map_of (Files m) key = Some c \<longrightarrow> Inode meta < 2 \<longrightarrow> Inode c \<ge> 2 \<longrightarrow> ino = Inode c) \<and>
        m' = m\<lparr>Files := mset_key key (meta\<lparr>Inode := ino\<rparr>) (Files m),
               Orphaned := (if \<not> mhas (Files m) key \<and> mgetz [] (Links m) key = []
                            then mset_key key now (Orphaned m) else Orphaned m)\<rparr>)"

lemma stableInode_ge: "stableInode p \<ge> 2"
proof -
  have "w + 2 \<ge> 2" if "w < 2" for w :: u64
  proof -
    have "w = 0 \<or> w = 1" using that by unat_arith
    then show ?thesis by auto
  qed
  then show ?thesis by (auto simp: stableInode_def Let_def)
qed

lemma high_bit_ge: "(w OR push_bit 63 1 :: u64) \<ge> 2"
proof -
  have "uint (push_bit 63 1 :: u64) \<le> uint (push_bit 63 1 OR w :: u64)"
    unfolding unsigned_or_eq by (rule or_greater_eq) simp
  then have "push_bit 63 1 \<le> (w OR push_bit 63 1 :: u64)" by (simp add: word_le_def or.commute)
  moreover have "(2 :: u64) \<le> push_bit 63 1" by simp
  ultimately show ?thesis by (rule order_trans [rotated])
qed

lemma wp_newVirtualInodeI:
  "(\<And>i t. i \<ge> 2 \<Longrightarrow> onlyTicks s t \<Longrightarrow> Q i t) \<Longrightarrow> wp (newVirtualInode relative) Q s"
  by (auto simp: newVirtualInode_def wp Let_def stableInode_ge high_bit_ge split: option.splits)

lemma wp_chooseInodeI:
  assumes "\<And>i t. onlyTicks s t \<Longrightarrow> i \<ge> 2 \<Longrightarrow> (Inode meta \<ge> 2 \<longrightarrow> i = Inode meta) \<Longrightarrow>
      (\<forall>c. current = Some c \<longrightarrow> Inode meta < 2 \<longrightarrow> Inode c \<ge> 2 \<longrightarrow> i = Inode c) \<Longrightarrow> Q i t"
  shows "wp (chooseInode relative meta current) Q s"
  unfolding chooseInode_def wp
  by (auto intro!: wp_newVirtualInodeI assms split: option.splits)

interpretation setFile: index_update "updSetFileMeta relative meta" "fileMetaSet (metadataKey relative) meta"
    "metadataKey relative" for relative meta
proof
  show "wp (updSetFileMeta relative meta m)
      (\<lambda>r t. onlyTicks s t \<and> (\<forall>m'. r = Inr m' \<longrightarrow> fileMetaSet (metadataKey relative) meta m m')) s" for m s
    unfolding updSetFileMeta_def Let_def wp
  proof (rule wp_chooseInodeI, goal_cases)
    case (1 i t)
    then show ?case unfolding storeFileMeta_def Let_def wp by (auto simp: fileMetaSet_def)
  qed
  show "wfIndex m \<Longrightarrow> fileMetaSet (metadataKey relative) meta m m' \<Longrightarrow> wfIndex m'" for m m'
    by (auto simp: fileMetaSet_def index_defs split: if_splits)
  show "fileMetaSet (metadataKey relative) meta m m' \<Longrightarrow> keepsOthers (metadataKey relative) m m'" for m m'
    by (auto simp: fileMetaSet_def index_defs)
qed

end
