(* ===== verification/Volume.thy ===== *)
theory Volume
  imports Index
begin

text \<open>
  The encrypted files of a volume (volume.go): the type of a virtual path, decryption,
  \<open>persistFile\<close> with its rollback, and the removal of a protected file. The age library is not
  part of the repository; it is the parameter \<open>A\<close> of the definitions.
\<close>

section \<open>The age library\<close>

text \<open>
  \<open>age.Encrypt\<close> draws a fresh file key, here the number of the system call; identities and
  recipients are their textual forms.
\<close>

record age =
  ageEncrypt :: "nat \<Rightarrow> string \<Rightarrow> bytes \<Rightarrow> bytes"
  ageDecrypt :: "string \<Rightarrow> bytes \<Rightarrow> bytes res"
  ageRecipient :: "string \<Rightarrow> string"

section \<open>Files\<close>

definition errnoFromError :: "goerr option \<Rightarrow> errno option" where
  "errnoFromError err =
     (case err of
        None \<Rightarrow> None
      | Some e \<Rightarrow>
          if errorsIs e ErrPromptCancelled then Some ECANCELED
          else if errorsIs e ErrAuthentication then Some EACCES
          else if errorsIs e ErrFileTooLarge then Some EFBIG
          else if errorsIs e ErrNotExist then Some ENOENT
          else (case errorsAs e of Some n \<Rightarrow> Some n | None \<Rightarrow> Some EIO))"

definition virtualType :: "string \<Rightarrow> ('z volume_scheme, (bool \<times> node) res) state" where
  "virtualType relative = do {
     root \<leftarrow> gets vRoot;
     (let encrypted = (case encryptedPath root relative of
          Inl e \<Rightarrow> ret (Inl e)
        | Inr path \<Rightarrow>
            andThen (os_lstat path) (\<lambda>info.
              ret (if isRegNode info then Inr (False, info) else Inl (Errno EIO)))) in
      case directoryPath root relative of
        Inl e \<Rightarrow> ret (Inl e)
      | Inr dirPath \<Rightarrow> do {
          d \<leftarrow> os_lstat dirPath;
          (case d of
             Inr n \<Rightarrow>
               if isDirNode n then ret (Inr (True, n))
               else if \<not> isRegNode n then ret (Inl (Errno EIO))
               else encrypted
           | Inl e \<Rightarrow> if errorsIs e ErrNotExist then encrypted else ret (Inl e)) }) }"

definition decryptFileWithIdentity ::
  "'z age_scheme \<Rightarrow> string \<Rightarrow> string \<Rightarrow> ('y volume_scheme, bytes res) state" where
  "decryptFileWithIdentity A relative identity = do {
     root \<leftarrow> gets vRoot;
     maximum \<leftarrow> gets vMaxFileSize;
     (case encryptedPath root relative of
        Inl e \<Rightarrow> ret (Inl e)
      | Inr path \<Rightarrow>
          andThen (os_open path) (\<lambda>ciphertext.
          andThen (mapErr (Wrap ''read decrypted'') os_nop) (\<lambda>_.
            ret (case ageDecrypt A identity ciphertext of
               Inl e \<Rightarrow> Inl (Wrap ''decrypt'' e)
             | Inr data \<Rightarrow>
                 if int (length data) > maximum then Inl (Sentinel ErrFileTooLarge) else Inr data)))) }"

definition rollbackPersistedFile :: "string \<Rightarrow> string \<Rightarrow> bool \<Rightarrow> ('z os_scheme, unit res) state" where
  "rollbackPersistedFile path temporaryPath previousExists =
     andThen (mapErr (Wrap ''rollback encrypted file'')
       (if previousExists then exchangePaths temporaryPath path else os_remove path)) (\<lambda>_.
       mapErr (Wrap ''sync encrypted file rollback'') (syncDirectory (pathDir path)))"

text \<open>The part of \<open>persistFile\<close> that publishes the temporary file.\<close>

definition installTemporary :: "string \<Rightarrow> string \<Rightarrow> ('z os_scheme, bool res) state" where
  "installTemporary tempPath path = do {
     st \<leftarrow> os_lstat path;
     (case st of
        Inr info \<Rightarrow>
          if \<not> isRegNode info then ret (Inl (Errno EIO))
          else andThen (exchangePaths tempPath path) (\<lambda>_. ret (Inr True))
      | Inl e \<Rightarrow>
          if errorsIs e ErrNotExist then andThen (renameNoReplace tempPath path) (\<lambda>_. ret (Inr False))
          else ret (Inl e)) }"

definition rollingBack ::
  "string \<Rightarrow> string \<Rightarrow> bool \<Rightarrow> ('z os_scheme, unit res) state \<Rightarrow> ('z os_scheme, unit res) state" where
  "rollingBack path tempPath previousExists action = do {
     r \<leftarrow> action;
     (case r of
        Inr _ \<Rightarrow> ret (Inr ())
      | Inl e \<Rightarrow> do {
          rollbackErr \<leftarrow> rollbackPersistedFile path tempPath previousExists;
          ret (resOf (errorsJoin [Some e, errOf rollbackErr])) }) }"

definition dropPrevious :: "string \<Rightarrow> string \<Rightarrow> bool \<Rightarrow> ('z os_scheme, unit res) state" where
  "dropPrevious parent tempPath previousExists =
     andThen (if previousExists
              then mapErr (Wrap ''remove previous encrypted file'') (os_remove tempPath)
              else ret (Inr ())) (\<lambda>_.
     syncDirectory parent)"

definition publishFile ::
  "string \<Rightarrow> string \<Rightarrow> string \<Rightarrow> FileMeta \<Rightarrow> ('z volume_scheme, unit res) state" where
  "publishFile relative path tempPath meta =
     (let parent = pathDir path in
      andThen (installTemporary tempPath path) (\<lambda>previousExists.
      andThen (rollingBack path tempPath previousExists (syncDirectory parent)) (\<lambda>_.
      andThen (rollingBack path tempPath previousExists (setFileMeta relative meta)) (\<lambda>_.
      dropPrevious parent tempPath previousExists))))"

definition writeCiphertext :: "string \<Rightarrow> bytes \<Rightarrow> ('z os_scheme, unit res) state" where
  "writeCiphertext tempPath ciphertext =
     andThen (os_chmod tempPath mode0600) (\<lambda>_.
     andThen (os_writeSome tempPath ciphertext) (\<lambda>_. \<comment> \<open>\<open>age.Encrypt\<close> writes the header\<close>
     andThen (os_writeSome tempPath ciphertext) (\<lambda>_. \<comment> \<open>\<open>writer.Write\<close> writes full chunks\<close>
     andThen (os_write tempPath ciphertext) (\<lambda>_. \<comment> \<open>\<open>writer.Close\<close> writes the last chunk\<close>
     andThen os_nop (\<lambda>_. os_nop)))))" \<comment> \<open>\<open>file.Sync\<close> and \<open>file.Close\<close>\<close>

definition encryptAndPublish ::
  "'y age_scheme \<Rightarrow> string \<Rightarrow> string \<Rightarrow> string \<Rightarrow> string \<Rightarrow> bytes \<Rightarrow> FileMeta \<Rightarrow> ('z volume_scheme, unit res) state" where
  "encryptAndPublish A recipient relative path tempPath data meta = do {
     nonce \<leftarrow> gets osCalls;
     andThen (writeCiphertext tempPath (ageEncrypt A nonce recipient data)) (\<lambda>_. do {
       now \<leftarrow> (if MTime meta = 0 then timeNow else ret (MTime meta));
       publishFile relative path tempPath (meta\<lparr>Size := of_nat (length data), MTime := now\<rparr>) }) }"

definition persistFile ::
  "'y age_scheme \<Rightarrow> string \<Rightarrow> bytes \<Rightarrow> FileMeta \<Rightarrow> ('z volume_scheme, unit res) state" where
  "persistFile A relative data meta = do {
     root \<leftarrow> gets vRoot;
     maximum \<leftarrow> gets vMaxFileSize;
     recipient \<leftarrow> gets (\<lambda>s. cfgRecipient (vConfig s));
     (if int (length data) > maximum then ret (Inl (Sentinel ErrFileTooLarge))
      else case encryptedPath root relative of
        Inl e \<Rightarrow> ret (Inl e)
      | Inr path \<Rightarrow>
          let parent = pathDir path in
          andThen (os_mkdirAll parent mode0700) (\<lambda>_.
          andThen (os_stat parent) (\<lambda>info.
          if \<not> isDirNode info then ret (Inl (Errno ENOTDIR))
          else
            andThen (os_createTemp parent temporaryPrefix) (\<lambda>tempPath.
            deferring (os_remove tempPath)
              (encryptAndPublish A recipient relative path tempPath data meta))))) }"

section \<open>Removal\<close>

definition restoreRemovedFile :: "string \<Rightarrow> string \<Rightarrow> ('z os_scheme, unit res) state" where
  "restoreRemovedFile temporaryPath path =
     andThen (mapErr (Wrap ''restore encrypted file after failed removal'') (renameNoReplace temporaryPath path))
       (\<lambda>_. mapErr (Wrap ''sync restored encrypted file'') (syncDirectory (pathDir path)))"

text \<open>The steps of \<open>removeProtectedFileLocked\<close> once the ciphertext has been moved aside.\<close>

definition restoring :: "string \<Rightarrow> string \<Rightarrow> goerr option list \<Rightarrow> ('z os_scheme, unit res) state" where
  "restoring temporaryPath path errs = do {
     restoreErr \<leftarrow> restoreRemovedFile temporaryPath path;
     ret (resOf (errorsJoin (errs @ [errOf restoreErr]))) }"

definition finishRemoval ::
  "string \<Rightarrow> FileMeta \<Rightarrow> string \<Rightarrow> string \<Rightarrow> ('z volume_scheme, unit res) state" where
  "finishRemoval relative meta path temporaryPath = do {
     synced \<leftarrow> syncDirectory (pathDir path);
     (case synced of
        Inl e \<Rightarrow> restoring temporaryPath path [Some e]
      | Inr _ \<Rightarrow> do {
          removed \<leftarrow> removeFileMeta relative;
          (case removed of
             Inl e \<Rightarrow> restoring temporaryPath path [Some e]
           | Inr _ \<Rightarrow> do {
               gone \<leftarrow> os_remove temporaryPath;
               (case gone of
                  Inl e \<Rightarrow> do {
                    metadataErr \<leftarrow> setFileMeta relative meta;
                    restoring temporaryPath path [Some e, errOf metadataErr] }
                | Inr _ \<Rightarrow> syncDirectory (pathDir path)) }) }) }"

definition removeProtectedFileLocked :: "string \<Rightarrow> ('z volume_scheme, unit res) state" where
  "removeProtectedFileLocked relative = do {
     root \<leftarrow> gets vRoot;
     (case encryptedPath root relative of
        Inl e \<Rightarrow> ret (Inl e)
      | Inr path \<Rightarrow>
          andThen (os_lstat path) (\<lambda>info.
          if \<not> isRegNode info then ret (Inl (Errno EIO))
          else do {
            meta \<leftarrow> fileMeta relative (Some info);
            andThen (os_createTemp (pathDir path) (temporaryPrefix @ ''removed-'')) (\<lambda>temporaryPath. do {
              closed \<leftarrow> os_nop;
              (case closed of
                 Inl e \<Rightarrow> do { _ \<leftarrow> os_remove temporaryPath; ret (Inl e) }
               | Inr _ \<Rightarrow>
                   andThen (os_remove temporaryPath) (\<lambda>_.
                   andThen (renameNoReplace path temporaryPath) (\<lambda>_.
                     finishRemoval relative meta path temporaryPath))) }) })) }"

section \<open>Paths of ciphertext are apart from the metadata\<close>

lemma below_comps:
  assumes "isAbs d" "Clean d = d" "comps d \<noteq> []" "isAbs p" "Clean p = p" "below d p"
  shows "prefix (comps d) (comps p)"
  using assms PathWithin_iff [of d p] clean_abs_last [OF assms(1,2)]
  by (auto simp: PathWithin_def below_def dirSlash_def hasPrefix_def)

text \<open>A path of the vault outside its internal directory is not touched by a transaction.\<close>

lemma not_internal:
  assumes root: "isAbs root" "Clean root = root"
    and p: "isAbs p" "Clean p = p" "comps p = comps root @ f # fs" "f \<noteq> internalDirName"
  shows "p \<noteq> metadataPath root" "p \<notin> metadataScratch root"
proof -
  note m = vault_file_paths [OF root]
  show "p \<noteq> metadataPath root" using m(3) p(3,4) by auto
  have "proper metadataLockFileName" by (simp add: proper_def metadataLockFileName_def)
  then have l: "comps (lockPath root) = comps root @ [internalDirName, metadataLockFileName]"
    using comps_pathJoin3(1) [OF root(1), of internalDirName metadataLockFileName] by (simp add: lockPath_def)
  have dir: "comps (pathDir (metadataPath root)) = comps root @ [internalDirName]" "isAbs (pathDir (metadataPath root))"
    "Clean (pathDir (metadataPath root)) = pathDir (metadataPath root)"
    using clean_abs_tempName [OF m(1-3)] by (simp_all add: pathDir_def)
  have "p \<noteq> tempName (pathDir (metadataPath root)) y" for y
  proof
    assume e: "p = tempName (pathDir (metadataPath root)) y"
    have "last (pathDir (metadataPath root)) \<noteq> slash"
      using clean_abs_last [OF dir(2,3)] dir(1) by simp
    then have "below (pathDir (metadataPath root)) p" by (auto simp: e tempName_def below_def dirSlash_def)
    from below_comps [OF dir(2,3) _ p(1,2) this] show False using dir(1) p(3,4) by simp
  qed
  moreover have "p \<notin> set (ancestors (pathDir (metadataPath root)))"
  proof
    assume "p \<in> set (ancestors (pathDir (metadataPath root)))"
    then obtain ds where ds: "p = render True ds" "prefix ds (comps root @ [internalDirName])"
      using dir by (auto simp: ancestors_def)
    have "list_all proper ds"
      using ds(2) isAbs_comps_proper [OF root(1)] by (auto simp: prefix_def list_all_append dest: arg_cong [where f = "list_all proper"])
    then have "comps p = ds" using ds(1) normalCompsI [of ds True 0] by simp
    then show False using ds(2) p(3,4) by (auto simp: prefix_def append_eq_append_conv2)
  qed
  ultimately show "p \<notin> metadataScratch root"
    using l p(3,4) by (auto simp: metadataScratch_def scratchPaths_def)
qed

lemma encryptedPath_entry:
  assumes "isAbs root" "encryptedPath root relative = Inr path" "comps relative \<noteq> []"
  obtains f fs where "isAbs path" "Clean path = path" "comps path = comps root @ f # fs" "f \<noteq> internalDirName"
    "comps path = (comps root @ butlast (f # fs)) @ [last (comps relative) @ encryptedSuffix]"
proof -
  have ne: "root \<noteq> []" using assms(1) by auto
  note e = encryptedPath_ok [OF assms(2) ne assms(3)]
  have v: "validateRelativePath relative = Inr ()"
    using assms(2) by (auto simp: encryptedPath_def split: sum.splits)
  obtain f fs where a: "ageComps relative = f # fs" by (cases "ageComps relative") (auto simp: ageComps_def)
  have "f \<noteq> internalDirName"
  proof (cases "butlast (comps relative)")
    case Nil
    then have "f = last (comps relative) @ encryptedSuffix" using a by (simp add: ageComps_def)
    then show ?thesis by (auto simp: internalDirName_def encryptedSuffix_def append_eq_Cons_conv)
  next
    case (Cons g gs)
    then have "f = hd (comps relative)" using a by (cases "comps relative") (auto simp: ageComps_def split: if_splits)
    then show ?thesis using validateRelativePath_ok(2) [OF v assms(3)] by simp
  qed
  moreover have "butlast (f # fs) = butlast (comps relative)" "last (f # fs) = last (comps relative) @ encryptedSuffix"
    using a [symmetric] by (simp_all add: ageComps_def)
  moreover have "f # fs = butlast (f # fs) @ [last (f # fs)]" by simp
  ultimately show ?thesis using that e a assms(1) by (metis append.assoc)
qed

text \<open>The temporary files next to a ciphertext.\<close>

lemma temporary_entry:
  assumes root: "isAbs root" "Clean root = root"
    and p: "encryptedPath root relative = Inr path" "comps relative \<noteq> []"
    and x: "digitNames e" "x = envName e i" and pfx: "pfx = temporaryPrefix \<or> pfx = temporaryPrefix @ ''removed-''"
    and tmp: "tmp = tempName (pathDir path) (pfx @ x)"
  shows "tmp \<noteq> path" "tmp \<noteq> metadataPath root" "tmp \<notin> metadataScratch root"
    "path \<noteq> metadataPath root" "path \<notin> metadataScratch root" "path \<notin> set (ancestors (pathDir path))"
    "tmp \<notin> set (ancestors (pathDir path))"
proof -
  obtain f fs where q: "isAbs path" "Clean path = path" "comps path = comps root @ f # fs" "f \<noteq> internalDirName"
    "comps path = (comps root @ butlast (f # fs)) @ [last (comps relative) @ encryptedSuffix]"
    by (rule encryptedPath_entry [OF root(1) p])
  show "path \<noteq> metadataPath root" "path \<notin> metadataScratch root" using not_internal [OF root q(1-4)] by simp_all
  show "path \<notin> set (ancestors (pathDir path))" by (rule not_own_ancestor [OF q(1,2,5)])
  have pr: "proper (pfx @ x)"
    using digitNames_proper [OF x(1), of pfx i] x(2) pfx by (auto simp: temporaryPrefix_def)
  have d: "isAbs (pathDir path)" "Clean (pathDir path) = pathDir path" "comps (pathDir path) = comps root @ butlast (f # fs)"
    using clean_abs_tempName [OF q(1,2,5)] by (simp_all add: pathDir_def)
  note t = tempName_clean [OF d(1,2) pr, folded tmp]
  have x': "x \<noteq> []" "set x \<subseteq> set ''0123456789''" using x by (auto simp: digitNames_def)
  have "last (pfx @ x) \<in> set ''0123456789''"
    unfolding last_appendR [OF x'(1)] by (rule subsetD [OF x'(2) last_in_set [OF x'(1)]])
  moreover have "last (last (comps relative) @ encryptedSuffix) = CHR ''e''" by (simp add: encryptedSuffix_def)
  ultimately have "pfx @ x \<noteq> last (comps relative) @ encryptedSuffix" by auto
  then show "tmp \<noteq> path" using t(3) d(3) q(5) by auto
  obtain g gs where g: "butlast (f # fs) @ [pfx @ x] = g # gs" "g \<noteq> internalDirName"
  proof (cases "butlast (f # fs)")
    case Nil
    have "length (pfx @ x) > length internalDirName"
      using pfx by (auto simp: temporaryPrefix_def internalDirName_def)
    then have "pfx @ x \<noteq> internalDirName" by (metis less_irrefl)
    then show ?thesis using that Nil by simp
  next
    case (Cons h hs)
    then have "h = f" by (cases fs) auto
    then show ?thesis using that Cons q(4) by simp
  qed
  then have "comps tmp = comps root @ g # gs" using t(3) d(3) by simp
  from not_internal [OF root t(1,2) this g(2)]
  show "tmp \<noteq> metadataPath root" "tmp \<notin> metadataScratch root" by simp_all
  show "tmp \<notin> set (ancestors (pathDir path))"
    using not_own_ancestor [OF t(1,2), of "comps (pathDir path)" "pfx @ x"] t(3,4) by simp
qed

section \<open>Publishing a ciphertext\<close>

lemma wp_writeCiphertextI:
  assumes "nodeAt s q = Some (Regular i d0)"
    and "\<And>e t i d. sameExcept {q} s t \<Longrightarrow> nodeAt t q = Some (Regular i d) \<Longrightarrow> Q (Inl e) t"
    and "\<And>t i. sameExcept {q} s t \<Longrightarrow> nodeAt t q = Some (Regular i c) \<Longrightarrow> Q (Inr ()) t"
  shows "wp (writeCiphertext q c) Q s"
  unfolding writeCiphertext_def wp
  using assms
  by (auto intro!: wp_chmodI wp_writeSomeI wp_writeI wp_nopI simp: wp)

text \<open>The state after the temporary file was installed, with or without a previous file.\<close>

definition installed :: "string \<Rightarrow> string \<Rightarrow> node option \<Rightarrow> node \<Rightarrow> bool \<Rightarrow> 'z os_scheme \<Rightarrow> bool" where
  "installed path tmp old new prev s \<longleftrightarrow>
     nodeAt s path = Some new \<and>
     (if prev then nodeAt s tmp = old \<and> (\<exists>j d. old = Some (Regular j d)) else old = None)"

lemma wp_installTemporaryI:
  assumes "nodeAt s tmp = Some (Regular i c)" "tmp \<noteq> path"
    and "\<And>e t. sameExcept {} s t \<Longrightarrow> Q (Inl e) t"
    and "\<And>prev t. sameExcept {tmp, path} s t \<Longrightarrow>
      installed path tmp (nodeAt s path) (Regular i c) prev t \<Longrightarrow> Q (Inr prev) t"
  shows "wp (installTemporary tmp path) Q s"
  unfolding installTemporary_def wp
proof (rule wp_lstatI, goal_cases)
  case (1 e)
  have "wp (renameNoReplace tmp path)
      (\<lambda>r t. case r of Inl e \<Rightarrow> Q (Inl e) t | Inr _ \<Rightarrow> Q (Inr False) t) (tickd s)"
    using assms by (auto intro!: wp_renameNoReplaceI simp: installed_def)
  then show ?case using assms(3) by (simp add: wp)
next
  case (2 n)
  have "isRegNode n \<Longrightarrow> wp (exchangePaths tmp path)
      (\<lambda>r t. case r of Inl e \<Rightarrow> Q (Inl e) t | Inr _ \<Rightarrow> Q (Inr True) t) (tickd s)"
    using assms 2 by (cases n) (auto intro!: wp_exchangeI simp: installed_def)
  then show ?case using assms(3) by (simp add: wp)
qed

lemma wp_rollbackI:
  assumes "installed path tmp old (Regular i c) prev s" "tmp \<noteq> path"
    and "\<And>r t. sameExcept {tmp, path} s t \<Longrightarrow> nodeAt t path = old \<or> nodeAt t path = Some (Regular i c) \<Longrightarrow>
      (r = Inr () \<longrightarrow> nodeAt t path = old) \<Longrightarrow> Q r t"
  shows "wp (rollbackPersistedFile path tmp prev) Q s"
  unfolding rollbackPersistedFile_def wp
  using assms(1,2)
  by (auto intro!: wp_exchangeI wp_removeI wp_syncDirectoryI assms(3) simp: wp installed_def split: if_splits)

lemma wp_rollingBackI:
  assumes "wp action R s" and "tmp \<noteq> path"
    and "\<And>u t. R (Inr u) t \<Longrightarrow> Q (Inr ()) t"
    and "\<And>e t. R (Inl e) t \<Longrightarrow> installed path tmp old (Regular i c) prev t"
    and "\<And>e e' t t'. R (Inl e) t \<Longrightarrow> sameExcept {tmp, path} t t' \<Longrightarrow>
      nodeAt t' path = old \<or> nodeAt t' path = Some (Regular i c) \<Longrightarrow> Q (Inl e') t'"
  shows "wp (rollingBack path tmp prev action) Q s"
  unfolding rollingBack_def wp
proof (rule wp_mono [OF assms(1)])
  fix r :: "unit res" and t
  assume a: "R r t"
  show "case r of Inl e \<Rightarrow> wp (rollbackPersistedFile path tmp prev)
        (\<lambda>a. Q (resOf (errorsJoin [Some e, errOf a]))) t | Inr _ \<Rightarrow> Q (Inr ()) t"
  proof (cases r)
    case (Inl e)
    have "\<exists>x. resOf (errorsJoin [Some e, b]) = Inl x" for b
      by (auto simp: resOf_def split: option.splits)
    then have "wp (rollbackPersistedFile path tmp prev) (\<lambda>a. Q (resOf (errorsJoin [Some e, errOf a]))) t"
      using a Inl assms(2,5) by (intro wp_rollbackI [OF assms(4)]) (simp, metis)+
    then show ?thesis using Inl by simp
  qed (use a assms(3) in simp)
qed

text \<open>
  What publishing may do: the ciphertext at \<open>path\<close> is the old one or the new one; the index in
  memory changes only together with it, to an index that \<open>P\<close> accepts and that the document on
  disk holds; a success means that both are new.
\<close>

definition published ::
  "string \<Rightarrow> string \<Rightarrow> node \<Rightarrow> (Metadata \<Rightarrow> bool) \<Rightarrow> 'z volume_scheme \<Rightarrow> unit res \<Rightarrow> 'z volume_scheme \<Rightarrow> bool" where
  "published path tmp new P s r t \<longleftrightarrow>
     (let root = vRoot s in
      volFrame {path, tmp, metadataPath root} (metadataScratch root) s t \<and>
      (nodeAt t path = nodeAt s path \<or> nodeAt t path = Some new) \<and>
      (nodeAt t (metadataPath root) = nodeAt s (metadataPath root) \<or> (\<exists>m'. P m' \<and> documentIs t root m')) \<and>
      (vMetadata t = vMetadata s \<or>
       nodeAt t path = Some new \<and> P (vMetadata t) \<and> documentIs t root (vMetadata t)) \<and>
      (r = Inr () \<longrightarrow> nodeAt t path = Some new \<and> P (vMetadata t) \<and> documentIs t root (vMetadata t)))"

lemma documentIs_cong:
  "nodeAt t (metadataPath root) = nodeAt s (metadataPath root) \<Longrightarrow> documentIs t root m = documentIs s root m"
  by (simp add: documentIs_def holdsFile_def)

lemma sameExcept_fields:
  assumes "sameExcept X s t"
  shows "vRoot t = vRoot s" "vMetadata t = vMetadata s" "vPending t = vPending s" "vFlushTimer t = vFlushTimer s"
  using more_volume [of t s] assms by (simp_all add: sameExcept_def)

text \<open>A ciphertext and its temporary file, apart from each other and from the metadata.\<close>

definition apart :: "string \<Rightarrow> string \<Rightarrow> string \<Rightarrow> bool" where
  "apart root path tmp \<longleftrightarrow> tmp \<noteq> path \<and> path \<noteq> metadataPath root \<and> path \<notin> metadataScratch root \<and>
     tmp \<noteq> metadataPath root \<and> tmp \<notin> metadataScratch root"

lemma published_fail:
  assumes "sameExcept {tmp, path} s t" "nodeAt t path = nodeAt s path \<or> nodeAt t path = Some new"
    and "apart (vRoot s) path tmp"
  shows "published path tmp new P s (Inl e) t"
  using assms sameExcept_fields [OF assms(1)]
    volFrame_mono [OF sameExcept_volFrame [OF assms(1), where C = "{}"]]
  by (auto simp: published_def Let_def sameExcept_def apart_def)

lemma transaction_result:
  assumes "sameExcept {tmp, path} s t" "nodeAt t path = Some new"
    and "transacted post t r u" and "\<And>m'. post (mergePending (vPending s) m) m' \<Longrightarrow> P m'"
    and apart: "apart (vRoot s) path tmp" and disk: "diskMetadata s (vRoot s) = Some m"
  shows "nodeAt u path = Some new" "nodeAt u tmp = nodeAt t tmp"
    "volFrame {path, tmp, metadataPath (vRoot s)} (metadataScratch (vRoot s)) s u"
    "r = Inr () \<Longrightarrow> P (vMetadata u) \<and> documentIs u (vRoot s) (vMetadata u)"
    "r = Inl e \<Longrightarrow> vMetadata u = vMetadata s"
    "nodeAt u (metadataPath (vRoot s)) = nodeAt s (metadataPath (vRoot s)) \<or> (\<exists>m'. P m' \<and> documentIs u (vRoot s) m')"
proof -
  note f = sameExcept_fields [OF assms(1)]
  have mp: "nodeAt t (metadataPath (vRoot s)) = nodeAt s (metadataPath (vRoot s))"
    using assms(1) apart by (auto simp: sameExcept_def apart_def)
  then have d: "diskMetadata t (vRoot s) = Some m" using disk diskMetadata_cong by metis
  have fr: "volFrame {metadataPath (vRoot s)} (metadataScratch (vRoot s)) t u"
    using assms(3) f by (simp add: transacted_def Let_def)
  then show "nodeAt u path = Some new" "nodeAt u tmp = nodeAt t tmp"
    using volFrame_nodeAt [OF fr] assms(2) apart by (simp_all add: apart_def)
  show "volFrame {path, tmp, metadataPath (vRoot s)} (metadataScratch (vRoot s)) s u"
    using volFrame_trans [OF sameExcept_volFrame [OF assms(1), where C = "{}"] fr]
    by (rule volFrame_mono) auto
  show "r = Inr () \<Longrightarrow> P (vMetadata u) \<and> documentIs u (vRoot s) (vMetadata u)" "r = Inl e \<Longrightarrow> vMetadata u = vMetadata s"
    using assms(3,4) f d by (auto simp: transacted_def Let_def)
  show "nodeAt u (metadataPath (vRoot s)) = nodeAt s (metadataPath (vRoot s)) \<or> (\<exists>m'. P m' \<and> documentIs u (vRoot s) m')"
    using assms(3,4) f d mp by (auto simp: transacted_def Let_def split: sum.splits)
qed

lemma published_later:
  assumes u: "volFrame {path, tmp, metadataPath (vRoot s)} (metadataScratch (vRoot s)) s u"
    "nodeAt u (metadataPath (vRoot s)) = nodeAt s (metadataPath (vRoot s)) \<or> (\<exists>m'. P m' \<and> documentIs u (vRoot s) m')"
    and v: "sameExcept {tmp, path} u v" "nodeAt v path = nodeAt s path \<or> nodeAt v path = Some new"
    and "vMetadata u = vMetadata s \<or> nodeAt v path = Some new \<and> P (vMetadata u) \<and> documentIs u (vRoot s) (vMetadata u)"
    and "r = Inr () \<Longrightarrow> nodeAt v path = Some new \<and> P (vMetadata u) \<and> documentIs u (vRoot s) (vMetadata u)"
    and apart: "apart (vRoot s) path tmp"
  shows "published path tmp new P s r v"
proof -
  have mp: "nodeAt v (metadataPath (vRoot s)) = nodeAt u (metadataPath (vRoot s))"
    using v(1) apart by (auto simp: sameExcept_def apart_def)
  have "volFrame {path, tmp, metadataPath (vRoot s)} (metadataScratch (vRoot s)) s v"
    using volFrame_trans [OF u(1) sameExcept_volFrame [OF v(1), where C = "{}"]] by (rule volFrame_mono) auto
  then show ?thesis
    using assms mp sameExcept_fields [OF v(1)] documentIs_cong [OF mp]
    by (auto simp: published_def Let_def)
qed

lemma dropPrevious_wp:
  assumes u: "volFrame {path, tmp, metadataPath (vRoot s)} (metadataScratch (vRoot s)) s u"
    "nodeAt u path = Some new" "P (vMetadata u) \<and> documentIs u (vRoot s) (vMetadata u)"
    and apart: "apart (vRoot s) path tmp"
  shows "wp (dropPrevious parent tmp prev) (published path tmp new P s) u"
proof -
  have "published path tmp new P s r v" if v: "sameExcept {tmp} u v" for r v
  proof -
    have "nodeAt v path = Some new" using v u(2) apart by (auto simp: sameExcept_def apart_def)
    then show ?thesis
      by (intro published_later [OF u(1) _ sameExcept_mono [OF v] _ _ _ apart]) (use u(3) in auto)
  qed
  then show ?thesis unfolding dropPrevious_def by (auto intro!: wp_removeI wp_syncDirectoryI simp: wp)
qed

lemma publishFile_wp:
  assumes new: "nodeAt s tmp = Some (Regular i c)"
    and root: "isAbs (vRoot s)" "Clean (vRoot s) = vRoot s"
    and apart: "apart (vRoot s) path tmp" and disk: "diskMetadata s (vRoot s) = Some m"
    and P: "P = fileMetaSet (metadataKey relative) (meta\<lparr>Mode := Mode meta AND mode0777\<rparr>) (mergePending (vPending s) m)"
  shows "wp (publishFile relative path tmp meta) (published path tmp (Regular i c) P s) s"
proof -
  let ?new = "Regular i c" and ?Q = "published path tmp (Regular i c) P s"
  let ?post = "fileMetaSet (metadataKey relative) (meta\<lparr>Mode := Mode meta AND mode0777\<rparr>)"
  have ne: "tmp \<noteq> path" using apart by (simp add: apart_def)
  have set: "wp (andThen (rollingBack path tmp prev (setFileMeta relative meta)) (\<lambda>_.
      dropPrevious (pathDir path) tmp prev)) ?Q t"
    if t: "sameExcept {tmp, path} s t" "installed path tmp (nodeAt s path) ?new prev t" for prev t
  proof (rule wp_andThenI, rule wp_rollingBackI [OF _ ne, where R = "transacted ?post t"])
    note f = sameExcept_fields [OF t(1)]
    have new': "nodeAt t path = Some ?new" using t(2) by (simp add: installed_def)
    have d: "diskMetadata t (vRoot t) = Some m"
      using disk f(1) diskMetadata_cong [of t "vRoot s" s] t(1) apart by (auto simp: sameExcept_def apart_def)
    show "wp (setFileMeta relative meta) (transacted ?post t) t"
      unfolding setFileMeta_def by (rule setFile.update_transacted [OF _ _ d]) (use root f in simp_all)
    have tr: "nodeAt u path = Some ?new" "nodeAt u tmp = nodeAt t tmp"
      "volFrame {path, tmp, metadataPath (vRoot s)} (metadataScratch (vRoot s)) s u"
      "r = Inr () \<Longrightarrow> P (vMetadata u) \<and> documentIs u (vRoot s) (vMetadata u)"
      "r = Inl e \<Longrightarrow> vMetadata u = vMetadata s"
      "nodeAt u (metadataPath (vRoot s)) = nodeAt s (metadataPath (vRoot s)) \<or> (\<exists>m'. P m' \<and> documentIs u (vRoot s) m')"
      if "transacted ?post t r u" for r u e
      using transaction_result [OF t(1) new' that _ apart disk, where P = P] P by simp_all
    show "case Inr () of Inl e \<Rightarrow> ?Q (Inl e) u | Inr a \<Rightarrow> wp (dropPrevious (pathDir path) tmp prev) ?Q u"
      if "transacted ?post t (Inr x) u" for x u
      by (simp, rule dropPrevious_wp [OF tr(3) [OF that] tr(1) [OF that] _ apart]) (use tr(4) [OF that] in simp)
    show "installed path tmp (nodeAt s path) ?new prev u" if "transacted ?post t (Inl e) u" for e u
      using tr(1,2) [OF that] t(2) by (simp add: installed_def split: if_splits)
    show "case Inl e' of Inl e \<Rightarrow> ?Q (Inl e) v | Inr a \<Rightarrow> wp (dropPrevious (pathDir path) tmp prev) ?Q v"
      if "transacted ?post t (Inl e) u" "sameExcept {tmp, path} u v"
        "nodeAt v path = nodeAt s path \<or> nodeAt v path = Some ?new" for e e' u v
      by (simp, rule published_later [OF tr(3) [OF that(1)] tr(6) [OF that(1)] that(2,3) _ _ apart])
        (use tr(5) [OF that(1)] in simp_all)
  qed
  show ?thesis
    unfolding publishFile_def Let_def
  proof (rule wp_andThenI, rule wp_installTemporaryI [OF new ne]; simp)
    show "?Q (Inl e) t" if "sameExcept {} s t" for e t
      using published_fail [OF sameExcept_mono [OF that] _ apart] that by (simp add: sameExcept_def)
    show "wp (andThen (rollingBack path tmp prev (syncDirectory (pathDir path))) (\<lambda>_.
        andThen (rollingBack path tmp prev (setFileMeta relative meta)) (\<lambda>_.
        dropPrevious (pathDir path) tmp prev))) ?Q t"
      if t: "sameExcept {tmp, path} s t" "installed path tmp (nodeAt s path) ?new prev t" for prev t
    proof (rule wp_andThenI, rule wp_rollingBackI [OF _ ne, where R = "\<lambda>_ u. sameExcept {} t u"])
      show "wp (syncDirectory (pathDir path)) (\<lambda>_ u. sameExcept {} t u) t"
        by (rule wp_syncDirectoryI) simp_all
      have inst: "installed path tmp (nodeAt s path) ?new prev u" if "sameExcept {} t u" for u
        using that t(2) by (simp add: installed_def sameExcept_def)
      then show "sameExcept {} t u \<Longrightarrow> installed path tmp (nodeAt s path) ?new prev u" for u .
      show "case Inr () of Inl e \<Rightarrow> ?Q (Inl e) u | Inr a \<Rightarrow>
          wp (andThen (rollingBack path tmp prev (setFileMeta relative meta)) (\<lambda>_.
            dropPrevious (pathDir path) tmp prev)) ?Q u" if "sameExcept {} t u" for u
        using set [OF _ inst [OF that]] sameExcept_trans [OF t(1) that] by simp
      show "case Inl e' of Inl e \<Rightarrow> ?Q (Inl e) v | Inr a \<Rightarrow>
          wp (andThen (rollingBack path tmp prev (setFileMeta relative meta)) (\<lambda>_.
            dropPrevious (pathDir path) tmp prev)) ?Q v"
        if "sameExcept {} t u" "sameExcept {tmp, path} u v"
          "nodeAt v path = nodeAt s path \<or> nodeAt v path = Some ?new" for e' u v
        using published_fail [OF _ that(3) apart] sameExcept_trans [OF sameExcept_trans [OF t(1) that(1)] that(2)]
        by simp
    qed
  qed
qed

section \<open>Storing a file\<close>

definition persistedMeta :: "string \<Rightarrow> FileMeta \<Rightarrow> bytes \<Rightarrow> Metadata \<Rightarrow> Metadata \<Rightarrow> bool" where
  "persistedMeta key meta data m m' \<longleftrightarrow>
     (\<exists>now. (MTime meta \<noteq> 0 \<longrightarrow> now = MTime meta) \<and>
        fileMetaSet key (meta\<lparr>Size := of_nat (length data), MTime := now, Mode := Mode meta AND mode0777\<rparr>) m m')"

definition freshCiphertext :: "'y age_scheme \<Rightarrow> string \<Rightarrow> bytes \<Rightarrow> string \<Rightarrow> 'z os_scheme \<Rightarrow> bool" where
  "freshCiphertext A recipient data path t \<longleftrightarrow>
     (\<exists>i nonce. nodeAt t path = Some (Regular i (ageEncrypt A nonce recipient data)))"

text \<open>
  The contract of \<open>persistFile\<close> under every schedule of failures: the ciphertext is the old one or
  an encryption of exactly the given data, the index in memory changes only with it, a success
  means that both are new and that the document on disk holds the index, and nothing else in
  the tree changes but for new temporary entries and directories.
\<close>

definition persisted ::
  "'y age_scheme \<Rightarrow> string \<Rightarrow> string \<Rightarrow> bytes \<Rightarrow> FileMeta \<Rightarrow> Metadata \<Rightarrow>
   'z volume_scheme \<Rightarrow> unit res \<Rightarrow> 'z volume_scheme \<Rightarrow> bool" where
  "persisted A path key data meta m s r t \<longleftrightarrow>
     (let root = vRoot s;
          fresh = freshCiphertext A (cfgRecipient (vConfig s)) data path t;
          indexed = persistedMeta key meta data (mergePending (vPending s) m) in
      volFrame {path, metadataPath root} (metadataScratch root \<union> scratchPaths path temporaryPrefix) s t \<and>
      (nodeAt t path = nodeAt s path \<or> fresh) \<and>
      (nodeAt t (metadataPath root) = nodeAt s (metadataPath root) \<or> (\<exists>m'. indexed m' \<and> documentIs t root m')) \<and>
      (vMetadata t = vMetadata s \<or> fresh \<and> indexed (vMetadata t) \<and> documentIs t root (vMetadata t)) \<and>
      (r = Inr () \<longrightarrow> fresh \<and> indexed (vMetadata t) \<and> documentIs t root (vMetadata t)))"

lemma persisted_early:
  assumes "onlyCreates {} (scratchPaths path temporaryPrefix) s t" "nodeAt t path = nodeAt s path"
    "nodeAt t (metadataPath (vRoot s)) = nodeAt s (metadataPath (vRoot s))"
  shows "persisted A path key data meta m s (Inl e) t"
  using assms(2,3) more_volume(1) [OF onlyCreates_more [OF assms(1)]]
    volFrame_mono [OF onlyCreates_volFrame [OF assms(1)]]
  by (simp add: persisted_def Let_def)

lemma volFrame_drop:
  "volFrame (insert x X) C s t \<Longrightarrow> x \<in> C \<Longrightarrow> nodeAt s x = None \<Longrightarrow> volFrame X C s t"
  by (simp add: volFrame_def) metis

lemma persisted_published:
  assumes u: "volFrame {tmp} (scratchPaths path temporaryPrefix) s u" "vPending u = vPending s"
      "vMetadata u = vMetadata s"
      "nodeAt u path = nodeAt s path" "nodeAt u (metadataPath (vRoot s)) = nodeAt s (metadataPath (vRoot s))"
    and pub: "published path tmp (Regular i (ageEncrypt A nonce (cfgRecipient (vConfig s)) data)) P u r t"
    and P: "\<And>m'. P m' \<Longrightarrow> persistedMeta key meta data (mergePending (vPending s) m) m'"
    and tmp: "tmp \<in> scratchPaths path temporaryPrefix" "nodeAt s tmp = None"
    and ap: "apart (vRoot s) path tmp" and v: "sameExcept {tmp} t v"
  shows "persisted A path key data meta m s r v"
proof -
  have root: "vRoot u = vRoot s" using u(1) by (simp add: volFrame_def)
  note p = pub [unfolded published_def Let_def root]
  have "volFrame ({tmp} \<union> {path, tmp, metadataPath (vRoot s)} \<union> {tmp})
      (scratchPaths path temporaryPrefix \<union> metadataScratch (vRoot s) \<union> {}) s v"
    using p by (intro volFrame_trans [OF volFrame_trans [OF u(1)] sameExcept_volFrame [OF v]]) simp
  then have "volFrame (insert tmp {path, metadataPath (vRoot s)})
      (metadataScratch (vRoot s) \<union> scratchPaths path temporaryPrefix) s v"
    by (rule volFrame_mono) auto
  then have fr: "volFrame {path, metadataPath (vRoot s)} (metadataScratch (vRoot s) \<union> scratchPaths path temporaryPrefix) s v"
    by (rule volFrame_drop [OF _ _ tmp(2)]) (use tmp(1) in simp)
  have q: "nodeAt v path = nodeAt t path" "nodeAt v (metadataPath (vRoot s)) = nodeAt t (metadataPath (vRoot s))"
    using v ap by (auto simp: sameExcept_def apart_def)
  have fresh: "nodeAt v path = Some (Regular i (ageEncrypt A nonce (cfgRecipient (vConfig s)) data)) \<Longrightarrow>
      freshCiphertext A (cfgRecipient (vConfig s)) data path v"
    by (auto simp: freshCiphertext_def)
  show ?thesis
    unfolding persisted_def Let_def
    using fr p q fresh P u sameExcept_fields(2) [OF v] documentIs_cong [OF q(2)] by auto
qed

lemma encryptAndPublish_wp:
  assumes root: "isAbs (vRoot s)" "Clean (vRoot s) = vRoot s" and disk: "diskMetadata s (vRoot s) = Some m"
    and ap: "apart (vRoot s) path tmp" and tmp: "tmp \<in> scratchPaths path temporaryPrefix" "nodeAt s tmp = None"
    and u: "volFrame {tmp} (scratchPaths path temporaryPrefix) s u" "vPending u = vPending s" "vMetadata u = vMetadata s"
      "nodeAt u path = nodeAt s path" "nodeAt u (metadataPath (vRoot s)) = nodeAt s (metadataPath (vRoot s))"
      "nodeAt u tmp = Some (Regular i0 [])"
  shows "wp (encryptAndPublish A (cfgRecipient (vConfig s)) relative path tmp data meta)
    (\<lambda>r t. \<forall>v. sameExcept {tmp} t v \<longrightarrow> persisted A path (metadataKey relative) data meta m s r v) u"
proof -
  let ?c = "ageEncrypt A (osCalls u) (cfgRecipient (vConfig s)) data"
  let ?Q = "\<lambda>r t. \<forall>v. sameExcept {tmp} t v \<longrightarrow> persisted A path (metadataKey relative) data meta m s r v"
  have w: "volFrame {tmp} (scratchPaths path temporaryPrefix) s w" "vPending w = vPending s" "vMetadata w = vMetadata s"
      "nodeAt w path = nodeAt s path" "nodeAt w (metadataPath (vRoot s)) = nodeAt s (metadataPath (vRoot s))"
      "vRoot w = vRoot s" if "sameExcept {tmp} u w" for w
  proof -
    show "volFrame {tmp} (scratchPaths path temporaryPrefix) s w"
      using volFrame_trans [OF u(1) sameExcept_volFrame [OF that, where C = "{}"]] by simp
    show "vPending w = vPending s" "vMetadata w = vMetadata s" "vRoot w = vRoot s"
      using sameExcept_fields [OF that] u(1-3) by (simp_all add: volFrame_def)
    show "nodeAt w path = nodeAt s path" "nodeAt w (metadataPath (vRoot s)) = nodeAt s (metadataPath (vRoot s))"
      using that u(4,5) ap by (auto simp: sameExcept_def apart_def)
  qed
  have fin: "wp (publishFile relative path tmp (meta\<lparr>Size := of_nat (length data), MTime := now\<rparr>)) ?Q w"
    if w1: "sameExcept {tmp} u w" "nodeAt w tmp = Some (Regular i ?c)" and now: "MTime meta \<noteq> 0 \<longrightarrow> now = MTime meta" for w i now
  proof (rule wp_mono [OF publishFile_wp [OF w1(2) _ _ _ _ refl]])
    show "isAbs (vRoot w)" "Clean (vRoot w) = vRoot w" "apart (vRoot w) path tmp"
      using root ap w(6) [OF w1(1)] by simp_all
    show "diskMetadata w (vRoot w) = Some m"
      using disk w(5,6) [OF w1(1)] diskMetadata_cong [of w "vRoot s" s] by simp
    show "?Q r t" if "published path tmp (Regular i ?c) (fileMetaSet (metadataKey relative)
        (meta\<lparr>Size := of_nat (length data), MTime := now\<rparr>
          \<lparr>Mode := Mode (meta\<lparr>Size := of_nat (length data), MTime := now\<rparr>) AND mode0777\<rparr>)
        (mergePending (vPending w) m)) w r t" for r t
    proof (intro allI impI)
      fix v
      assume v: "sameExcept {tmp} t v"
      show "persisted A path (metadataKey relative) data meta m s r v"
        by (rule persisted_published [OF w(1-5) [OF w1(1)] that _ tmp ap v])
          (use now w(2) [OF w1(1)] in \<open>auto simp: persistedMeta_def\<close>)
    qed
  qed
  have fail: "?Q (Inl e) t" if t: "sameExcept {tmp} u t" for e t
  proof (intro allI impI)
    have "published path tmp (Regular i0 ?c) (\<lambda>_. False) t (Inl e) t"
      by (rule published_fail) (use ap w(6) [OF t] in simp_all)
    then show "persisted A path (metadataKey relative) data meta m s (Inl e) v" if "sameExcept {tmp} t v" for v
      using persisted_published [OF w(1-5) [OF t] _ _ tmp ap that] by blast
  qed
  show ?thesis
    unfolding encryptAndPublish_def wp_bind wp_gets wp_andThen
    by (rule wp_writeCiphertextI [OF u(6)]) (use fin fail in \<open>auto simp: wp\<close>)
qed

lemma wp_mkdirAll_onlyCreatesI:
  assumes "\<And>r t. onlyCreates {} (set (ancestors p)) s t \<Longrightarrow> Q r t"
  shows "wp (os_mkdirAll p perm) Q s"
proof (rule wp_mkdirAllI, rule assms)
  fix t :: "'a os_scheme"
  assume "\<And>q. nodeAt t q = nodeAt s q \<or> nodeAt s q = None \<and> q \<in> set (ancestors p) \<and> (\<exists>f. nodeAt t q = Some (Directory f))"
    and "osEnv t = osEnv s" and "os.more t = os.more s"
  then show "onlyCreates {} (set (ancestors p)) s t" unfolding onlyCreates_def by blast
qed

lemma persistFile_wp:
  assumes root: "isAbs (vRoot s)" "Clean (vRoot s) = vRoot s"
    and path: "encryptedPath (vRoot s) relative = Inr path" "comps relative \<noteq> []"
    and names: "digitNames (osEnv s)" and disk: "diskMetadata s (vRoot s) = Some m"
  shows "wp (persistFile A relative data meta) (persisted A path (metadataKey relative) data meta m s) s"
proof -
  let ?Q = "persisted A path (metadataKey relative) data meta m s" and ?root = "vRoot s"
  let ?dirs = "set (ancestors (pathDir path))"
  obtain nd where nd: "nodeAt s (metadataPath ?root) = Some nd"
    using disk by (auto simp: diskMetadata_def split: option.splits)
  have te: "path \<notin> ?dirs"
    using temporary_entry(6) [OF root path names refl _ refl, where pfx = temporaryPrefix] by simp
  have keep: "nodeAt t path = nodeAt s path" "nodeAt t (metadataPath ?root) = nodeAt s (metadataPath ?root)"
    if "onlyCreates {} ?dirs s t" for t
    using te nd onlyCreates_nodeAt [OF that, of path] onlyCreates_keeps [OF that] by auto
  have scratch: "onlyCreates {} (scratchPaths path temporaryPrefix) s t" if "onlyCreates {} ?dirs s t" for t
    using that by (rule onlyCreates_mono) (auto simp: scratchPaths_def)
  have early: "?Q (Inl e) t" if "onlyCreates {} ?dirs s t" for e t
    by (rule persisted_early [OF scratch [OF that] keep [OF that]])
  have inside: "wp (deferring (os_remove tmp)
      (encryptAndPublish A (cfgRecipient (vConfig s)) relative path tmp data meta)) ?Q
      (putNode tmp (Regular i []) (tickd t))"
    if t: "onlyCreates {} ?dirs s t" and name: "\<exists>k. tmp = tempName (pathDir path) (temporaryPrefix @ envName (osEnv t) k)"
      and free: "nodeAt t tmp = None" for t tmp i
  proof -
    from name obtain x k where tmp: "tmp = tempName (pathDir path) (temporaryPrefix @ x)"
      and x: "x = envName (osEnv s) k" using t by (auto simp: onlyCreates_def)
    have ap: "apart ?root path tmp" and na: "tmp \<notin> ?dirs"
      using temporary_entry [OF root path names x _ tmp] by (simp_all add: apart_def)
    have st: "tmp \<in> scratchPaths path temporaryPrefix" using tmp by (auto simp: scratchPaths_def)
    have ns: "nodeAt s tmp = None" using free na onlyCreates_nodeAt [OF t, of tmp] by simp
    have "onlyCreates {tmp} (scratchPaths path temporaryPrefix) s (putNode tmp (Regular i []) (tickd t))"
      using scratch [OF t] by (auto simp: onlyCreates_def)
    note u = onlyCreates_volFrame [OF this] more_volume [OF onlyCreates_more [OF this]]
    show ?thesis
      unfolding wp_deferring
      by (rule wp_mono [OF encryptAndPublish_wp [OF root disk ap st ns u(1,3,2)]])
        (use keep [OF t] ap in \<open>auto intro!: wp_removeI simp: apart_def\<close>)
  qed
  show ?thesis
    unfolding persistFile_def Let_def wp_bind wp_gets wp_if wp_case_sum path(1) sum.case
    by (auto intro!: wp_andThenI wp_mkdirAll_onlyCreatesI wp_statI wp_createTempI early inside simp: wp_return wp_if
        split: sum.splits) (rule exI, rule refl)
qed

end
