(* ===== verification/Config.thy ===== *)
theory Config
  imports Volume
begin

text \<open>
  The secrets of a vault (config.go): the identity file encrypted with the passphrase, the
  creation of a vault and the change of its passphrase. Prompts (prompt.go) are questions to
  the user, so a prompter is a function of the number of the call; the scrypt recipients and
  the keys of the age library are parameters of the definitions, like the rest of that library.
\<close>

section \<open>Prompts and keys\<close>

record PromptRequest =
  reqPath :: string
  reqOperation :: string
  reqPID :: u32
  reqDescription :: string

text \<open>Every prompter asks for a passphrase; an \<open>IdentityPrompter\<close> may also return the identity.\<close>

record prompter =
  prPrompt :: "nat \<Rightarrow> PromptRequest \<Rightarrow> string res"
  prIdentity :: "(nat \<Rightarrow> PromptRequest \<Rightarrow> string option res) option"

text \<open>
  The part of the age library that handles passphrases: \<open>NewScryptIdentity\<close> and
  \<open>NewScryptRecipient\<close> may refuse a passphrase, \<open>Decrypt\<close> fails (\<open>None\<close>) when the passphrase
  does not open the header, and the payload is read from the stream it returns.
\<close>

record agekeys = age +
  ageScryptRefuses :: "string \<Rightarrow> goerr option"
  ageScryptEncrypt :: "nat \<Rightarrow> string \<Rightarrow> bytes \<Rightarrow> bytes"
  ageScryptDecrypt :: "string \<Rightarrow> bytes \<Rightarrow> bytes res option"
  ageGenerate :: "nat \<Rightarrow> string res"
  ageParseIdentity :: "string \<Rightarrow> string res"
  ageParseRecipient :: "string \<Rightarrow> string res"

definition askPrompter :: "prompter \<Rightarrow> PromptRequest \<Rightarrow> ('z os_scheme, string res) state" where
  "askPrompter prompter request = State (\<lambda>s. (prPrompt prompter (osCalls s) request, tickd s))"

section \<open>The private configuration\<close>

record privateConfig =
  pcVersion :: int
  pcVolumeID :: string
  pcIdentity :: string

definition privateConfigField :: "string \<Rightarrow> json \<Rightarrow> privateConfig \<Rightarrow> privateConfig res" where
  "privateConfigField k j c =
     (if fieldIs ''version'' k then setField (decodeInt (pcVersion c) j) (\<lambda>v. c\<lparr>pcVersion := v\<rparr>)
      else if fieldIs ''volumeId'' k then setField (decodeString (pcVolumeID c) j) (\<lambda>v. c\<lparr>pcVolumeID := v\<rparr>)
      else if fieldIs ''identity'' k then setField (decodeString (pcIdentity c) j) (\<lambda>v. c\<lparr>pcIdentity := v\<rparr>)
      else Inr c)"

definition decodePrivateConfig :: "bytes \<Rightarrow> privateConfig res" where
  "decodePrivateConfig data =
     (case parseJson (bytesStr data) of
        Inl e \<Rightarrow> Inl e
      | Inr j \<Rightarrow> decodeObject privateConfigField \<lparr>pcVersion = 0, pcVolumeID = [], pcIdentity = []\<rparr> j)"

text \<open>\<open>json.Marshal\<close>: the compact form of a value.\<close>

fun marshalJson :: "json \<Rightarrow> string" where
  "marshalJson JNull = ''null''"
| "marshalJson (JBool b) = (if b then ''true'' else ''false'')"
| "marshalJson (JNum n) = n"
| "marshalJson (JStr s) = quoteString s"
| "marshalJson (JArr vs) = CHR ''['' # separate '','' (map marshalJson vs) @ '']''"
| "marshalJson (JObj ms) =
     CHR ''{'' # separate '','' (map (\<lambda>(k, v). quoteString k @ CHR '':'' # marshalJson v) ms) @ ''}''"

definition encodePrivateConfig :: "privateConfig \<Rightarrow> json" where
  "encodePrivateConfig c = JObj
     [(''version'', jint (pcVersion c)), (''volumeId'', JStr (pcVolumeID c)), (''identity'', JStr (pcIdentity c))]"

definition encodePublicConfig :: "PublicConfig \<Rightarrow> json" where
  "encodePublicConfig c = JObj
     [(''version'', jint (cfgVersion c)), (''volumeId'', JStr (cfgVolumeID c)), (''recipient'', JStr (cfgRecipient c))]"

section \<open>Unlocking\<close>

text \<open>The checks on the decrypted document, before it is returned.\<close>

definition checkPrivateConfig :: "'y agekeys_scheme \<Rightarrow> PublicConfig \<Rightarrow> bytes \<Rightarrow> bytes res" where
  "checkPrivateConfig A public data =
     (if int (length data) > 64 * 1024 then Inl (Msg ''private config is unexpectedly large'')
      else case decodePrivateConfig data of
        Inl _ \<Rightarrow> Inl (Msg ''invalid private config'')
      | Inr private \<Rightarrow>
          if pcVersion private \<noteq> cfgVersion public \<or> pcVolumeID private \<noteq> cfgVolumeID public
          then Inl (Msg ''private config does not match public config'')
          else (case ageParseIdentity A (trimSpace (pcIdentity private)) of
             Inl _ \<Rightarrow> Inl (Msg ''private identity does not match public recipient'')
           | Inr identity \<Rightarrow>
               if ageRecipient A identity \<noteq> cfgRecipient public
               then Inl (Msg ''private identity does not match public recipient'')
               else Inr data))"

definition identityPath :: "string \<Rightarrow> string" where
  "identityPath cipherDir = pathJoin [cipherDir, internalDirName, identityFileName]"

definition unlockPrivateConfig ::
  "'y agekeys_scheme \<Rightarrow> string \<Rightarrow> PublicConfig \<Rightarrow> prompter \<Rightarrow> PromptRequest \<Rightarrow> ('z os_scheme, bytes res) state" where
  "unlockPrivateConfig A cipherDir public prompter request =
     andThen (askPrompter prompter request) (\<lambda>passphrase.
     if ageScryptRefuses A passphrase \<noteq> None then ret (Inl (Sentinel ErrAuthentication))
     else
       andThen (mapErr (Wrap ''open encrypted identity'') (os_open (identityPath cipherDir))) (\<lambda>encrypted.
       andThen (mapErr (\<lambda>_. Sentinel ErrAuthentication) os_nop) (\<lambda>_. \<comment> \<open>\<open>age.Decrypt\<close> reads the header\<close>
       case ageScryptDecrypt A passphrase encrypted of
         None \<Rightarrow> ret (Inl (Sentinel ErrAuthentication))
       | Some payload \<Rightarrow>
           andThen (mapErr (Wrap ''decrypt volume identity'') os_nop) (\<lambda>_.
           ret (case payload of
              Inl e \<Rightarrow> Inl (Wrap ''decrypt volume identity'' e)
            | Inr data \<Rightarrow> checkPrivateConfig A public data)))))"

definition parsePrivateIdentity :: "'y agekeys_scheme \<Rightarrow> bytes \<Rightarrow> string res" where
  "parsePrivateIdentity A data =
     (case decodePrivateConfig data of
        Inl e \<Rightarrow> Inl e
      | Inr private \<Rightarrow> ageParseIdentity A (trimSpace (pcIdentity private)))"

section \<open>Writing the identity\<close>

definition writePassphraseEncryptedFile ::
  "'y agekeys_scheme \<Rightarrow> string \<Rightarrow> bytes \<Rightarrow> string \<Rightarrow> ('z os_scheme, unit res) state" where
  "writePassphraseEncryptedFile A path plaintext passphrase =
     (case ageScryptRefuses A passphrase of
        Some e \<Rightarrow> ret (Inl e)
      | None \<Rightarrow> do {
          nonce \<leftarrow> gets osCalls;
          andThen os_nop (\<lambda>_. \<comment> \<open>\<open>age.Encrypt\<close> draws a file key\<close>
          WriteFileAtomic path (ageScryptEncrypt A nonce passphrase plaintext) mode0600) })"

text \<open>Two prompts that have to agree on a non-empty passphrase.\<close>

definition askNewPassphrase ::
  "prompter \<Rightarrow> PromptRequest \<Rightarrow> PromptRequest \<Rightarrow> ('z os_scheme, string res) state" where
  "askNewPassphrase prompter first second =
     andThen (askPrompter prompter first) (\<lambda>passphrase.
     andThen (askPrompter prompter second) (\<lambda>confirmation.
     ret (if passphrase \<noteq> confirmation then Inl (Msg ''passphrases do not match'')
          else if passphrase = [] then Inl (Msg ''passphrase cannot be empty'')
          else Inr passphrase)))"

definition ChangePassphrase ::
  "'y agekeys_scheme \<Rightarrow> string \<Rightarrow> prompter \<Rightarrow> ('z os_scheme, unit res) state" where
  "ChangePassphrase A cipherDir prompter =
     (let request = (\<lambda>description. \<lparr>reqPath = cipherDir, reqOperation = ''change passphrase'', reqPID = 0,
        reqDescription = description\<rparr>) in
      andThen (loadPublicConfig cipherDir) (\<lambda>public.
      andThen (unlockPrivateConfig A cipherDir public prompter (request ''Enter the current PassFS passphrase.''))
        (\<lambda>privateData.
      andThen (askNewPassphrase prompter (request ''Choose a new PassFS recovery passphrase.'')
        (request ''Confirm the new PassFS recovery passphrase.'')) (\<lambda>newPassphrase.
      writePassphraseEncryptedFile A (identityPath cipherDir) privateData newPassphrase))))"

section \<open>Creating a vault\<close>

text \<open>The part of \<open>initVolume\<close> that writes the vault, guarded by the deferred clean-up.\<close>

definition writeVault ::
  "'y agekeys_scheme \<Rightarrow> string \<Rightarrow> string \<Rightarrow> string \<Rightarrow> string \<Rightarrow>
   (PublicConfig \<Rightarrow> string \<Rightarrow> ('z os_scheme, unit res) state) option \<Rightarrow> ('z os_scheme, unit res) state" where
  "writeVault A cipherDir identity volumeID passphrase identityHook =
     (let internalDir = pathJoin [cipherDir, internalDirName];
          objectsDir = pathJoin [cipherDir, objectStorageDirectory];
          public = \<lparr>cfgVersion = formatVersion, cfgVolumeID = volumeID, cfgRecipient = ageRecipient A identity\<rparr>;
          private = \<lparr>pcVersion = formatVersion, pcVolumeID = volumeID, pcIdentity = identity\<rparr> in
      andThen (mapErr (Wrap ''create internal directory'') (os_mkdirAll internalDir mode0700)) (\<lambda>_.
      andThen (mapErr (Wrap ''create encrypted object directory'') (os_mkdirAll objectsDir mode0700)) (\<lambda>_.
      andThen (mapErr (Wrap ''write public config'')
        (WriteJSONFileAtomic (pathJoin [internalDir, publicConfigName]) (encodePublicConfig public) mode0600)) (\<lambda>_.
      andThen (mapErr (Wrap ''write encrypted identity'')
        (writePassphraseEncryptedFile A (pathJoin [internalDir, identityFileName])
          (strBytes (marshalJson (encodePrivateConfig private))) passphrase)) (\<lambda>_.
      andThen (mapErr (Wrap ''write metadata'')
        (WriteJSONFileAtomic (pathJoin [internalDir, metadataFileName]) (encodeMetadata emptyMetadata) mode0600)) (\<lambda>_.
      case identityHook of
        None \<Rightarrow> ret (Inr ())
      | Some hook \<Rightarrow> mapErr (Wrap ''configure platform identity unlock'') (hook public identity)))))))"

definition initVolume ::
  "'y agekeys_scheme \<Rightarrow> string \<Rightarrow> prompter \<Rightarrow>
   (PublicConfig \<Rightarrow> string \<Rightarrow> ('z os_scheme, unit res) state) option \<Rightarrow> ('z os_scheme, unit res) state" where
  "initVolume A cipherDir prompter identityHook =
     (let request = (\<lambda>description. \<lparr>reqPath = cipherDir, reqOperation = ''initialize'', reqPID = 0,
        reqDescription = description\<rparr>) in
      andThen (ensureEmptyDirectory cipherDir) (\<lambda>_. do {
        n \<leftarrow> gets osCalls;
        andThen (mapErr (Wrap ''generate volume identity'') (ret (ageGenerate A n))) (\<lambda>identity. do {
          random \<leftarrow> randRead;
          (case random of
             None \<Rightarrow> ret (Inl (Msg ''generate volume id''))
           | Some volumeIDBytes \<Rightarrow>
               andThen (askNewPassphrase prompter
                 (request ''Choose a recovery passphrase for your new PassFS vault.'')
                 (request ''Confirm the recovery passphrase for your new PassFS vault.'')) (\<lambda>passphrase. do {
                 r \<leftarrow> writeVault A cipherDir identity (hexEncode (take 16 volumeIDBytes)) passphrase identityHook;
                 (case r of
                    Inr _ \<Rightarrow> ret (Inr ())
                  | Inl e \<Rightarrow> do {
                      _ \<leftarrow> os_removeAll (pathJoin [cipherDir, internalDirName]);
                      _ \<leftarrow> os_removeAll (pathJoin [cipherDir, objectStorageDirectory]);
                      ret (Inl e) }) })) }) }))"

definition InitVolume :: "'y agekeys_scheme \<Rightarrow> string \<Rightarrow> prompter \<Rightarrow> ('z os_scheme, unit res) state" where
  "InitVolume A cipherDir prompter = initVolume A cipherDir prompter None"

section \<open>Reading back the private configuration\<close>

lemma pMembers_one:
  assumes "validUtf8 k" "\<And>r. stops r \<Longrightarrow> pValue d (v @ r) = Some (x, r)"
  shows "pMembers d (quoteString k @ CHR '':'' # v @ CHR ''}'' # r) = Some ([(k, x)], r)"
    and "pMembers d (quoteString k @ CHR '':'' # v @ CHR '','' # r) =
      map_option (\<lambda>(ms, r'). ((k, x) # ms, r')) (pMembers d r)"
  using assms(2) [of "CHR ''}'' # r"] assms(2) [of "CHR '','' # r"]
  by (subst pMembers.simps, simp add: quoteString_def pString_quote [OF assms(1)])+

lemma pValue_jint: "stops r \<Longrightarrow> pValue d (showInt i @ r) = Some (JNum (showInt i), r)"
  using pValue_printJson [of d "JNum (showInt i)" 0] printsBackD [of d 0 "JNum (showInt i)" "[]" r] by auto

lemma pValue_string: "validUtf8 s \<Longrightarrow> stops r \<Longrightarrow> pValue d (quoteString s @ r) = Some (JStr s, r)"
  using pValue_printJson [of d "JStr s" 0] printsBackD [of d 0 "JStr s" "[]" r] by auto

lemma decode_encodePrivateConfig:
  assumes "in64 (pcVersion c)" "validUtf8 (pcVolumeID c)" "validUtf8 (pcIdentity c)"
  shows "decodePrivateConfig (strBytes (marshalJson (encodePrivateConfig c))) = Inr c"
proof -
  have tags: "validUtf8 ''version''" "validUtf8 ''volumeId''" "validUtf8 ''identity''" by code_simp+
  let ?q = "\<lambda>k v. quoteString k @ CHR '':'' # v"
  let ?body = "?q ''version'' (showInt (pcVersion c)) @ CHR '','' #
      ?q ''volumeId'' (quoteString (pcVolumeID c)) @ CHR '','' #
      ?q ''identity'' (quoteString (pcIdentity c)) @ ''}''"
  let ?o = "[(''version'', jint (pcVersion c)), (''volumeId'', JStr (pcVolumeID c)), (''identity'', JStr (pcIdentity c))]"
  have m: "pMembers 9999 ?body = Some (?o, [])"
    using pMembers_one(2) [OF tags(1), of 9999 "showInt (pcVersion c)"]
      pMembers_one(2) [OF tags(2), of 9999 "quoteString (pcVolumeID c)"]
      pMembers_one(1) [OF tags(3), of 9999 "quoteString (pcIdentity c)"]
      pValue_jint pValue_string [OF assms(2)] pValue_string [OF assms(3)]
    by (simp add: jint_def)
  have "pValue 10000 (CHR ''{'' # ?body) = Some (JObj ?o, [])"
    using m by (simp add: pValue.simps skipWs_nonws quoteString_def)
  then have "parseJson (marshalJson (encodePrivateConfig c)) = Inr (JObj ?o)"
    by (simp add: parseJson_def encodePrivateConfig_def jint_def)
  then show ?thesis
    using assms(1)
    by (cases c) (simp add: decodePrivateConfig_def decodeObject_def privateConfigField_def fields)
qed

section \<open>Paths inside the internal directory\<close>

lemma internal_file:
  assumes "isAbs dir" "proper name"
  shows "pathJoin [pathJoin [dir, internalDirName], name] = pathJoin [dir, internalDirName, name]"
    "isAbs (pathJoin [dir, internalDirName, name])"
    "Clean (pathJoin [dir, internalDirName, name]) = pathJoin [dir, internalDirName, name]"
    "comps (pathJoin [dir, internalDirName, name]) = (comps dir @ [internalDirName]) @ [name]"
proof -
  note j = comps_pathJoin3 [OF assms(1) proper_names(3) assms(2)]
  show "isAbs (pathJoin [dir, internalDirName, name])"
    "Clean (pathJoin [dir, internalDirName, name]) = pathJoin [dir, internalDirName, name]"
    "comps (pathJoin [dir, internalDirName, name]) = (comps dir @ [internalDirName]) @ [name]"
    using j by simp_all
  have ne: "dir \<noteq> []" using assms(1) by auto
  have d: "descends internalDirName" "descends name"
    using assms(2) comps_proper [of internalDirName] comps_proper [OF assms(2)]
    by (auto simp: descends_def proper_def isAbs_def hasPrefix_def vault_names prefix_def)
  note k = Join_descends [OF ne d(1)]
  have "pathJoin [dir, internalDirName] \<noteq> []" using k(2) assms(1) by auto
  note l = Join_descends [OF this d(2)]
  have "Clean (pathJoin [pathJoin [dir, internalDirName], name]) = pathJoin [pathJoin [dir, internalDirName], name]"
    using pathJoin2 [OF \<open>pathJoin [dir, internalDirName] \<noteq> []\<close>] by simp
  moreover have "comps (pathJoin [pathJoin [dir, internalDirName], name]) = comps dir @ [internalDirName, name]"
    using k l assms by (simp add: comps_proper)
  ultimately show "pathJoin [pathJoin [dir, internalDirName], name] = pathJoin [dir, internalDirName, name]"
    using j k(2) l(2) assms(1) Clean_eq_iff [of "pathJoin [pathJoin [dir, internalDirName], name]"
        "pathJoin [dir, internalDirName, name]"] by simp
qed

lemma file_names_proper: "proper identityFileName" "proper publicConfigName" "proper metadataFileName"
  by (simp_all add: proper_def vault_names identityFileName_def publicConfigName_def metadataFileName_def)

lemmas vault_files = internal_file [OF _ file_names_proper(1)] internal_file [OF _ file_names_proper(2)]
  internal_file [OF _ file_names_proper(3)]

lemma wp_writeInternalI:
  assumes "isAbs dir" "proper name" "\<not> prefix ''.passfs-config-'' name"
    and "\<And>r t. atomicWrite (pathJoin [dir, internalDirName, name]) data mode s r t \<Longrightarrow> Q r t"
  shows "wp (WriteFileAtomic (pathJoin [dir, internalDirName, name]) data mode) Q s"
  by (rule wp_mono [OF WriteFileAtomic_wp [OF internal_file(2-4) [OF assms(1,2)] assms(3)]]) (rule assms(4))

lemma wp_askPrompter [wp]:
  "wp (askPrompter prompter request) Q = (\<lambda>s. Q (prPrompt prompter (osCalls s) request) (tickd s))"
  by (simp add: wp_def askPrompter_def fun_eq_iff)

section \<open>Unlocking yields the identity of the volume\<close>

lemma checkPrivateConfig_ok:
  assumes "checkPrivateConfig A public data = Inr data'"
  shows "data' = data \<and> (\<exists>identity. parsePrivateIdentity A data = Inr identity \<and>
    ageRecipient A identity = cfgRecipient public)"
  using assms by (auto simp: checkPrivateConfig_def parsePrivateIdentity_def split: if_splits sum.splits)

lemma wp_unlockPrivateConfigI:
  assumes "\<And>e t. sameExcept {} s t \<Longrightarrow> Q (Inl e) t"
    and "\<And>n passphrase data t. sameExcept {} s t \<Longrightarrow>
      followNode 40 (osNodes s) (identityPath cipherDir) = Inr n \<Longrightarrow>
      ageScryptDecrypt A passphrase (nodeData n) = Some (Inr data) \<Longrightarrow>
      checkPrivateConfig A public data = Inr data \<Longrightarrow> Q (Inr data) t"
  shows "wp (unlockPrivateConfig A cipherDir public prompter request) Q s"
proof -
  have [simp]: "osNodes (tickd s) = osNodes s" by (simp add: tickd_def)
  have check: "Q (checkPrivateConfig A public data) t"
    if "sameExcept {} s t" "followNode 40 (osNodes s) (identityPath cipherDir) = Inr n"
      "ageScryptDecrypt A passphrase (nodeData n) = Some (Inr data)" for t n passphrase data
    using assms(1) [OF that(1)] assms(2) [OF that] checkPrivateConfig_ok [of A public data]
    by (cases "checkPrivateConfig A public data") auto
  show ?thesis
    unfolding unlockPrivateConfig_def wp
    using assms(1)
    by (auto simp: wp intro!: wp_openI wp_nopI check split: option.splits sum.splits)
qed

section \<open>Changing the passphrase\<close>

text \<open>The identity file holds the old contents, or the same secret under the new passphrase.\<close>

definition rekeyed :: "'y agekeys_scheme \<Rightarrow> string \<Rightarrow> 'z os_scheme \<Rightarrow> 'z os_scheme \<Rightarrow> bool" where
  "rekeyed A path s t \<longleftrightarrow>
     (\<exists>n old new nonce data. followNode 40 (osNodes s) path = Inr n \<and>
        ageScryptDecrypt A old (nodeData n) = Some (Inr data) \<and> new \<noteq> [] \<and>
        holdsFile t path (ageScryptEncrypt A nonce new data) mode0600)"

lemma loadPublicConfig_wpI:
  "(\<And>r t. sameExcept {} s t \<Longrightarrow> osNodes t = osNodes s \<Longrightarrow> Q r t) \<Longrightarrow> wp (loadPublicConfig dir) Q s"
  unfolding loadPublicConfig_def wp by (rule wp_readFileI) (simp_all add: wp tickd_def sameExcept_def nodeAt_def)

definition passphraseChanged ::
  "'y agekeys_scheme \<Rightarrow> string \<Rightarrow> 'z os_scheme \<Rightarrow> unit res \<Rightarrow> 'z os_scheme \<Rightarrow> bool" where
  "passphraseChanged A path s r t \<longleftrightarrow>
     (nodeAt t path = nodeAt s path \<or> rekeyed A path s t) \<and>
     (r = Inr () \<longrightarrow> rekeyed A path s t) \<and>
     onlyCreates {path} (scratchPaths path ''.passfs-config-'') s t"

lemma passphraseChanged_fail: "sameExcept {} s t \<Longrightarrow> passphraseChanged A path s (Inl e) t"
  by (simp add: passphraseChanged_def sameExcept_def onlyCreates_def)

lemma passphraseChanged_store:
  assumes "sameExcept {} s u" "atomicWrite path (ageScryptEncrypt A nonce new data) mode0600 u r t"
    and "followNode 40 (osNodes s) path = Inr n" "ageScryptDecrypt A old (nodeData n) = Some (Inr data)" "new \<noteq> []"
  shows "passphraseChanged A path s r t"
proof -
  have "holdsFile t path (ageScryptEncrypt A nonce new data) mode0600 \<Longrightarrow> rekeyed A path s t"
    using assms(3-5) unfolding rekeyed_def by blast
  then show ?thesis
    using assms(1,2) by (auto simp: passphraseChanged_def atomicWrite_def sameExcept_def onlyCreates_def)
qed

lemma ChangePassphrase_wp:
  assumes dir: "isAbs dir"
  shows "wp (ChangePassphrase A dir prompter) (passphraseChanged A (identityPath dir) s) s"
proof -
  let ?p = "identityPath dir" and ?Q = "passphraseChanged A (identityPath dir) s"
  have base: "\<not> prefix ''.passfs-config-'' identityFileName" by (simp add: identityFileName_def)
  have set: "wp (writePassphraseEncryptedFile A ?p data new) ?Q u"
    if u: "sameExcept {} s u" and d: "followNode 40 (osNodes s) ?p = Inr n"
      "ageScryptDecrypt A old (nodeData n) = Some (Inr data)" "new \<noteq> []" for n old new data u
  proof -
    have "wp (WriteFileAtomic ?p (ageScryptEncrypt A (osCalls u) new data) mode0600) ?Q (tickd u)"
      unfolding identityPath_def
      by (rule wp_writeInternalI [OF dir file_names_proper(1) base],
          rule passphraseChanged_store [OF _ _ d [unfolded identityPath_def]]) (use u in simp_all)
    then show ?thesis
      unfolding writePassphraseEncryptedFile_def wp
      using u by (auto split: option.splits intro!: wp_nopI passphraseChanged_fail)
  qed
  have unlock: "wp (andThen (unlockPrivateConfig A dir public prompter req) (\<lambda>data.
      andThen (askNewPassphrase prompter req2 req3) (\<lambda>new. writePassphraseEncryptedFile A ?p data new))) ?Q u"
    if u: "sameExcept {} s u" "osNodes u = osNodes s" for u public req req2 req3
    by (intro wp_andThenI wp_unlockPrivateConfigI)
      (use u sameExcept_trans [OF u(1)] in
        \<open>auto simp: askNewPassphrase_def wp split: sum.splits intro!: passphraseChanged_fail set\<close>)
  show ?thesis
    unfolding ChangePassphrase_def Let_def
    by (intro wp_andThenI loadPublicConfig_wpI)
      (auto split: sum.splits intro!: passphraseChanged_fail unlock)
qed

section \<open>A new vault opens with its passphrase\<close>

text \<open>The three files of a vault.\<close>

definition vaultOf :: "'y agekeys_scheme \<Rightarrow> string \<Rightarrow> string \<Rightarrow> string \<Rightarrow> string \<Rightarrow> 'z os_scheme \<Rightarrow> bool" where
  "vaultOf A dir identity volumeID passphrase t \<longleftrightarrow>
     holdsFile t (pathJoin [dir, internalDirName, publicConfigName])
       (jsonDocument (encodePublicConfig \<lparr>cfgVersion = formatVersion, cfgVolumeID = volumeID,
          cfgRecipient = ageRecipient A identity\<rparr>)) mode0600 \<and>
     (\<exists>nonce. holdsFile t (identityPath dir)
       (ageScryptEncrypt A nonce passphrase (strBytes (marshalJson (encodePrivateConfig
          \<lparr>pcVersion = formatVersion, pcVolumeID = volumeID, pcIdentity = identity\<rparr>)))) mode0600) \<and>
     holdsFile t (metadataPath dir) (jsonDocument (encodeMetadata emptyMetadata)) mode0600 \<and>
     ageScryptRefuses A passphrase = None \<and> passphrase \<noteq> []"

lemma holdsFile_keeps: "holdsFile s p d m \<Longrightarrow> atomicWrite q data mode s r t \<Longrightarrow> p \<noteq> q \<Longrightarrow> holdsFile t p d m"
  by (auto simp: holdsFile_def atomicWrite_def dest: onlyCreates_keeps)

lemma holdsFile_tickd [simp]: "holdsFile (tickd s) p d m = holdsFile s p d m"
  by (simp add: holdsFile_def)

lemma vault_files_distinct:
  assumes "isAbs dir"
  shows "pathJoin [dir, internalDirName, publicConfigName] \<noteq> identityPath dir"
    "pathJoin [dir, internalDirName, publicConfigName] \<noteq> metadataPath dir" "identityPath dir \<noteq> metadataPath dir"
proof -
  note f = vault_files(4,8,12) [OF assms]
  show "pathJoin [dir, internalDirName, publicConfigName] \<noteq> identityPath dir"
    "pathJoin [dir, internalDirName, publicConfigName] \<noteq> metadataPath dir" "identityPath dir \<noteq> metadataPath dir"
    using f by (auto simp: identityPath_def metadataPath_def identityFileName_def publicConfigName_def
        metadataFileName_def dest: arg_cong [where f = comps])
qed

lemma writeVault_wp:
  assumes dir: "isAbs dir" and pass: "passphrase \<noteq> []"
  shows "wp (writeVault A dir identity volumeID passphrase None)
    (\<lambda>r t. r = Inr () \<longrightarrow> vaultOf A dir identity volumeID passphrase t) s"
proof -
  note paths = vault_files(1,5,9) [OF dir]
  note ne = vault_files_distinct [OF dir, unfolded identityPath_def metadataPath_def]
  have base: "\<not> prefix ''.passfs-config-'' identityFileName" "\<not> prefix ''.passfs-config-'' publicConfigName"
    "\<not> prefix ''.passfs-config-'' metadataFileName"
    by (simp_all add: identityFileName_def publicConfigName_def metadataFileName_def)
  let ?Q = "\<lambda>r t. r = Inr () \<longrightarrow> vaultOf A dir identity volumeID passphrase t"
  let ?public = "\<lparr>cfgVersion = formatVersion, cfgVolumeID = volumeID, cfgRecipient = ageRecipient A identity\<rparr>"
  let ?private = "\<lparr>pcVersion = formatVersion, pcVolumeID = volumeID, pcIdentity = identity\<rparr>"
  let ?c = "pathJoin [dir, internalDirName, publicConfigName]" and ?i = "pathJoin [dir, internalDirName, identityFileName]"
    and ?m = "pathJoin [dir, internalDirName, metadataFileName]"
  let ?secret = "strBytes (marshalJson (encodePrivateConfig ?private))"
  define conf :: "'a os_scheme \<Rightarrow> bool"
    where "conf t \<longleftrightarrow> holdsFile t ?c (jsonDocument (encodePublicConfig ?public)) mode0600" for t
  define sealed :: "'a os_scheme \<Rightarrow> bool" where "sealed t \<longleftrightarrow> ageScryptRefuses A passphrase = None \<and>
    (\<exists>nonce. holdsFile t ?i (ageScryptEncrypt A nonce passphrase ?secret) mode0600)" for t
  have keep: "conf t" if "conf u" "atomicWrite q data mode u r t" "q = ?i \<or> q = ?m" for t u q data mode r
    using that holdsFile_keeps ne unfolding conf_def by metis
  have keepi: "sealed t" if "sealed u" "atomicWrite ?m data mode u r t" for t u data mode r
    using that holdsFile_keeps ne(3) unfolding sealed_def by metis
  have last: "wp (WriteFileAtomic ?m (jsonDocument (encodeMetadata emptyMetadata)) mode0600) ?Q u"
    if u: "conf u" "sealed u" for u
  proof (rule wp_writeInternalI [OF dir file_names_proper(3) base(3)], rule impI)
    fix r t
    assume w: "atomicWrite ?m (jsonDocument (encodeMetadata emptyMetadata)) mode0600 u r t" "r = Inr ()"
    show "vaultOf A dir identity volumeID passphrase t"
      using keep [OF u(1) w(1)] keepi [OF u(2) w(1)] w pass
      by (auto simp: vaultOf_def identityPath_def metadataPath_def conf_def sealed_def atomicWrite_def)
  qed
  have secret: "wp (writePassphraseEncryptedFile A ?i ?secret passphrase) (\<lambda>r t. r = Inr () \<longrightarrow> conf t \<and> sealed t) u"
    if u: "conf u" for u
  proof -
    have "wp (WriteFileAtomic ?i (ageScryptEncrypt A (osCalls u) passphrase ?secret) mode0600)
        (\<lambda>r t. r = Inr () \<longrightarrow> conf t \<and> sealed t) (tickd u)" if "ageScryptRefuses A passphrase = None"
    proof (rule wp_writeInternalI [OF dir file_names_proper(1) base(1)], rule impI)
      fix r t
      assume w: "atomicWrite ?i (ageScryptEncrypt A (osCalls u) passphrase ?secret) mode0600 (tickd u) r t" "r = Inr ()"
      have "conf (tickd u)" using u by (simp add: conf_def)
      from keep [OF this w(1)] show "conf t \<and> sealed t"
        using w that by (auto simp: sealed_def atomicWrite_def)
    qed
    then show ?thesis
      unfolding writePassphraseEncryptedFile_def wp by (auto split: option.splits intro!: wp_nopI)
  qed
  have config: "wp (WriteFileAtomic ?c (jsonDocument (encodePublicConfig ?public)) mode0600)
      (\<lambda>r t. r = Inr () \<longrightarrow> conf t) u" for u
    by (rule wp_writeInternalI [OF dir file_names_proper(2) base(2)]) (simp add: atomicWrite_def conf_def)
  have fin: "?Q (case r of Inl e \<Rightarrow> Inl (f e) | Inr a \<Rightarrow> Inr a) t" if "?Q r t" for r :: "unit res" and t f
    using that by (cases r) auto
  show ?thesis
    unfolding writeVault_def Let_def paths option.case WriteJSONFileAtomic_def wp
    by (intro wp_mkdirAll_onlyCreatesI)
      (auto split: sum.splits intro!: wp_mkdirAll_onlyCreatesI wp_mono [OF config] wp_mono [OF secret] wp_mono [OF last])
qed

lemma initVolume_wp:
  assumes dir: "isAbs dir"
  shows "wp (initVolume A dir prompter None) (\<lambda>r t. r = Inr () \<longrightarrow>
      (\<exists>n identity random k request passphrase. ageGenerate A n = Inr identity \<and>
        prPrompt prompter k request = Inr passphrase \<and>
        vaultOf A dir identity (hexEncode (take 16 random)) passphrase t)) s"
proof -
  define Q :: "unit res \<Rightarrow> 'a os_scheme \<Rightarrow> bool" where "Q r t \<longleftrightarrow> (r = Inr () \<longrightarrow>
      (\<exists>n identity random k request passphrase. ageGenerate A n = Inr identity \<and>
        prPrompt prompter k request = Inr passphrase \<and>
        vaultOf A dir identity (hexEncode (take 16 random)) passphrase t))" for r t
  have fail: "Q (Inl e) t" for e t by (simp add: Q_def)
  have empty: "wp (ensureEmptyDirectory dir) (\<lambda>r t. case r of Inl e \<Rightarrow> Q (Inl e) t | Inr a \<Rightarrow> wp (f a) Q t) s"
    if "\<And>t. wp (f ()) Q t" for f s
    unfolding ensureEmptyDirectory_def wp
    by (rule wp_statI) (auto intro!: wp_mkdirAll_onlyCreatesI wp_readDirI fail that simp: wp split: sum.splits)
  have core: "wp (writeVault A dir identity (hexEncode (take 16 random)) passphrase None) (\<lambda>r t.
      (\<forall>e. r = Inl e \<longrightarrow> wp (os_removeAll d1) (\<lambda>_. wp (os_removeAll d2) (\<lambda>_. Q (Inl e))) t) \<and>
      (r = Inr () \<longrightarrow> Q (Inr ()) t)) u"
    if "ageGenerate A n = Inr identity" "prPrompt prompter k request = Inr passphrase" "passphrase \<noteq> []"
    for n identity random k request passphrase d1 d2 u
  proof -
    have "Q (Inr ()) t" if "vaultOf A dir identity (hexEncode (take 16 random)) passphrase t" for t
      using that \<open>ageGenerate A n = Inr identity\<close> \<open>prPrompt prompter k request = Inr passphrase\<close>
      unfolding Q_def by blast
    then show ?thesis
      by (intro wp_mono [OF writeVault_wp [OF dir that(3)]]) (auto intro!: wp_removeAllI fail)
  qed
  have "wp (initVolume A dir prompter None) Q s"
    unfolding initVolume_def Let_def wp_andThen
    by (rule empty) (auto simp: wp askNewPassphrase_def split: sum.splits option.splits intro!: fail core)
  then show ?thesis unfolding Q_def .
qed

lemma length_appendString: "length (appendString s) \<le> 6 * length s"
proof (induction s rule: appendString.induct)
  case (1 s)
  have esc: "length (escapeAscii c) \<le> 6" for c by (simp add: escapeAscii_def hex4_def)
  have hex: "length (hex4 n) = 6" for n by (simp add: hex4_def)
  show ?case
  proof (cases s)
    case (Cons c r)
    let ?k = "runeLen s"
    have le: "?k \<le> length s" by (rule runeLen_le)
    show ?thesis
    proof (cases "code c < 0x80 \<or> ?k = 0")
      case True
      then show ?thesis using 1(1,2) Cons esc [of c] hex by (auto simp: appendString_Cons)
    next
      case False
      have "length (appendString (drop ?k s)) \<le> 6 * length (drop ?k s)"
        using 1(3-5) [OF Cons] False by blast
      then show ?thesis using False Cons le hex by (auto simp: appendString_Cons Let_def)
    qed
  qed simp
qed

lemma length_private_document:
  assumes "length volumeID \<le> 32" "length identity \<le> 1000"
  shows "length (marshalJson (encodePrivateConfig \<lparr>pcVersion = formatVersion, pcVolumeID = volumeID,
    pcIdentity = identity\<rparr>)) \<le> 64 * 1024"
proof -
  have v: "length (showInt formatVersion) = 1" by code_simp
  have "length (quoteString ''version'') = 9" "length (quoteString ''volumeId'') = 10"
    "length (quoteString ''identity'') = 10" by code_simp+
  moreover have "length (quoteString volumeID) \<le> 194" "length (quoteString identity) \<le> 6002"
    using assms length_appendString [of volumeID] length_appendString [of identity] by (simp_all add: quoteString_def)
  ultimately show ?thesis using v by (simp add: encodePrivateConfig_def jint_def)
qed

text \<open>Reading a vault that was just written, in an environment without failures.\<close>

lemma unlock_vaultOf:
  assumes v: "vaultOf A dir identity volumeID passphrase t" and env: "\<And>i. envFault (osEnv t) i = None"
    and scrypt: "\<And>n p d. ageScryptRefuses A p = None \<Longrightarrow> ageScryptDecrypt A p (ageScryptEncrypt A n p d) = Some (Inr d)"
    and key: "ageParseIdentity A (trimSpace identity) = Inr identity" "validUtf8 identity" "length identity \<le> 1000"
    and vol: "validUtf8 volumeID" "length volumeID \<le> 32"
    and prompt: "prPrompt prompter (osCalls t) request = Inr passphrase"
  obtains data u where "run_state (unlockPrivateConfig A dir \<lparr>cfgVersion = formatVersion, cfgVolumeID = volumeID,
      cfgRecipient = ageRecipient A identity\<rparr> prompter request) t = (Inr data, u)"
    "parsePrivateIdentity A data = Inr identity"
proof -
  let ?private = "\<lparr>pcVersion = formatVersion, pcVolumeID = volumeID, pcIdentity = identity\<rparr>"
  let ?d = "strBytes (marshalJson (encodePrivateConfig ?private))"
  let ?public = "\<lparr>cfgVersion = formatVersion, cfgVolumeID = volumeID, cfgRecipient = ageRecipient A identity\<rparr>"
  have dec: "decodePrivateConfig ?d = Inr ?private"
    by (rule decode_encodePrivateConfig) (use key vol in \<open>simp_all add: formatVersion_def in64_def\<close>)
  have chk: "checkPrivateConfig A ?public ?d = Inr ?d"
    using dec key length_private_document [OF vol(2) key(3)] by (simp add: checkPrivateConfig_def)
  obtain nonce i where n: "nodeAt t (identityPath dir) = Some (Regular i (ageScryptEncrypt A nonce passphrase ?d))"
    and ok: "ageScryptRefuses A passphrase = None"
    using v by (auto simp: vaultOf_def holdsFile_def)
  have f: "followNode 40 (osNodes t) (identityPath dir) = Inr (Regular i (ageScryptEncrypt A nonce passphrase ?d))"
    using n by (simp add: followNode.simps nodeAt_def)
  have "\<exists>u. run_state (unlockPrivateConfig A dir ?public prompter request) t = (Inr ?d, u)"
    unfolding unlockPrivateConfig_def
    using prompt ok f chk scrypt [OF ok] env
    by (simp add: andThen_def mapErr_def askPrompter_def os_open_def os_nop_def sysCall_def tickd_def)
  moreover have "parsePrivateIdentity A ?d = Inr identity" using dec key(1) by (simp add: parsePrivateIdentity_def)
  ultimately show ?thesis using that by blast
qed

section \<open>A concrete environment\<close>

text \<open>
  An environment in which no call fails and a stand-in for the age library that satisfies the
  laws the properties assume; they serve to evaluate the definitions on concrete inputs.
\<close>

definition calmEnv :: environ where
  "calmEnv = \<lparr>envFault = (\<lambda>_. None), envPartial = (\<lambda>_. 0), envNow = int, envName = (\<lambda>_. ''7''),
     envIno = (\<lambda>i. of_nat (i + 10)), envRandom = (\<lambda>_. Some (replicate 16 7)), envCwd = ''/'', envDirSize = 1\<rparr>"

definition dirNode :: node where
  "dirNode = Directory \<lparr>fi_ino = 3, fi_perm = mode0700, fi_mtime = 0, fi_nlink = 1, fi_dirsize = 1\<rparr>"

definition fileNode :: "bytes \<Rightarrow> node" where
  "fileNode d = Regular \<lparr>fi_ino = 4, fi_perm = mode0600, fi_mtime = 0, fi_nlink = 1, fi_dirsize = 1\<rparr> d"

definition standInDecrypt :: "string \<Rightarrow> bytes \<Rightarrow> bytes option" where
  "standInDecrypt k c =
     (if prefix (strBytes k @ [0]) c then Some (drop (length k + 1) c) else None)"

definition standInAge :: agekeys where
  "standInAge = \<lparr>ageEncrypt = (\<lambda>_ r d. strBytes r @ 0 # d),
     ageDecrypt = (\<lambda>i c. case standInDecrypt (''age1'' @ i) c of None \<Rightarrow> Inl (Msg ''no identity matched'') | Some d \<Rightarrow> Inr d),
     ageRecipient = (\<lambda>i. ''age1'' @ i),
     ageScryptRefuses = (\<lambda>p. if p = [] then Some (Msg ''passphrase cannot be empty'') else None),
     ageScryptEncrypt = (\<lambda>_ p d. strBytes p @ 0 # d),
     ageScryptDecrypt = (\<lambda>p c. map_option Inr (standInDecrypt p c)),
     ageGenerate = (\<lambda>_. Inr ''KEY''), ageParseIdentity = (\<lambda>i. Inr i), ageParseRecipient = (\<lambda>r. Inr r)\<rparr>"

definition answering :: "string \<Rightarrow> prompter" where
  "answering passphrase = \<lparr>prPrompt = (\<lambda>_ _. Inr passphrase), prIdentity = None\<rparr>"

lemma standIn_laws [simp]:
  "ageDecrypt standInAge i (ageEncrypt standInAge n (ageRecipient standInAge i) d) = Inr d"
  "ageScryptRefuses standInAge p = None \<Longrightarrow>
    ageScryptDecrypt standInAge p (ageScryptEncrypt standInAge n p d) = Some (Inr d)"
  by (simp_all add: standInAge_def standInDecrypt_def)

definition emptyVaultState :: os where
  "emptyVaultState = \<lparr>osNodes = [(''/'', dirNode), (''/v'', dirNode)], osCalls = 0, osEnv = calmEnv\<rparr>"

section \<open>Properties\<close>





end
