(* ===== verification/Frame.thy ===== *)
theory Frame
  imports Volume
begin

text \<open>
  A frame calculus: \<open>keeps f m\<close> says that the computation \<open>m\<close> never changes the projection \<open>f\<close>
  of the state, whatever the environment does. It is closed under the control structures of the
  code, so a component that only uses the operating system provably leaves the rest of the
  volume alone.
\<close>

section \<open>The calculus\<close>

named_theorems keeps \<open>projections that computations keep\<close>

definition keeps :: "('s \<Rightarrow> 'b) \<Rightarrow> ('s, 'a) state \<Rightarrow> bool" where
  "keeps f m \<longleftrightarrow> (\<forall>s. f (snd (run_state m s)) = f s)"

lemma keepsD: "keeps f m \<Longrightarrow> run_state m s = (a, t) \<Longrightarrow> f t = f s"
  unfolding keeps_def by (metis snd_conv)

lemma keepsI: "(\<And>s a t. run_state m s = (a, t) \<Longrightarrow> f t = f s) \<Longrightarrow> keeps f m"
  unfolding keeps_def by (metis prod.collapse)

lemma wp_keepsI: "keeps f m \<Longrightarrow> (\<And>r t. f t = f s \<Longrightarrow> Q r t) \<Longrightarrow> wp m Q s"
  by (rule wpI) (blast dest: keepsD)

lemma keeps_mono: "keeps f m \<Longrightarrow> (\<And>s t. f t = f s \<Longrightarrow> g t = g s) \<Longrightarrow> keeps g m"
  by (rule keepsI) (blast dest: keepsD)

lemma keeps_return [keeps]: "keeps f (ret a)"
  by (simp add: keeps_def)

lemma keeps_bind [keeps]: "keeps f m \<Longrightarrow> (\<And>a. keeps f (g a)) \<Longrightarrow> keeps f (State_Monad.bind m g)"
  by (simp add: keeps_def split: prod.splits) (metis snd_conv)

lemma keeps_gets [keeps]: "keeps f (gets h)"
  by (simp add: keeps_def gets_def)

lemma keeps_modify: "(\<And>s. f (h s) = f s) \<Longrightarrow> keeps f (modify h)"
  by (simp add: keeps_def modify_def)

lemma keeps_andThen [keeps]: "keeps f m \<Longrightarrow> (\<And>a. keeps f (g a)) \<Longrightarrow> keeps f (andThen m g)"
  unfolding andThen_def by (intro keeps_bind) (auto intro: keeps_return split: sum.splits)

lemma keeps_mapErr [keeps]: "keeps f m \<Longrightarrow> keeps f (mapErr g m)"
  unfolding mapErr_def by (intro keeps)

lemma keeps_deferring [keeps]: "keeps f d \<Longrightarrow> keeps f m \<Longrightarrow> keeps f (deferring d m)"
  unfolding deferring_def by (intro keeps)

lemma keeps_if [keeps]: "(b \<Longrightarrow> keeps f m) \<Longrightarrow> (\<not> b \<Longrightarrow> keeps f n) \<Longrightarrow> keeps f (if b then m else n)"
  by simp

lemma keeps_Let [keeps]: "(\<And>y. keeps f (g y)) \<Longrightarrow> keeps f (Let x g)"
  by (simp add: Let_def)

lemma keeps_case_sum [keeps]:
  "(\<And>e. keeps f (g e)) \<Longrightarrow> (\<And>a. keeps f (h a)) \<Longrightarrow> keeps f (case r of Inl e \<Rightarrow> g e | Inr a \<Rightarrow> h a)"
  by (simp split: sum.splits)

lemma keeps_case_option [keeps]:
  "keeps f g \<Longrightarrow> (\<And>a. keeps f (h a)) \<Longrightarrow> keeps f (case r of None \<Rightarrow> g | Some a \<Rightarrow> h a)"
  by (simp split: option.splits)

lemma keeps_case_prod [keeps]: "(\<And>a b. keeps f (g a b)) \<Longrightarrow> keeps f (case r of (a, b) \<Rightarrow> g a b)"
  by (simp split: prod.splits)

lemma keeps_case_prod_app [keeps]:
  "(\<And>a b. keeps f (g a b x)) \<Longrightarrow> keeps f ((case r of (a, b) \<Rightarrow> g a b) x)"
  by (simp split: prod.splits)

lemma keeps_case_list [keeps]:
  "keeps f g \<Longrightarrow> (\<And>a b. keeps f (h a b)) \<Longrightarrow> keeps f (case r of [] \<Rightarrow> g | a # b \<Rightarrow> h a b)"
  by (simp split: list.splits)

lemma keeps_case_node [keeps]:
  "(\<And>i. keeps f (g i)) \<Longrightarrow> (\<And>i d. keeps f (h i d)) \<Longrightarrow> (\<And>i t. keeps f (k i t)) \<Longrightarrow>
   keeps f (case n of Directory i \<Rightarrow> g i | Regular i d \<Rightarrow> h i d | Symlink i t \<Rightarrow> k i t)"
  by (simp split: node.splits)

lemma keeps_forEach [keeps]: "(\<And>x. keeps f (g x)) \<Longrightarrow> keeps f (forEach xs g)"
  by (induction xs) (auto intro!: keeps)

lemma keeps_foldRes [keeps]: "(\<And>x b. keeps f (g x b)) \<Longrightarrow> keeps f (foldRes g xs b)"
  by (induction xs arbitrary: b) (auto intro!: keeps)

section \<open>System calls keep everything but the tree and the call counter\<close>

definition osRest :: "'z os_scheme \<Rightarrow> environ \<times> 'z" where
  "osRest s = (osEnv s, os.more s)"

lemma osRest_simps [simp]:
  "osRest (tickd s) = osRest s" "osRest (putNode p n s) = osRest s" "osRest (delNode p s) = osRest s"
  "osRest (setData p d t s) = osRest s" "osRest (delTree p s) = osRest s" "osRest (s\<lparr>osNodes := N\<rparr>) = osRest s"
  by (simp_all add: osRest_def)

lemma osRest_moveNode [simp]: "osRest (moveNode a b s) = osRest s"
  by (simp add: moveNode_def split: option.splits node.splits)

lemma keeps_sysCall: "(\<And>i s. osRest (snd (g i s)) = osRest s) \<Longrightarrow> keeps osRest (sysCall g)"
  by (simp add: keeps_def sysCall_def split: option.splits)

lemma osRest_createNode: "osRest (snd (createNode d p n s)) = osRest s"
  by (simp add: createNode_def split: option.splits node.splits)

lemma osRest_mkdirs: "osRest (snd (mkdirs e i perm ps s)) = osRest s"
  by (induction ps arbitrary: s) (auto split: option.splits node.splits)

lemma keeps_calls [keeps]:
  "keeps osRest os_nop" "keeps osRest (os_lstat p)" "keeps osRest (os_stat p)" "keeps osRest (os_open p)"
  "keeps osRest (os_readlink p)" "keeps osRest (os_createTemp d x)" "keeps osRest (os_mkdirTemp d x)"
  "keeps osRest (os_createExcl p m)" "keeps osRest (os_symlink t p)" "keeps osRest (os_chmod p m)"
  "keeps osRest (os_chtimes p i)" "keeps osRest (os_rename p q)" "keeps osRest (renameNoReplace p q)"
  "keeps osRest (exchangePaths p q)" "keeps osRest (os_remove p)" "keeps osRest (os_removeAll p)"
  "keeps osRest (os_mkdirAll p m)" "keeps osRest (os_readDir p)" "keeps osRest (evalSymlinks p)"
  unfolding os_nop_def os_lstat_def os_stat_def os_open_def os_readlink_def os_createTemp_def os_mkdirTemp_def
    os_createExcl_def os_symlink_def os_chmod_def os_chtimes_def os_rename_def renameNoReplace_def exchangePaths_def
    os_remove_def os_removeAll_def os_mkdirAll_def os_readDir_def evalSymlinks_def
  by (rule keeps_sysCall; simp add: osRest_createNode osRest_mkdirs split: option.splits node.splits prod.splits)+

lemma keeps_pure_calls [keeps]:
  "keeps osRest timeNow" "keeps osRest randRead" "keeps osRest (os_write p d)" "keeps osRest (os_writeSome p d)"
  by (simp_all add: keeps_def timeNow_def randRead_def os_write_def os_writeSome_def Let_def split: option.splits)

lemma keeps_readFile [keeps]: "keeps osRest (os_readFile p)"
  unfolding os_readFile_def by (intro keeps)

lemma keeps_walk:
  "(\<And>p r b. keeps osRest (f p r b)) \<Longrightarrow> keeps osRest (walkEntry k f p n b)"
  "(\<And>p r b. keeps osRest (f p r b)) \<Longrightarrow> keeps osRest (walkEntries k f p es b)"
  by (induction k f p n b and k f p es b rule: walkEntry_walkEntries.induct)
    (auto intro!: keeps)

lemma keeps_walkDir [keeps]: "(\<And>p r b. keeps osRest (f p r b)) \<Longrightarrow> keeps osRest (walkDir r f b)"
  unfolding walkDir_def by (intro keeps keeps_walk)

section \<open>The functions built on them\<close>

lemma keeps_config [keeps]:
  "keeps osRest (syncDirectory p)" "keeps osRest (loadPublicConfig r)" "keeps osRest (openCoordinationLock p)"
  unfolding syncDirectory_def loadPublicConfig_def openCoordinationLock_def by (intro keeps)+

lemma keeps_WriteFileAtomic [keeps]: "keeps osRest (WriteFileAtomic p d m)"
  unfolding WriteFileAtomic_def by (intro keeps)

lemma keeps_resolve [keeps]: "keeps osRest (ResolvePath p)" "keeps osRest (ResolvePathEntry p)"
proof -
  have "keeps osRest (resolveLoop a cs x)" for a cs x
    by (induction a cs x rule: resolveLoop.induct) (auto intro!: keeps split: sum.splits)
  then show "keeps osRest (ResolvePath p)" for p unfolding ResolvePath_def Let_def by (intro keeps)
  then show "keeps osRest (ResolvePathEntry p)" unfolding ResolvePathEntry_def Let_def by (intro keeps)
qed

lemma keeps_ensureEmpty [keeps]: "keeps osRest (ensureEmptyDirectory p)"
  unfolding ensureEmptyDirectory_def by (intro keeps)

lemma keeps_symlink [keeps]:
  "keeps osRest (inspectProtectedLink p)" "keeps osRest (replaceProtectedLink p t e)" "keeps osRest (retireProtectedLink p t)"
  unfolding inspectProtectedLink_def replaceProtectedLink_def exchangePathWithSymlink_def exchangeBody_def
    exchangeRollback_def expectLink_def retireProtectedLink_def retireBody_def retireRestore_def Let_def
  by (intro keeps)+

lemma keeps_migration [keeps]: "keeps osRest (migrateLegacyMetadata r m)"
  unfolding migrateLegacyMetadata_def reconcileLegacyMetadata_def legacyVisit_def dropDuplicate_def migrateEntry_def
    moveLegacyCiphertext_def pruneLegacyStorageTree_def saveMetadata_def WriteJSONFileAtomic_def Let_def
  by (intro keeps)

lemma keeps_metadata [keeps]: "keeps osRest (readMetadata r)" "keeps osRest (saveMetadata r m)"
  unfolding readMetadata_def saveMetadata_def WriteJSONFileAtomic_def by (intro keeps)+

lemma keeps_withMetadataFileLock [keeps]: "keeps osRest m \<Longrightarrow> keeps osRest (withMetadataFileLock r m)"
  unfolding withMetadataFileLock_def by (intro keeps)

section \<open>Operations of the index keep the rest of the volume\<close>

text \<open>What no operation on files and metadata changes.\<close>

definition volRest :: "'z volume_scheme \<Rightarrow> environ \<times> string \<times> PublicConfig \<times> int \<times> u32 \<times> u32 \<times> 'z" where
  "volRest s = (osEnv s, vRoot s, vConfig s, vMaxFileSize s, vUid s, vGid s, volume.more s)"

lemma osRest_volRest: "osRest t = osRest s \<Longrightarrow> volRest t = volRest s"
  using more_volume [of t s] by (auto simp: osRest_def volRest_def)

lemma keeps_volRest: "keeps osRest m \<Longrightarrow> keeps volRest m"
  by (erule keeps_mono) (rule osRest_volRest)

lemmas keeps_vol [keeps] = keeps_calls [THEN keeps_volRest] keeps_pure_calls [THEN keeps_volRest]
  keeps_readFile [THEN keeps_volRest] keeps_config [THEN keeps_volRest] keeps_resolve [THEN keeps_volRest]
  keeps_WriteFileAtomic [THEN keeps_volRest] keeps_symlink [THEN keeps_volRest] keeps_metadata [THEN keeps_volRest]
  keeps_ensureEmpty [THEN keeps_volRest]

lemma volRest_updates [simp]:
  "volRest (s\<lparr>vMetadata := m\<rparr>) = volRest s" "volRest (s\<lparr>vPending := p\<rparr>) = volRest s"
  "volRest (s\<lparr>vFlushTimer := b\<rparr>) = volRest s" "volRest (publishMetadata p m s) = volRest s" "volRest (tickd s) = volRest s"
  by (simp_all add: volRest_def publishMetadata_def Let_def tickd_def)

lemma keeps_refreshMetadata [keeps]: "keeps volRest refreshMetadata"
  unfolding refreshMetadata_def
  by (intro keeps keeps_modify keeps_volRest [OF keeps_withMetadataFileLock]) simp

lemma keeps_update:
  assumes "\<And>m. keeps volRest (upd m)"
  shows "keeps volRest (updateMetadataLocked upd)"
  unfolding updateMetadataLocked_def withMetadataFileLock_def
  by (intro keeps keeps_modify assms) simp

lemma keeps_newVirtualInode: "keeps volRest (newVirtualInode r)"
  unfolding newVirtualInode_def Let_def by (intro keeps)

lemma keeps_index [keeps]:
  "keeps volRest (fileMeta r i)" "keeps volRest (setFileMeta r m)" "keeps volRest (removeFileMeta r)"
  "keeps volRest (setLinkSource r p)" "keeps volRest (markLinkOrphan r w)" "keeps volRest (clearLinkOrphan r)"
  "keeps volRest (markLinkRecovery r st re w)" "keeps volRest FlushAccessTimes" "keeps volRest flushAccessTimesInBackground"
  unfolding fileMeta_def setFileMeta_def removeFileMeta_def setLinkSource_def markLinkOrphan_def clearLinkOrphan_def
    markLinkRecovery_def FlushAccessTimes_def flushAccessTimesInBackground_def updSetFileMeta_def chooseInode_def
    storeFileMeta_def Let_def
  by (intro keeps keeps_modify keeps_update keeps_newVirtualInode; simp)+

lemma keeps_recordFileAccess [keeps]: "keeps volRest (recordFileAccess r a)"
  unfolding recordFileAccess_def by (rule keeps_modify) (simp add: Let_def split: option.splits)

section \<open>Operations on ciphertext\<close>

lemma keeps_files [keeps]:
  "keeps volRest (virtualType r)" "keeps volRest (decryptFileWithIdentity A r i)" "keeps volRest (persistFile A r d m)"
  "keeps volRest (removeProtectedFileLocked r)"
  unfolding virtualType_def decryptFileWithIdentity_def persistFile_def encryptAndPublish_def writeCiphertext_def
    publishFile_def installTemporary_def rollingBack_def rollbackPersistedFile_def dropPrevious_def
    removeProtectedFileLocked_def finishRemoval_def restoring_def restoreRemovedFile_def Let_def
  by (intro keeps)+

end
