(* ===== verification/Auth.thy ===== *)
theory Auth
  imports Config Frame
begin

text \<open>
  Authorization (volume.go): who may use the identity of a volume without a new prompt. The
  state holds the cached identity with its grants and deadlines, the edit and encrypt sessions
  with their \<open>done\<close> channels, the expiry timer and the goroutines that watch processes. The
  process table is the environment's: what \<open>kill(pid, 0)\<close> and the platform's parent lookup
  answer depends on the number of the call.
\<close>

section \<open>State\<close>

type_synonym UnlockScope = string

definition UnlockOnce :: UnlockScope where "UnlockOnce = ''once''"
definition UnlockFile :: UnlockScope where "UnlockFile = ''file''"
definition UnlockProcess :: UnlockScope where "UnlockProcess = ''process''"
definition UnlockVault :: UnlockScope where "UnlockVault = ''vault''"

lemmas scope_defs = UnlockOnce_def UnlockFile_def UnlockProcess_def UnlockVault_def

definition validScope :: "UnlockScope \<Rightarrow> unit res" where
  "validScope scope =
     (if scope \<in> {UnlockOnce, UnlockFile, UnlockProcess, UnlockVault} then Inr ()
      else Inl (Msg ''invalid authorization scope''))"

definition defaultUnlockScope :: "int \<Rightarrow> UnlockScope" where
  "defaultUnlockScope duration = (if duration > 0 then UnlockFile else UnlockOnce)"

text \<open>What the operating system says about processes at the time of a call.\<close>

record procs =
  procKill :: "nat \<Rightarrow> u32 \<Rightarrow> errno option"
  procParent :: "nat \<Rightarrow> u32 \<Rightarrow> u32"
  procID :: "nat \<Rightarrow> u32 \<Rightarrow> u32"

text \<open>A session; its channel \<open>done\<close> is a number drawn from a counter.\<close>

record authorizationSession =
  asIdentity :: string
  asOwner :: u32
  asDone :: nat

datatype goroutine =
    MonitorEdit string string u32 nat
  | MonitorEncrypt string u32 nat
  | ExpireProcess string u32 int

text \<open>
  \<open>aClosed\<close> lists the closed channels, latest first (closing one twice panics), and
  \<open>aPrompts\<close> records the requests shown to the user.
\<close>

record auth = volume +
  aPrompter :: prompter
  aProcs :: procs
  aUnlockFor :: int
  aUnlockScope :: UnlockScope
  aCachedIdentity :: "string option"
  aAuthorized :: "(string, int) gomap"
  aEditSessions :: "(string, (string, authorizationSession) gomap) gomap"
  aEncryptSessions :: "(string, authorizationSession) gomap"
  aUnlockTimer :: "int option"
  aChannels :: nat
  aClosed :: "nat list"
  aGoroutines :: "goroutine list"
  aPrompts :: "PromptRequest list"

section \<open>Processes\<close>

definition processAlive :: "u32 \<Rightarrow> ('z auth_scheme, bool) state" where
  "processAlive pid =
     (if pid = 0 then ret False
      else State (\<lambda>s. (procKill (aProcs s) (osCalls s) pid \<in> {None, Some EPERM}, tickd s)))"

definition platformParentProcessID :: "u32 \<Rightarrow> ('z auth_scheme, u32) state" where
  "platformParentProcessID pid = State (\<lambda>s. (procParent (aProcs s) (osCalls s) pid, tickd s))"

text \<open>The loop of \<open>processIsOrDescendsFrom\<close>; the first argument counts down from 64.\<close>

fun descendLoop :: "nat \<Rightarrow> u32 list \<Rightarrow> u32 \<Rightarrow> u32 \<Rightarrow> ('z auth_scheme, bool) state" where
  "descendLoop 0 visited pid ancestor = ret False"
| "descendLoop (Suc depth) visited pid ancestor =
     (if pid = 0 then ret False
      else if pid = ancestor then ret True
      else if pid \<in> set visited then ret False
      else do {
        parent \<leftarrow> platformParentProcessID pid;
        (if parent = pid then ret False
         else descendLoop depth (pid # visited) parent ancestor) })"

definition processIsOrDescendsFrom :: "u32 \<Rightarrow> u32 \<Rightarrow> ('z auth_scheme, bool) state" where
  "processIsOrDescendsFrom pid ancestor =
     (if pid = 0 \<or> ancestor = 0 then ret False else descendLoop 64 [] pid ancestor)"

text \<open>The caller that the adapter put into the context, if any.\<close>

definition callerPID :: "u32 option \<Rightarrow> ('z auth_scheme, u32) state" where
  "callerPID caller =
     (case caller of
        None \<Rightarrow> ret 0
      | Some pid \<Rightarrow> State (\<lambda>s. (procID (aProcs s) (osCalls s) pid, tickd s)))"

section \<open>Configuration\<close>

definition forgetIdentity :: "'z auth_scheme \<Rightarrow> 'z auth_scheme" where
  "forgetIdentity s = s\<lparr>aUnlockTimer := None, aCachedIdentity := None, aAuthorized := []\<rparr>"

definition ConfigureAuthorization :: "int \<Rightarrow> int \<Rightarrow> UnlockScope \<Rightarrow> ('z auth_scheme, unit res) state" where
  "ConfigureAuthorization maxFileSize unlockFor unlockScope =
     (if maxFileSize \<le> 0 then ret (Inl (Msg ''maximum file size must be greater than zero''))
      else if unlockFor < 0 then ret (Inl (Msg ''unlock duration cannot be negative''))
      else case validScope unlockScope of
        Inl e \<Rightarrow> ret (Inl e)
      | Inr _ \<Rightarrow> do {
          _ \<leftarrow> modify (\<lambda>s. forgetIdentity (s\<lparr>vMaxFileSize := maxFileSize, aUnlockFor := unlockFor,
            aUnlockScope := unlockScope\<rparr>));
          ret (Inr ()) })"

definition Configure :: "int \<Rightarrow> int \<Rightarrow> ('z auth_scheme, unit res) state" where
  "Configure maxFileSize unlockFor = ConfigureAuthorization maxFileSize unlockFor (defaultUnlockScope unlockFor)"

definition ConfigurePrompter :: "prompter option \<Rightarrow> ('z auth_scheme, unit res) state" where
  "ConfigurePrompter prompter =
     (case prompter of
        None \<Rightarrow> ret (Inl (Msg ''prompter is required''))
      | Some p \<Rightarrow> do {
          _ \<leftarrow> modify (\<lambda>s. (forgetIdentity s)\<lparr>aPrompter := p\<rparr>);
          ret (Inr ()) })"

section \<open>Grants and their expiry\<close>

definition authorizationKey :: "UnlockScope \<Rightarrow> string \<Rightarrow> u32 \<Rightarrow> string" where
  "authorizationKey scope cacheKey ownerPID =
     (if cacheKey = [] then []
      else if scope = UnlockFile then ''file:'' @ cacheKey
      else if scope = UnlockProcess then
        (if ownerPID = 0 then [] else ''process:'' @ showNat (unat ownerPID))
      else if scope = UnlockVault then ''vault''
      else [])"

definition removeExpiredAuthorizationsLocked :: "int \<Rightarrow> 'z auth_scheme \<Rightarrow> 'z auth_scheme" where
  "removeExpiredAuthorizationsLocked now s =
     (let left = mfilter (\<lambda>_ until. now < until) (aAuthorized s)
      in s\<lparr>aAuthorized := left, aCachedIdentity := (if left = [] then None else aCachedIdentity s)\<rparr>)"

text \<open>The zero \<open>time.Time\<close> is the first instant of the year 1, in nanoseconds.\<close>

definition zeroTime :: int where "zeroTime = - 62135596800 * 1000000000"

text \<open>The timer is armed for the latest deadline, or at once when it has passed.\<close>

definition scheduleIdentityExpiryLocked :: "('z auth_scheme, unit) state" where
  "scheduleIdentityExpiryLocked = do {
     latest \<leftarrow> gets (\<lambda>s. fold (\<lambda>(_, until) latest. if until > latest then until else latest) (aAuthorized s) zeroTime);
     (if latest = zeroTime then modify (\<lambda>s. s\<lparr>aUnlockTimer := None, aCachedIdentity := None\<rparr>)
      else do {
        now \<leftarrow> timeNow;
        (let delay = (if latest - now < 0 then 0 else latest - now) in
         modify (\<lambda>s. s\<lparr>aUnlockTimer := Some (now + delay)\<rparr>)) }) }"

text \<open>The callback of the timer.\<close>

definition expireCachedIdentity :: "('z auth_scheme, unit) state" where
  "expireCachedIdentity = do {
     now \<leftarrow> timeNow;
     _ \<leftarrow> modify (removeExpiredAuthorizationsLocked now);
     none \<leftarrow> gets (\<lambda>s. aAuthorized s = []);
     (if none then modify (\<lambda>s. s\<lparr>aUnlockTimer := None\<rparr>) else scheduleIdentityExpiryLocked) }"

definition dropGrant :: "string \<Rightarrow> 'z auth_scheme \<Rightarrow> 'z auth_scheme" where
  "dropGrant key s =
     (let left = mdel key (aAuthorized s)
      in s\<lparr>aAuthorized := left, aCachedIdentity := (if left = [] then None else aCachedIdentity s)\<rparr>)"

text \<open>One tick of \<open>expireProcessAuthorization\<close>; the result tells whether the goroutine goes on.\<close>

definition expireProcessTick :: "string \<Rightarrow> u32 \<Rightarrow> int \<Rightarrow> ('z auth_scheme, bool) state" where
  "expireProcessTick key ownerPID until = do {
     current \<leftarrow> gets (\<lambda>s. mgetz zeroTime (aAuthorized s) key);
     (if current \<noteq> until then ret False
      else do {
        alive \<leftarrow> processAlive ownerPID;
        (if alive then ret True
         else do {
           _ \<leftarrow> modify (dropGrant key);
           _ \<leftarrow> scheduleIdentityExpiryLocked;
           ret False }) }) }"

section \<open>Sessions\<close>

definition closeDone :: "nat \<Rightarrow> 'z auth_scheme \<Rightarrow> 'z auth_scheme" where
  "closeDone channel s = s\<lparr>aClosed := channel # aClosed s\<rparr>"

definition editSessionsOf :: "string \<Rightarrow> 'z auth_scheme \<Rightarrow> (string, authorizationSession) gomap" where
  "editSessionsOf cacheKey s = mgetz [] (aEditSessions s) cacheKey"

text \<open>\<open>close(session.done); delete(sessions, token)\<close> on the inner map of an object.\<close>

definition dropEdit :: "string \<Rightarrow> string \<Rightarrow> authorizationSession \<Rightarrow> 'z auth_scheme \<Rightarrow> 'z auth_scheme" where
  "dropEdit cacheKey token session s =
     (closeDone (asDone session) s)\<lparr>aEditSessions :=
        mset_key cacheKey (mdel token (editSessionsOf cacheKey s)) (aEditSessions s)\<rparr>"

text \<open>\<open>if len(sessions) == 0 { delete(v.editSessions, cacheKey) }\<close>\<close>

definition pruneEdit :: "string \<Rightarrow> 'z auth_scheme \<Rightarrow> 'z auth_scheme" where
  "pruneEdit cacheKey s =
     (if editSessionsOf cacheKey s = [] then s\<lparr>aEditSessions := mdel cacheKey (aEditSessions s)\<rparr> else s)"

definition dropEncrypt :: "string \<Rightarrow> authorizationSession \<Rightarrow> 'z auth_scheme \<Rightarrow> 'z auth_scheme" where
  "dropEncrypt token session s =
     (closeDone (asDone session) s)\<lparr>aEncryptSessions := mdel token (aEncryptSessions s)\<rparr>"

fun scanEncrypt :: "u32 \<Rightarrow> (string \<times> authorizationSession) list \<Rightarrow> ('z auth_scheme, string option) state" where
  "scanEncrypt ownerPID [] = ret None"
| "scanEncrypt ownerPID ((token, session) # rest) = do {
     alive \<leftarrow> processAlive (asOwner session);
     (if \<not> alive then do {
        _ \<leftarrow> modify (dropEncrypt token session);
        scanEncrypt ownerPID rest }
      else if asOwner session = ownerPID then ret (Some (asIdentity session))
      else scanEncrypt ownerPID rest) }"

definition activeEncryptIdentityLocked :: "u32 \<Rightarrow> ('z auth_scheme, string option) state" where
  "activeEncryptIdentityLocked ownerPID =
     (if ownerPID = 0 then ret None
      else do { sessions \<leftarrow> gets aEncryptSessions; scanEncrypt ownerPID sessions })"

fun scanEdit ::
  "string \<Rightarrow> u32 \<Rightarrow> (string \<times> authorizationSession) list \<Rightarrow> ('z auth_scheme, string option) state" where
  "scanEdit cacheKey callPID [] = ret None"
| "scanEdit cacheKey callPID ((token, session) # rest) = do {
     alive \<leftarrow> processAlive (asOwner session);
     (if \<not> alive then do {
        _ \<leftarrow> modify (dropEdit cacheKey token session);
        scanEdit cacheKey callPID rest }
      else do {
        related \<leftarrow> (if callPID = 0 then ret True else processIsOrDescendsFrom callPID (asOwner session));
        (if related then ret (Some (asIdentity session)) else scanEdit cacheKey callPID rest) }) }"

definition activeEditIdentityLocked :: "string \<Rightarrow> u32 \<Rightarrow> ('z auth_scheme, string option) state" where
  "activeEditIdentityLocked cacheKey callPID = do {
     sessions \<leftarrow> gets (editSessionsOf cacheKey);
     found \<leftarrow> scanEdit cacheKey callPID sessions;
     (case found of
        Some identity \<Rightarrow> ret (Some identity)
      | None \<Rightarrow> do { _ \<leftarrow> modify (pruneEdit cacheKey); ret None }) }"

definition Lock :: "('z auth_scheme, unit) state" where
  "Lock = modify (\<lambda>s.
     let channels = concat (map (\<lambda>(_, sessions). map (asDone \<circ> snd) sessions) (aEditSessions s)) @
           map (asDone \<circ> snd) (aEncryptSessions s) in
     (forgetIdentity (fold closeDone channels s))\<lparr>aEditSessions := [], aEncryptSessions := []\<rparr>)"

section \<open>Requests\<close>

definition requestIdentity :: "'y agekeys_scheme \<Rightarrow> PromptRequest \<Rightarrow> ('z auth_scheme, string res) state" where
  "requestIdentity A request = do {
     prompter \<leftarrow> gets aPrompter;
     root \<leftarrow> gets vRoot;
     config \<leftarrow> gets vConfig;
     _ \<leftarrow> modify (\<lambda>s. s\<lparr>aPrompts := request # aPrompts s\<rparr>);
     identity \<leftarrow> (case prIdentity prompter of
        Some promptIdentity \<Rightarrow> State (\<lambda>s. (promptIdentity (osCalls s) request, tickd s))
      | None \<Rightarrow>
          andThen (unlockPrivateConfig A root config prompter request) (\<lambda>privateData.
          ret (case parsePrivateIdentity A privateData of
             Inl e \<Rightarrow> Inl (Wrap ''parse volume identity'' e)
           | Inr identity \<Rightarrow> Inr (Some identity))));
     ret (case identity of
        Inl e \<Rightarrow> Inl e
      | Inr None \<Rightarrow> Inl (Msg ''prompter returned no volume identity'')
      | Inr (Some identity) \<Rightarrow>
          if ageRecipient A identity \<noteq> cfgRecipient config
          then Inl (Msg ''unlocked identity does not match the volume recipient'')
          else Inr identity) }"

text \<open>The grant that answers a request without a prompt, once expired ones are gone.\<close>

definition cachedGrant :: "string \<Rightarrow> int \<Rightarrow> 'z auth_scheme \<Rightarrow> string option" where
  "cachedGrant key now s =
     (case (aCachedIdentity s, mget (aAuthorized s) key) of
        (Some identity, Some until) \<Rightarrow> if now < until then Some identity else None
      | _ \<Rightarrow> None)"

definition grantIdentity :: "string \<Rightarrow> u32 \<Rightarrow> string \<Rightarrow> ('z auth_scheme, string res) state" where
  "grantIdentity key ownerPID identity = do {
     now \<leftarrow> timeNow;
     unlockFor \<leftarrow> gets aUnlockFor;
     _ \<leftarrow> modify (\<lambda>s. s\<lparr>aCachedIdentity := Some identity,
       aAuthorized := mset_key key (now + unlockFor) (aAuthorized s)\<rparr>);
     _ \<leftarrow> scheduleIdentityExpiryLocked;
     _ \<leftarrow> modify (\<lambda>s. if aUnlockScope s = UnlockProcess
       then s\<lparr>aGoroutines := ExpireProcess key ownerPID (now + unlockFor) # aGoroutines s\<rparr> else s);
     ret (Inr identity) }"

definition requestAndGrant ::
  "'y agekeys_scheme \<Rightarrow> string \<Rightarrow> PromptRequest \<Rightarrow> ('z auth_scheme, string res) state" where
  "requestAndGrant A key request = do {
     now \<leftarrow> timeNow;
     _ \<leftarrow> modify (removeExpiredAuthorizationsLocked now);
     hit \<leftarrow> gets (cachedGrant key now);
     (case hit of
        Some identity \<Rightarrow> ret (Inr identity)
      | None \<Rightarrow> andThen (requestIdentity A request) (grantIdentity key (reqPID request))) }"

definition unlockIdentityForRequest ::
  "'y agekeys_scheme \<Rightarrow> string \<Rightarrow> PromptRequest \<Rightarrow> ('z auth_scheme, string res) state" where
  "unlockIdentityForRequest A cacheKey request = do {
     encrypting \<leftarrow> activeEncryptIdentityLocked (reqPID request);
     (case encrypting of
        Some identity \<Rightarrow> ret (Inr identity)
      | None \<Rightarrow> do {
          editing \<leftarrow> activeEditIdentityLocked cacheKey (reqPID request);
          (case editing of
             Some identity \<Rightarrow> ret (Inr identity)
           | None \<Rightarrow> do {
               key \<leftarrow> gets (\<lambda>s. authorizationKey (aUnlockScope s) cacheKey (reqPID request));
               unlockFor \<leftarrow> gets aUnlockFor;
               (if unlockFor > 0 \<and> key \<noteq> [] then requestAndGrant A key request
                else requestIdentity A request) }) }) }"

text \<open>The path shown to the user: the alias of the object, else its name in the vault.\<close>

definition promptDisplayPath :: "string \<Rightarrow> ('z volume_scheme, string) state" where
  "promptDisplayPath relative =
     (let key = metadataKey relative;
          linkOf = (\<lambda>s. mgetz [] (Links (vMetadata s)) key);
          fallback = slash # trimPrefix (trimPrefix (Clean relative) ''files/'') ''/'' in do {
       source \<leftarrow> gets linkOf;
       protected \<leftarrow> gets (\<lambda>s. mhas (Files (vMetadata s)) key);
       (if source \<noteq> [] then ret (Clean source)
        else if protected \<and> errOf (objectIDFromStoragePath relative) = None then do {
          r \<leftarrow> refreshMetadata;
          again \<leftarrow> gets linkOf;
          ret (if errOf r = None \<and> again \<noteq> [] then Clean again else fallback) }
        else ret fallback) })"

definition unlockIdentity ::
  "'y agekeys_scheme \<Rightarrow> u32 option \<Rightarrow> string \<Rightarrow> string \<Rightarrow> ('z auth_scheme, string res) state" where
  "unlockIdentity A caller relative operation = do {
     ownerPID \<leftarrow> callerPID caller;
     displayPath \<leftarrow> promptDisplayPath relative;
     unlockIdentityForRequest A (metadataKey relative)
       \<lparr>reqPath = displayPath, reqOperation = operation, reqPID = ownerPID, reqDescription = []\<rparr> }"

definition authorize ::
  "'y agekeys_scheme \<Rightarrow> u32 option \<Rightarrow> string \<Rightarrow> string \<Rightarrow> ('z auth_scheme, unit res) state" where
  "authorize A caller relative operation =
     andThen (unlockIdentity A caller relative operation) (\<lambda>_. ret (Inr ()))"

definition decryptFile ::
  "'y agekeys_scheme \<Rightarrow> u32 option \<Rightarrow> string \<Rightarrow> string \<Rightarrow> ('z auth_scheme, bytes res) state" where
  "decryptFile A caller relative operation =
     andThen (unlockIdentity A caller relative operation) (decryptFileWithIdentity A relative)"

section \<open>Beginning and ending sessions\<close>

definition makeChannel :: "('z auth_scheme, nat) state" where
  "makeChannel = State (\<lambda>s. (aChannels s, s\<lparr>aChannels := Suc (aChannels s)\<rparr>))"

text \<open>The critical sections that store a session, after the identity has been obtained.\<close>

definition insertEditSession :: "string \<Rightarrow> string \<Rightarrow> u32 \<Rightarrow> string \<Rightarrow> ('z auth_scheme, unit) state" where
  "insertEditSession cacheKey token ownerPID identity = do {
     channel \<leftarrow> makeChannel;
     modify (\<lambda>s. s\<lparr>aEditSessions := mset_key cacheKey
         (mset_key token \<lparr>asIdentity = identity, asOwner = ownerPID, asDone = channel\<rparr> (editSessionsOf cacheKey s))
         (aEditSessions s),
       aGoroutines := MonitorEdit cacheKey token ownerPID channel # aGoroutines s\<rparr>) }"

definition insertEncryptSession :: "string \<Rightarrow> u32 \<Rightarrow> string \<Rightarrow> ('z auth_scheme, unit) state" where
  "insertEncryptSession token ownerPID identity = do {
     channel \<leftarrow> makeChannel;
     modify (\<lambda>s. s\<lparr>aEncryptSessions := mset_key token
         \<lparr>asIdentity = identity, asOwner = ownerPID, asDone = channel\<rparr> (aEncryptSessions s),
       aGoroutines := MonitorEncrypt token ownerPID channel # aGoroutines s\<rparr>) }"

definition beginEditSession ::
  "'y agekeys_scheme \<Rightarrow> u32 option \<Rightarrow> string \<Rightarrow> string \<Rightarrow> u32 \<Rightarrow> ('z auth_scheme, unit res) state" where
  "beginEditSession A caller relative token ownerPID =
     (case validateSessionToken token of
        Inl e \<Rightarrow> ret (Inl e)
      | Inr _ \<Rightarrow>
          if ownerPID = 0 then ret (Inl (Msg ''edit session caller is unavailable''))
          else andThen (unlockIdentity A caller relative ''edit'') (\<lambda>identity. do {
            _ \<leftarrow> insertEditSession (metadataKey relative) token ownerPID identity;
            ret (Inr ()) }))"

definition endEditSession :: "string \<Rightarrow> string \<Rightarrow> u32 \<Rightarrow> ('z auth_scheme, unit res) state" where
  "endEditSession relative token ownerPID =
     (case validateSessionToken token of
        Inl e \<Rightarrow> ret (Inl e)
      | Inr _ \<Rightarrow> do {
          known \<leftarrow> gets (\<lambda>s. mget (editSessionsOf (metadataKey relative) s) token);
          (case known of
             None \<Rightarrow> ret (Inr ())
           | Some session \<Rightarrow>
               if ownerPID = 0 \<or> asOwner session \<noteq> ownerPID then ret (Inl (Errno EPERM))
               else do {
                 _ \<leftarrow> modify (\<lambda>s. pruneEdit (metadataKey relative) (dropEdit (metadataKey relative) token session s));
                 ret (Inr ()) }) })"

definition beginEncryptSession ::
  "'y agekeys_scheme \<Rightarrow> string \<Rightarrow> u32 \<Rightarrow> ('z auth_scheme, unit res) state" where
  "beginEncryptSession A token ownerPID =
     (case validateSessionToken token of
        Inl e \<Rightarrow> ret (Inl e)
      | Inr _ \<Rightarrow>
          if ownerPID = 0 then ret (Inl (Msg ''encrypt session caller is unavailable''))
          else andThen (unlockIdentityForRequest A []
              \<lparr>reqPath = ''multiple files'', reqOperation = ''encrypt'', reqPID = ownerPID, reqDescription = []\<rparr>)
            (\<lambda>identity. do {
              _ \<leftarrow> insertEncryptSession token ownerPID identity;
              ret (Inr ()) }))"

definition endEncryptSession :: "string \<Rightarrow> u32 \<Rightarrow> ('z auth_scheme, unit res) state" where
  "endEncryptSession token ownerPID =
     (case validateSessionToken token of
        Inl e \<Rightarrow> ret (Inl e)
      | Inr _ \<Rightarrow> do {
          known \<leftarrow> gets (\<lambda>s. mget (aEncryptSessions s) token);
          (case known of
             None \<Rightarrow> ret (Inr ())
           | Some session \<Rightarrow>
               if ownerPID = 0 \<or> asOwner session \<noteq> ownerPID then ret (Inl (Errno EPERM))
               else do { _ \<leftarrow> modify (dropEncrypt token session); ret (Inr ()) }) })"

text \<open>The goroutines after \<open>waitForProcessExit\<close> has reported the exit of the owner.\<close>

definition monitorEditSession :: "string \<Rightarrow> string \<Rightarrow> u32 \<Rightarrow> ('z auth_scheme, unit) state" where
  "monitorEditSession cacheKey token ownerPID = modify (\<lambda>s.
     case mget (editSessionsOf cacheKey s) token of
       None \<Rightarrow> s
     | Some session \<Rightarrow>
         if asOwner session \<noteq> ownerPID then s else pruneEdit cacheKey (dropEdit cacheKey token session s))"

definition monitorEncryptSession :: "string \<Rightarrow> u32 \<Rightarrow> ('z auth_scheme, unit) state" where
  "monitorEncryptSession token ownerPID = modify (\<lambda>s.
     case mget (aEncryptSessions s) token of
       None \<Rightarrow> s
     | Some session \<Rightarrow> if asOwner session \<noteq> ownerPID then s else dropEncrypt token session s)"

end
