(* ===== verification/AuthInvariant.thy ===== *)
theory AuthInvariant
  imports Auth
begin

text \<open>
  What authorization promises: every identity the volume keeps belongs to its recipient, a
  \<open>done\<close> channel is never closed twice, a cached identity always has a timer that wipes it,
  and an identity is handed out without a prompt only to a session or a grant that covers the
  request. The operations are the events of a state machine at the granularity of the critical
  sections under \<open>unlockMu\<close>.
\<close>

section \<open>The invariant\<close>

text \<open>The session stored at a place: an object and a token, or a token of the encrypt sessions.\<close>

definition sessionAt :: "'z auth_scheme \<Rightarrow> string option \<times> string \<Rightarrow> authorizationSession option" where
  "sessionAt s l =
     (case l of
        (Some key, token) \<Rightarrow> mget (editSessionsOf key s) token
      | (None, token) \<Rightarrow> mget (aEncryptSessions s) token)"

definition ownIdentity :: "'y agekeys_scheme \<Rightarrow> 'z auth_scheme \<Rightarrow> string \<Rightarrow> bool" where
  "ownIdentity A s identity \<longleftrightarrow> ageRecipient A identity = cfgRecipient (vConfig s)"

definition sessionsOk :: "'y agekeys_scheme \<Rightarrow> 'z auth_scheme \<Rightarrow> bool" where
  "sessionsOk A s \<longleftrightarrow>
     mwf (aEditSessions s) \<and> (\<forall>key ss. mget (aEditSessions s) key = Some ss \<longrightarrow> mwf ss) \<and> mwf (aEncryptSessions s) \<and>
     (\<forall>l x. sessionAt s l = Some x \<longrightarrow> ownIdentity A s (asIdentity x) \<and> asOwner x \<noteq> 0 \<and>
        asDone x < aChannels s \<and> asDone x \<notin> set (aClosed s)) \<and>
     (\<forall>l l' x x'. sessionAt s l = Some x \<longrightarrow> sessionAt s l' = Some x' \<longrightarrow> asDone x = asDone x' \<longrightarrow> l = l') \<and>
     distinct (aClosed s) \<and> (\<forall>c \<in> set (aClosed s). c < aChannels s)"

definition grantsOk :: "'y agekeys_scheme \<Rightarrow> 'z auth_scheme \<Rightarrow> bool" where
  "grantsOk A s \<longleftrightarrow>
     mwf (aAuthorized s) \<and> [] \<notin> fst ` set (aAuthorized s) \<and>
     (\<forall>identity. aCachedIdentity s = Some identity \<longrightarrow> ownIdentity A s identity \<and> aAuthorized s \<noteq> [] \<and>
        (\<exists>due. aUnlockTimer s = Some due \<and> (\<forall>(key, until) \<in> set (aAuthorized s). until \<le> due)))"

definition authInv :: "'y agekeys_scheme \<Rightarrow> 'z auth_scheme \<Rightarrow> bool" where
  "authInv A s \<longleftrightarrow> sessionsOk A s \<and> grantsOk A s"

text \<open>States that agree on everything authorization looks at.\<close>

definition sameAuth :: "'z auth_scheme \<Rightarrow> 'z auth_scheme \<Rightarrow> bool" where
  "sameAuth s t \<longleftrightarrow> osEnv t = osEnv s \<and> vConfig t = vConfig s \<and> volume.more t = volume.more s"

lemma sameAuth_refl [simp]: "sameAuth s s" and sameAuth_tickd [simp]: "sameAuth s (tickd t) = sameAuth s t"
  by (simp_all add: sameAuth_def tickd_def)

lemma sameAuth_trans: "sameAuth s t \<Longrightarrow> sameAuth t u \<Longrightarrow> sameAuth s u"
  by (simp add: sameAuth_def)

lemma sameAuth_fields:
  assumes "sameAuth s t"
  shows "aCachedIdentity t = aCachedIdentity s" "aAuthorized t = aAuthorized s" "aEditSessions t = aEditSessions s"
    "aEncryptSessions t = aEncryptSessions s" "aUnlockTimer t = aUnlockTimer s" "aChannels t = aChannels s"
    "aClosed t = aClosed s" "aPrompts t = aPrompts s" "aProcs t = aProcs s" "aUnlockFor t = aUnlockFor s"
    "aUnlockScope t = aUnlockScope s" "aPrompter t = aPrompter s" "aGoroutines t = aGoroutines s"
    "vConfig t = vConfig s" "auth.more t = auth.more s" "osEnv t = osEnv s"
  using assms by (cases s; cases t; simp add: sameAuth_def)+

lemma sameAuth_inv:
  assumes "sameAuth s t"
  shows "authInv A t = authInv A s" "sessionsOk A t = sessionsOk A s" "grantsOk A t = grantsOk A s"
    "sessionAt t = sessionAt s" "ownIdentity A t = ownIdentity A s" "editSessionsOf k t = editSessionsOf k s"
proof -
  note f = sameAuth_fields [OF assms]
  have at: "sessionAt t = sessionAt s" by (auto simp: fun_eq_iff sessionAt_def editSessionsOf_def f split: option.splits)
  have own: "ownIdentity A t = ownIdentity A s" by (simp add: fun_eq_iff ownIdentity_def f)
  show "sessionAt t = sessionAt s" "ownIdentity A t = ownIdentity A s" by (fact at, fact own)
  show "editSessionsOf k t = editSessionsOf k s" by (simp add: editSessionsOf_def f)
  show s: "sessionsOk A t = sessionsOk A s" by (simp add: sessionsOk_def at own f)
  show g: "grantsOk A t = grantsOk A s" by (simp add: grantsOk_def own f)
  show "authInv A t = authInv A s" by (simp add: authInv_def s g)
qed

lemma authInv_tickd [simp]:
  "authInv A (tickd s) = authInv A s" "sessionsOk A (tickd s) = sessionsOk A s" "grantsOk A (tickd s) = grantsOk A s"
  "sessionAt (tickd s) = sessionAt s" "ownIdentity A (tickd s) = ownIdentity A s"
  "editSessionsOf k (tickd s) = editSessionsOf k s"
  by (simp_all add: sameAuth_inv [of s "tickd s"])

lemma sameAuth_volRest: "volRest t = volRest s \<Longrightarrow> sameAuth s (t :: 'z auth_scheme)"
  by (simp add: sameAuth_def volRest_def)

lemma wp_sameAuthI: "keeps volRest m \<Longrightarrow> (\<And>r t. sameAuth s t \<Longrightarrow> Q r t) \<Longrightarrow> wp m Q (s :: 'z auth_scheme)"
  by (erule wp_keepsI) (simp add: sameAuth_volRest)

lemma tickd_auth [simp]:
  "aCachedIdentity (tickd s) = aCachedIdentity s" "aAuthorized (tickd s) = aAuthorized s"
  "aEditSessions (tickd s) = aEditSessions s" "aEncryptSessions (tickd s) = aEncryptSessions s"
  "aUnlockTimer (tickd s) = aUnlockTimer s" "aPrompts (tickd s) = aPrompts s" "aProcs (tickd s) = aProcs s"
  "aUnlockFor (tickd s) = aUnlockFor s" "aUnlockScope (tickd s) = aUnlockScope s" "aChannels (tickd s) = aChannels s"
  "aClosed (tickd s) = aClosed s" "aPrompter (tickd s) = aPrompter s"
  by (simp_all add: tickd_def)

section \<open>Processes\<close>

lemma wp_processAliveI:
  assumes "\<And>t. sameAuth s t \<Longrightarrow> Q False t"
    and "\<And>n t. sameAuth s t \<Longrightarrow> pid \<noteq> 0 \<Longrightarrow> procKill (aProcs s) n pid \<in> {None, Some EPERM} \<Longrightarrow> Q True t"
  shows "wp (processAlive pid) Q s"
proof -
  have "Q (procKill (aProcs s) (osCalls s) pid \<in> {None, Some EPERM}) (tickd s)" if "pid \<noteq> 0"
  proof (cases "procKill (aProcs s) (osCalls s) pid \<in> {None, Some EPERM}")
    case True
    then show ?thesis using assms(2) [OF _ that True] by simp
  next
    case False
    then show ?thesis using assms(1) [of "tickd s"] by (simp only: False sameAuth_tickd sameAuth_refl)
  qed
  then show ?thesis using assms(1) [of s] by (simp add: processAlive_def wp_def)
qed

text \<open>A chain of parent lookups, each at some time, from a process to an ancestor.\<close>

inductive ancestry :: "procs \<Rightarrow> u32 \<Rightarrow> u32 \<Rightarrow> bool" for P where
  ancestry_self: "ancestry P pid pid"
| ancestry_parent: "ancestry P (procParent P n pid) ancestor \<Longrightarrow> ancestry P pid ancestor"

lemma wp_descendLoop:
  "(\<And>t. sameAuth s t \<Longrightarrow> Q False t) \<Longrightarrow>
   (\<And>t. sameAuth s t \<Longrightarrow> ancestry (aProcs s) pid ancestor \<Longrightarrow> Q True t) \<Longrightarrow>
   wp (descendLoop depth visited pid ancestor) Q s"
proof (induction depth visited pid ancestor arbitrary: s rule: descendLoop.induct)
  case (2 depth visited pid ancestor)
  let ?parent = "procParent (aProcs s) (osCalls s) pid"
  have rec: "wp (descendLoop depth (pid # visited) ?parent ancestor) Q (tickd s)"
    if "pid \<noteq> 0" "pid \<noteq> ancestor" "pid \<notin> set visited" "?parent \<noteq> pid"
    by (rule 2(1) [OF that]) (use 2(2,3) in \<open>auto intro: ancestry_parent simp: sameAuth_def tickd_def\<close>)
  show ?case
    using 2(2) [of s] 2(2) [of "tickd s"] 2(3) [of s] rec
    by (auto simp: wp platformParentProcessID_def wp_def [of "State _"] ancestry_self)
qed (simp add: wp)

lemma wp_processIsOrDescendsFromI:
  assumes "\<And>t. sameAuth s t \<Longrightarrow> Q False t"
    and "\<And>t. sameAuth s t \<Longrightarrow> ancestry (aProcs s) pid ancestor \<Longrightarrow> Q True t"
  shows "wp (processIsOrDescendsFrom pid ancestor) Q s"
  unfolding processIsOrDescendsFrom_def using assms by (auto simp: wp intro: wp_descendLoop)

section \<open>Sessions\<close>

lemma sessionAt_simps [simp]:
  "sessionAt s (None, token) = mget (aEncryptSessions s) token"
  "sessionAt s (Some key, token) = mget (editSessionsOf key s) token"
  by (simp_all add: sessionAt_def)

lemma dropEdit_sessionAt:
  "sessionAt (dropEdit key token x s) l = (if l = (Some key, token) then None else sessionAt s l)"
  by (cases l; cases "fst l") (auto simp: dropEdit_def closeDone_def editSessionsOf_def)

lemma dropEncrypt_sessionAt:
  "sessionAt (dropEncrypt token x s) l = (if l = (None, token) then None else sessionAt s l)"
  by (cases l; cases "fst l") (auto simp: dropEncrypt_def closeDone_def editSessionsOf_def)

lemma pruneEdit_sessionAt: "sessionAt (pruneEdit key s) l = sessionAt s l"
  by (cases l; cases "fst l") (auto simp: pruneEdit_def editSessionsOf_def)

lemma drop_fields [simp]:
  "aClosed (dropEdit key token x s) = asDone x # aClosed s" "aChannels (dropEdit key token x s) = aChannels s"
  "aClosed (dropEncrypt token x s) = asDone x # aClosed s" "aChannels (dropEncrypt token x s) = aChannels s"
  "aClosed (pruneEdit key s) = aClosed s" "aChannels (pruneEdit key s) = aChannels s"
  "vConfig (dropEdit key token x s) = vConfig s" "vConfig (dropEncrypt token x s) = vConfig s"
  "vConfig (pruneEdit key s) = vConfig s"
  by (simp_all add: dropEdit_def dropEncrypt_def pruneEdit_def closeDone_def)

lemma sessionsOkD:
  assumes "sessionsOk A s" "sessionAt s l = Some x"
  shows "ownIdentity A s (asIdentity x)" "asOwner x \<noteq> 0" "asDone x < aChannels s" "asDone x \<notin> set (aClosed s)"
    "sessionAt s l' = Some x' \<Longrightarrow> asDone x' = asDone x \<Longrightarrow> l' = l"
  using assms unfolding sessionsOk_def by metis+

lemma sessionsOkI:
  assumes "mwf (aEditSessions s)" "\<forall>key ss. mget (aEditSessions s) key = Some ss \<longrightarrow> mwf ss" "mwf (aEncryptSessions s)"
    and "\<And>l x. sessionAt s l = Some x \<Longrightarrow> ownIdentity A s (asIdentity x) \<and> asOwner x \<noteq> 0 \<and>
        asDone x < aChannels s \<and> asDone x \<notin> set (aClosed s)"
    and "\<And>l l' x x'. sessionAt s l = Some x \<Longrightarrow> sessionAt s l' = Some x' \<Longrightarrow> asDone x = asDone x' \<Longrightarrow> l = l'"
    and "distinct (aClosed s)" "\<forall>c \<in> set (aClosed s). c < aChannels s"
  shows "sessionsOk A s"
  unfolding sessionsOk_def using assms by blast

lemma sessionsOk_closed: "sessionsOk A s \<Longrightarrow> distinct (aClosed s) \<and> (\<forall>c \<in> set (aClosed s). c < aChannels s)"
  by (simp add: sessionsOk_def)

text \<open>Removing a session and closing its channel.\<close>

lemma sessionsOk_remove:
  assumes ok: "sessionsOk A s" and x: "sessionAt s l = Some x"
    and at: "\<And>k. sessionAt t k = (if k = l then None else sessionAt s k)"
    and f: "aClosed t = asDone x # aClosed s" "aChannels t = aChannels s" "vConfig t = vConfig s"
    and wf: "mwf (aEditSessions t)" "\<forall>key ss. mget (aEditSessions t) key = Some ss \<longrightarrow> mwf ss" "mwf (aEncryptSessions t)"
  shows "sessionsOk A t"
proof (rule sessionsOkI [OF wf])
  note d = sessionsOkD [OF ok]
  show "ownIdentity A t (asIdentity y) \<and> asOwner y \<noteq> 0 \<and> asDone y < aChannels t \<and> asDone y \<notin> set (aClosed t)"
    if "sessionAt t k = Some y" for k y
  proof -
    have y: "sessionAt s k = Some y" "k \<noteq> l" using that by (auto simp: at split: if_splits)
    then show ?thesis using d(1-4) [OF y(1)] d(5) [OF x y(1)] by (auto simp: f ownIdentity_def)
  qed
  show "k = k'" if "sessionAt t k = Some y" "sessionAt t k' = Some y'" "asDone y = asDone y'" for k k' y y'
    using that d(5) [of k' y' k y] by (simp add: at split: if_splits)
  show "distinct (aClosed t)" "\<forall>c \<in> set (aClosed t). c < aChannels t"
    using sessionsOk_closed [OF ok] d(3,4) [OF x] by (simp_all add: f)
qed

lemma mwf_sessions:
  assumes "sessionsOk A s"
  shows "mwf (editSessionsOf key s)"
  using assms by (auto simp: sessionsOk_def editSessionsOf_def mgetz_def split: option.splits)

lemma sessionsOk_dropEdit:
  assumes "sessionsOk A s" "sessionAt s (Some key, token) = Some x"
  shows "sessionsOk A (dropEdit key token x s)"
  by (rule sessionsOk_remove [OF assms]; (simp add: dropEdit_sessionAt)?)
    (use assms mwf_sessions [OF assms(1)] in \<open>auto simp: dropEdit_def closeDone_def sessionsOk_def split: if_splits\<close>)

lemma sessionsOk_dropEncrypt:
  assumes "sessionsOk A s" "sessionAt s (None, token) = Some x"
  shows "sessionsOk A (dropEncrypt token x s)"
  by (rule sessionsOk_remove [OF assms]; (simp add: dropEncrypt_sessionAt)?)
    (use assms in \<open>auto simp: dropEncrypt_def closeDone_def sessionsOk_def\<close>)

lemma sessionsOk_pruneEdit: "sessionsOk A s \<Longrightarrow> sessionsOk A (pruneEdit key s)"
  unfolding sessionsOk_def ownIdentity_def pruneEdit_sessionAt drop_fields
  by (auto simp: pruneEdit_def split: if_splits)

lemma grantsOk_drop [simp]:
  "grantsOk A (dropEdit key token x s) = grantsOk A s" "grantsOk A (dropEncrypt token x s) = grantsOk A s"
  "grantsOk A (pruneEdit key s) = grantsOk A s"
  by (simp_all add: grantsOk_def ownIdentity_def dropEdit_def dropEncrypt_def pruneEdit_def closeDone_def)

lemma sessionsOk_insert:
  assumes ok: "sessionsOk A s" and own: "ownIdentity A s (asIdentity x)" "asOwner x \<noteq> 0" "asDone x = aChannels s"
    and at: "\<And>k. sessionAt t k = (if k = l then Some x else sessionAt s k)"
    and f: "aClosed t = aClosed s" "aChannels t = Suc (aChannels s)" "vConfig t = vConfig s"
    and wf: "mwf (aEditSessions t)" "\<forall>key ss. mget (aEditSessions t) key = Some ss \<longrightarrow> mwf ss" "mwf (aEncryptSessions t)"
  shows "sessionsOk A t"
proof (rule sessionsOkI [OF wf])
  note d = sessionsOkD [OF ok]
  have fresh: "asDone x \<notin> set (aClosed s)" using sessionsOk_closed [OF ok] own(3) by auto
  show "ownIdentity A t (asIdentity y) \<and> asOwner y \<noteq> 0 \<and> asDone y < aChannels t \<and> asDone y \<notin> set (aClosed t)"
    if "sessionAt t k = Some y" for k y
  proof (cases "k = l")
    case True
    then show ?thesis using that own fresh by (simp add: at f ownIdentity_def)
  next
    case False
    then show ?thesis using that d(1-4) [of k y] by (simp add: at f ownIdentity_def)
  qed
  show "k = k'" if "sessionAt t k = Some y" "sessionAt t k' = Some y'" "asDone y = asDone y'" for k k' y y'
    using that d(3) [of k y] d(3) [of k' y'] d(5) [of k' y' k y] own(3) by (simp add: at split: if_splits)
  show "distinct (aClosed t)" "\<forall>c \<in> set (aClosed t). c < aChannels t"
    using sessionsOk_closed [OF ok] by (auto simp: f)
qed

lemma authInv_insertEdit:
  assumes "authInv A s" "ownIdentity A s identity" "pid \<noteq> 0"
  shows "wp (insertEditSession key token pid identity) (\<lambda>_. authInv A) s"
proof -
  let ?x = "\<lparr>asIdentity = identity, asOwner = pid, asDone = aChannels s\<rparr>"
  let ?t = "snd (run_state (insertEditSession key token pid identity) s)"
  have ok: "sessionsOk A s" and g: "grantsOk A s" using assms(1) by (simp_all add: authInv_def)
  have "sessionsOk A ?t"
  proof (rule sessionsOk_insert [OF ok, where x = ?x and l = "(Some key, token)"])
    show "sessionAt ?t k = (if k = (Some key, token) then Some ?x else sessionAt s k)" for k
      by (cases k; cases "fst k")
        (auto simp: insertEditSession_def makeChannel_def modify_def editSessionsOf_def)
    show "\<forall>k ss. mget (aEditSessions ?t) k = Some ss \<longrightarrow> mwf ss"
      using ok mwf_sessions [OF ok] by (auto simp: insertEditSession_def makeChannel_def modify_def sessionsOk_def
          editSessionsOf_def split: if_splits)
  qed (use assms ok in \<open>auto simp: insertEditSession_def makeChannel_def modify_def sessionsOk_def\<close>)
  moreover have "grantsOk A ?t"
    using g by (simp add: insertEditSession_def makeChannel_def modify_def grantsOk_def ownIdentity_def)
  ultimately show ?thesis by (simp add: wp_def authInv_def case_prod_beta)
qed

lemma authInv_insertEncrypt:
  assumes "authInv A s" "ownIdentity A s identity" "pid \<noteq> 0"
  shows "wp (insertEncryptSession token pid identity) (\<lambda>_. authInv A) s"
proof -
  let ?x = "\<lparr>asIdentity = identity, asOwner = pid, asDone = aChannels s\<rparr>"
  let ?t = "snd (run_state (insertEncryptSession token pid identity) s)"
  have ok: "sessionsOk A s" and g: "grantsOk A s" using assms(1) by (simp_all add: authInv_def)
  have "sessionsOk A ?t"
  proof (rule sessionsOk_insert [OF ok, where x = ?x and l = "(None, token)"])
    show "sessionAt ?t k = (if k = (None, token) then Some ?x else sessionAt s k)" for k
      by (cases k; cases "fst k")
        (auto simp: insertEncryptSession_def makeChannel_def modify_def editSessionsOf_def)
  qed (use assms ok in \<open>auto simp: insertEncryptSession_def makeChannel_def modify_def sessionsOk_def\<close>)
  moreover have "grantsOk A ?t"
    using g by (simp add: insertEncryptSession_def makeChannel_def modify_def grantsOk_def ownIdentity_def)
  ultimately show ?thesis by (simp add: wp_def authInv_def case_prod_beta)
qed

section \<open>Who is entitled to the identity without a prompt\<close>

definition alive :: "procs \<Rightarrow> u32 \<Rightarrow> bool" where
  "alive P pid \<longleftrightarrow> pid \<noteq> 0 \<and> (\<exists>n. procKill P n pid \<in> {None, Some EPERM})"

text \<open>An encrypt session of the calling process itself.\<close>

definition liveEncrypt :: "'z auth_scheme \<Rightarrow> u32 \<Rightarrow> string \<Rightarrow> bool" where
  "liveEncrypt s pid identity \<longleftrightarrow>
     (\<exists>token x. mget (aEncryptSessions s) token = Some x \<and> asOwner x = pid \<and> asIdentity x = identity \<and>
        alive (aProcs s) pid)"

text \<open>An edit session on the object whose owner is an ancestor of the caller, or any when the
  caller is unknown.\<close>

definition liveEdit :: "'z auth_scheme \<Rightarrow> string \<Rightarrow> u32 \<Rightarrow> string \<Rightarrow> bool" where
  "liveEdit s cacheKey pid identity \<longleftrightarrow>
     (\<exists>token x. mget (editSessionsOf cacheKey s) token = Some x \<and> asIdentity x = identity \<and>
        alive (aProcs s) (asOwner x) \<and> (pid = 0 \<or> ancestry (aProcs s) pid (asOwner x)))"

text \<open>A grant for the request that had not expired when the clock was read.\<close>

definition liveGrant :: "'z auth_scheme \<Rightarrow> string \<Rightarrow> u32 \<Rightarrow> string \<Rightarrow> bool" where
  "liveGrant s cacheKey pid identity \<longleftrightarrow>
     aUnlockFor s > 0 \<and> authorizationKey (aUnlockScope s) cacheKey pid \<noteq> [] \<and> aCachedIdentity s = Some identity \<and>
     (\<exists>until n. mget (aAuthorized s) (authorizationKey (aUnlockScope s) cacheKey pid) = Some until \<and>
        envNow (osEnv s) n < until)"

definition entitled :: "'z auth_scheme \<Rightarrow> string \<Rightarrow> u32 \<Rightarrow> string \<Rightarrow> bool" where
  "entitled s cacheKey pid identity \<longleftrightarrow>
     pid \<noteq> 0 \<and> liveEncrypt s pid identity \<or> liveEdit s cacheKey pid identity \<or> liveGrant s cacheKey pid identity"

text \<open>Everything but the sessions and the closed channels is as before.\<close>

definition onlySessions :: "'z auth_scheme \<Rightarrow> 'z auth_scheme \<Rightarrow> bool" where
  "onlySessions s t \<longleftrightarrow>
     osEnv t = osEnv s \<and> vConfig t = vConfig s \<and> aPrompter t = aPrompter s \<and> aProcs t = aProcs s \<and>
     aUnlockFor t = aUnlockFor s \<and> aUnlockScope t = aUnlockScope s \<and> aCachedIdentity t = aCachedIdentity s \<and>
     aAuthorized t = aAuthorized s \<and> aUnlockTimer t = aUnlockTimer s \<and> aPrompts t = aPrompts s"

lemma onlySessions_sameAuth: "sameAuth s t \<Longrightarrow> onlySessions s t"
  by (simp add: onlySessions_def sameAuth_fields)

lemma onlySessions_trans: "onlySessions s t \<Longrightarrow> onlySessions t u \<Longrightarrow> onlySessions s u"
  by (simp add: onlySessions_def)

lemma onlySessions_drop:
  "onlySessions s (dropEdit key token x t) = onlySessions s t" "onlySessions s (dropEncrypt token x t) = onlySessions s t"
  "onlySessions s (pruneEdit key t) = onlySessions s t"
  by (simp_all add: onlySessions_def dropEdit_def dropEncrypt_def pruneEdit_def closeDone_def)

text \<open>The outcome of a scan: the invariant holds, and what is found satisfies \<open>H\<close>.\<close>

definition scanned :: "'y agekeys_scheme \<Rightarrow> 'z auth_scheme \<Rightarrow> (string \<Rightarrow> bool) \<Rightarrow> string option \<Rightarrow> 'z auth_scheme \<Rightarrow> bool" where
  "scanned A s H r t \<longleftrightarrow> authInv A t \<and> onlySessions s t \<and> (\<forall>i. r = Some i \<longrightarrow> H i)"

lemma scanned_trans: "onlySessions s t \<Longrightarrow> scanned A t H r u \<Longrightarrow> scanned A s H r u"
  by (auto simp: scanned_def intro: onlySessions_trans)

lemma scanEncrypt_wp:
  assumes "authInv A s" "distinct (map fst xs)"
    "\<And>token x. (token, x) \<in> set xs \<Longrightarrow> mget (aEncryptSessions s) token = Some x"
    "\<And>token x. (token, x) \<in> set xs \<Longrightarrow> asOwner x = pid \<Longrightarrow> alive (aProcs s) pid \<Longrightarrow> H (asIdentity x)"
  shows "wp (scanEncrypt pid xs) (\<lambda>r t. scanned A s H r t \<and> aEditSessions t = aEditSessions s) s"
  using assms
proof (induction xs arbitrary: s)
  case Nil
  then show ?case by (simp add: wp scanned_def onlySessions_def)
next
  case (Cons y ys)
  obtain token x where y: "y = (token, x)" by (cases y)
  let ?Q = "\<lambda>r t. scanned A s H r t \<and> aEditSessions t = aEditSessions s"
  have mem: "mget (aEncryptSessions s) token = Some x"
    "\<And>token x. (token, x) \<in> set ys \<Longrightarrow> mget (aEncryptSessions s) token = Some x" "\<And>x. (token, x) \<notin> set ys"
    using Cons.prems(2,3) y by force+
  have step: "wp (scanEncrypt pid ys) ?Q u"
    if u: "authInv A u" "onlySessions s u" "aEditSessions u = aEditSessions s"
      "\<And>token x. (token, x) \<in> set ys \<Longrightarrow> mget (aEncryptSessions u) token = Some x" for u
  proof (rule wp_mono [OF Cons.IH [OF u(1) _ u(4)]])
    have P: "aProcs u = aProcs s" using u(2) by (simp add: onlySessions_def)
    show "distinct (map fst ys)" using Cons.prems(2) by simp
    show "H (asIdentity x)" if "(token, x) \<in> set ys" "asOwner x = pid" "alive (aProcs u) pid" for token x
      by (rule Cons.prems(4)) (use that P in auto)
  qed (use u(3) scanned_trans [OF u(2)] in auto)
  have same: "authInv A t" "onlySessions s t" "aEditSessions t = aEditSessions s"
    "aEncryptSessions t = aEncryptSessions s" if "sameAuth s t" for t
    using Cons.prems(1) sameAuth_inv(1) [OF that, of A] sameAuth_fields [OF that] onlySessions_sameAuth [OF that] by simp_all
  have dead: "wp (scanEncrypt pid ys) ?Q (dropEncrypt token x t)" if "sameAuth s t" for t
  proof (rule step)
    show "authInv A (dropEncrypt token x t)"
      using sessionsOk_dropEncrypt [of A t token x] same [OF that] mem(1) by (simp add: authInv_def)
    show "mget (aEncryptSessions (dropEncrypt token x t)) k = Some x'" if "(k, x') \<in> set ys" for k x'
      using that mem(2,3) same(4) [OF \<open>sameAuth s t\<close>] by (auto simp: dropEncrypt_def)
    show "aEditSessions (dropEncrypt token x t) = aEditSessions s"
      using same(3) [OF that] by (simp add: dropEncrypt_def closeDone_def)
  qed (use same [OF that] in \<open>simp add: onlySessions_drop\<close>)
  have skip: "wp (scanEncrypt pid ys) ?Q t" if "sameAuth s t" for t
    by (rule step) (use same [OF that] mem(2) in simp_all)
  have found: "?Q (Some (asIdentity x)) t" if "sameAuth s t" "asOwner x = pid" "alive (aProcs s) pid" for t
    using same [OF that(1)] Cons.prems(4) [of token x] that(2,3) y by (simp add: scanned_def)
  show ?case
    unfolding y scanEncrypt.simps wp_bind
  proof (rule wp_processAliveI)
    show "wp (if \<not> True then do { _ \<leftarrow> modify (dropEncrypt token x); scanEncrypt pid ys }
        else if asOwner x = pid then ret (Some (asIdentity x)) else scanEncrypt pid ys) ?Q t"
      if "sameAuth s t" "asOwner x \<noteq> 0" "procKill (aProcs s) n (asOwner x) \<in> {None, Some EPERM}" for n t
      using skip [OF that(1)] found [OF that(1)] that(2,3) by (auto simp: wp alive_def)
  qed (use dead in \<open>simp add: wp\<close>)
qed

lemma activeEncrypt_wp:
  assumes "authInv A s"
  shows "wp (activeEncryptIdentityLocked pid)
    (\<lambda>r t. scanned A s (\<lambda>i. pid \<noteq> 0 \<and> liveEncrypt s pid i) r t \<and> aEditSessions t = aEditSessions s) s"
proof (cases "pid = 0")
  case True
  then show ?thesis using assms by (simp add: activeEncryptIdentityLocked_def wp scanned_def onlySessions_def)
next
  case False
  have wf: "mwf (aEncryptSessions s)" using assms by (simp add: authInv_def sessionsOk_def)
  have "wp (scanEncrypt pid (aEncryptSessions s))
      (\<lambda>r t. scanned A s (\<lambda>i. pid \<noteq> 0 \<and> liveEncrypt s pid i) r t \<and> aEditSessions t = aEditSessions s) s"
  proof (rule scanEncrypt_wp [OF assms])
    show "mget (aEncryptSessions s) token = Some x" if "(token, x) \<in> set (aEncryptSessions s)" for token x
      using that wf by (simp add: mget_in)
    show "pid \<noteq> 0 \<and> liveEncrypt s pid (asIdentity x)"
      if "(token, x) \<in> set (aEncryptSessions s)" "asOwner x = pid" "alive (aProcs s) pid" for token x
      using that wf False unfolding liveEncrypt_def by (auto simp: mget_in)
  qed (use wf in \<open>simp add: mwf_def\<close>)
  then show ?thesis using False by (simp add: activeEncryptIdentityLocked_def wp)
qed

lemma scanEdit_wp:
  assumes "authInv A s" "distinct (map fst xs)"
    "\<And>token x. (token, x) \<in> set xs \<Longrightarrow> mget (editSessionsOf key s) token = Some x"
    "\<And>token x. (token, x) \<in> set xs \<Longrightarrow> alive (aProcs s) (asOwner x) \<Longrightarrow>
      pid = 0 \<or> ancestry (aProcs s) pid (asOwner x) \<Longrightarrow> H (asIdentity x)"
  shows "wp (scanEdit key pid xs) (scanned A s H) s"
  using assms
proof (induction xs arbitrary: s)
  case Nil
  then show ?case by (simp add: wp scanned_def onlySessions_def)
next
  case (Cons y ys)
  obtain token x where y: "y = (token, x)" by (cases y)
  have mem: "mget (editSessionsOf key s) token = Some x"
    "\<And>token x. (token, x) \<in> set ys \<Longrightarrow> mget (editSessionsOf key s) token = Some x" "\<And>x. (token, x) \<notin> set ys"
    using Cons.prems(2,3) y by force+
  have step: "wp (scanEdit key pid ys) (scanned A s H) u"
    if u: "authInv A u" "onlySessions s u"
      "\<And>token x. (token, x) \<in> set ys \<Longrightarrow> mget (editSessionsOf key u) token = Some x" for u
  proof (rule wp_mono [OF Cons.IH [OF u(1) _ u(3)]])
    have P: "aProcs u = aProcs s" using u(2) by (simp add: onlySessions_def)
    show "distinct (map fst ys)" using Cons.prems(2) by simp
    show "H (asIdentity x)" if "(token, x) \<in> set ys" "alive (aProcs u) (asOwner x)"
      "pid = 0 \<or> ancestry (aProcs u) pid (asOwner x)" for token x
      by (rule Cons.prems(4)) (use that P in auto)
  qed (use scanned_trans [OF u(2)] in auto)
  have same: "authInv A t" "onlySessions s t" "editSessionsOf key t = editSessionsOf key s" if "sameAuth s t" for t
    using Cons.prems(1) sameAuth_inv(1) [OF that, of A] sameAuth_inv(6) [OF that] onlySessions_sameAuth [OF that] by simp_all
  have dead: "wp (scanEdit key pid ys) (scanned A s H) (dropEdit key token x t)" if "sameAuth s t" for t
  proof (rule step)
    show "authInv A (dropEdit key token x t)"
      using sessionsOk_dropEdit [of A t key token x] same [OF that] mem(1) by (simp add: authInv_def)
    show "mget (editSessionsOf key (dropEdit key token x t)) k = Some x'" if "(k, x') \<in> set ys" for k x'
      using that mem(2,3) same(3) [OF \<open>sameAuth s t\<close>] dropEdit_sessionAt [of key token x t "(Some key, k)"] by auto
  qed (use same [OF that] in \<open>simp add: onlySessions_drop\<close>)
  have skip: "wp (scanEdit key pid ys) (scanned A s H) t" if "sameAuth s t" for t
    by (rule step) (use same [OF that] mem(2) in simp_all)
  have found: "scanned A s H (Some (asIdentity x)) t"
    if "sameAuth s t" "alive (aProcs s) (asOwner x)" "pid = 0 \<or> ancestry (aProcs s) pid (asOwner x)" for t
    using same [OF that(1)] Cons.prems(4) [of token x] that(2,3) y by (simp add: scanned_def)
  have live: "wp (do { related \<leftarrow> (if pid = 0 then ret True else processIsOrDescendsFrom pid (asOwner x));
      (if related then ret (Some (asIdentity x)) else scanEdit key pid ys) }) (scanned A s H) t"
    if t: "sameAuth s t" "alive (aProcs s) (asOwner x)" for t
  proof -
    have P: "aProcs t = aProcs s" by (simp add: sameAuth_fields [OF t(1)])
    show ?thesis
      unfolding wp
      using found [OF t] skip [OF t(1)]
      by (auto simp: wp P intro!: wp_processIsOrDescendsFromI intro: found skip sameAuth_trans [OF t(1)] t(2))
  qed
  show ?case
    unfolding y scanEdit.simps wp_bind [of "processAlive _"]
  proof (rule wp_processAliveI)
    fix n t
    assume "sameAuth s t" "asOwner x \<noteq> 0" "procKill (aProcs s) n (asOwner x) \<in> {None, Some EPERM}"
    then show "wp (if \<not> True then do { _ \<leftarrow> modify (dropEdit key token x); scanEdit key pid ys }
        else do { related \<leftarrow> (if pid = 0 then ret True else processIsOrDescendsFrom pid (asOwner x));
          (if related then ret (Some (asIdentity x)) else scanEdit key pid ys) }) (scanned A s H) t"
      using live [of t] unfolding alive_def by (simp only: not_True_eq_False if_False) blast
  qed (use dead in \<open>simp add: wp\<close>)
qed

lemma activeEdit_wp:
  assumes "authInv A s"
  shows "wp (activeEditIdentityLocked key pid) (scanned A s (liveEdit s key pid)) s"
proof -
  have wf: "mwf (editSessionsOf key s)" using assms mwf_sessions [of A s] by (simp add: authInv_def)
  have "wp (scanEdit key pid (editSessionsOf key s)) (scanned A s (liveEdit s key pid)) s"
  proof (rule scanEdit_wp [OF assms])
    show "mget (editSessionsOf key s) token = Some x" if "(token, x) \<in> set (editSessionsOf key s)" for token x
      using that wf by (simp add: mget_in)
    show "liveEdit s key pid (asIdentity x)" if "(token, x) \<in> set (editSessionsOf key s)" "alive (aProcs s) (asOwner x)"
      "pid = 0 \<or> ancestry (aProcs s) pid (asOwner x)" for token x
      using that wf unfolding liveEdit_def by (auto simp: mget_in)
  qed (use wf in \<open>simp add: mwf_def\<close>)
  then show ?thesis
    unfolding activeEditIdentityLocked_def wp
    by (rule wp_mono)
      (auto simp: scanned_def authInv_def sessionsOk_pruneEdit onlySessions_drop split: option.splits)
qed

section \<open>Requests\<close>

lemma wp_unlockPrivateConfig_sameI:
  assumes "\<And>e t. sameAuth s t \<Longrightarrow> Q (Inl e) t"
    and "\<And>data t. sameAuth s t \<Longrightarrow> (\<exists>identity. parsePrivateIdentity A data = Inr identity \<and>
      ageRecipient A identity = cfgRecipient public) \<Longrightarrow> Q (Inr data) t"
  shows "wp (unlockPrivateConfig A root public prompter request) Q (s :: 'z auth_scheme)"
proof (rule wp_unlockPrivateConfigI)
  have same: "sameAuth s t" if "sameExcept {} s t" for t
    using that more_volume [of t s] by (simp add: sameExcept_def sameAuth_def)
  show "Q (Inl e) t" if "sameExcept {} s t" for e t using assms(1) [OF same [OF that]] .
  show "Q (Inr data) t" if "sameExcept {} s t" "checkPrivateConfig A public data = Inr data" for data t
    using assms(2) [OF same [OF that(1)]] checkPrivateConfig_ok [OF that(2)] by blast
qed

text \<open>Every way of prompting is recorded, and yields an identity of this volume only.\<close>

definition prompted :: "PromptRequest \<Rightarrow> 'z auth_scheme \<Rightarrow> 'z auth_scheme \<Rightarrow> bool" where
  "prompted request s t \<longleftrightarrow> (\<exists>u. sameAuth u t \<and> u = s\<lparr>aPrompts := request # aPrompts s\<rparr>)"

lemma prompted_inv:
  "prompted request s t \<Longrightarrow> authInv A t = authInv A s" "prompted request s t \<Longrightarrow> ownIdentity A t = ownIdentity A s"
proof -
  have l: "sessionAt (s\<lparr>aPrompts := x\<rparr>) = sessionAt s" for x
    by (auto simp: fun_eq_iff sessionAt_def editSessionsOf_def split: option.splits)
  have o: "ownIdentity A (s\<lparr>aPrompts := x\<rparr>) = ownIdentity A s" for x
    by (simp add: ownIdentity_def fun_eq_iff)
  have i: "authInv A (s\<lparr>aPrompts := x\<rparr>) = authInv A s" for x
    by (simp add: authInv_def sessionsOk_def grantsOk_def l o)
  show "prompted request s t \<Longrightarrow> authInv A t = authInv A s" "prompted request s t \<Longrightarrow> ownIdentity A t = ownIdentity A s"
    using i o sameAuth_inv(1,5) by (metis prompted_def)+
qed

lemma requestIdentity_wp:
  "wp (requestIdentity A request)
    (\<lambda>r t. prompted request s t \<and> (\<forall>i. r = Inr i \<longrightarrow> ownIdentity A s i)) s"
proof -
  let ?u = "s\<lparr>aPrompts := request # aPrompts s\<rparr>"
  have p: "prompted request s t" if "sameAuth ?u t" for t using that by (auto simp: prompted_def)
  show ?thesis
    unfolding requestIdentity_def wp
    by (auto simp: wp wp_def [of "State _"] ownIdentity_def split: option.splits sum.splits
        intro!: wp_unlockPrivateConfig_sameI p)
qed

section \<open>Grants\<close>

definition onlyGrants :: "'z auth_scheme \<Rightarrow> 'z auth_scheme \<Rightarrow> bool" where
  "onlyGrants s t \<longleftrightarrow>
     osEnv t = osEnv s \<and> vConfig t = vConfig s \<and> aPrompter t = aPrompter s \<and> aProcs t = aProcs s \<and>
     aUnlockFor t = aUnlockFor s \<and> aUnlockScope t = aUnlockScope s \<and> aPrompts t = aPrompts s \<and>
     aEditSessions t = aEditSessions s \<and> aEncryptSessions t = aEncryptSessions s \<and>
     aClosed t = aClosed s \<and> aChannels t = aChannels s"

lemma onlyGrants_sessionsOk:
  assumes "onlyGrants s t"
  shows "sessionsOk A t = sessionsOk A s"
proof -
  have "sessionAt t = sessionAt s"
    using assms by (auto simp: fun_eq_iff sessionAt_def editSessionsOf_def onlyGrants_def split: option.splits)
  then show ?thesis using assms by (simp add: sessionsOk_def ownIdentity_def onlyGrants_def)
qed

lemma authInv_grants: "onlyGrants s t \<Longrightarrow> authInv A s \<Longrightarrow> grantsOk A t \<Longrightarrow> authInv A t \<and> vConfig t = vConfig s"
  using onlyGrants_sessionsOk [of s t A] by (auto simp: authInv_def onlyGrants_def)

lemma onlyGrants_trans: "onlyGrants s t \<Longrightarrow> onlyGrants t u \<Longrightarrow> onlyGrants s u"
  by (simp add: onlyGrants_def)

text \<open>The part of \<open>grantsOk\<close> that does not speak of the timer.\<close>

definition grantsWf :: "'y agekeys_scheme \<Rightarrow> 'z auth_scheme \<Rightarrow> bool" where
  "grantsWf A s \<longleftrightarrow>
     mwf (aAuthorized s) \<and> [] \<notin> fst ` set (aAuthorized s) \<and>
     (\<forall>identity. aCachedIdentity s = Some identity \<longrightarrow> ownIdentity A s identity \<and> aAuthorized s \<noteq> [])"

lemma fold_latest:
  fixes xs :: "('k \<times> int) list"
  defines "f \<equiv> (\<lambda>(_, until) latest. if until > latest then until else latest)"
  shows "z \<le> fold f xs z \<and> (\<forall>(k, until) \<in> set xs. until \<le> fold f xs z)"
proof (induction xs arbitrary: z)
  case (Cons x xs)
  show ?case using Cons.IH [of "f x z"] by (cases x) (auto simp: f_def split: if_splits)
qed simp

lemma schedule_wp:
  assumes "grantsWf A s"
  shows "wp scheduleIdentityExpiryLocked (\<lambda>_ t. grantsOk A t \<and> onlyGrants s t \<and> aAuthorized t = aAuthorized s) s"
proof -
  let ?latest = "fold (\<lambda>(_, until) latest. if until > latest then until else latest) (aAuthorized s) zeroTime"
  let ?now = "envNow (osEnv s) (osCalls s)"
  have le: "until \<le> ?latest" if "(key, until) \<in> set (aAuthorized s)" for key until
    using fold_latest [of zeroTime "aAuthorized s"] that by auto
  have due: "?latest \<le> ?now + (if ?latest - ?now < 0 then 0 else ?latest - ?now)" by simp
  have armed: "grantsOk A (tickd s\<lparr>aUnlockTimer := Some d\<rparr>)" if "?latest \<le> d" for d
    using assms le order_trans [OF _ that] by (auto simp: grantsWf_def grantsOk_def ownIdentity_def)
  have idle: "grantsOk A (s\<lparr>aUnlockTimer := None, aCachedIdentity := None\<rparr>)"
    using assms by (simp add: grantsWf_def grantsOk_def)
  show ?thesis
    unfolding scheduleIdentityExpiryLocked_def wp
    using armed [OF due] idle by (simp add: wp Let_def onlyGrants_def)
qed

lemma set_mdel: "set (mdel k m) \<subseteq> set m"
  by (auto simp: mdel_def AList.delete_eq)

lemma removeExpired_ok:
  assumes "grantsOk A s"
  shows "grantsOk A (removeExpiredAuthorizationsLocked now s)" "onlyGrants s (removeExpiredAuthorizationsLocked now s)"
    "grantsWf A (removeExpiredAuthorizationsLocked now s)"
    "mget (aAuthorized (removeExpiredAuthorizationsLocked now s)) key = Some until \<Longrightarrow>
      mget (aAuthorized s) key = Some until \<and> now < until"
    "aCachedIdentity (removeExpiredAuthorizationsLocked now s) = Some i \<Longrightarrow> aCachedIdentity s = Some i"
proof -
  have wf: "mwf (aAuthorized s)" using assms by (simp add: grantsOk_def)
  have sub: "set (mfilter (\<lambda>_ until. now < until) (aAuthorized s)) \<subseteq> set (aAuthorized s)"
    by (auto simp: mfilter_def)
  show "grantsOk A (removeExpiredAuthorizationsLocked now s)" "grantsWf A (removeExpiredAuthorizationsLocked now s)"
    using assms sub by (fastforce simp: grantsOk_def grantsWf_def ownIdentity_def removeExpiredAuthorizationsLocked_def Let_def)+
  show "onlyGrants s (removeExpiredAuthorizationsLocked now s)"
    by (simp add: onlyGrants_def removeExpiredAuthorizationsLocked_def Let_def)
  show "mget (aAuthorized (removeExpiredAuthorizationsLocked now s)) key = Some until \<Longrightarrow>
      mget (aAuthorized s) key = Some until \<and> now < until"
    using wf by (auto simp: removeExpiredAuthorizationsLocked_def Let_def mget_mfilter split: option.splits if_splits)
  show "aCachedIdentity (removeExpiredAuthorizationsLocked now s) = Some i \<Longrightarrow> aCachedIdentity s = Some i"
    by (simp add: removeExpiredAuthorizationsLocked_def Let_def split: if_splits)
qed

lemma expireCachedIdentity_wp:
  assumes "authInv A s"
  shows "wp expireCachedIdentity (\<lambda>_ t. authInv A t \<and> vConfig t = vConfig s) s"
proof -
  let ?u = "removeExpiredAuthorizationsLocked (envNow (osEnv s) (osCalls s)) (tickd s)"
  have g: "grantsOk A (tickd s)" using assms by (simp add: authInv_def)
  note r = removeExpired_ok [OF g, where now = "envNow (osEnv s) (osCalls s)"]
  have none: "authInv A (?u\<lparr>aUnlockTimer := None\<rparr>) \<and> vConfig ?u = vConfig s" if "aAuthorized ?u = []"
  proof -
    have "onlyGrants s (?u\<lparr>aUnlockTimer := None\<rparr>)" using r(2) by (simp add: onlyGrants_def)
    moreover have "grantsOk A (?u\<lparr>aUnlockTimer := None\<rparr>)" using r(1) that by (simp add: grantsOk_def ownIdentity_def)
    ultimately show ?thesis using authInv_grants [OF _ assms] by fastforce
  qed
  have some: "wp scheduleIdentityExpiryLocked (\<lambda>_ t. authInv A t \<and> vConfig t = vConfig s) ?u"
  proof (rule wp_mono [OF schedule_wp [OF r(3)]])
    fix a t
    assume t: "grantsOk A t \<and> onlyGrants ?u t \<and> aAuthorized t = aAuthorized ?u"
    then have "onlyGrants s t" using r(2) by (simp add: onlyGrants_def)
    then show "authInv A t \<and> vConfig t = vConfig s" using t authInv_grants [OF _ assms] by blast
  qed
  show ?thesis
    unfolding expireCachedIdentity_def wp using none some by (simp add: wp)
qed

lemma expireProcessTick_wp:
  assumes "authInv A s"
  shows "wp (expireProcessTick key pid until) (\<lambda>_ t. authInv A t \<and> vConfig t = vConfig s) s"
proof -
  have sched: "wp scheduleIdentityExpiryLocked (\<lambda>_ v. authInv A v \<and> vConfig v = vConfig s)
      (dropGrant key u)" (is "wp _ _ ?v") if "sameAuth s u" for u
  proof (rule wp_mono [OF schedule_wp])
    have inv: "authInv A u" "vConfig u = vConfig s" using assms that by (simp_all add: sameAuth_inv sameAuth_fields)
    show "grantsWf A ?v"
      using inv(1) set_mdel [of key "aAuthorized u"]
      by (auto simp: authInv_def grantsOk_def grantsWf_def ownIdentity_def dropGrant_def Let_def)
    fix a v
    assume v: "grantsOk A v \<and> onlyGrants ?v v \<and> aAuthorized v = aAuthorized ?v"
    then have "onlyGrants u v" by (simp add: onlyGrants_def dropGrant_def Let_def)
    then show "authInv A v \<and> vConfig v = vConfig s" using v inv authInv_grants by metis
  qed
  have same: "authInv A u \<and> vConfig u = vConfig s" if "sameAuth s u" for u
    using assms that by (simp add: sameAuth_inv sameAuth_fields)
  show ?thesis
    unfolding expireProcessTick_def wp_bind wp_gets wp_if
    using same [OF sameAuth_refl]
    by (auto simp: wp Let_def intro!: wp_processAliveI same sched)
qed

lemma authInv_goroutines [simp]: "authInv A (t\<lparr>aGoroutines := gs\<rparr>) = authInv A t"
proof -
  have "sessionAt (t\<lparr>aGoroutines := gs\<rparr>) = sessionAt t"
    by (auto simp: fun_eq_iff sessionAt_def editSessionsOf_def split: option.splits)
  then show ?thesis by (simp add: authInv_def sessionsOk_def grantsOk_def ownIdentity_def)
qed

lemma grantIdentity_wp:
  assumes inv: "authInv A s" and own: "ownIdentity A s identity" and key: "key \<noteq> []"
  shows "wp (grantIdentity key pid identity)
    (\<lambda>r t. r = Inr identity \<and> authInv A t \<and> vConfig t = vConfig s \<and> aPrompts t = aPrompts s) s"
proof -
  have wf: "grantsWf A (tickd s\<lparr>aCachedIdentity := Some identity, aAuthorized := mset_key key until (aAuthorized s)\<rparr>)"
    (is "grantsWf A (?u until)") for until
  proof -
    have "mset_key key until (aAuthorized s) \<noteq> []" by (simp add: mset_key_def update_nonempty)
    moreover have "[] \<notin> fst ` set (mset_key key until (aAuthorized s))"
      using inv key by (simp add: authInv_def grantsOk_def mset_key_def dom_update)
    ultimately show ?thesis using inv own by (simp add: grantsWf_def authInv_def grantsOk_def ownIdentity_def)
  qed
  have fin: "wp scheduleIdentityExpiryLocked (\<lambda>_ t. authInv A t \<and> vConfig t = vConfig s \<and> aPrompts t = aPrompts s) (?u until)" for until
  proof (rule wp_mono [OF schedule_wp [OF wf]])
    fix a t
    assume t: "grantsOk A t \<and> onlyGrants (?u until) t \<and> aAuthorized t = aAuthorized (?u until)"
    then have o: "onlyGrants s t" by (simp add: onlyGrants_def)
    show "authInv A t \<and> vConfig t = vConfig s \<and> aPrompts t = aPrompts s"
      using authInv_grants [OF o inv] t o by (simp add: onlyGrants_def)
  qed
  show ?thesis
    unfolding grantIdentity_def wp
    by (auto simp: wp intro!: wp_mono [OF fin])
qed

text \<open>The outcome of a request, as the callers see it.\<close>

definition answered ::
  "'y agekeys_scheme \<Rightarrow> (string \<Rightarrow> bool) \<Rightarrow> PromptRequest \<Rightarrow> 'z auth_scheme \<Rightarrow> string res \<Rightarrow> 'z auth_scheme \<Rightarrow> bool" where
  "answered A H request s r t \<longleftrightarrow>
     authInv A t \<and> vConfig t = vConfig s \<and> (\<forall>i. r = Inr i \<longrightarrow> ownIdentity A s i) \<and>
     (aPrompts t = request # aPrompts s \<or> aPrompts t = aPrompts s \<and> (\<forall>i. r = Inr i \<longrightarrow> H i))"

lemma prompted_fields: "prompted request s t \<Longrightarrow> aPrompts t = request # aPrompts s \<and> vConfig t = vConfig s"
  unfolding prompted_def using sameAuth_fields by fastforce

lemma requestIdentity_answered:
  assumes "authInv A s"
  shows "wp (requestIdentity A request) (answered A H request s) s"
proof (rule wp_mono [OF requestIdentity_wp])
  fix r :: "string res" and t
  assume t: "prompted request s t \<and> (\<forall>i. r = Inr i \<longrightarrow> ownIdentity A s i)"
  then show "answered A H request s r t"
    using assms prompted_fields [of request s t] prompted_inv(1) [of request s t A] by (auto simp: answered_def)
qed

lemma requestAndGrant_answered:
  assumes inv: "authInv A s" and key: "key = authorizationKey (aUnlockScope s) cacheKey (reqPID request)" "key \<noteq> []"
    and "aUnlockFor s > 0"
    and H: "\<And>i. liveGrant s cacheKey (reqPID request) i \<Longrightarrow> H i"
  shows "wp (requestAndGrant A key request) (answered A H request s) s"
proof -
  let ?now = "envNow (osEnv s) (osCalls s)"
  let ?u = "removeExpiredAuthorizationsLocked ?now (tickd s)"
  have g: "grantsOk A (tickd s)" using inv by (simp add: authInv_def)
  note r = removeExpired_ok [OF g, where now = ?now]
  have o: "onlyGrants s ?u" using r(2) by (simp add: onlyGrants_def)
  have inv': "authInv A ?u" and cfg: "vConfig ?u = vConfig s" "aPrompts ?u = aPrompts s"
    using authInv_grants [OF o inv r(1)] o by (simp_all add: onlyGrants_def)
  have own: "ownIdentity A ?u = ownIdentity A s" using cfg by (simp add: ownIdentity_def fun_eq_iff)
  have hit: "answered A H request s (Inr i) ?u" if h: "cachedGrant key ?now ?u = Some i" for i
  proof -
    obtain until where c: "aCachedIdentity ?u = Some i" "mget (aAuthorized ?u) key = Some until"
      using h by (auto simp: cachedGrant_def split: option.splits if_splits)
    have "aCachedIdentity s = Some i" "mget (aAuthorized s) key = Some until" "?now < until"
      using r(4) [OF c(2)] r(5) [OF c(1)] by simp_all
    then have "liveGrant s cacheKey (reqPID request) i" using assms(4) key by (auto simp: liveGrant_def)
    moreover have "ownIdentity A s i" using c(1) r(1) own by (simp add: grantsOk_def)
    ultimately show ?thesis using inv' cfg by (simp add: answered_def H)
  qed
  have miss: "wp (andThen (requestIdentity A request) (grantIdentity key (reqPID request))) (answered A H request s) ?u"
    unfolding wp_andThen
  proof (rule wp_mono [OF requestIdentity_wp])
    fix r :: "string res" and t
    assume t: "prompted request ?u t \<and> (\<forall>i. r = Inr i \<longrightarrow> ownIdentity A ?u i)"
    have p: "aPrompts t = request # aPrompts s" "vConfig t = vConfig s" "authInv A t"
      using prompted_fields [of request ?u t] prompted_inv(1) [of request ?u t A] t cfg inv' by simp_all
    then have own': "ownIdentity A t = ownIdentity A s" by (simp add: ownIdentity_def fun_eq_iff)
    show "case r of Inl e \<Rightarrow> answered A H request s (Inl e) t
        | Inr i \<Rightarrow> wp (grantIdentity key (reqPID request) i) (answered A H request s) t"
    proof (cases r)
      case (Inr i)
      then have "ownIdentity A s i" using t own by simp
      then show ?thesis
        unfolding Inr sum.case
        by (intro wp_mono [OF grantIdentity_wp [OF p(3) _ key(2)]]) (use p own' in \<open>auto simp: answered_def\<close>)
    qed (use p in \<open>simp add: answered_def\<close>)
  qed
  show ?thesis
    unfolding requestAndGrant_def wp using hit miss by (auto simp: wp split: option.splits)
qed

lemma entitled_onlySessions:
  assumes "onlySessions s u" "aEditSessions u = aEditSessions s \<or> editSessionsOf cacheKey u = editSessionsOf cacheKey s"
  shows "liveEdit u cacheKey pid i = liveEdit s cacheKey pid i" "liveGrant u cacheKey pid i = liveGrant s cacheKey pid i"
proof -
  have "editSessionsOf cacheKey u = editSessionsOf cacheKey s" using assms(2) by (auto simp: editSessionsOf_def)
  then show "liveEdit u cacheKey pid i = liveEdit s cacheKey pid i" "liveGrant u cacheKey pid i = liveGrant s cacheKey pid i"
    using assms(1) by (simp_all add: liveEdit_def liveGrant_def onlySessions_def)
qed

lemma entitled_own:
  assumes inv: "authInv A s" and "entitled s cacheKey pid i"
  shows "ownIdentity A s i"
proof -
  have "liveEncrypt s pid i \<Longrightarrow> ownIdentity A s i"
    using inv sessionsOkD(1) [of A s "(None, _)"] by (auto simp: liveEncrypt_def authInv_def)
  moreover have "liveEdit s cacheKey pid i \<Longrightarrow> ownIdentity A s i"
    using inv sessionsOkD(1) [of A s "(Some cacheKey, _)"] by (auto simp: liveEdit_def authInv_def)
  moreover have "liveGrant s cacheKey pid i \<Longrightarrow> ownIdentity A s i"
    using inv by (auto simp: liveGrant_def authInv_def grantsOk_def)
  ultimately show ?thesis using assms(2) by (auto simp: entitled_def)
qed

lemma unlockIdentityForRequest_answered:
  assumes inv: "authInv A s"
  shows "wp (unlockIdentityForRequest A cacheKey request)
    (answered A (entitled s cacheKey (reqPID request)) request s) s"
proof -
  let ?pid = "reqPID request"
  let ?H = "entitled s cacheKey ?pid"
  let ?ask = "\<lambda>t. if 0 < aUnlockFor t \<and> authorizationKey (aUnlockScope t) cacheKey ?pid \<noteq> []
      then requestAndGrant A (authorizationKey (aUnlockScope t) cacheKey ?pid) request else requestIdentity A request"
  have found: "answered A ?H request s (Inr i) t" if "authInv A t" "onlySessions s t" "?H i" for i t
    using that entitled_own [OF inv that(3)] by (auto simp: answered_def onlySessions_def)
  have ask: "wp (?ask t) (answered A ?H request s) t" if t: "authInv A t" "onlySessions s t" for t
  proof -
    have mono: "answered A ?H request s r u" if "answered A (liveGrant t cacheKey ?pid) request t r u" for r u
      using that t(2) by (auto simp: answered_def onlySessions_def ownIdentity_def entitled_def liveGrant_def)
    have "wp (requestAndGrant A (authorizationKey (aUnlockScope t) cacheKey ?pid) request) (answered A ?H request s) t"
      if "authorizationKey (aUnlockScope t) cacheKey ?pid \<noteq> []" "0 < aUnlockFor t"
      by (rule wp_mono [OF requestAndGrant_answered [OF t(1) refl that, where H = "liveGrant t cacheKey ?pid"]])
        (simp_all add: mono)
    moreover have "wp (requestIdentity A request) (answered A ?H request s) t"
      by (rule wp_mono [OF requestIdentity_answered [OF t(1), where H = "liveGrant t cacheKey ?pid"]]) (rule mono)
    ultimately show ?thesis by simp
  qed
  have edit: "wp (activeEditIdentityLocked cacheKey ?pid) (\<lambda>r u. case r of
        None \<Rightarrow> wp (?ask u) (answered A ?H request s) u | Some i \<Rightarrow> answered A ?H request s (Inr i) u) t"
    if t: "authInv A t" "onlySessions s t" "aEditSessions t = aEditSessions s" for t
  proof (rule wp_mono [OF activeEdit_wp [OF t(1)]])
    fix r u
    assume u: "scanned A t (liveEdit t cacheKey ?pid) r u"
    have os: "onlySessions s u" "authInv A u" using u onlySessions_trans [OF t(2)] by (auto simp: scanned_def)
    have e: "?H i" if "r = Some i" for i
      using u that entitled_onlySessions(1) [OF t(2)] t(3) by (simp add: scanned_def entitled_def)
    show "case r of None \<Rightarrow> wp (?ask u) (answered A ?H request s) u | Some i \<Rightarrow> answered A ?H request s (Inr i) u"
      using ask [OF os(2,1)] found [OF os(2,1)] e by (cases r) (simp_all only: option.case)
  qed
  show ?thesis
    unfolding unlockIdentityForRequest_def wp_bind wp_gets wp_case_option wp_return
  proof (rule wp_mono [OF activeEncrypt_wp [OF inv]], goal_cases)
    case (1 r t)
    show ?case
    proof (cases r)
      case None
      then show ?thesis using 1 edit [of t] by (auto simp: scanned_def elim!: wp_mono split: option.splits)
    next
      case (Some i)
      then show ?thesis using 1 found [of t i] by (simp add: scanned_def entitled_def)
    qed
  qed
qed

section \<open>The machine\<close>

lemma authInv_sameAuth_wp: "keeps volRest m \<Longrightarrow> authInv A s \<Longrightarrow> wp m (\<lambda>_ t. authInv A t \<and> vConfig t = vConfig s) (s :: 'z auth_scheme)"
  by (rule wp_sameAuthI) (simp_all add: sameAuth_inv sameAuth_fields)

lemma keeps_promptDisplayPath [keeps]: "keeps volRest (promptDisplayPath r)"
  unfolding promptDisplayPath_def Let_def by (intro keeps)

lemma wp_callerPIDI: "(\<And>pid t. sameAuth s t \<Longrightarrow> Q pid t) \<Longrightarrow> wp (callerPID caller) Q s"
  by (auto simp: callerPID_def wp wp_def [of "State _"] split: option.splits)

lemma unlockIdentity_wp:
  assumes "authInv A s"
  shows "wp (unlockIdentity A caller relative operation)
    (\<lambda>r t. authInv A t \<and> vConfig t = vConfig s \<and> (\<forall>i. r = Inr i \<longrightarrow> ownIdentity A s i)) s"
proof -
  have go: "wp (unlockIdentityForRequest A key request)
      (\<lambda>r t. authInv A t \<and> vConfig t = vConfig s \<and> (\<forall>i. r = Inr i \<longrightarrow> ownIdentity A s i)) u" if u: "sameAuth s u" for u key request
  proof -
    have i: "authInv A u" "vConfig u = vConfig s" "ownIdentity A u = ownIdentity A s"
      using assms sameAuth_inv(1,5) [OF u, of A] sameAuth_fields [OF u] by simp_all
    show ?thesis
      by (rule wp_mono [OF unlockIdentityForRequest_answered [OF i(1)]]) (use i in \<open>auto simp: answered_def\<close>)
  qed
  show ?thesis
    unfolding unlockIdentity_def wp_bind
    by (rule wp_callerPIDI, rule wp_sameAuthI, rule keeps_promptDisplayPath) (blast intro: go sameAuth_trans)
qed

text \<open>
  \<open>beginEditSession\<close> and \<open>beginEncryptSession\<close> have two critical sections: between them the
  caller holds an identity that the volume does not know of. It is a ticket of the machine.
\<close>

datatype ticket = EditTicket string string u32 string | EncryptTicket string u32 string

fun ticketOk :: "'y agekeys_scheme \<Rightarrow> PublicConfig \<Rightarrow> ticket \<Rightarrow> bool" where
  "ticketOk A config (EditTicket key token pid identity) \<longleftrightarrow> pid \<noteq> 0 \<and> ageRecipient A identity = cfgRecipient config"
| "ticketOk A config (EncryptTicket token pid identity) \<longleftrightarrow> pid \<noteq> 0 \<and> ageRecipient A identity = cfgRecipient config"

datatype event =
    Other | Request string PromptRequest | BeginEdit string string u32 | BeginEncrypt string u32 | Store ticket
  | EndEdit string string u32 | EndEncrypt string u32 | OwnerGone goroutine | TimerFires | ProcessTick string u32 int
  | LockVault | Reconfigure int int UnlockScope | ChangePrompter "prompter option"

inductive authStep :: "'y agekeys_scheme \<Rightarrow> 'z auth_scheme \<times> ticket list \<Rightarrow> event \<Rightarrow> 'z auth_scheme \<times> ticket list \<Rightarrow> bool"
  for A where
  other: "sameAuth s t \<Longrightarrow> authStep A (s, T) Other (t, T)"
| request: "run_state (unlockIdentityForRequest A key req) s = (r, t) \<Longrightarrow> authStep A (s, T) (Request key req) (t, T)"
| begin_edit: "run_state (unlockIdentity A caller relative ''edit'') s = (Inr identity, t) \<Longrightarrow> pid \<noteq> 0 \<Longrightarrow>
    authStep A (s, T) (BeginEdit relative token pid) (t, EditTicket (metadataKey relative) token pid identity # T)"
| begin_encrypt: "run_state (unlockIdentityForRequest A [] req) s = (Inr identity, t) \<Longrightarrow> pid \<noteq> 0 \<Longrightarrow>
    authStep A (s, T) (BeginEncrypt token pid) (t, EncryptTicket token pid identity # T)"
| store_edit: "EditTicket key token pid identity \<in> set T \<Longrightarrow>
    run_state (insertEditSession key token pid identity) s = (r, t) \<Longrightarrow>
    authStep A (s, T) (Store (EditTicket key token pid identity)) (t, remove1 (EditTicket key token pid identity) T)"
| store_encrypt: "EncryptTicket token pid identity \<in> set T \<Longrightarrow>
    run_state (insertEncryptSession token pid identity) s = (r, t) \<Longrightarrow>
    authStep A (s, T) (Store (EncryptTicket token pid identity)) (t, remove1 (EncryptTicket token pid identity) T)"
| end_edit: "run_state (endEditSession relative token pid) s = (r, t) \<Longrightarrow> authStep A (s, T) (EndEdit relative token pid) (t, T)"
| end_encrypt: "run_state (endEncryptSession token pid) s = (r, t) \<Longrightarrow> authStep A (s, T) (EndEncrypt token pid) (t, T)"
| owner_edit: "run_state (monitorEditSession key token pid) s = (r, t) \<Longrightarrow>
    authStep A (s, T) (OwnerGone (MonitorEdit key token pid channel)) (t, T)"
| owner_encrypt: "run_state (monitorEncryptSession token pid) s = (r, t) \<Longrightarrow>
    authStep A (s, T) (OwnerGone (MonitorEncrypt token pid channel)) (t, T)"
| timer: "run_state expireCachedIdentity s = (r, t) \<Longrightarrow> authStep A (s, T) TimerFires (t, T)"
| process: "run_state (expireProcessTick key pid until) s = (r, t) \<Longrightarrow> authStep A (s, T) (ProcessTick key pid until) (t, T)"
| lock: "run_state Lock s = (r, t) \<Longrightarrow> authStep A (s, T) LockVault (t, T)"
| reconfigure: "run_state (ConfigureAuthorization maximum duration scope) s = (r, t) \<Longrightarrow>
    authStep A (s, T) (Reconfigure maximum duration scope) (t, T)"
| prompter: "run_state (ConfigurePrompter p) s = (r, t) \<Longrightarrow> authStep A (s, T) (ChangePrompter p) (t, T)"

lemma distinct_concat_map:
  assumes "distinct (map fst xs)" "\<And>k v. (k, v) \<in> set xs \<Longrightarrow> distinct (f v)"
    "\<And>k v k' v'. (k, v) \<in> set xs \<Longrightarrow> (k', v') \<in> set xs \<Longrightarrow> k \<noteq> k' \<Longrightarrow> set (f v) \<inter> set (f v') = {}"
  shows "distinct (concat (map (\<lambda>(_, v). f v) xs))"
  using assms
proof (induction xs)
  case (Cons x xs)
  obtain k v where x: "x = (k, v)" by (cases x)
  have "set (f v) \<inter> set (f v') = {}" if "(k', v') \<in> set xs" for k' v'
    using Cons.prems(1) Cons.prems(3) [of k v k' v'] that x by force
  then have "set (f v) \<inter> set (concat (map (\<lambda>(_, v). f v) xs)) = {}" by fastforce
  moreover have "distinct (concat (map (\<lambda>(_, v). f v) xs))"
  proof (rule Cons.IH)
    show "set (f v) \<inter> set (f v') = {}" if "(k, v) \<in> set xs" "(k', v') \<in> set xs" "k \<noteq> k'" for k v k' v'
      by (rule Cons.prems(3) [OF _ _ that(3)]) (use that in auto)
  qed (use Cons.prems(1,2) in auto)
  ultimately show ?case using Cons.prems(2) [of k v] x by simp
qed simp

definition openChannels :: "'z auth_scheme \<Rightarrow> nat list" where
  "openChannels s = concat (map (\<lambda>(_, sessions). map (asDone \<circ> snd) sessions) (aEditSessions s)) @
     map (asDone \<circ> snd) (aEncryptSessions s)"

lemma channels_ok:
  assumes ok: "sessionsOk A s"
  shows "distinct (openChannels s)" "c \<in> set (openChannels s) \<Longrightarrow> \<exists>l x. sessionAt s l = Some x \<and> asDone x = c"
proof -
  have wf: "mwf (aEditSessions s)" "mwf (aEncryptSessions s)" "\<And>k ss. (k, ss) \<in> set (aEditSessions s) \<Longrightarrow> mwf ss"
    using ok by (auto simp: sessionsOk_def mget_in [symmetric])
  have edit: "sessionAt s (Some k, token) = Some x" if "(k, ss) \<in> set (aEditSessions s)" "(token, x) \<in> set ss" for k ss token x
    using that wf by (simp add: editSessionsOf_def mgetz_def mget_in)
  have enc: "sessionAt s (None, token) = Some x" if "(token, x) \<in> set (aEncryptSessions s)" for token x
    using that wf by (simp add: mget_in)
  note inj = sessionsOkD(5) [OF ok]
  have one: "distinct (map (asDone \<circ> snd) ss)" if d: "distinct (map fst ss)"
    and at: "\<And>token x. (token, x) \<in> set ss \<Longrightarrow> sessionAt s (l, token) = Some x" for ss l
  proof -
    have "inj_on (asDone \<circ> snd) (set ss)"
    proof (rule inj_onI, clarsimp)
      fix t1 x1 t2 x2
      assume a: "(t1, x1) \<in> set ss" "(t2, x2) \<in> set ss" "asDone x1 = asDone x2"
      from inj [OF at [OF a(2)] at [OF a(1)]] a(3) have "t1 = t2" by simp
      with a(1,2) d show "t1 = t2 \<and> x1 = x2" by (metis eq_key_imp_eq_value)
    qed
    then show ?thesis using d by (simp add: distinct_map)
  qed
  have "distinct (concat (map (\<lambda>(_, sessions). map (asDone \<circ> snd) sessions) (aEditSessions s)))"
  proof (rule distinct_concat_map)
    show "distinct (map fst (aEditSessions s))" using wf(1) by (simp add: mwf_def)
    show "distinct (map (asDone \<circ> snd) ss)" if "(k, ss) \<in> set (aEditSessions s)" for k ss
      by (rule one [where l = "Some k"]) (use wf(3) [OF that] edit [OF that] in \<open>auto simp: mwf_def\<close>)
    show "set (map (asDone \<circ> snd) ss) \<inter> set (map (asDone \<circ> snd) ss') = {}"
      if "(k, ss) \<in> set (aEditSessions s)" "(k', ss') \<in> set (aEditSessions s)" "k \<noteq> k'" for k ss k' ss'
    proof -
      have "asDone x \<noteq> asDone x'" if "(t, x) \<in> set ss" "(t', x') \<in> set ss'" for t x t' x'
        using inj [OF edit [OF \<open>(k', ss') \<in> _\<close> that(2)] edit [OF \<open>(k, ss) \<in> _\<close> that(1)]] \<open>k \<noteq> k'\<close> by auto
      then show ?thesis by fastforce
    qed
  qed
  moreover have "distinct (map (asDone \<circ> snd) (aEncryptSessions s))"
    by (rule one [where l = None]) (use wf(2) enc in \<open>auto simp: mwf_def\<close>)
  moreover have "asDone x \<noteq> asDone x'" if "(k, ss) \<in> set (aEditSessions s)" "(t, x) \<in> set ss"
    "(t', x') \<in> set (aEncryptSessions s)" for k ss t x t' x'
    using inj [OF enc [OF that(3)] edit [OF that(1,2)]] by auto
  ultimately show "distinct (openChannels s)" by (fastforce simp: openChannels_def)
  show "\<exists>l x. sessionAt s l = Some x \<and> asDone x = c" if c: "c \<in> set (openChannels s)"
  proof -
    from c consider (edit) k ss token x where "(k, ss) \<in> set (aEditSessions s)" "(token, x) \<in> set ss" "c = asDone x"
      | (enc) token x where "(token, x) \<in> set (aEncryptSessions s)" "c = asDone x"
      unfolding openChannels_def by auto
    then show ?thesis using edit enc by cases blast+
  qed
qed

lemma fold_closeDone: "fold closeDone cs s = s\<lparr>aClosed := rev cs @ aClosed s\<rparr>"
  by (induction cs arbitrary: s) (simp_all add: closeDone_def)

lemma run_Lock:
  "run_state Lock s = ((), s\<lparr>aClosed := rev (openChannels s) @ aClosed s, aUnlockTimer := None, aCachedIdentity := None,
     aAuthorized := [], aEditSessions := [], aEncryptSessions := []\<rparr>)"
  by (simp add: Lock_def modify_def forgetIdentity_def fold_closeDone openChannels_def [symmetric])

lemma authInv_Lock:
  assumes "authInv A s" "run_state Lock s = (r, t)"
  shows "authInv A t \<and> vConfig t = vConfig s"
proof -
  have ok: "sessionsOk A s" using assms(1) by (simp add: authInv_def)
  have c: "c \<notin> set (aClosed s) \<and> c < aChannels s" if "c \<in> set (openChannels s)" for c
    using channels_ok(2) [OF ok that] sessionsOkD(3,4) [OF ok] by blast
  have t: "t = s\<lparr>aClosed := rev (openChannels s) @ aClosed s, aUnlockTimer := None, aCachedIdentity := None,
     aAuthorized := [], aEditSessions := [], aEncryptSessions := []\<rparr>" using assms(2) by (simp add: run_Lock)
  have "sessionAt t l = None" for l by (cases l; cases "fst l") (auto simp: t editSessionsOf_def)
  then have "sessionsOk A t"
    using channels_ok(1) [OF ok] c sessionsOk_closed [OF ok] by (intro sessionsOkI) (auto simp: t)
  then show ?thesis by (simp add: authInv_def grantsOk_def t)
qed

lemma authInv_forgetIdentity:
  "authInv A s \<Longrightarrow> authInv A (forgetIdentity (s\<lparr>vMaxFileSize := m, aUnlockFor := d, aUnlockScope := sc\<rparr>))"
  "authInv A s \<Longrightarrow> authInv A ((forgetIdentity s)\<lparr>aPrompter := p\<rparr>)"
proof -
  have "sessionAt (forgetIdentity (s\<lparr>vMaxFileSize := m, aUnlockFor := d, aUnlockScope := sc\<rparr>)) = sessionAt s"
    "sessionAt ((forgetIdentity s)\<lparr>aPrompter := p\<rparr>) = sessionAt s"
    by (auto simp: fun_eq_iff sessionAt_def editSessionsOf_def forgetIdentity_def split: option.splits)
  then show "authInv A s \<Longrightarrow> authInv A (forgetIdentity (s\<lparr>vMaxFileSize := m, aUnlockFor := d, aUnlockScope := sc\<rparr>))"
    "authInv A s \<Longrightarrow> authInv A ((forgetIdentity s)\<lparr>aPrompter := p\<rparr>)"
    by (simp_all add: authInv_def sessionsOk_def grantsOk_def ownIdentity_def forgetIdentity_def)
qed

lemma authInv_drops:
  assumes "authInv A s"
  shows "mget (editSessionsOf key s) token = Some x \<Longrightarrow> authInv A (pruneEdit key (dropEdit key token x s))"
    "mget (aEncryptSessions s) token = Some x \<Longrightarrow> authInv A (dropEncrypt token x s)"
  using assms sessionsOk_pruneEdit [OF sessionsOk_dropEdit [of A s key token x]] sessionsOk_dropEncrypt [of A s token x]
  by (simp_all add: authInv_def)

lemma authInv_ends:
  assumes "authInv A s"
  shows "wp (endEditSession relative token pid) (\<lambda>_ t. authInv A t \<and> vConfig t = vConfig s) s"
    "wp (endEncryptSession token pid) (\<lambda>_ t. authInv A t \<and> vConfig t = vConfig s) s"
    "wp (monitorEditSession key token pid) (\<lambda>_ t. authInv A t \<and> vConfig t = vConfig s) s"
    "wp (monitorEncryptSession token pid) (\<lambda>_ t. authInv A t \<and> vConfig t = vConfig s) s"
  using assms authInv_drops [OF assms]
  by (auto simp: endEditSession_def endEncryptSession_def monitorEditSession_def monitorEncryptSession_def wp
      split: sum.splits option.splits)

lemma authInv_configure:
  assumes "authInv A s"
  shows "wp (ConfigureAuthorization maximum duration scope) (\<lambda>_ t. authInv A t \<and> vConfig t = vConfig s) s"
    "wp (ConfigurePrompter p) (\<lambda>_ t. authInv A t \<and> vConfig t = vConfig s) s"
  using assms authInv_forgetIdentity [OF assms]
  by (auto simp: ConfigureAuthorization_def ConfigurePrompter_def wp split: sum.splits option.splits)
    (simp_all add: forgetIdentity_def)

lemma insert_config:
  "wp (insertEditSession key token pid identity) (\<lambda>_ t. vConfig t = vConfig s) s"
  "wp (insertEncryptSession token pid identity) (\<lambda>_ t. vConfig t = vConfig s) s"
  by (simp_all add: insertEditSession_def insertEncryptSession_def makeChannel_def modify_def wp_def)

definition machineInv :: "'y agekeys_scheme \<Rightarrow> 'z auth_scheme \<times> ticket list \<Rightarrow> bool" where
  "machineInv A = (\<lambda>(s, T). authInv A s \<and> (\<forall>x \<in> set T. ticketOk A (vConfig s) x))"

text \<open>A volume that was just loaded holds no identity, no session and no ticket.\<close>

definition freshVolume :: "'z auth_scheme \<times> ticket list \<Rightarrow> bool" where
  "freshVolume = (\<lambda>(s, T). T = [] \<and> aCachedIdentity s = None \<and> aAuthorized s = [] \<and> aEditSessions s = [] \<and>
     aEncryptSessions s = [] \<and> aUnlockTimer s = None \<and> aClosed s = [])"

lemma machineInv_step:
  assumes "machineInv A (s, T)" "authStep A (s, T) e (t, T')"
  shows "machineInv A (t, T')"
proof -
  have inv: "authInv A s" and tick: "\<forall>x \<in> set T. ticketOk A (vConfig s) x"
    using assms(1) by (simp_all add: machineInv_def)
  have keep: "machineInv A (t, T)" if "authInv A t \<and> vConfig t = vConfig s" using that tick by (simp add: machineInv_def)
  have rem: "\<forall>x \<in> set (remove1 y T). ticketOk A (vConfig s) x" for y
    using tick set_remove1_subset [of y T] by blast
  have req: "authInv A t \<and> vConfig t = vConfig s \<and> (\<forall>i. r = Inr i \<longrightarrow> ownIdentity A s i)"
    if "run_state (unlockIdentityForRequest A key req) s = (r, t)" for key req r
    using wpD [OF unlockIdentityForRequest_answered [OF inv] that] by (simp add: answered_def)
  show ?thesis
    using assms(2)
  proof cases
    case other
    then show ?thesis using keep inv by (simp add: sameAuth_inv sameAuth_fields)
  next
    case (request key req r)
    then show ?thesis using keep req by blast
  next
    case (begin_edit caller relative identity pid token)
    from wpD [OF unlockIdentity_wp [OF inv] begin_edit(3)] show ?thesis
      using begin_edit tick by (simp add: machineInv_def ownIdentity_def)
  next
    case (begin_encrypt req identity pid token)
    from req [OF begin_encrypt(3)] show ?thesis using begin_encrypt tick by (simp add: machineInv_def ownIdentity_def)
  next
    case (store_edit key token pid identity r)
    have "ticketOk A (vConfig s) (EditTicket key token pid identity)" using store_edit tick by blast
    then have "wp (insertEditSession key token pid identity) (\<lambda>_. authInv A) s"
      by (intro authInv_insertEdit [OF inv]) (simp_all add: ownIdentity_def)
    from wpD [OF this] wpD [OF insert_config(1), of key token pid identity s r t] store_edit rem
    show ?thesis by (simp add: machineInv_def)
  next
    case (store_encrypt token pid identity r)
    have "ticketOk A (vConfig s) (EncryptTicket token pid identity)" using store_encrypt tick by blast
    then have "wp (insertEncryptSession token pid identity) (\<lambda>_. authInv A) s"
      by (intro authInv_insertEncrypt [OF inv]) (simp_all add: ownIdentity_def)
    from wpD [OF this] wpD [OF insert_config(2), of token pid identity s r t] store_encrypt rem
    show ?thesis by (simp add: machineInv_def)
  next
    case (lock r)
    then show ?thesis using keep authInv_Lock [OF inv] by blast
  next
    case end_edit
    show ?thesis unfolding end_edit(2) by (rule keep [OF wpD [OF authInv_ends(1) [OF inv] end_edit(3)]])
  next
    case end_encrypt
    show ?thesis unfolding end_encrypt(2) by (rule keep [OF wpD [OF authInv_ends(2) [OF inv] end_encrypt(3)]])
  next
    case owner_edit
    show ?thesis unfolding owner_edit(2) by (rule keep [OF wpD [OF authInv_ends(3) [OF inv] owner_edit(3)]])
  next
    case owner_encrypt
    show ?thesis unfolding owner_encrypt(2) by (rule keep [OF wpD [OF authInv_ends(4) [OF inv] owner_encrypt(3)]])
  next
    case timer
    show ?thesis unfolding timer(2) by (rule keep [OF wpD [OF expireCachedIdentity_wp [OF inv] timer(3)]])
  next
    case process
    show ?thesis unfolding process(2) by (rule keep [OF wpD [OF expireProcessTick_wp [OF inv] process(3)]])
  next
    case reconfigure
    show ?thesis unfolding reconfigure(2) by (rule keep [OF wpD [OF authInv_configure(1) [OF inv] reconfigure(3)]])
  next
    case prompter
    show ?thesis unfolding prompter(2) by (rule keep [OF wpD [OF authInv_configure(2) [OF inv] prompter(3)]])
  qed
qed

interpretation authm: invariant_machine freshVolume "authStep A" "machineInv A" for A
proof
  show "machineInv A s" if "freshVolume s" for s
  proof -
    obtain v T where s: "s = (v, T)" by (cases s)
    have "sessionAt v l = None" for l using that by (cases l; cases "fst l") (auto simp: s freshVolume_def editSessionsOf_def)
    then show ?thesis
      using that by (auto simp: s machineInv_def freshVolume_def authInv_def grantsOk_def intro!: sessionsOkI)
  qed
  show "machineInv A t" if "machineInv A s" "authStep A s e t" for s e t
    using that machineInv_step by (cases s; cases t) blast
qed

section \<open>Ancestry as the loop computes it\<close>

text \<open>The chain of parents when the process table does not change.\<close>

definition reaches :: "(u32 \<Rightarrow> u32) \<Rightarrow> nat \<Rightarrow> u32 \<Rightarrow> u32 \<Rightarrow> bool" where
  "reaches parent d pid ancestor \<longleftrightarrow> (\<exists>k < d. (parent ^^ k) pid = ancestor \<and> (\<forall>j < k. (parent ^^ j) pid \<noteq> 0))"

lemma reaches_Suc:
  "reaches parent (Suc d) pid ancestor \<longleftrightarrow> pid = ancestor \<or> pid \<noteq> 0 \<and> reaches parent d (parent pid) ancestor"
proof -
  have "(\<exists>k < Suc d. P k) \<longleftrightarrow> P 0 \<or> (\<exists>k < d. P (Suc k))" for P by (rule Ex_less_Suc2)
  moreover have "(\<forall>j < Suc k. (parent ^^ j) pid \<noteq> 0) \<longleftrightarrow> pid \<noteq> 0 \<and> (\<forall>j < k. (parent ^^ j) (parent pid) \<noteq> 0)" for k
    unfolding All_less_Suc2 by (simp add: funpow_swap1)
  moreover have "(parent ^^ Suc k) pid = (parent ^^ k) (parent pid)" for k by (simp add: funpow_swap1)
  ultimately show ?thesis unfolding reaches_def by auto
qed

lemma reaches_closed:
  assumes "pid \<in> V" "\<forall>v \<in> V. v \<noteq> ancestor \<and> parent v \<in> V"
  shows "\<not> reaches parent d pid ancestor"
  using assms by (induction d arbitrary: pid) (auto simp: reaches_Suc, simp add: reaches_def)

lemma descendLoop_reaches:
  assumes "\<And>n p. procParent (aProcs s) n p = parent p" "ancestor \<noteq> 0"
    "\<forall>v \<in> set visited. v \<noteq> ancestor \<and> parent v \<in> insert pid (set visited)"
  shows "wp (descendLoop d visited pid ancestor) (\<lambda>r _. r \<longleftrightarrow> reaches parent d pid ancestor) s"
  using assms
proof (induction d arbitrary: visited pid s)
  case 0
  then show ?case by (simp add: wp reaches_def)
next
  case (Suc d)
  have par: "procParent (aProcs s) n p = parent p" for n p by (rule Suc.prems(1))
  have loop: "wp (descendLoop d (pid # visited) (parent pid) ancestor) (\<lambda>r _. r \<longleftrightarrow> reaches parent d (parent pid) ancestor) (tickd s)"
    if "pid \<noteq> ancestor"
    by (rule Suc.IH) (use that par Suc.prems(2,3) in auto)
  have vis: "\<not> reaches parent (Suc d) pid ancestor" if "pid \<in> set visited"
    by (rule reaches_closed [where V = "set visited"]) (use that Suc.prems(3) in auto)
  have self: "\<not> reaches parent (Suc d) pid ancestor" if "parent pid = pid" "pid \<noteq> ancestor"
    by (rule reaches_closed [where V = "{pid}"]) (use that in auto)
  have zero: "\<not> reaches parent (Suc d) 0 ancestor" using Suc.prems(2) by (simp add: reaches_Suc)
  show ?case
    using vis self zero loop
    by (auto simp: wp platformParentProcessID_def wp_def [of "State _"] par reaches_Suc elim!: wp_mono)
qed

section \<open>A concrete volume\<close>

definition demoProcs :: procs where
  "demoProcs = \<lparr>procKill = (\<lambda>_ _. None), procParent = (\<lambda>_ p. if p = 9 then 7 else if p = 7 then 1 else 0),
     procID = (\<lambda>_ p. p)\<rparr>"

definition demoPrompter :: prompter where
  "demoPrompter = \<lparr>prPrompt = (\<lambda>_ _. Inr ''pw''), prIdentity = Some (\<lambda>_ _. Inr (Some ''KEY''))\<rparr>"

definition demoVolume :: auth where
  "demoVolume = \<lparr>osNodes = [(''/'', dirNode), (''/v'', dirNode)], osCalls = 0, osEnv = calmEnv, vRoot = ''/v'',
     vConfig = \<lparr>cfgVersion = 1, cfgVolumeID = ''id'', cfgRecipient = ''age1KEY''\<rparr>, vMaxFileSize = 100, vUid = 1, vGid = 1,
     vMetadata = emptyMetadata, vPending = [], vFlushTimer = False, aPrompter = demoPrompter, aProcs = demoProcs,
     aUnlockFor = 60, aUnlockScope = UnlockFile, aCachedIdentity = None, aAuthorized = [], aEditSessions = [],
     aEncryptSessions = [], aUnlockTimer = None, aChannels = 0, aClosed = [], aGoroutines = [], aPrompts = []\<rparr>"

definition demoRequest :: PromptRequest where
  "demoRequest = \<lparr>reqPath = ''/a'', reqOperation = ''read'', reqPID = 7, reqDescription = []\<rparr>"

text \<open>The volume after a first request: the identity is cached with a grant for the object.\<close>

definition demoUnlocked :: auth where
  "demoUnlocked = snd (run_state (unlockIdentityForRequest standInAge ''objects/a'' demoRequest) demoVolume)"

lemma demo_fresh: "freshVolume (demoVolume, [])"
  by (simp add: freshVolume_def demoVolume_def)

lemma demo_request:
  "fst (run_state (unlockIdentityForRequest standInAge ''objects/a'' demoRequest) demoVolume) = Inr ''KEY''"
  "aPrompts demoUnlocked = [demoRequest]" "aCachedIdentity demoUnlocked = Some ''KEY''" "aUnlockTimer demoUnlocked = Some 62"
  "fst (run_state (unlockIdentityForRequest standInAge ''objects/a'' demoRequest) demoUnlocked) = Inr ''KEY''"
  "aPrompts (snd (run_state (unlockIdentityForRequest standInAge ''objects/a'' demoRequest) demoUnlocked)) = [demoRequest]"
  by code_simp+

lemma demo_reachable: "reachable freshVolume (authStep standInAge) (demoUnlocked, [])"
proof (rule reach_step)
  show "reachable freshVolume (authStep standInAge) (demoVolume, [])" by (rule reach_start) (rule demo_fresh)
  show "authStep standInAge (demoVolume, []) (Request ''objects/a'' demoRequest) (demoUnlocked, [])"
    by (rule authStep.request [where r = "Inr ''KEY''"]) (simp add: demoUnlocked_def prod_eq_iff demo_request(1))
qed

lemma demo_inv: "authInv standInAge demoUnlocked"
  using authm.reachable_inv [OF demo_reachable] by (simp add: machineInv_def)

section \<open>Properties\<close>

text \<open>
  C6. In every state that the operations, timers and goroutines of a volume can reach, in any
  interleaving of their critical sections, each identity kept for a session belongs to the
  recipient of the volume, its \<open>done\<close> channel is open and of no other session, no channel was
  ever closed twice, and a cached identity has a timer that fires after every grant has expired.
\<close>

theorem auth_machine_safe:
  assumes "reachable freshVolume (authStep A) (s, T)"
  shows "distinct (aClosed s) \<and>
    (\<forall>l x. sessionAt s l = Some x \<longrightarrow> ageRecipient A (asIdentity x) = cfgRecipient (vConfig s) \<and>
       asDone x \<notin> set (aClosed s) \<and> (\<forall>l' x'. sessionAt s l' = Some x' \<longrightarrow> asDone x' = asDone x \<longrightarrow> l' = l)) \<and>
    (\<forall>identity. aCachedIdentity s = Some identity \<longrightarrow> ageRecipient A identity = cfgRecipient (vConfig s) \<and>
       (\<exists>due. aUnlockTimer s = Some due \<and> (\<forall>(key, until) \<in> set (aAuthorized s). until \<le> due)))"
proof -
  have inv: "sessionsOk A s" "grantsOk A s"
    using authm.reachable_inv [OF assms] by (simp_all add: machineInv_def authInv_def)
  show ?thesis
    using sessionsOk_closed [OF inv(1)] sessionsOkD [OF inv(1)] inv(2)
    unfolding grantsOk_def ownIdentity_def by blast
qed

theorem auth_machine_safe_witness:
  "aCachedIdentity demoUnlocked = Some ''KEY'' \<and> ageRecipient standInAge ''KEY'' = cfgRecipient (vConfig demoUnlocked) \<and>
   (\<exists>due. aUnlockTimer demoUnlocked = Some due)"
  using auth_machine_safe [OF demo_reachable] demo_request(3) by blast

text \<open>
  C7. The identity is handed out without a prompt only to a request that is entitled to it: the
  caller owns a live encrypt session, a live edit session on the object belongs to the caller or
  to one of its ancestors (or the caller is unknown), or a grant for the request had not expired
  when the clock was read. Otherwise exactly one prompt was shown.
\<close>

theorem unlock_needs_entitlement:
  assumes "authInv A s" and "run_state (unlockIdentityForRequest A cacheKey request) s = (Inr identity, t)"
  shows "ageRecipient A identity = cfgRecipient (vConfig s) \<and>
    (aPrompts t = request # aPrompts s \<or> aPrompts t = aPrompts s \<and>
      (reqPID request \<noteq> 0 \<and> liveEncrypt s (reqPID request) identity \<or>
       liveEdit s cacheKey (reqPID request) identity \<or> liveGrant s cacheKey (reqPID request) identity))"
  using wpD [OF unlockIdentityForRequest_answered [OF assms(1)] assms(2)]
  by (auto simp: answered_def ownIdentity_def entitled_def)

theorem unlock_needs_entitlement_witness:
  "liveEncrypt demoUnlocked 7 ''KEY'' \<or> liveEdit demoUnlocked ''objects/a'' 7 ''KEY'' \<or>
   liveGrant demoUnlocked ''objects/a'' 7 ''KEY''"
proof -
  have run: "run_state (unlockIdentityForRequest standInAge ''objects/a'' demoRequest) demoUnlocked = (Inr ''KEY'',
      snd (run_state (unlockIdentityForRequest standInAge ''objects/a'' demoRequest) demoUnlocked))"
    using demo_request(5) by (simp add: prod_eq_iff)
  have pid: "reqPID demoRequest = 7" by (simp add: demoRequest_def)
  show ?thesis
    using unlock_needs_entitlement [OF demo_inv run] demo_request(2,6) pid by auto
qed

text \<open>
  C8. After \<open>Lock\<close> nothing of the identity is left: no cache, grant or session, every channel of
  a session is closed, and the next request that succeeds has prompted the user.
\<close>

theorem Lock_requires_prompt:
  assumes inv: "authInv A s" and lock: "run_state Lock s = (u, t)"
    and "run_state (unlockIdentityForRequest A cacheKey request) t = (Inr identity, v)"
  shows "aCachedIdentity t = None \<and> aAuthorized t = [] \<and> aUnlockTimer t = None \<and> (\<forall>l. sessionAt t l = None) \<and>
    (\<forall>l x. sessionAt s l = Some x \<longrightarrow> asDone x \<in> set (aClosed t)) \<and> aPrompts v = request # aPrompts t"
proof -
  have t: "t = s\<lparr>aClosed := rev (openChannels s) @ aClosed s, aUnlockTimer := None, aCachedIdentity := None,
     aAuthorized := [], aEditSessions := [], aEncryptSessions := []\<rparr>" using lock by (simp add: run_Lock)
  have none: "sessionAt t l = None" for l by (cases l; cases "fst l") (auto simp: t editSessionsOf_def)
  have "asDone x \<in> set (openChannels s)" if at: "sessionAt s l = Some x" for l x
  proof -
    obtain k token where l: "l = (k, token)" by (cases l)
    show ?thesis
    proof (cases k)
      case None
      then have "(token, x) \<in> set (aEncryptSessions s)" using at l by (auto dest: map_of_SomeD)
      then show ?thesis by (force simp: openChannels_def)
    next
      case (Some key)
      then obtain ss where "(key, ss) \<in> set (aEditSessions s)" "(token, x) \<in> set ss"
        using at l by (auto simp: editSessionsOf_def mgetz_def split: option.splits dest: map_of_SomeD)
      then show ?thesis by (force simp: openChannels_def)
    qed
  qed
  moreover have "authInv A t" using authInv_Lock [OF inv lock] by simp
  from wpD [OF unlockIdentityForRequest_answered [OF this] assms(3)]
  have "aPrompts v = request # aPrompts t"
    using none by (auto simp: answered_def entitled_def liveEncrypt_def liveEdit_def liveGrant_def t editSessionsOf_def)
  ultimately show ?thesis using none by (auto simp: t)
qed

theorem Lock_requires_prompt_witness:
  "aCachedIdentity (snd (run_state Lock demoUnlocked)) = None \<and>
   aPrompts (snd (run_state (unlockIdentityForRequest standInAge ''objects/a'' demoRequest) (snd (run_state Lock demoUnlocked)))) =
     [demoRequest, demoRequest]"
proof -
  let ?t = "snd (run_state Lock demoUnlocked)"
  let ?v = "run_state (unlockIdentityForRequest standInAge ''objects/a'' demoRequest) ?t"
  have l: "run_state Lock demoUnlocked = ((), ?t)" by (simp add: prod_eq_iff)
  have "fst ?v = Inr ''KEY''" by code_simp
  then have r: "?v = (Inr ''KEY'', snd ?v)" by (simp add: prod_eq_iff)
  have "aPrompts ?t = [demoRequest]" using demo_request(2) by (simp add: run_Lock)
  then show ?thesis using Lock_requires_prompt [OF demo_inv l r] by simp
qed



text \<open>
  The scope decides what a grant covers: two requests share a grant exactly when they are for
  the same object (scope file), come from the same process (scope process) or in any case (scope
  vault); scope once and a request without an object never create one.
\<close>

theorem authorizationKey_scope:
  "authorizationKey scope [] pid = [] \<and> authorizationKey UnlockOnce key pid = [] \<and>
   (key \<noteq> [] \<and> key' \<noteq> [] \<longrightarrow>
     (authorizationKey UnlockFile key pid = authorizationKey UnlockFile key' pid' \<longleftrightarrow> key = key') \<and>
     (pid \<noteq> 0 \<longrightarrow> (authorizationKey UnlockProcess key pid = authorizationKey UnlockProcess key' pid' \<longleftrightarrow> pid = pid')) \<and>
     authorizationKey UnlockProcess key 0 = [] \<and>
     authorizationKey UnlockVault key pid = ''vault'' \<and> authorizationKey UnlockFile key pid \<noteq> [])"
proof -
  have "showNat (unat pid) = showNat (unat pid') \<longleftrightarrow> pid = pid'"
  proof
    assume "showNat (unat pid) = showNat (unat pid')"
    then have "digitsVal (showNat (unat pid)) = digitsVal (showNat (unat pid'))" by simp
    then have "unat pid = unat pid'" by (simp add: digitsVal_showNat)
    then show "pid = pid'" by (rule unsigned_word_eqI)
  qed simp
  then show ?thesis by (auto simp: authorizationKey_def scope_defs)
qed

theorem authorizationKey_scope_witness:
  "authorizationKey UnlockProcess ''objects/a'' 7 = authorizationKey UnlockProcess ''objects/b'' 7"
  using authorizationKey_scope [of UnlockFile 7 "''objects/a''" "''objects/b''" 7] by simp

text \<open>
  C10. \<open>processIsOrDescendsFrom\<close> decides ancestry: while the process table does not change, it holds
  exactly when the ancestor is among the first 64 processes of the chain of parents. The set of
  visited processes only cuts cycles short and never changes the answer.
\<close>

theorem processIsOrDescendsFrom_iff:
  assumes "\<And>n p. procParent (aProcs s) n p = parent p" and "run_state (processIsOrDescendsFrom pid ancestor) s = (r, t)"
  shows "r \<longleftrightarrow> pid \<noteq> 0 \<and> ancestor \<noteq> 0 \<and> reaches parent 64 pid ancestor"
proof (cases "pid = 0 \<or> ancestor = 0")
  case True
  then show ?thesis using assms(2) by (auto simp: processIsOrDescendsFrom_def)
next
  case False
  then show ?thesis
    using wpD [OF descendLoop_reaches [OF assms(1), of ancestor "[]" pid 64]] assms(2)
    by (simp add: processIsOrDescendsFrom_def)
qed

theorem processIsOrDescendsFrom_iff_witness:
  "reaches (\<lambda>p. if p = 9 then 7 else if p = 7 then 1 else 0) 64 9 1"
proof -
  have p: "\<And>n p. procParent (aProcs demoVolume) n p = (if p = 9 then 7 else if p = 7 then 1 else 0)"
    by (simp add: demoVolume_def demoProcs_def)
  have "fst (run_state (processIsOrDescendsFrom 9 1) demoVolume)" by code_simp
  then have r: "run_state (processIsOrDescendsFrom 9 1) demoVolume =
      (True, snd (run_state (processIsOrDescendsFrom 9 1) demoVolume))" by (simp add: prod_eq_iff)
  show ?thesis using processIsOrDescendsFrom_iff [OF p r] by simp
qed

text \<open>
  C11. A session ends only for its owner: \<open>endEditSession\<close> and \<open>endEncryptSession\<close> called with
  another process, or with none, are refused with \<open>EPERM\<close> and change nothing.
\<close>

theorem end_session_owner_only:
  assumes "validateSessionToken token = Inr ()" and "pid = 0 \<or> pid \<noteq> asOwner x"
  shows "(mget (editSessionsOf (metadataKey relative) s) token = Some x \<longrightarrow>
      run_state (endEditSession relative token pid) s = (Inl (Errno EPERM), s)) \<and>
    (mget (aEncryptSessions s) token = Some x \<longrightarrow> run_state (endEncryptSession token pid) s = (Inl (Errno EPERM), s))"
  using assms by (auto simp: endEditSession_def endEncryptSession_def gets_def)

theorem end_session_owner_only_witness:
  "run_state (endEncryptSession (replicate 32 (CHR ''a'')) 8) (demoVolume\<lparr>aEncryptSessions :=
      [(replicate 32 (CHR ''a''), \<lparr>asIdentity = ''KEY'', asOwner = 7, asDone = 0\<rparr>)]\<rparr>) =
   (Inl (Errno EPERM), demoVolume\<lparr>aEncryptSessions :=
      [(replicate 32 (CHR ''a''), \<lparr>asIdentity = ''KEY'', asOwner = 7, asDone = 0\<rparr>)]\<rparr>)"
proof -
  have v: "validateSessionToken (replicate 32 (CHR ''a'')) = Inr ()" by code_simp
  show ?thesis
    using end_session_owner_only [OF v, of 8 "\<lparr>asIdentity = ''KEY'', asOwner = 7, asDone = 0\<rparr>" "[]"
        "demoVolume\<lparr>aEncryptSessions := [(replicate 32 (CHR ''a''), \<lparr>asIdentity = ''KEY'', asOwner = 7, asDone = 0\<rparr>)]\<rparr>"]
    by simp
qed

end
