(* ===== verification/Locks.thy ===== *)
theory Locks
  imports AuthInvariant
begin

text \<open>
  The locks of a volume (volume.go): the namespace lock and the table of path locks, whose
  entries are created on demand and dropped with their last user. Entries live in a heap, so
  that the identity of an entry, on which \<open>unregisterPathLockUser\<close> relies, is visible. The
  operations that may block are split at the blocking call: \<open>lockStep\<close> interleaves the critical
  sections of any number of callers and takes a mutex only when it is free. Sequential code uses
  the same operations one after the other.
\<close>

section \<open>State\<close>

text \<open>A \<open>sync.RWMutex\<close> as far as its holders are concerned.\<close>

record rwmutex =
  rwReaders :: nat
  rwWriter :: bool

definition rwIdle :: rwmutex where
  "rwIdle = \<lparr>rwReaders = 0, rwWriter = False\<rparr>"

definition rwFree :: "bool \<Rightarrow> rwmutex \<Rightarrow> bool" where
  "rwFree writable m \<longleftrightarrow> \<not> rwWriter m \<and> (writable \<longrightarrow> rwReaders m = 0)"

definition rwLock :: "bool \<Rightarrow> rwmutex \<Rightarrow> rwmutex" where
  "rwLock writable m = (if writable then m\<lparr>rwWriter := True\<rparr> else m\<lparr>rwReaders := Suc (rwReaders m)\<rparr>)"

definition rwUnlock :: "bool \<Rightarrow> rwmutex \<Rightarrow> rwmutex" where
  "rwUnlock writable m = (if writable then m\<lparr>rwWriter := False\<rparr> else m\<lparr>rwReaders := rwReaders m - 1\<rparr>)"

record pathLockEntry =
  pleMutex :: rwmutex
  pleUsers :: int

record locks = auth +
  lNamespace :: rwmutex
  lTable :: "(string, nat) gomap"
  lEntries :: "pathLockEntry list"

text \<open>What the closure returned by \<open>acquirePathLock\<close> captures.\<close>

type_synonym pathUnlock = "string \<times> nat \<times> bool"

section \<open>Operations\<close>

definition updEntry :: "nat \<Rightarrow> (pathLockEntry \<Rightarrow> pathLockEntry) \<Rightarrow> 'z locks_scheme \<Rightarrow> 'z locks_scheme" where
  "updEntry e f s = s\<lparr>lEntries := (lEntries s)[e := f (lEntries s ! e)]\<rparr>"

definition registerPathLockUser :: "string \<Rightarrow> ('z locks_scheme, nat) state" where
  "registerPathLockUser key = State (\<lambda>s.
     case mget (lTable s) key of
       Some e \<Rightarrow> (e, updEntry e (\<lambda>x. x\<lparr>pleUsers := pleUsers x + 1\<rparr>) s)
     | None \<Rightarrow>
         let e = length (lEntries s) in
         (e, s\<lparr>lTable := mset_key key e (lTable s), lEntries := lEntries s @ [\<lparr>pleMutex = rwIdle, pleUsers = 1\<rparr>]\<rparr>))"

definition unregisterPathLockUser :: "string \<Rightarrow> nat \<Rightarrow> ('z locks_scheme, unit) state" where
  "unregisterPathLockUser key e = modify (\<lambda>s.
     let t = updEntry e (\<lambda>x. x\<lparr>pleUsers := pleUsers x - 1\<rparr>) s in
     if pleUsers (lEntries t ! e) = 0 \<and> mget (lTable t) key = Some e
     then t\<lparr>lTable := mdel key (lTable t)\<rparr> else t)"

definition lockEntry :: "nat \<Rightarrow> bool \<Rightarrow> ('z locks_scheme, unit) state" where
  "lockEntry e writable = modify (updEntry e (\<lambda>x. x\<lparr>pleMutex := rwLock writable (pleMutex x)\<rparr>))"

definition unlockEntry :: "nat \<Rightarrow> bool \<Rightarrow> ('z locks_scheme, unit) state" where
  "unlockEntry e writable = modify (updEntry e (\<lambda>x. x\<lparr>pleMutex := rwUnlock writable (pleMutex x)\<rparr>))"

definition acquirePathLock :: "string \<Rightarrow> bool \<Rightarrow> ('z locks_scheme, pathUnlock) state" where
  "acquirePathLock relative writable = do {
     e \<leftarrow> registerPathLockUser (metadataKey relative);
     _ \<leftarrow> lockEntry e writable;
     ret (metadataKey relative, e, writable) }"

definition releasePathLock :: "pathUnlock \<Rightarrow> ('z locks_scheme, unit) state" where
  "releasePathLock = (\<lambda>(key, e, writable). do {
     _ \<leftarrow> unlockEntry e writable;
     unregisterPathLockUser key e })"

definition tryPathLock :: "string \<Rightarrow> bool \<Rightarrow> ('z locks_scheme, pathUnlock option) state" where
  "tryPathLock relative writable = do {
     e \<leftarrow> registerPathLockUser (metadataKey relative);
     acquired \<leftarrow> gets (\<lambda>s. rwFree writable (pleMutex (lEntries s ! e)));
     (if acquired then do {
        _ \<leftarrow> lockEntry e writable;
        ret (Some (metadataKey relative, e, writable)) }
      else do {
        _ \<leftarrow> unregisterPathLockUser (metadataKey relative) e;
        ret None }) }"

definition lockNamespace :: "bool \<Rightarrow> ('z locks_scheme, unit) state" where
  "lockNamespace writable = modify (\<lambda>s. s\<lparr>lNamespace := rwLock writable (lNamespace s)\<rparr>)"

definition unlockNamespace :: "bool \<Rightarrow> ('z locks_scheme, unit) state" where
  "unlockNamespace writable = modify (\<lambda>s. s\<lparr>lNamespace := rwUnlock writable (lNamespace s)\<rparr>)"

definition acquireOpenLock :: "string \<Rightarrow> bool \<Rightarrow> ('z locks_scheme, pathUnlock) state" where
  "acquireOpenLock relative writable = do {
     _ \<leftarrow> lockNamespace False;
     acquirePathLock relative writable }"

definition releaseOpenLock :: "pathUnlock \<Rightarrow> ('z locks_scheme, unit) state" where
  "releaseOpenLock u = do {
     _ \<leftarrow> releasePathLock u;
     unlockNamespace False }"

definition tryNamespaceLock :: "('z locks_scheme, bool) state" where
  "tryNamespaceLock = do {
     acquired \<leftarrow> gets (\<lambda>s. rwFree True (lNamespace s));
     (if acquired then do { _ \<leftarrow> lockNamespace True; ret True } else ret False) }"

text \<open>\<open>removeProtectedFile\<close> takes both locks without waiting and removes the file under them.\<close>

definition removeProtectedFile :: "string \<Rightarrow> ('z locks_scheme, unit res) state" where
  "removeProtectedFile relative = do {
     ok \<leftarrow> tryNamespaceLock;
     (if \<not> ok then ret (Inl (Errno EBUSY))
      else deferring (unlockNamespace True) (do {
        unlockPath \<leftarrow> tryPathLock relative True;
        (case unlockPath of
           None \<Rightarrow> ret (Inl (Errno EBUSY))
         | Some u \<Rightarrow> deferring (releasePathLock u) (removeProtectedFileLocked relative)) })) }"

section \<open>The machine\<close>

text \<open>
  A ticket is a caller between its registration and its removal from the table: it waits for the
  mutex, holds it, or has released it. A caller of \<open>tryPathLock\<close> gives up instead of waiting.
\<close>

datatype lockPhase = Waiting | Holding | Leaving

record lockTicket =
  tkKey :: string
  tkEntry :: nat
  tkWritable :: bool
  tkTry :: bool
  tkPhase :: lockPhase

datatype lockEvent = Register | Take | GiveUp | Release | Unregister | Outside

definition lockView :: "'z locks_scheme \<Rightarrow> (string, nat) gomap \<times> pathLockEntry list" where
  "lockView s = (lTable s, lEntries s)"

inductive lockStep ::
  "'z locks_scheme \<times> lockTicket list \<Rightarrow> lockEvent \<Rightarrow> 'z locks_scheme \<times> lockTicket list \<Rightarrow> bool" where
  register: "run_state (registerPathLockUser (metadataKey relative)) s = (e, t) \<Longrightarrow>
    lockStep (s, T) Register
      (t, \<lparr>tkKey = metadataKey relative, tkEntry = e, tkWritable = w, tkTry = attempt, tkPhase = Waiting\<rparr> # T)"
| take: "tkPhase x = Waiting \<Longrightarrow> rwFree (tkWritable x) (pleMutex (lEntries s ! tkEntry x)) \<Longrightarrow>
    run_state (lockEntry (tkEntry x) (tkWritable x)) s = (u, t) \<Longrightarrow>
    lockStep (s, us @ x # vs) Take (t, us @ x\<lparr>tkPhase := Holding\<rparr> # vs)"
| give_up: "tkPhase x = Waiting \<Longrightarrow> tkTry x \<Longrightarrow>
    \<not> rwFree (tkWritable x) (pleMutex (lEntries s ! tkEntry x)) \<Longrightarrow>
    lockStep (s, us @ x # vs) GiveUp (s, us @ x\<lparr>tkPhase := Leaving\<rparr> # vs)"
| release: "tkPhase x = Holding \<Longrightarrow> run_state (unlockEntry (tkEntry x) (tkWritable x)) s = (u, t) \<Longrightarrow>
    lockStep (s, us @ x # vs) Release (t, us @ x\<lparr>tkPhase := Leaving\<rparr> # vs)"
| unregister: "tkPhase x = Leaving \<Longrightarrow> run_state (unregisterPathLockUser (tkKey x) (tkEntry x)) s = (u, t) \<Longrightarrow>
    lockStep (s, us @ x # vs) Unregister (t, us @ vs)"
| outside: "lockView t = lockView s \<Longrightarrow> lockStep (s, T) Outside (t, T)"

definition noLocks :: "'z locks_scheme \<times> lockTicket list \<Rightarrow> bool" where
  "noLocks = (\<lambda>(s, T). lTable s = [] \<and> T = [])"

section \<open>Its invariant\<close>

definition holders :: "lockTicket list \<Rightarrow> nat \<Rightarrow> bool \<Rightarrow> nat" where
  "holders T e w = length (filter (\<lambda>x. tkEntry x = e \<and> tkPhase x = Holding \<and> tkWritable x = w) T)"

definition usersOf :: "lockTicket list \<Rightarrow> nat \<Rightarrow> nat" where
  "usersOf T e = length (filter (\<lambda>x. tkEntry x = e) T)"

text \<open>The counters of an entry agree with the tickets that use it.\<close>

definition entryOk :: "pathLockEntry \<Rightarrow> lockTicket list \<Rightarrow> nat \<Rightarrow> bool" where
  "entryOk x T e \<longleftrightarrow>
     pleUsers x = int (usersOf T e) \<and> 0 < usersOf T e \<and>
     rwReaders (pleMutex x) = holders T e False \<and>
     holders T e True = (if rwWriter (pleMutex x) then 1 else 0) \<and>
     (rwWriter (pleMutex x) \<longrightarrow> holders T e False = 0)"

definition lockInv :: "'z locks_scheme \<times> lockTicket list \<Rightarrow> bool" where
  "lockInv = (\<lambda>(s, T).
     (\<forall>x \<in> set T. mget (lTable s) (tkKey x) = Some (tkEntry x)) \<and>
     (\<forall>k e. mget (lTable s) k = Some e \<longrightarrow> e < length (lEntries s) \<and> entryOk (lEntries s ! e) T e) \<and>
     (\<forall>k k' e. mget (lTable s) k = Some e \<longrightarrow> mget (lTable s) k' = Some e \<longrightarrow> k = k'))"

lemma lockInvI:
  assumes "\<And>x. x \<in> set T \<Longrightarrow> mget (lTable s) (tkKey x) = Some (tkEntry x)"
    and "\<And>k e. mget (lTable s) k = Some e \<Longrightarrow> e < length (lEntries s) \<and> entryOk (lEntries s ! e) T e"
    and "\<And>k k' e. mget (lTable s) k = Some e \<Longrightarrow> mget (lTable s) k' = Some e \<Longrightarrow> k = k'"
  shows "lockInv (s, T)"
  using assms unfolding lockInv_def by blast

lemma lockInvD:
  assumes "lockInv (s, T)"
  shows "x \<in> set T \<Longrightarrow> mget (lTable s) (tkKey x) = Some (tkEntry x)"
    and "mget (lTable s) k = Some e \<Longrightarrow> e < length (lEntries s) \<and> entryOk (lEntries s ! e) T e"
    and "mget (lTable s) k = Some e \<Longrightarrow> mget (lTable s) k' = Some e \<Longrightarrow> k = k'"
  using assms unfolding lockInv_def by blast+

lemma counts_Nil [simp]: "holders [] e w = 0" "usersOf [] e = 0"
  by (simp_all add: holders_def usersOf_def)

lemma counts_Cons [simp]:
  "holders (x # T) e w = (if tkEntry x = e \<and> tkPhase x = Holding \<and> tkWritable x = w then 1 else 0) + holders T e w"
  "usersOf (x # T) e = (if tkEntry x = e then 1 else 0) + usersOf T e"
  by (simp_all add: holders_def usersOf_def)

lemma counts_append [simp]:
  "holders (T @ U) e w = holders T e w + holders U e w" "usersOf (T @ U) e = usersOf T e + usersOf U e"
  by (simp_all add: holders_def usersOf_def)

lemma holders_le_users: "holders T e w \<le> usersOf T e"
  by (induction T) auto

lemma usersOf_0: "usersOf T e = 0 \<longleftrightarrow> (\<forall>x \<in> set T. tkEntry x \<noteq> e)"
  by (induction T) auto

lemma holders_pos: "0 < holders T e w \<longleftrightarrow> (\<exists>x \<in> set T. tkEntry x = e \<and> tkPhase x = Holding \<and> tkWritable x = w)"
  by (induction T) auto

lemma updEntry_simps [simp]:
  "lTable (updEntry e f s) = lTable s"
  "lEntries (updEntry e f s) = (lEntries s)[e := f (lEntries s ! e)]"
  by (simp_all add: updEntry_def)

text \<open>A step that only changes one entry and the tickets on it.\<close>

lemma lockInv_entry:
  assumes inv: "lockInv (s, T)" and tab: "lTable t = lTable s"
    and ent: "lEntries t = (lEntries s)[i := y]"
    and keys: "\<And>x. x \<in> set T' \<Longrightarrow> mget (lTable s) (tkKey x) = Some (tkEntry x)"
    and ok: "entryOk (lEntries s ! i) T i \<Longrightarrow> entryOk y T' i"
    and others: "\<And>e w. e \<noteq> i \<Longrightarrow> usersOf T' e = usersOf T e \<and> holders T' e w = holders T e w"
  shows "lockInv (t, T')"
proof (rule lockInvI)
  show "mget (lTable t) (tkKey x) = Some (tkEntry x)" if "x \<in> set T'" for x using keys that tab by simp
  show "k = k'" if "mget (lTable t) k = Some e" "mget (lTable t) k' = Some e" for k k' e
    using lockInvD(3) [OF inv] that tab by simp
  show "e < length (lEntries t) \<and> entryOk (lEntries t ! e) T' e" if "mget (lTable t) k = Some e" for k e
    using lockInvD(2) [OF inv, of k e] that tab ent ok others by (cases "e = i") (simp_all add: entryOk_def)
qed

lemma lockInv_register:
  assumes inv: "lockInv (s, T)" and "run_state (registerPathLockUser key) s = (e, t)"
    and x: "tkKey x = key" "tkEntry x = e" "tkPhase x = Waiting"
  shows "lockInv (t, x # T)"
proof (cases "mget (lTable s) key")
  case (Some i)
  then have t: "e = i" "t = updEntry i (\<lambda>x. x\<lparr>pleUsers := pleUsers x + 1\<rparr>) s"
    using assms(2) by (auto simp: registerPathLockUser_def)
  show ?thesis
    by (rule lockInv_entry [OF inv, where i = i])
      (use t x Some lockInvD(1) [OF inv] in \<open>auto simp: entryOk_def\<close>)
next
  case None
  then have t: "e = length (lEntries s)" "lTable t = mset_key key e (lTable s)"
    "lEntries t = lEntries s @ [\<lparr>pleMutex = rwIdle, pleUsers = 1\<rparr>]"
    using assms(2) by (auto simp: registerPathLockUser_def Let_def)
  have new: "mget (lTable s) k = Some i \<Longrightarrow> i < e" for k i using lockInvD(2) [OF inv] t(1) by blast
  then have un: "usersOf T e = 0" unfolding usersOf_0 using lockInvD(1) [OF inv] by blast
  then have h: "holders T e w = 0" for w using holders_le_users [of T e w] by simp
  show ?thesis
  proof (rule lockInvI)
    show "mget (lTable t) (tkKey y) = Some (tkEntry y)" if "y \<in> set (x # T)" for y
      using that t x lockInvD(1) [OF inv, of y] None by auto
    show "k = k'" if "mget (lTable t) k = Some i" "mget (lTable t) k' = Some i" for k k' i
      using that t(2) new lockInvD(3) [OF inv] by (auto split: if_splits)
    show "i < length (lEntries t) \<and> entryOk (lEntries t ! i) (x # T) i" if "mget (lTable t) k = Some i" for k i
    proof (cases "i = e")
      case True
      then show ?thesis using t x un h by (simp add: entryOk_def rwIdle_def)
    next
      case False
      then have k: "mget (lTable s) k = Some i" using that t(2) by (simp split: if_splits)
      then have "i < length (lEntries s)" "entryOk (lEntries s ! i) T i" using lockInvD(2) [OF inv] by blast+
      then show ?thesis using False t x by (simp add: entryOk_def nth_append)
    qed
  qed
qed

lemma lockInv_unregister:
  assumes inv: "lockInv (s, us @ x # vs)" and ph: "tkPhase x = Leaving"
    and run: "run_state (unregisterPathLockUser (tkKey x) (tkEntry x)) s = (u, t)"
  shows "lockInv (t, us @ vs)"
proof -
  let ?T = "us @ x # vs" and ?e = "tkEntry x"
  have tab: "mget (lTable s) (tkKey x) = Some ?e" using lockInvD(1) [OF inv] by simp
  then have e: "?e < length (lEntries s)" "entryOk (lEntries s ! ?e) ?T ?e" using lockInvD(2) [OF inv] by blast+
  define t' where "t' = updEntry ?e (\<lambda>x. x\<lparr>pleUsers := pleUsers x - 1\<rparr>) s"
  have t: "t = (if pleUsers (lEntries t' ! ?e) = 0 then t'\<lparr>lTable := mdel (tkKey x) (lTable t')\<rparr> else t')"
    using run tab by (auto simp: unregisterPathLockUser_def modify_def Let_def t'_def)
  have users: "pleUsers (lEntries t' ! ?e) = int (usersOf (us @ vs) ?e)" using e by (simp add: t'_def entryOk_def)
  show ?thesis
  proof (cases "usersOf (us @ vs) ?e = 0")
    case False
    then have "t = t'" using t unfolding users of_nat_eq_0_iff by (simp only: if_False)
    then show ?thesis
      by (intro lockInv_entry [OF inv, where i = ?e])
        (use False ph lockInvD(1) [OF inv] in \<open>auto simp: t'_def entryOk_def\<close>)
  next
    case True
    then have t'': "lTable t = mdel (tkKey x) (lTable s)" "lEntries t = lEntries t'" using t users by (simp_all add: t'_def)
    have other: "k \<noteq> tkKey x" if "mget (lTable s) k = Some i" "i \<noteq> ?e" for k i using that tab by auto
    show ?thesis
    proof (rule lockInvI)
      show "mget (lTable t) (tkKey y) = Some (tkEntry y)" if y: "y \<in> set (us @ vs)" for y
      proof -
        have "mget (lTable s) (tkKey y) = Some (tkEntry y)" using lockInvD(1) [OF inv, of y] y by auto
        moreover have "tkEntry y \<noteq> ?e" using True y unfolding usersOf_0 by blast
        ultimately show ?thesis using other t''(1) by simp
      qed
      show "k = k'" if "mget (lTable t) k = Some i" "mget (lTable t) k' = Some i" for k k' i
        using that t''(1) lockInvD(3) [OF inv] by (auto split: if_splits)
      show "i < length (lEntries t) \<and> entryOk (lEntries t ! i) (us @ vs) i" if "mget (lTable t) k = Some i" for k i
      proof -
        have k: "k \<noteq> tkKey x" "mget (lTable s) k = Some i" using that t''(1) by (auto split: if_splits)
        then have "i \<noteq> ?e" using lockInvD(3) [OF inv k(2), of "tkKey x"] tab by blast
        then show ?thesis using lockInvD(2) [OF inv k(2)] t''(2) by (simp add: t'_def entryOk_def)
      qed
    qed
  qed
qed

lemma lockInv_step:
  assumes inv: "lockInv (s, T)" and "lockStep (s, T) e (t, T')"
  shows "lockInv (t, T')"
  using assms(2)
proof cases
  case (register relative i w attempt)
  then show ?thesis using lockInv_register [OF inv register(3)] by simp
next
  case x: (take x u us vs)
  then have t: "t = updEntry (tkEntry x) (\<lambda>y. y\<lparr>pleMutex := rwLock (tkWritable x) (pleMutex y)\<rparr>) s"
    by (simp add: lockEntry_def modify_def)
  show ?thesis
    by (rule lockInv_entry [OF inv, where i = "tkEntry x"])
      (use t x lockInvD(1) [OF inv] in \<open>auto simp: entryOk_def rwLock_def rwFree_def\<close>)
next
  case x: (give_up x us vs)
  show ?thesis
    by (rule lockInv_entry [OF inv, where i = "tkEntry x" and y = "lEntries s ! tkEntry x"])
      (use x lockInvD(1) [OF inv] in \<open>auto simp: entryOk_def\<close>)
next
  case x: (release x u us vs)
  then have t: "t = updEntry (tkEntry x) (\<lambda>y. y\<lparr>pleMutex := rwUnlock (tkWritable x) (pleMutex y)\<rparr>) s"
    by (simp add: unlockEntry_def modify_def)
  show ?thesis
    by (rule lockInv_entry [OF inv, where i = "tkEntry x"])
      (use t x lockInvD(1) [OF inv] in \<open>auto simp: entryOk_def rwUnlock_def split: if_splits\<close>)
next
  case (unregister x u us vs)
  then show ?thesis using lockInv_unregister inv by blast
next
  case outside
  then show ?thesis using inv by (simp add: lockInv_def lockView_def)
qed

interpretation lockm: invariant_machine noLocks lockStep lockInv
proof
  show "lockInv s" if "noLocks s" for s :: "'a locks_scheme \<times> lockTicket list"
    using that by (auto simp: noLocks_def lockInv_def)
  show "lockInv t" if "lockInv s" "lockStep s e t" for s e and t :: "'a locks_scheme \<times> lockTicket list"
    using that lockInv_step by (cases s; cases t) blast
qed

section \<open>Progress\<close>

text \<open>How many steps the callers in the table still have to make.\<close>

fun phaseWork :: "lockPhase \<Rightarrow> nat" where
  "phaseWork Waiting = 3"
| "phaseWork Holding = 2"
| "phaseWork Leaving = 1"

definition lockWork :: "lockTicket list \<Rightarrow> nat" where
  "lockWork T = sum_list (map (phaseWork \<circ> tkPhase) T)"

lemma lockWork_simps [simp]:
  "lockWork [] = 0" "lockWork (x # T) = phaseWork (tkPhase x) + lockWork T" "lockWork (T @ U) = lockWork T + lockWork U"
  by (simp_all add: lockWork_def)

lemma all_waiting_free:
  assumes "lockInv (s, T)" "x \<in> set T" "\<And>y. y \<in> set T \<Longrightarrow> tkPhase y = Waiting"
  shows "rwFree w (pleMutex (lEntries s ! tkEntry x))"
proof -
  have "\<not> 0 < holders T e v" for e v using assms(3) unfolding holders_pos by auto
  moreover have "entryOk (lEntries s ! tkEntry x) T (tkEntry x)"
    using lockInvD(2) [OF assms(1) lockInvD(1) [OF assms(1,2)]] by blast
  ultimately show ?thesis by (simp add: entryOk_def rwFree_def split: if_splits)
qed

lemma lock_progress:
  assumes inv: "lockInv (s, T)" and "T \<noteq> []"
  shows "\<exists>e t T'. lockStep (s, T) e (t, T') \<and> lockWork T' < lockWork T"
proof (cases "\<forall>y \<in> set T. tkPhase y = Waiting")
  case True
  obtain x vs where T: "T = [] @ x # vs" using \<open>T \<noteq> []\<close> by (cases T) auto
  have x: "tkPhase x = Waiting" using True T by simp
  have "rwFree (tkWritable x) (pleMutex (lEntries s ! tkEntry x))"
    using all_waiting_free [OF inv, of x] True T by simp
  moreover obtain u t where "run_state (lockEntry (tkEntry x) (tkWritable x)) s = (u, t)" by (meson old.prod.exhaust)
  ultimately have "lockStep (s, T) Take (t, [] @ x\<lparr>tkPhase := Holding\<rparr> # vs)" unfolding T by (rule lockStep.take [OF x])
  moreover have "lockWork ([] @ x\<lparr>tkPhase := Holding\<rparr> # vs) < lockWork T" by (simp add: T x)
  ultimately show ?thesis by blast
next
  case False
  then obtain x where "x \<in> set T" "tkPhase x \<noteq> Waiting" by blast
  then obtain us vs where T: "T = us @ x # vs" by (meson split_list)
  obtain u t where run: "run_state (unlockEntry (tkEntry x) (tkWritable x)) s = (u, t)" by (meson old.prod.exhaust)
  obtain u' t' where run': "run_state (unregisterPathLockUser (tkKey x) (tkEntry x)) s = (u', t')" by (meson old.prod.exhaust)
  show ?thesis
  proof (cases "tkPhase x")
    case Holding
    then have "lockWork (us @ x\<lparr>tkPhase := Leaving\<rparr> # vs) < lockWork T" by (simp add: T)
    then show ?thesis using lockStep.release [OF Holding run] T by blast
  next
    case Leaving
    then have "lockWork (us @ vs) < lockWork T" by (simp add: T)
    then show ?thesis using lockStep.unregister [OF Leaving run'] T by blast
  qed (use \<open>tkPhase x \<noteq> Waiting\<close> in simp)
qed

section \<open>A concrete table\<close>

definition demoLocks :: locks where
  "demoLocks = auth.extend demoVolume (locks.fields rwIdle [] [])"

definition demoReader :: lockTicket where
  "demoReader = \<lparr>tkKey = ''objects/a'', tkEntry = 0, tkWritable = False, tkTry = False, tkPhase = Waiting\<rparr>"

definition demoLocked :: locks where
  "demoLocked = snd (run_state (lockEntry 0 False) (snd (run_state (registerPathLockUser (metadataKey ''objects/a'')) demoLocks)))"

lemma demo_lock_reachable: "reachable noLocks lockStep (demoLocked, [demoReader\<lparr>tkPhase := Holding\<rparr>])"
proof -
  have "reachable noLocks lockStep (demoLocks, [])"
    by (rule reach_start) (simp add: noLocks_def demoLocks_def auth.extend_def locks.fields_def)
  moreover have key: "metadataKey ''objects/a'' = ''objects/a''" by code_simp
  let ?t = "snd (run_state (registerPathLockUser (metadataKey ''objects/a'')) demoLocks)"
  have "lTable demoLocks = []" "lEntries demoLocks = []" by (simp_all add: demoLocks_def auth.extend_def locks.fields_def)
  then have run: "run_state (registerPathLockUser (metadataKey ''objects/a'')) demoLocks = (0, ?t)"
    "lEntries ?t = [\<lparr>pleMutex = rwIdle, pleUsers = 1\<rparr>]"
    by (simp_all add: registerPathLockUser_def)
  from lockStep.register [OF run(1), of "[]" False False]
  have "lockStep (demoLocks, []) Register (?t, [demoReader])" by (simp add: demoReader_def key)
  moreover have "lockStep (?t, [] @ demoReader # []) Take (demoLocked, [] @ demoReader\<lparr>tkPhase := Holding\<rparr> # [])"
    by (rule lockStep.take) (simp_all add: demoReader_def run(2) rwFree_def rwIdle_def demoLocked_def prod_eq_iff)
  ultimately show ?thesis by (metis append_Nil reach_step)
qed

section \<open>Properties\<close>

lemma filter_two:
  assumes "i < length xs" "j < length xs" "i \<noteq> j" "P (xs ! i)" "P (xs ! j)"
  shows "2 \<le> length (filter P xs)"
proof -
  have "{i, j} \<subseteq> {k. k < length xs \<and> P (xs ! k)}" using assms by auto
  from card_mono [OF _ this] show ?thesis using assms(3) by (simp add: length_filter_conv_card)
qed

lemma holders_pair:
  assumes "lockInv (s, T)" "i < length T" "j < length T" "i \<noteq> j" "tkKey (T ! i) = tkKey (T ! j)"
    "tkPhase (T ! i) = Holding" "tkPhase (T ! j) = Holding"
  shows "\<not> tkWritable (T ! i)"
proof
  assume w: "tkWritable (T ! i)"
  let ?e = "tkEntry (T ! i)"
  have m: "mget (lTable s) (tkKey (T ! k)) = Some (tkEntry (T ! k))" if "k < length T" for k
    using lockInvD(1) [OF assms(1)] that by simp
  then have same: "tkEntry (T ! j) = ?e" using assms(2,3,5) by (metis option.inject)
  have ok: "entryOk (lEntries s ! ?e) T ?e" using lockInvD(2) [OF assms(1) m [OF assms(2)]] by blast
  have "0 < holders T ?e True" unfolding holders_pos using assms(2,6) w nth_mem by blast
  then have one: "holders T ?e True = 1" "holders T ?e False = 0" using ok by (auto simp: entryOk_def split: if_splits)
  show False
  proof (cases "tkWritable (T ! j)")
    case True
    then have "2 \<le> holders T ?e True"
      unfolding holders_def by (intro filter_two [OF assms(2,3,4)]) (use assms same w in simp_all)
    then show False using one by simp
  next
    case False
    then have "0 < holders T ?e False" unfolding holders_pos using assms(3,7) same nth_mem by blast
    then show False using one by simp
  qed
qed

lemma lockInv_dom:
  assumes inv: "lockInv (s, T)"
  shows "dom (mget (lTable s)) = tkKey ` set T"
proof -
  have "k \<in> tkKey ` set T" if "mget (lTable s) k = Some e" for k e
  proof -
    have "0 < usersOf T e" using lockInvD(2) [OF inv that] by (simp add: entryOk_def)
    then obtain x where "x \<in> set T" "tkEntry x = e" using usersOf_0 [of T e] by auto
    then show ?thesis using lockInvD(3) [OF inv that] lockInvD(1) [OF inv] by blast
  qed
  then show ?thesis using lockInvD(1) [OF inv] by blast
qed

text \<open>
  C17. However the critical sections of any number of callers interleave, two of them hold the lock
  of the same path at the same time only when both opened it for reading, and the table has an
  entry exactly for the paths some caller is registered for: no entry is dropped under a caller
  and none leaks.
\<close>

theorem path_lock_safe:
  assumes "reachable noLocks lockStep (s, T)"
  shows "(\<forall>i < length T. \<forall>j < length T. i \<noteq> j \<longrightarrow> tkKey (T ! i) = tkKey (T ! j) \<longrightarrow>
      tkPhase (T ! i) = Holding \<longrightarrow> tkPhase (T ! j) = Holding \<longrightarrow> \<not> tkWritable (T ! i) \<and> \<not> tkWritable (T ! j)) \<and>
    dom (mget (lTable s)) = tkKey ` set T"
proof -
  have inv: "lockInv (s, T)" using lockm.reachable_inv assms by blast
  show ?thesis using holders_pair [OF inv] lockInv_dom [OF inv] by metis
qed

theorem path_lock_safe_witness: "dom (mget (lTable demoLocked)) = {''objects/a''}"
  using path_lock_safe [OF demo_lock_reachable] by (simp add: demoReader_def)

text \<open>
  C18. The table of path locks never wedges: in every reachable state in which callers are
  registered, one of them can make a step that brings the table closer to empty, and the table
  is empty once they are gone.
\<close>

theorem path_lock_progress:
  assumes "reachable noLocks lockStep (s, T)"
  shows "(T \<noteq> [] \<longrightarrow> (\<exists>e t T'. lockStep (s, T) e (t, T') \<and> lockWork T' < lockWork T)) \<and>
    (T = [] \<longrightarrow> mget (lTable s) = Map.empty)"
proof -
  have inv: "lockInv (s, T)" using lockm.reachable_inv assms by blast
  have "mget (lTable s) k = None" if "T = []" for k
    using lockInvD(2) [OF inv, of k] that by (cases "mget (lTable s) k") (auto simp: entryOk_def)
  then show ?thesis using lock_progress [OF inv] by (auto simp: fun_eq_iff)
qed

theorem path_lock_progress_witness:
  "\<exists>e t T'. lockStep (demoLocked, [demoReader\<lparr>tkPhase := Holding\<rparr>]) e (t, T') \<and> lockWork T' < 2"
  using path_lock_progress [OF demo_lock_reachable] by simp

end
