(* ===== verification/Handle.thy ===== *)
theory Handle
  imports Locks
begin

text \<open>
  Open files (file_handle.go) and the registry of open handles (volume.go). A handle keeps the
  plaintext of the file in memory; the handles live in a heap and are named by their index. The
  closures \<open>unlock\<close> and \<open>unlockPath\<close> of a handle are what they capture. Results that the code
  returns with a \<open>syscall.Errno\<close> are values of \<open>errno + 'a\<close>.
\<close>

section \<open>State\<close>

text \<open>Open flags, as on Linux.\<close>

definition O_ACCMODE :: u32 where "O_ACCMODE = 3"
definition O_WRONLY :: u32 where "O_WRONLY = 1"
definition O_RDWR :: u32 where "O_RDWR = 2"
definition O_EXCL :: u32 where "O_EXCL = 0x80"
definition O_TRUNC :: u32 where "O_TRUNC = 0x200"
definition O_APPEND :: u32 where "O_APPEND = 0x400"

record OpenFile =
  ofPendingWrites :: int
  ofAppendCandidate :: int
  ofRelative :: string
  ofData :: bytes
  ofMeta :: FileMeta
  ofWritable :: bool
  ofAppend :: bool
  ofDirty :: bool
  ofReleased :: bool
  ofUnlock :: bool
  ofUnlockPath :: "pathUnlock option"

record handles = locks +
  hOpen :: "(string, (nat, u32) gomap) gomap"
  hFiles :: "OpenFile list"

definition updFile :: "nat \<Rightarrow> (OpenFile \<Rightarrow> OpenFile) \<Rightarrow> 'z handles_scheme \<Rightarrow> 'z handles_scheme" where
  "updFile h f s = s\<lparr>hFiles := (hFiles s)[h := f (hFiles s ! h)]\<rparr>"

abbreviation getFile :: "nat \<Rightarrow> ('z handles_scheme, OpenFile) state" where
  "getFile h \<equiv> gets (\<lambda>s. hFiles s ! h)"

section \<open>The registry\<close>

definition openHandlesOf :: "string \<Rightarrow> 'z handles_scheme \<Rightarrow> (nat, u32) gomap" where
  "openHandlesOf key s = mgetz [] (hOpen s) key"

definition registerOpenHandle :: "nat \<Rightarrow> u32 \<Rightarrow> ('z handles_scheme, unit) state" where
  "registerOpenHandle h ownerPID = modify (\<lambda>s.
     let key = metadataKey (ofRelative (hFiles s ! h)) in
     s\<lparr>hOpen := mset_key key (mset_key h ownerPID (openHandlesOf key s)) (hOpen s)\<rparr>)"

definition unregisterOpenHandle :: "nat \<Rightarrow> ('z handles_scheme, unit) state" where
  "unregisterOpenHandle h = modify (\<lambda>s.
     let key = metadataKey (ofRelative (hFiles s ! h)); left = mdel h (openHandlesOf key s) in
     s\<lparr>hOpen := (if left = [] then mdel key (hOpen s) else mset_key key left (hOpen s))\<rparr>)"

text \<open>The search for a candidate that is related to the caller.\<close>

fun relatedHandle :: "u32 \<Rightarrow> (nat \<times> u32) list \<Rightarrow> ('z handles_scheme, nat option) state" where
  "relatedHandle ownerPID [] = ret None"
| "relatedHandle ownerPID ((h, pid) # rest) =
     (if pid = ownerPID then ret (Some h)
      else do {
        up \<leftarrow> processIsOrDescendsFrom ownerPID pid;
        (if up then ret (Some h)
         else do {
           down \<leftarrow> processIsOrDescendsFrom pid ownerPID;
           (if down then ret (Some h) else relatedHandle ownerPID rest) }) })"

definition writableOpenHandle :: "string \<Rightarrow> u32 \<Rightarrow> ('z handles_scheme, nat option) state" where
  "writableOpenHandle relative ownerPID = do {
     candidates \<leftarrow> gets (\<lambda>s. filter (\<lambda>(h, _). ofWritable (hFiles s ! h)) (openHandlesOf (metadataKey relative) s));
     (if ownerPID = 0
      then ret (case candidates of [(h, _)] \<Rightarrow> Some h | _ \<Rightarrow> None)
      else relatedHandle ownerPID candidates) }"

section \<open>Opening\<close>

definition isWritable :: "u32 \<Rightarrow> bool" where
  "isWritable flags \<longleftrightarrow> flags AND O_ACCMODE = O_WRONLY \<or> flags AND O_ACCMODE = O_RDWR"

definition loadExistingFile ::
  "'y agekeys_scheme \<Rightarrow> u32 option \<Rightarrow> string \<Rightarrow> node \<Rightarrow> u32 \<Rightarrow> bool \<Rightarrow>
   ('z auth_scheme, (bytes \<times> FileMeta \<times> bool) res) state" where
  "loadExistingFile A caller relative info flags writable = do {
     accessedAt \<leftarrow> timeNow;
     meta0 \<leftarrow> fileMeta relative (Some info);
     (let meta = meta0\<lparr>ATime := accessedAt\<rparr> in
      if flags AND O_TRUNC \<noteq> 0 then
        (if \<not> writable then ret (Inl (Errno EACCES))
         else andThen (authorize A caller relative ''truncate'') (\<lambda>_. do {
           now \<leftarrow> timeNow;
           ret (Inr ([], meta\<lparr>Size := 0, MTime := now\<rparr>, True)) }))
      else
        andThen (decryptFile A caller relative (if writable then ''read/write'' else ''read'')) (\<lambda>data. do {
          _ \<leftarrow> recordFileAccess relative accessedAt;
          ret (Inr (data, meta\<lparr>Size := of_nat (length data)\<rparr>, False)) })) }"

definition newOpenFile :: "string \<Rightarrow> bytes \<Rightarrow> FileMeta \<Rightarrow> u32 \<Rightarrow> bool \<Rightarrow> bool \<Rightarrow> pathUnlock \<Rightarrow> OpenFile" where
  "newOpenFile relative data meta flags writable dirty unlockPath =
     \<lparr>ofPendingWrites = 0, ofAppendCandidate = -1, ofRelative = relative, ofData = data, ofMeta = meta,
      ofWritable = writable, ofAppend = (flags AND O_APPEND \<noteq> 0), ofDirty = dirty, ofReleased = False,
      ofUnlock = writable, ofUnlockPath = Some unlockPath\<rparr>"

definition finishFileOpen ::
  "u32 option \<Rightarrow> string \<Rightarrow> bytes \<Rightarrow> FileMeta \<Rightarrow> u32 \<Rightarrow> bool \<Rightarrow> bool \<Rightarrow> pathUnlock \<Rightarrow> ('z handles_scheme, nat) state" where
  "finishFileOpen caller relative data meta flags writable dirty unlockPath = do {
     h \<leftarrow> State (\<lambda>s. (length (hFiles s),
       s\<lparr>hFiles := hFiles s @ [newOpenFile relative data meta flags writable dirty unlockPath]\<rparr>));
     _ \<leftarrow> (if writable then ret () else unlockNamespace False);
     ownerPID \<leftarrow> callerPID caller;
     _ \<leftarrow> registerOpenHandle h ownerPID;
     ret h }"

text \<open>
  The frame shared by \<open>openFile\<close> and \<open>createFile\<close>: take the locks, run the body, and either hand
  the locks to a handle or let the deferred calls release them.
\<close>

definition openingFile ::
  "u32 option \<Rightarrow> string \<Rightarrow> u32 \<Rightarrow> bool \<Rightarrow> ('z handles_scheme, (bytes \<times> FileMeta \<times> bool) res) state \<Rightarrow>
   ('z handles_scheme, nat res) state" where
  "openingFile caller relative flags exclusive body = do {
     _ \<leftarrow> lockNamespace False;
     unlockPath \<leftarrow> acquirePathLock relative exclusive;
     r \<leftarrow> body;
     (case r of
        Inl e \<Rightarrow> do {
          _ \<leftarrow> releasePathLock unlockPath;
          _ \<leftarrow> unlockNamespace False;
          ret (Inl e) }
      | Inr (data, meta, dirty) \<Rightarrow> do {
          h \<leftarrow> finishFileOpen caller relative data meta flags (isWritable flags) dirty unlockPath;
          ret (Inr h) }) }"

definition openFile ::
  "'y agekeys_scheme \<Rightarrow> u32 option \<Rightarrow> string \<Rightarrow> u32 \<Rightarrow> ('z handles_scheme, nat res) state" where
  "openFile A caller relative flags =
     (case validateRelativePath relative of
        Inl e \<Rightarrow> ret (Inl e)
      | Inr _ \<Rightarrow>
          openingFile caller relative flags (isWritable flags)
            (andThen (virtualType relative) (\<lambda>(isDirectory, info).
             if isDirectory then ret (Inl (Errno EISDIR))
             else loadExistingFile A caller relative info flags (isWritable flags))))"

text \<open>The new file of \<open>createFile\<close> is authorized and stored before the handle exists.\<close>

definition storeNewFile ::
  "'y agekeys_scheme \<Rightarrow> u32 option \<Rightarrow> string \<Rightarrow> FileMeta \<Rightarrow> ('z auth_scheme, (bytes \<times> FileMeta \<times> bool) res) state" where
  "storeNewFile A caller relative meta =
     andThen (authorize A caller relative ''create'') (\<lambda>_.
     andThen (persistFile A relative [] meta) (\<lambda>_. ret (Inr ([], meta, False))))"

definition createBody ::
  "'y agekeys_scheme \<Rightarrow> u32 option \<Rightarrow> string \<Rightarrow> u32 \<Rightarrow> u32 \<Rightarrow>
   ('z auth_scheme, (bytes \<times> FileMeta \<times> bool) res) state" where
  "createBody A caller relative flags mode = do {
     found \<leftarrow> virtualType relative;
     (let meta = do {
            now \<leftarrow> timeNow;
            ino \<leftarrow> newVirtualInode relative;
            ret \<lparr>Size = 0, Mode = mode AND mode0777, MTime = now, ATime = now, Inode = ino\<rparr> } in
      case found of
        Inr (isDirectory, info) \<Rightarrow>
          if isDirectory then ret (Inl (Errno EISDIR))
          else if flags AND O_EXCL \<noteq> 0 then ret (Inl (Errno EEXIST))
          else do { _ \<leftarrow> meta; loadExistingFile A caller relative info flags (isWritable flags) }
      | Inl e \<Rightarrow>
          if \<not> errorsIs e ErrNotExist then ret (Inl e)
          else do { m \<leftarrow> meta; storeNewFile A caller relative m }) }"

definition createFile ::
  "'y agekeys_scheme \<Rightarrow> u32 option \<Rightarrow> string \<Rightarrow> u32 \<Rightarrow> u32 \<Rightarrow> ('z handles_scheme, nat res) state" where
  "createFile A caller relative flags mode =
     (case validateRelativePath relative of
        Inl e \<Rightarrow> ret (Inl e)
      | Inr _ \<Rightarrow> openingFile caller relative flags True (createBody A caller relative flags mode))"

section \<open>Reading and writing\<close>

text \<open>\<open>Read\<close> into a destination of the given length; the result is what was copied.\<close>

definition readHandle :: "nat \<Rightarrow> nat \<Rightarrow> int \<Rightarrow> ('z handles_scheme, errno + bytes) state" where
  "readHandle h destination offset = do {
     f \<leftarrow> getFile h;
     ret (if ofReleased f then Inl EBADF
          else if offset < 0 then Inl EINVAL
          else if offset \<ge> int (length (ofData f)) then Inr []
          else Inr (take destination (drop (nat offset) (ofData f)))) }"

text \<open>
  \<open>concurrentAppendWorkaround\<close> is a constant of the platform (true on macOS, false on Linux); the
  result is the offset to write at and the new candidate.
\<close>

definition effectiveOffset :: "bool \<Rightarrow> bool \<Rightarrow> OpenFile \<Rightarrow> int \<Rightarrow> int \<times> int" where
  "effectiveOffset workaround overlappingWrite f offset =
     (let currentSize = int (length (ofData f)) in
      if ofAppend f then (currentSize, ofAppendCandidate f)
      else if workaround then
        (if overlappingWrite \<and> offset = ofAppendCandidate f \<and> offset < currentSize
         then (currentSize, ofAppendCandidate f)
         else if offset = currentSize then (offset, offset)
         else (offset, -1))
      else (offset, ofAppendCandidate f))"

text \<open>Growing with zeros and then copying in place.\<close>

definition extendTo :: "nat \<Rightarrow> bytes \<Rightarrow> bytes" where
  "extendTo n d = (if n > length d then d @ replicate (n - length d) 0 else d)"

definition copyAt :: "nat \<Rightarrow> bytes \<Rightarrow> bytes \<Rightarrow> bytes" where
  "copyAt offset src d = take offset d @ src @ drop (offset + length src) d"

definition writeLocked :: "bool \<Rightarrow> nat \<Rightarrow> bool \<Rightarrow> bytes \<Rightarrow> int \<Rightarrow> ('z handles_scheme, errno + nat) state" where
  "writeLocked workaround h overlappingWrite data offset0 = do {
     f \<leftarrow> getFile h;
     maximum \<leftarrow> gets vMaxFileSize;
     (if ofReleased f \<or> \<not> ofWritable f then ret (Inl EBADF)
      else
        let (offset, candidate) = effectiveOffset workaround overlappingWrite f offset0;
            end' = wrap64 (offset + int (length data)) in do {
          _ \<leftarrow> modify (updFile h (\<lambda>f. f\<lparr>ofAppendCandidate := candidate\<rparr>));
          (if offset < 0 \<or> offset > maximum then ret (Inl EFBIG)
           else if end' < offset \<or> end' > maximum then ret (Inl EFBIG)
           else
             let data' = copyAt (nat offset) data (extendTo (nat end') (ofData f)) in do {
             now \<leftarrow> timeNow;
             _ \<leftarrow> modify (updFile h (\<lambda>f. f\<lparr>ofData := data',
               ofMeta := (ofMeta f)\<lparr>Size := of_nat (length data'), MTime := now\<rparr>, ofDirty := True\<rparr>));
             ret (Inr (length data)) }) }) }"

text \<open>\<open>pendingWrites\<close> counts the calls of \<open>Write\<close> in flight.\<close>

definition writeEnter :: "nat \<Rightarrow> ('z handles_scheme, bool) state" where
  "writeEnter h = State (\<lambda>s.
     (ofPendingWrites (hFiles s ! h) + 1 > 1, updFile h (\<lambda>f. f\<lparr>ofPendingWrites := ofPendingWrites f + 1\<rparr>) s))"

definition writeLeave :: "nat \<Rightarrow> ('z handles_scheme, unit) state" where
  "writeLeave h = modify (updFile h (\<lambda>f. f\<lparr>ofPendingWrites := ofPendingWrites f - 1\<rparr>))"

definition writeHandle :: "bool \<Rightarrow> nat \<Rightarrow> bytes \<Rightarrow> int \<Rightarrow> ('z handles_scheme, errno + nat) state" where
  "writeHandle workaround h data offset = do {
     overlappingWrite \<leftarrow> writeEnter h;
     deferring (writeLeave h) (writeLocked workaround h overlappingWrite data offset) }"

section \<open>Flushing and closing\<close>

definition flushLocked :: "'y agekeys_scheme \<Rightarrow> nat \<Rightarrow> ('z handles_scheme, unit res) state" where
  "flushLocked A h = do {
     f \<leftarrow> getFile h;
     (if \<not> ofDirty f then ret (Inr ())
      else
        let body = andThen (persistFile A (ofRelative f) (ofData f) (ofMeta f)) (\<lambda>_. do {
              _ \<leftarrow> modify (updFile h (\<lambda>f. f\<lparr>ofMeta := (ofMeta f)\<lparr>Size := of_nat (length (ofData f))\<rparr>, ofDirty := False\<rparr>));
              ret (Inr ()) }) in
        (case ofUnlockPath f of
           Some _ \<Rightarrow> body
         | None \<Rightarrow> do {
             unlockPath \<leftarrow> acquirePathLock (ofRelative f) True;
             deferring (releasePathLock unlockPath) body })) }"

definition flushHandle :: "'y agekeys_scheme \<Rightarrow> nat \<Rightarrow> ('z handles_scheme, errno option) state" where
  "flushHandle A h = do {
     f \<leftarrow> getFile h;
     (if ofReleased f then ret (Some EBADF)
      else do { r \<leftarrow> flushLocked A h; ret (errnoFromError (errOf r)) }) }"

text \<open>The handle after its buffer was wiped and dropped.\<close>

definition releasedFile :: "OpenFile \<Rightarrow> OpenFile" where
  "releasedFile f = f\<lparr>ofData := [], ofReleased := True, ofUnlock := False, ofUnlockPath := None\<rparr>"

definition closeHandle :: "'y agekeys_scheme \<Rightarrow> nat \<Rightarrow> ('z handles_scheme, errno option) state" where
  "closeHandle A h = do {
     f0 \<leftarrow> getFile h;
     (if ofReleased f0 then ret None
      else do {
        r \<leftarrow> flushLocked A h;
        f \<leftarrow> getFile h;
        _ \<leftarrow> modify (updFile h releasedFile);
        _ \<leftarrow> unregisterOpenHandle h;
        _ \<leftarrow> (case ofUnlockPath f of Some u \<Rightarrow> releasePathLock u | None \<Rightarrow> ret ());
        _ \<leftarrow> (if ofUnlock f then unlockNamespace False else ret ());
        ret (errnoFromError (errOf r)) }) }"

section \<open>Attributes (fsapi.go, filesystem.go)\<close>

datatype ItemType = TypeUnknown | TypeFile | TypeDirectory | TypeSymlink

record Attributes =
  atType :: ItemType
  atInode :: u64
  atParentInode :: u64
  atSize :: u64
  atBlocks :: u64
  atMode :: u32
  atUID :: u32
  atGID :: u32
  atLinkCount :: u32
  atAccessTime :: int
  atChangeTime :: int
  atModifyTime :: int
  atBirthTime :: int

record SetAttributes =
  saSize :: "u64 option"
  saMode :: "u32 option"
  saUID :: "u32 option"
  saGID :: "u32 option"
  saAccessTime :: "int option"
  saModifyTime :: "int option"

definition fileAttributes :: "FileMeta \<Rightarrow> u32 \<Rightarrow> u32 \<Rightarrow> u64 \<Rightarrow> ('z os_scheme, Attributes) state" where
  "fileAttributes meta uid gid inode = do {
     modTime \<leftarrow> (if MTime meta = 0 then timeNow else ret (MTime meta));
     (let accessTime = (if ATime meta \<noteq> 0 then ATime meta else modTime) in
      ret \<lparr>atType = TypeFile, atInode = inode, atParentInode = 0, atSize = Size meta,
           atBlocks = (Size meta + 511) div 512, atMode = Mode meta AND mode0777, atUID = uid, atGID = gid,
           atLinkCount = 1, atAccessTime = accessTime, atChangeTime = modTime, atModifyTime = modTime,
           atBirthTime = modTime\<rparr>) }"

text \<open>The attributes of a handle: the size is that of its buffer.\<close>

definition currentAttributes :: "nat \<Rightarrow> ('z handles_scheme, errno + Attributes) state" where
  "currentAttributes h = do {
     f \<leftarrow> getFile h;
     uid \<leftarrow> gets vUid;
     gid \<leftarrow> gets vGid;
     (let meta = (ofMeta f)\<lparr>Size := of_nat (length (ofData f))\<rparr> in do {
        attributes \<leftarrow> fileAttributes meta uid gid (inodeFromFileMeta meta (ofRelative f));
        ret (Inr attributes) }) }"

definition handleAttributes :: "nat \<Rightarrow> ('z handles_scheme, errno + Attributes) state" where
  "handleAttributes h = do {
     f \<leftarrow> getFile h;
     (if ofReleased f then ret (Inl EBADF) else currentAttributes h) }"

definition truncateHandle :: "nat \<Rightarrow> u64 \<Rightarrow> ('z handles_scheme, unit) state" where
  "truncateHandle h size' = do {
     now \<leftarrow> timeNow;
     modify (updFile h (\<lambda>f. f\<lparr>
       ofData := (if size' < of_nat (length (ofData f)) then take (unat size') (ofData f)
                  else if size' > of_nat (length (ofData f)) then ofData f @ replicate (unat size' - length (ofData f)) 0
                  else ofData f),
       ofMeta := (ofMeta f)\<lparr>Size := size', MTime := now\<rparr>, ofDirty := True\<rparr>)) }"

definition setMode :: "u32 option \<Rightarrow> FileMeta \<Rightarrow> FileMeta" where
  "setMode mode meta = (case mode of None \<Rightarrow> meta | Some m \<Rightarrow> meta\<lparr>Mode := m AND mode0777\<rparr>)"

definition setTimes :: "int option \<Rightarrow> int option \<Rightarrow> FileMeta \<Rightarrow> FileMeta" where
  "setTimes modifyTime accessTime meta =
     (let meta = (case modifyTime of None \<Rightarrow> meta | Some t \<Rightarrow> meta\<lparr>MTime := t\<rparr>) in
      case accessTime of None \<Rightarrow> meta | Some t \<Rightarrow> meta\<lparr>ATime := t\<rparr>)"

definition setHandleAttributes :: "nat \<Rightarrow> SetAttributes \<Rightarrow> ('z handles_scheme, errno + Attributes) state" where
  "setHandleAttributes h input = do {
     f \<leftarrow> getFile h;
     uid \<leftarrow> gets vUid;
     gid \<leftarrow> gets vGid;
     maximum \<leftarrow> gets vMaxFileSize;
     (if ofReleased f then ret (Inl EBADF)
      else if saUID input \<noteq> None \<and> saUID input \<noteq> Some uid then ret (Inl EPERM)
      else if saGID input \<noteq> None \<and> saGID input \<noteq> Some gid then ret (Inl EPERM)
      else if saSize input \<noteq> None \<and> \<not> ofWritable f then ret (Inl EBADF)
      else if (case saSize input of None \<Rightarrow> False | Some n \<Rightarrow> n > word_of_int maximum) then ret (Inl EFBIG)
      else do {
        _ \<leftarrow> (case saSize input of None \<Rightarrow> ret () | Some n \<Rightarrow> truncateHandle h n);
        _ \<leftarrow> modify (updFile h (\<lambda>f. f\<lparr>
          ofMeta := setTimes (saModifyTime input) (saAccessTime input) (setMode (saMode input) (ofMeta f)),
          ofDirty := (ofDirty f \<or> saMode input \<noteq> None \<or> saModifyTime input \<noteq> None \<or> saAccessTime input \<noteq> None)\<rparr>));
        currentAttributes h }) }"

end
