(* ===== verification/HandleData.thy ===== *)
theory HandleData
  imports Handle
begin

text \<open>
  The bytes of an open file: \<open>Write\<close>, \<open>Read\<close> and truncation of file_handle.go implement positioned
  input and output on a byte sequence. The sequence interface is the locale \<open>byte_file\<close>; what its
  clients may conclude is proved there once and holds of handles by interpretation.
\<close>

section \<open>Positioned writes on byte sequences\<close>

definition pwriteSpec :: "nat \<Rightarrow> bytes \<Rightarrow> bytes \<Rightarrow> bytes" where
  "pwriteSpec offset src d = copyAt offset src (extendTo (offset + length src) d)"

lemma length_pwriteSpec [simp]: "length (pwriteSpec off src d) = max (length d) (off + length src)"
  by (auto simp: pwriteSpec_def copyAt_def extendTo_def)

lemma nth_pwriteSpec:
  assumes "i < max (length d) (off + length src)"
  shows "pwriteSpec off src d ! i =
    (if off \<le> i \<and> i < off + length src then src ! (i - off) else if i < length d then d ! i else 0)"
  using assms by (auto simp: pwriteSpec_def copyAt_def extendTo_def nth_append min_def)

lemma pwriteSpec_pwriteSpec:
  "pwriteSpec (off + length a) b (pwriteSpec off a d) = pwriteSpec off (a @ b) d"
proof (rule nth_equalityI)
  fix i
  assume "i < length (pwriteSpec (off + length a) b (pwriteSpec off a d))"
  then have "i < max (length d) (off + length a + length b)" by simp
  then show "pwriteSpec (off + length a) b (pwriteSpec off a d) ! i = pwriteSpec off (a @ b) d ! i"
    by (auto simp: nth_pwriteSpec nth_append)
qed simp

lemma pwriteSpec_same: "src = take n (drop off d) \<Longrightarrow> off \<le> length d \<Longrightarrow> pwriteSpec off src d = d"
  by (rule nth_equalityI) (auto simp: nth_pwriteSpec)

lemma pwriteSpec_read: "take (length src) (drop off (pwriteSpec off src d)) = src"
  by (rule nth_equalityI) (auto simp: nth_pwriteSpec)

text \<open>Writing a sequence of chunks one after the other, from an offset on.\<close>

primrec writeAll :: "('s \<Rightarrow> nat \<Rightarrow> bytes \<Rightarrow> 's) \<Rightarrow> 's \<Rightarrow> nat \<Rightarrow> bytes list \<Rightarrow> 's" where
  "writeAll pwrite s off [] = s"
| "writeAll pwrite s off (d # ds) = writeAll pwrite (pwrite s off d) (off + length d) ds"

text \<open>
  A file with positioned reads and writes; \<open>room s n\<close> says that the file may grow to \<open>n\<close> bytes.
\<close>

locale byte_file =
  fixes content :: "'s \<Rightarrow> bytes"
    and pread :: "'s \<Rightarrow> nat \<Rightarrow> nat \<Rightarrow> bytes"
    and pwrite :: "'s \<Rightarrow> nat \<Rightarrow> bytes \<Rightarrow> 's"
    and room :: "'s \<Rightarrow> nat \<Rightarrow> bool"
  assumes content_pwrite: "room s (off + length d) \<Longrightarrow> content (pwrite s off d) = pwriteSpec off d (content s)"
    and room_pwrite: "room s (off + length d) \<Longrightarrow> room (pwrite s off d) n = room s n"
    and room_le: "room s n \<Longrightarrow> m \<le> n \<Longrightarrow> room s m"
    and pread_content: "room s 0 \<Longrightarrow> pread s off n = take n (drop off (content s))"
begin

lemma read_written:
  assumes "room s (off + length d)"
  shows "pread (pwrite s off d) off (length d) = d"
proof -
  have "room (pwrite s off d) 0" using room_pwrite [OF assms] room_le [OF assms] by simp
  then show ?thesis by (simp add: pread_content content_pwrite [OF assms] pwriteSpec_read)
qed

text \<open>Chunks written one after the other end up as their concatenation.\<close>

lemma writeAll_content:
  assumes "room s (off + length (concat ds))" "ds \<noteq> []"
  shows "content (writeAll pwrite s off ds) = pwriteSpec off (concat ds) (content s) \<and>
    room (writeAll pwrite s off ds) 0"
  using assms
proof (induction ds arbitrary: s off)
  case (Cons d ds)
  have r: "room s (off + length d)" "room s 0" using room_le [OF Cons.prems(1)] by simp_all
  show ?case
  proof (cases "ds = []")
    case True
    then show ?thesis using content_pwrite [OF r(1)] room_pwrite [OF r(1)] r(2) by simp
  next
    case False
    have "room (pwrite s off d) (off + length d + length (concat ds))"
      using Cons.prems(1) room_pwrite [OF r(1)] by (simp add: add.assoc)
    from Cons.IH [OF this False] show ?thesis
      using content_pwrite [OF r(1)] pwriteSpec_pwriteSpec [of off d] by simp
  qed
qed simp

lemma read_chunks:
  assumes "room s (off + length (concat ds))" "ds \<noteq> []"
  shows "pread (writeAll pwrite s off ds) off (length (concat ds)) = concat ds"
  using writeAll_content [OF assms] by (simp add: pread_content pwriteSpec_read)

end

section \<open>Handles\<close>

lemma updFile_simps [simp]:
  "hFiles (updFile h f s) = (hFiles s)[h := f (hFiles s ! h)]"
  "vMaxFileSize (updFile h f s) = vMaxFileSize s" "osNodes (updFile h f s) = osNodes s"
  "osEnv (updFile h f s) = osEnv s" "osCalls (updFile h f s) = osCalls s" "vMetadata (updFile h f s) = vMetadata s"
  by (simp_all add: updFile_def)

lemma tickd_handles [simp]: "hFiles (tickd s) = hFiles s" "vMaxFileSize (tickd s) = vMaxFileSize s"
  by (simp_all add: tickd_def)

text \<open>What a call of \<open>Write\<close> does on a platform without the append workaround.\<close>

definition writeOffset :: "OpenFile \<Rightarrow> int \<Rightarrow> int" where
  "writeOffset f offset = (if ofAppend f then int (length (ofData f)) else offset)"

definition writeResult :: "OpenFile \<Rightarrow> int \<Rightarrow> bytes \<Rightarrow> int \<Rightarrow> errno + nat" where
  "writeResult f maximum data offset =
     (if ofReleased f \<or> \<not> ofWritable f then Inl EBADF
      else if writeOffset f offset < 0 \<or> writeOffset f offset + int (length data) > maximum then Inl EFBIG
      else Inr (length data))"

lemma wrap64_sum:
  assumes "0 \<le> a" "a < 2 ^ 63" "0 \<le> b" "b < 2 ^ 63"
  shows "wrap64 (a + b) = (if a + b < 2 ^ 63 then a + b else a + b - 2 ^ 64)"
proof (cases "a + b < 2 ^ 63")
  case True
  then show ?thesis using assms wrap64_id [of "a + b"] by (simp add: in64_def)
next
  case False
  have "a + b + 2 ^ 63 = (a + b - 2 ^ 63) + 2 ^ 64" by simp
  then have "(a + b + 2 ^ 63) mod 2 ^ 64 = (a + b - 2 ^ 63) mod 2 ^ 64" by (metis mod_add_self2)
  also have "\<dots> = a + b - 2 ^ 63" using False assms by (intro mod_pos_pos_trivial) auto
  finally show ?thesis using False by (simp add: wrap64_def)
qed

lemma write_end:
  assumes "0 \<le> a" "a \<le> maximum" "in64 maximum" "int n < 2 ^ 63"
  shows "(wrap64 (a + int n) < a \<or> wrap64 (a + int n) > maximum) \<longleftrightarrow> a + int n > maximum"
    "a + int n \<le> maximum \<Longrightarrow> wrap64 (a + int n) = a + int n"
  using assms wrap64_sum [of a "int n"] by (auto simp: in64_def split: if_splits)

definition writtenFile :: "OpenFile \<Rightarrow> bytes \<Rightarrow> int \<Rightarrow> int \<Rightarrow> OpenFile" where
  "writtenFile f data offset now =
     (let data' = pwriteSpec (nat (writeOffset f offset)) data (ofData f) in
      f\<lparr>ofData := data', ofMeta := (ofMeta f)\<lparr>Size := of_nat (length data'), MTime := now\<rparr>, ofDirty := True\<rparr>)"

lemma updFile_id [simp]: "f (hFiles s ! h) = hFiles s ! h \<Longrightarrow> updFile h f s = s"
  by (simp add: updFile_def)

lemma writeLocked_run:
  assumes "in64 (vMaxFileSize s)" "int (length data) < 2 ^ 63"
  shows "run_state (writeLocked False h overlapping data offset) s =
    (let f = hFiles s ! h; r = writeResult f (vMaxFileSize s) data offset in
     (r, case r of
       Inl _ \<Rightarrow> s
     | Inr _ \<Rightarrow> updFile h (\<lambda>f. writtenFile f data offset (envNow (osEnv s) (osCalls s))) (tickd s)))"
proof -
  let ?f = "hFiles s ! h"
  let ?off = "writeOffset ?f offset" and ?max = "vMaxFileSize s"
  have e: "effectiveOffset False overlapping ?f offset = (?off, ofAppendCandidate ?f)"
    by (simp add: effectiveOffset_def writeOffset_def Let_def)
  consider "ofReleased ?f \<or> \<not> ofWritable ?f" | "\<not> (ofReleased ?f \<or> \<not> ofWritable ?f)" "?off < 0 \<or> ?off > ?max"
    | "\<not> (ofReleased ?f \<or> \<not> ofWritable ?f)" "0 \<le> ?off" "?off \<le> ?max" "?off + int (length data) > ?max"
    | "\<not> (ofReleased ?f \<or> \<not> ofWritable ?f)" "0 \<le> ?off" "?off + int (length data) \<le> ?max" by linarith
  then show ?thesis
  proof cases
    case 1
    then show ?thesis by (simp add: writeLocked_def gets_def writeResult_def Let_def)
  next
    case 2
    then have "writeResult ?f ?max data offset = Inl EFBIG" by (auto simp: writeResult_def)
    then show ?thesis using 2 by (simp add: writeLocked_def gets_def modify_def e Let_def)
  next
    case 3
    then have "writeResult ?f ?max data offset = Inl EFBIG" by (auto simp: writeResult_def)
    then show ?thesis using 3 write_end(1) [OF 3(2,3) assms] by (simp add: writeLocked_def gets_def modify_def e Let_def)
  next
    case 4
    then have le: "?off \<le> ?max" by simp
    have r: "writeResult ?f ?max data offset = Inr (length data)" using 4 by (auto simp: writeResult_def)
    have w: "wrap64 (?off + int (length data)) = ?off + int (length data)" by (rule write_end(2) [OF 4(2) le assms 4(3)])
    have n: "nat (?off + int (length data)) = nat ?off + length data" using 4(2) by (simp add: nat_add_distrib)
    show ?thesis
      using 4 le
      by (simp add: writeLocked_def gets_def modify_def e w n r Let_def timeNow_def writtenFile_def pwriteSpec_def
          updFile_def tickd_def)
  qed
qed

text \<open>A call of \<open>Write\<close> that no other call overlaps.\<close>

lemma writeHandle_run:
  assumes "h < length (hFiles s)" "in64 (vMaxFileSize s)" "int (length data) < 2 ^ 63"
  shows "run_state (writeHandle False h data offset) s =
    (let f = hFiles s ! h; r = writeResult f (vMaxFileSize s) data offset in
     (r, case r of
       Inl _ \<Rightarrow> s
     | Inr _ \<Rightarrow> updFile h (\<lambda>f. writtenFile f data offset (envNow (osEnv s) (osCalls s))) (tickd s)))"
proof -
  let ?enter = "\<lambda>f. f\<lparr>ofPendingWrites := ofPendingWrites f + 1\<rparr>" and ?leave = "\<lambda>f. f\<lparr>ofPendingWrites := ofPendingWrites f - 1\<rparr>"
  define u where "u = updFile h ?enter s"
  have u: "hFiles u ! h = ?enter (hFiles s ! h)" "vMaxFileSize u = vMaxFileSize s" "osEnv u = osEnv s" "osCalls u = osCalls s"
    using assms(1) by (simp_all add: u_def)
  have r: "writeResult (?enter f) m data offset = writeResult f m data offset" for f m
    by (simp add: writeResult_def writeOffset_def)
  have undo: "updFile h ?leave u = s" using assms(1) by (simp add: u_def updFile_def)
  have forth: "updFile h ?leave (updFile h (\<lambda>f. writtenFile f data offset now) (tickd u)) =
      updFile h (\<lambda>f. writtenFile f data offset now) (tickd s)" for now
    using assms(1) by (simp add: u_def updFile_def tickd_def writtenFile_def writeOffset_def Let_def)
  show ?thesis
    using assms(2) u undo forth
    by (simp add: writeHandle_def writeEnter_def writeLeave_def deferring_def modify_def u_def [symmetric]
        writeLocked_run [OF _ assms(3)] r Let_def split: sum.splits)
qed

section \<open>Handles as byte files\<close>

definition handleRead :: "nat \<Rightarrow> 'z handles_scheme \<Rightarrow> nat \<Rightarrow> nat \<Rightarrow> bytes" where
  "handleRead h s off n = (case fst (run_state (readHandle h n (int off)) s) of Inl _ \<Rightarrow> [] | Inr d \<Rightarrow> d)"

definition handleWrite :: "nat \<Rightarrow> 'z handles_scheme \<Rightarrow> nat \<Rightarrow> bytes \<Rightarrow> 'z handles_scheme" where
  "handleWrite h s off d = snd (run_state (writeHandle False h d (int off)) s)"

definition handleRoom :: "nat \<Rightarrow> 'z handles_scheme \<Rightarrow> nat \<Rightarrow> bool" where
  "handleRoom h s n \<longleftrightarrow> h < length (hFiles s) \<and> in64 (vMaxFileSize s) \<and> int n \<le> vMaxFileSize s \<and>
     (let f = hFiles s ! h in \<not> ofReleased f \<and> ofWritable f \<and> \<not> ofAppend f)"

lemma handleRoom_write:
  assumes "handleRoom h s (off + length d)"
  shows "handleWrite h s off d =
    updFile h (\<lambda>f. writtenFile f d (int off) (envNow (osEnv s) (osCalls s))) (tickd s)"
proof -
  have l: "int (length d) < 2 ^ 63" using assms by (simp add: handleRoom_def in64_def)
  have "writeResult (hFiles s ! h) (vMaxFileSize s) d (int off) = Inr (length d)"
    using assms by (simp add: handleRoom_def writeResult_def writeOffset_def Let_def)
  then show ?thesis
    using assms writeHandle_run [OF _ _ l, of h s "int off"] by (simp add: handleRoom_def handleWrite_def Let_def)
qed

interpretation hf: byte_file "\<lambda>s. ofData (hFiles s ! h)" "handleRead h" "handleWrite h" "handleRoom h" for h
proof
  fix s :: "'a handles_scheme" and off d n m
  show "ofData (hFiles (handleWrite h s off d) ! h) = pwriteSpec off d (ofData (hFiles s ! h))"
    if "handleRoom h s (off + length d)"
    using that by (simp add: handleRoom_write handleRoom_def writtenFile_def writeOffset_def Let_def)
  show "handleRoom h (handleWrite h s off d) n = handleRoom h s n" if "handleRoom h s (off + length d)"
    using that by (simp add: handleRoom_write handleRoom_def writtenFile_def Let_def)
  show "handleRoom h s m" if "handleRoom h s n" "m \<le> n" using that by (simp add: handleRoom_def)
  show "handleRead h s off n = take n (drop off (ofData (hFiles s ! h)))" if "handleRoom h s 0"
    using that by (simp add: handleRead_def readHandle_def gets_def handleRoom_def Let_def)
qed

section \<open>Truncation\<close>

definition resized :: "u64 option \<Rightarrow> bytes \<Rightarrow> bytes" where
  "resized size' d = (case size' of None \<Rightarrow> d | Some n \<Rightarrow> take (unat n) (d @ replicate (unat n) 0))"

lemma truncated_data:
  assumes "length d < 2 ^ 63"
  shows "(if n < of_nat (length d) then take (unat n) d
          else if n > of_nat (length d) then d @ replicate (unat n - length d) 0 else d) =
         resized (Some (n :: u64)) d"
proof -
  have u: "unat (of_nat (length d) :: u64) = length d" using assms by (simp add: unat_of_nat)
  then show ?thesis by (auto simp: resized_def word_less_nat_alt)
qed

definition setsAttributes :: "nat \<Rightarrow> SetAttributes \<Rightarrow> 'z handles_scheme \<Rightarrow> errno + Attributes \<Rightarrow> 'z handles_scheme \<Rightarrow> bool" where
  "setsAttributes h input s r t \<longleftrightarrow>
     (case r of
        Inl e \<Rightarrow> t = s \<and> e \<in> {EBADF, EPERM, EFBIG}
      | Inr a \<Rightarrow>
          let d = resized (saSize input) (ofData (hFiles s ! h)) in
          ofData (hFiles t ! h) = d \<and> atSize a = of_nat (length d) \<and> osNodes t = osNodes s \<and>
          (\<forall>n. saSize input = Some n \<longrightarrow> uint n \<le> vMaxFileSize s \<and> ofWritable (hFiles s ! h)) \<and>
          (\<forall>m. saMode input = Some m \<longrightarrow> atMode a = m AND mode0777) \<and>
          (\<forall>h'. h' \<noteq> h \<longrightarrow> hFiles t ! h' = hFiles s ! h'))"

lemma fileAttributes_run:
  obtains a where "run_state (fileAttributes meta uid gid ino) s = (a, if MTime meta = 0 then tickd s else s)"
    "atSize a = Size meta" "atMode a = Mode meta AND mode0777" "atInode a = ino" "atType a = TypeFile"
  by (cases "MTime meta = 0") (auto simp: fileAttributes_def timeNow_def Let_def)

lemma currentAttributes_run:
  assumes "h < length (hFiles s)"
  obtains a t where "run_state (currentAttributes h) s = (Inr a, t)" "hFiles t = hFiles s" "osNodes t = osNodes s"
    "atSize a = of_nat (length (ofData (hFiles s ! h)))" "atMode a = Mode (ofMeta (hFiles s ! h)) AND mode0777"
proof -
  let ?f = "hFiles s ! h"
  let ?m = "(ofMeta ?f)\<lparr>Size := of_nat (length (ofData ?f))\<rparr>"
  obtain a where a: "run_state (fileAttributes ?m (vUid s) (vGid s) (inodeFromFileMeta ?m (ofRelative ?f))) s =
      (a, if MTime ?m = 0 then tickd s else s)" "atSize a = Size ?m" "atMode a = Mode ?m AND mode0777"
    by (rule fileAttributes_run [of ?m "vUid s" "vGid s" _ s])
  show ?thesis
    by (rule that [of a "if MTime ?m = 0 then tickd s else s"])
      (use a in \<open>auto simp: currentAttributes_def gets_def Let_def tickd_def\<close>)
qed

lemma setMeta_simps [simp]:
  "Mode (setTimes a b m) = Mode m" "Size (setTimes a b m) = Size m"
  "Mode (setMode (Some x) m) = x AND mode0777" "setMode None m = m"
  by (simp_all add: setTimes_def setMode_def Let_def split: option.splits)

lemma setHandleAttributes_wp:
  assumes h: "h < length (hFiles s)" and len: "length (ofData (hFiles s ! h)) < 2 ^ 63" and max: "0 < vMaxFileSize s" "in64 (vMaxFileSize s)"
  shows "wp (setHandleAttributes h input) (setsAttributes h input s) s"
proof -
  let ?f = "hFiles s ! h" and ?d = "resized (saSize input) (ofData (hFiles s ! h))"
  let ?meta = "\<lambda>f. f\<lparr>ofMeta := setTimes (saModifyTime input) (saAccessTime input) (setMode (saMode input) (ofMeta f)),
    ofDirty := (ofDirty f \<or> saMode input \<noteq> None \<or> saModifyTime input \<noteq> None \<or> saAccessTime input \<noteq> None)\<rparr>"
  have fail: "setsAttributes h input s (Inl e) s" if "e \<in> {EBADF, EPERM, EFBIG}" for e
    using that by (simp add: setsAttributes_def)
  have max': "\<not> n > word_of_int (vMaxFileSize s) \<longleftrightarrow> uint n \<le> vMaxFileSize s" for n :: u64
    using max by (simp add: word_less_def not_less uint_word_of_int in64_def)
  have fin: "wp (currentAttributes h) (setsAttributes h input s) (updFile h ?meta t)"
    if t: "length (hFiles t) = length (hFiles s)" "ofData (hFiles t ! h) = ?d" "osNodes t = osNodes s"
      "\<forall>h'. h' \<noteq> h \<longrightarrow> hFiles t ! h' = hFiles s ! h'"
      and ok: "\<forall>n. saSize input = Some n \<longrightarrow> uint n \<le> vMaxFileSize s \<and> ofWritable ?f" for t
  proof -
    let ?u = "updFile h ?meta t"
    have hu: "h < length (hFiles ?u)" using h t(1) by simp
    obtain a v where a: "run_state (currentAttributes h) ?u = (Inr a, v)" "hFiles v = hFiles ?u" "osNodes v = osNodes ?u"
      "atSize a = of_nat (length (ofData (hFiles ?u ! h)))" "atMode a = Mode (ofMeta (hFiles ?u ! h)) AND mode0777"
      using currentAttributes_run [OF hu] by blast
    have f: "hFiles ?u ! h = ?meta (hFiles t ! h)" using h t(1) by simp
    show ?thesis
      unfolding wp_def a(1) prod.case setsAttributes_def sum.case Let_def
      using a(2-5) t ok h f by (simp add: and.assoc)
  qed
  have trunc: "wp (truncateHandle h n) (\<lambda>_ t. length (hFiles t) = length (hFiles s) \<and> ofData (hFiles t ! h) = ?d \<and>
      osNodes t = osNodes s \<and> (\<forall>h'. h' \<noteq> h \<longrightarrow> hFiles t ! h' = hFiles s ! h')) s" if "saSize input = Some n" for n
    using h that truncated_data [OF len, of n]
    by (auto simp: truncateHandle_def wp_def timeNow_def modify_def tickd_def split: if_splits)
  show ?thesis
  proof (cases "saSize input")
    case None
    then show ?thesis
      using fail fin [of s] by (simp add: setHandleAttributes_def wp resized_def)
  next
    case (Some n)
    have "wp (truncateHandle h n) (\<lambda>_ t. wp (currentAttributes h) (setsAttributes h input s) (updFile h ?meta t)) s"
      if "uint n \<le> vMaxFileSize s" "ofWritable ?f"
      by (rule wp_mono [OF trunc [OF Some]]) (intro fin; use that Some in simp)
    then show ?thesis using fail Some max' [of n] by (simp add: setHandleAttributes_def wp)
  qed
qed

section \<open>A concrete handle\<close>

definition demoFile :: OpenFile where
  "demoFile = newOpenFile ''objects/a'' [1, 2, 3] \<lparr>Size = 3, Mode = mode0600, MTime = 5, ATime = 5, Inode = 7\<rparr>
     O_RDWR True False (''objects/a'', 0, True)"

definition demoHandles :: handles where
  "demoHandles = locks.extend demoLocks (handles.fields [] [demoFile])"

lemma demoHandles_simps [simp]:
  "hFiles demoHandles = [demoFile]" "vMaxFileSize demoHandles = 100" "osNodes demoHandles = osNodes demoVolume"
  "ofData demoFile = [1, 2, 3]" "ofWritable demoFile" "\<not> ofReleased demoFile" "\<not> ofAppend demoFile"
  by (simp_all add: demoHandles_def demoLocks_def demoVolume_def locks.extend_def auth.extend_def handles.fields_def locks.fields_def
      demoFile_def newOpenFile_def O_APPEND_def O_RDWR_def)

section \<open>Properties\<close>

text \<open>The byte at a position, zero beyond the end.\<close>

definition byteAt :: "bytes \<Rightarrow> nat \<Rightarrow> u8" where
  "byteAt d i = (if i < length d then d ! i else 0)"

text \<open>
  C19. \<open>Write\<close> implements \<open>pwrite\<close>: on a handle open for writing it stores the bytes at the offset, or
  at the end of a file opened for appending, leaves every other byte as it was and fills a gap with
  zeros; it refuses a write that would end beyond the maximum file size, whatever the offset and
  the length, and changes nothing when it fails. Nothing reaches the disk.
\<close>

theorem Write_refines_pwrite:
  assumes "h < length (hFiles s)" "in64 (vMaxFileSize s)" "int (length data) < 2 ^ 63"
    and "run_state (writeHandle False h data offset) s = (r, t)"
  shows "r = writeResult (hFiles s ! h) (vMaxFileSize s) data offset \<and>
    (\<forall>e. r = Inl e \<longrightarrow> t = s) \<and>
    (\<forall>n. r = Inr n \<longrightarrow>
       (let f = hFiles s ! h; d = ofData f; d' = ofData (hFiles t ! h); off = nat (writeOffset f offset) in
        length d' = max (length d) (off + length data) \<and> int (off + length data) \<le> vMaxFileSize s \<and>
        (\<forall>i. byteAt d' i = (if off \<le> i \<and> i < off + length data then data ! (i - off) else byteAt d i)) \<and>
        ofDirty (hFiles t ! h) \<and> osNodes t = osNodes s \<and> (\<forall>h'. h' \<noteq> h \<longrightarrow> hFiles t ! h' = hFiles s ! h')))"
proof -
  let ?f = "hFiles s ! h"
  have r: "r = writeResult ?f (vMaxFileSize s) data offset"
    and t: "t = (case r of Inl _ \<Rightarrow> s
      | Inr _ \<Rightarrow> updFile h (\<lambda>f. writtenFile f data offset (envNow (osEnv s) (osCalls s))) (tickd s))"
    using assms writeHandle_run [OF assms(1-3)] by (auto simp: Let_def)
  have bound: "int (nat (writeOffset ?f offset) + length data) \<le> vMaxFileSize s" if "r = Inr n" for n
    using that r by (auto simp: writeResult_def split: if_splits)
  have bytes: "byteAt (pwriteSpec off data d) i = (if off \<le> i \<and> i < off + length data then data ! (i - off) else byteAt d i)"
    for off d i by (auto simp: byteAt_def nth_pwriteSpec)
  show ?thesis
    using r t bound bytes assms(1) by (auto simp: Let_def writtenFile_def tickd_def)
qed

theorem Write_refines_pwrite_witness:
  "fst (run_state (writeHandle False 0 [9, 9] 4) demoHandles) = Inr 2 \<and>
   (\<forall>i. byteAt (ofData (hFiles (snd (run_state (writeHandle False 0 [9, 9] 4) demoHandles)) ! 0)) i =
     (if 4 \<le> i \<and> i < 6 then 9 else byteAt [1, 2, 3] i))"
proof -
  have n: "nat 4 = 4" by simp
  have i: "[9, 9 :: u8] ! (i - 4) = 9" if "4 \<le> i" "i < 6" for i
  proof -
    have "i - 4 = 0 \<or> i - 4 = 1" using that by linarith
    then show ?thesis by auto
  qed
  show ?thesis
    using Write_refines_pwrite [of 0 demoHandles "[9, 9]" 4, OF _ _ _ prod.collapse [symmetric]] i
    by (simp add: in64_def writeResult_def writeOffset_def Let_def n)
qed

text \<open>
  Chunks written one after the other through a handle are read back as their concatenation,
  as long as they fit under the maximum file size.
\<close>

theorem chunks_read_back:
  assumes "handleRoom h s (off + length (concat ds))" "ds \<noteq> []"
  shows "handleRead h (writeAll (handleWrite h) s off ds) off (length (concat ds)) = concat ds"
  by (rule hf.read_chunks [OF assms])

theorem chunks_read_back_witness:
  "handleRead 0 (writeAll (handleWrite 0) demoHandles 2 [[4, 5], [6]]) 2 3 = [4, 5, 6]"
  using chunks_read_back [of 0 demoHandles 2 "[[4, 5], [6]]"] by (simp add: handleRoom_def in64_def numeral_3_eq_3)

text \<open>
  Setting the attributes of a handle either fails with \<open>EBADF\<close>, \<open>EPERM\<close> or \<open>EFBIG\<close> and changes
  nothing, or cuts the file to the requested size or pads it with zeros, never beyond the maximum
  file size and only on a handle open for writing, and reports the new size and mode.
\<close>

theorem SetAttributes_resizes:
  assumes "h < length (hFiles s)" "length (ofData (hFiles s ! h)) < 2 ^ 63" "0 < vMaxFileSize s" "in64 (vMaxFileSize s)"
    and "run_state (setHandleAttributes h input) s = (r, t)"
  shows "setsAttributes h input s r t"
  using wpD [OF setHandleAttributes_wp [OF assms(1-4)] assms(5)] .

theorem SetAttributes_resizes_witness:
  "setsAttributes 0 \<lparr>saSize = Some 5, saMode = Some 0x1FF, saUID = None, saGID = None, saAccessTime = None, saModifyTime = None\<rparr>
     demoHandles (fst (run_state (setHandleAttributes 0 \<lparr>saSize = Some 5, saMode = Some 0x1FF, saUID = None, saGID = None,
       saAccessTime = None, saModifyTime = None\<rparr>) demoHandles))
     (snd (run_state (setHandleAttributes 0 \<lparr>saSize = Some 5, saMode = Some 0x1FF, saUID = None, saGID = None,
       saAccessTime = None, saModifyTime = None\<rparr>) demoHandles))"
  by (rule SetAttributes_resizes [OF _ _ _ _ prod.collapse [symmetric]]) (simp_all add: in64_def)

section \<open>The size limit\<close>

text \<open>A run of data operations on the open handles, the error results included.\<close>

datatype dataOp = DoRead nat nat int | DoWrite nat bytes int | DoSet nat SetAttributes

fun dataStep :: "dataOp \<Rightarrow> 'z handles_scheme \<Rightarrow> 'z handles_scheme" where
  "dataStep (DoRead h n offset) s = snd (run_state (readHandle h n offset) s)"
| "dataStep (DoWrite h data offset) s = snd (run_state (writeHandle False h data offset) s)"
| "dataStep (DoSet h input) s = snd (run_state (setHandleAttributes h input) s)"

fun validOp :: "nat \<Rightarrow> dataOp \<Rightarrow> bool" where
  "validOp n (DoRead h _ _) = (h < n)"
| "validOp n (DoWrite h data _) = (h < n \<and> int (length data) < 2 ^ 63)"
| "validOp n (DoSet h _) = (h < n)"

definition withinLimit :: "'z handles_scheme \<Rightarrow> 'z handles_scheme \<Rightarrow> bool" where
  "withinLimit s t \<longleftrightarrow> vMaxFileSize t = vMaxFileSize s \<and> length (hFiles t) = length (hFiles s) \<and>
     (\<forall>h < length (hFiles s). int (length (ofData (hFiles t ! h))) \<le> vMaxFileSize s)"

definition limits :: "'z handles_scheme \<Rightarrow> int \<times> nat" where
  "limits s = (vMaxFileSize s, length (hFiles s))"

lemma limits_simps [simp]: "limits (updFile h f s) = limits s" "limits (tickd s) = limits s"
  by (simp_all add: limits_def)

lemma setHandleAttributes_frame: "keeps limits (setHandleAttributes h input)"
proof -
  have "keeps limits timeNow" by (simp add: keeps_def timeNow_def)
  then show ?thesis
    unfolding setHandleAttributes_def truncateHandle_def currentAttributes_def fileAttributes_def
    by (intro keeps keeps_modify) (simp_all add: keeps)
qed

lemma resized_within:
  assumes "int (length d) \<le> m" "\<And>n. size' = Some n \<Longrightarrow> uint n \<le> m"
  shows "int (length (resized size' d)) \<le> m"
proof (cases size')
  case (Some n)
  have "length (resized size' d) \<le> unat n" using Some by (simp add: resized_def)
  then have "int (length (resized size' d)) \<le> int (unat n)" by (rule iffD2 [OF of_nat_le_iff])
  then have "int (length (resized size' d)) \<le> uint n" by (simp only: uint_nat [symmetric])
  then show ?thesis using assms(2) [OF Some] by simp
qed (use assms in \<open>simp add: resized_def\<close>)

lemma dataStep_within:
  assumes "validOp (length (hFiles s)) x" "withinLimit s s" "0 < vMaxFileSize s" "in64 (vMaxFileSize s)"
  shows "withinLimit s (dataStep x s)"
proof (cases x)
  case (DoRead h n offset)
  then show ?thesis using assms(2) by (simp add: readHandle_def gets_def)
next
  case (DoWrite h data offset)
  then have h: "h < length (hFiles s)" "int (length data) < 2 ^ 63" using assms(1) by simp_all
  show ?thesis
    using assms(2) DoWrite writeHandle_run [OF h(1) assms(4) h(2), of offset] h(1)
    by (auto simp: withinLimit_def Let_def writtenFile_def writeResult_def tickd_def nth_list_update updFile_def split: sum.splits if_splits)
next
  case (DoSet h input)
  then have h: "h < length (hFiles s)" using assms(1) by simp
  have len: "int (length (ofData (hFiles s ! h))) \<le> vMaxFileSize s" using h assms(2) by (simp add: withinLimit_def)
  then have "int (length (ofData (hFiles s ! h))) < 2 ^ 63" using assms(4) by (simp add: in64_def)
  then have short: "length (ofData (hFiles s ! h)) < 2 ^ 63" by simp
  obtain r t where run: "run_state (setHandleAttributes h input) s = (r, t)" by (cases "run_state (setHandleAttributes h input) s")
  have t: "setsAttributes h input s r t" using wpD [OF setHandleAttributes_wp [OF h short assms(3,4)] run] .
  have fr: "vMaxFileSize t = vMaxFileSize s \<and> length (hFiles t) = length (hFiles s)" using keepsD [OF setHandleAttributes_frame run] by (simp add: limits_def)
  have "int (length (ofData (hFiles t ! h'))) \<le> vMaxFileSize s" if "h' < length (hFiles s)" for h'
  proof (cases "h' = h")
    case True
    then show ?thesis
      using resized_within [OF len] t len by (simp add: setsAttributes_def Let_def split: sum.splits)
  next
    case False
    then show ?thesis using t assms(2) that by (auto simp: setsAttributes_def Let_def withinLimit_def split: sum.splits)
  qed
  then show ?thesis using DoSet run fr by (simp add: withinLimit_def)
qed

text \<open>
  C20. No sequence of reads, writes and attribute changes makes the buffer of any open handle longer
  than the maximum file size, whatever offsets, lengths and sizes the caller asks for, also when
  their sum overflows 64 bits.
\<close>

theorem handles_within_limit:
  assumes "\<forall>h < length (hFiles s). int (length (ofData (hFiles s ! h))) \<le> vMaxFileSize s"
    and "0 < vMaxFileSize s" "in64 (vMaxFileSize s)" "list_all (validOp (length (hFiles s))) xs"
  shows "\<forall>h < length (hFiles s). int (length (ofData (hFiles (fold dataStep xs s) ! h))) \<le> vMaxFileSize s"
proof -
  have "withinLimit s (fold dataStep xs s)" if "withinLimit s s" using that assms(2-4)
  proof (induction xs arbitrary: s)
    case (Cons x xs)
    have "withinLimit s (dataStep x s)" by (rule dataStep_within) (use Cons.prems in simp_all)
    then have "withinLimit (dataStep x s) (dataStep x s)" "vMaxFileSize (dataStep x s) = vMaxFileSize s"
      "length (hFiles (dataStep x s)) = length (hFiles s)" by (simp_all add: withinLimit_def)
    then show ?case using Cons.IH [of "dataStep x s"] Cons.prems by (simp add: withinLimit_def)
  qed simp
  then show ?thesis using assms(1) by (simp add: withinLimit_def)
qed

theorem handles_within_limit_witness:
  "int (length (ofData (hFiles (fold dataStep [DoWrite 0 [1, 2] 9223372036854775807, DoWrite 0 [7] 5] demoHandles) ! 0))) \<le> 100"
  using handles_within_limit [of demoHandles "[DoWrite 0 [1, 2] 9223372036854775807, DoWrite 0 [7] 5]"]
  by (simp add: in64_def)

end
