(* ===== verification/FileSystem.thy ===== *)
theory FileSystem
  imports HandleData
begin

text \<open>
  The file system that adapters mount (filesystem.go): one directory of objects, with every
  operation of \<open>fsapi.FileSystem\<close>. A caller is the process the adapter put into the context, if
  any; an open handle is passed by its number.
\<close>

section \<open>Looking up names\<close>

text \<open>The errno an adapter sees for an error of the volume.\<close>

definition errnoOf :: "goerr \<Rightarrow> errno" where
  "errnoOf e = (case errnoFromError (Some e) of Some n \<Rightarrow> n | None \<Rightarrow> EIO)"

definition withErrno :: "('s, 'a res) state \<Rightarrow> ('s, errno + 'a) state" where
  "withErrno m = do { r \<leftarrow> m; ret (case r of Inl e \<Rightarrow> Inl (errnoOf e) | Inr a \<Rightarrow> Inr a) }"

text \<open>\<open>x, errno := m(); if errno != 0 { return errno }; f(x)\<close>\<close>

definition thenDo :: "('s, errno + 'a) state \<Rightarrow> ('a \<Rightarrow> ('s, errno + 'b) state) \<Rightarrow> ('s, errno + 'b) state" where
  "thenDo m f = do { r \<leftarrow> m; (case r of Inl e \<Rightarrow> ret (Inl e) | Inr a \<Rightarrow> f a) }"

definition directoryAttributes :: "u32 \<Rightarrow> u32 \<Rightarrow> node \<Rightarrow> u64 \<Rightarrow> Attributes" where
  "directoryAttributes uid gid info inode =
     (let i = ninfo info; size' = of_nat (fi_dirsize i); modTime = fi_mtime i in
      \<lparr>atType = TypeDirectory, atInode = inode, atParentInode = 0, atSize = size',
       atBlocks = (size' + 511) div 512, atMode = fi_perm i, atUID = uid, atGID = gid, atLinkCount = 1,
       atAccessTime = modTime, atChangeTime = modTime, atModifyTime = modTime, atBirthTime = modTime\<rparr>)"

definition parentInode :: "string \<Rightarrow> u64 \<Rightarrow> u64" where
  "parentInode relative ownInode =
     (if relative = [] \<or> relative = ''.'' then ownInode
      else if Clean relative = objectNamespaceDirectory then stableInode ''/''
      else stableInode objectNamespaceDirectory)"

text \<open>The names \<open>Lookup\<close> accepts: the root, the object directory and object identifiers.\<close>

definition lookupName :: "string \<Rightarrow> bool" where
  "lookupName relative \<longleftrightarrow>
     validateRelativePath relative = Inr () \<and> \<not> isReservedFilesystemMetadataPath relative \<and>
     (let clean = Clean relative in
      clean = ''.'' \<or> clean = objectNamespaceDirectory \<or> virtualObjectID clean \<noteq> None)"

definition Lookup :: "string \<Rightarrow> ('z volume_scheme, errno + Attributes) state" where
  "Lookup relative =
     (if \<not> lookupName relative then ret (Inl ENOENT)
      else
        let storage = storagePath relative in
        thenDo (withErrno (virtualType storage)) (\<lambda>(isDirectory, info). do {
          uid \<leftarrow> gets vUid;
          gid \<leftarrow> gets vGid;
          meta \<leftarrow> fileMeta storage (Some info);
          asFile \<leftarrow> fileAttributes meta uid gid (inodeFromFileMeta meta storage);
          (let attributes =
             (if isDirectory
              then directoryAttributes uid gid info
                (stableInode (if Clean relative = objectNamespaceDirectory then objectNamespaceDirectory else ''/''))
              else asFile) in
           ret (Inr (attributes\<lparr>atParentInode := parentInode relative (atInode attributes)\<rparr>))) }))"

record DirectoryEntry =
  deName :: string
  deType :: ItemType
  deInode :: u64
  deAttributes :: Attributes

definition entryOf :: "string \<Rightarrow> Attributes \<Rightarrow> DirectoryEntry" where
  "entryOf name attributes =
     \<lparr>deName = name, deType = atType attributes, deInode = atInode attributes, deAttributes = attributes\<rparr>"

text \<open>One iteration of the loop of \<open>ReadDirectory\<close> over the entries of the backing directory.\<close>

definition readEntry ::
  "string \<Rightarrow> string \<Rightarrow> u64 \<Rightarrow> string \<times> node \<Rightarrow> DirectoryEntry list \<Rightarrow> ('z volume_scheme, DirectoryEntry list res) state" where
  "readEntry storage path parent = (\<lambda>(name, node) entries.
     andThen (os_lstat (pathJoin [path, name])) (\<lambda>entryInfo.
     if \<not> (isRegNode node \<and> hasSuffix name encryptedSuffix) then ret (Inr entries)
     else
       let virtualName = trimSuffix name encryptedSuffix;
           virtualStorage = pathJoin [storage, virtualName] in
       (case normalizeObjectID virtualName of
          Inl _ \<Rightarrow> ret (Inr entries)
        | Inr _ \<Rightarrow> do {
            uid \<leftarrow> gets vUid;
            gid \<leftarrow> gets vGid;
            meta \<leftarrow> fileMeta virtualStorage (Some entryInfo);
            attributes \<leftarrow> fileAttributes meta uid gid (inodeFromFileMeta meta virtualStorage);
            ret (Inr (entries @ [entryOf virtualName (attributes\<lparr>atParentInode := parent\<rparr>)])) })))"

definition ReadDirectory :: "string \<Rightarrow> ('z volume_scheme, errno + DirectoryEntry list) state" where
  "ReadDirectory relative =
     (if validateRelativePath relative \<noteq> Inr () then ret (Inl EINVAL)
      else if Clean relative = ''.'' then do {
        root \<leftarrow> gets vRoot;
        uid \<leftarrow> gets vUid;
        gid \<leftarrow> gets vGid;
        withErrno (andThen (os_lstat (pathJoin [root, objectStorageDirectory])) (\<lambda>info.
          let attributes = (directoryAttributes uid gid info (stableInode objectNamespaceDirectory))
                \<lparr>atParentInode := stableInode ''/''\<rparr> in
          ret (Inr [entryOf objectNamespaceDirectory attributes]))) }
      else if Clean relative \<noteq> objectNamespaceDirectory then ret (Inl ENOTDIR)
      else
        let storage = objectStorageDirectory in
        thenDo (withErrno (virtualType storage)) (\<lambda>(isDirectory, directoryInfo).
        if \<not> isDirectory then ret (Inl ENOTDIR)
        else do {
          root \<leftarrow> gets vRoot;
          (let parent = inodeFromFileInfo (Some directoryInfo) (stableInode storage) in
           withErrno (case directoryPath root storage of
              Inl e \<Rightarrow> ret (Inl e)
            | Inr path \<Rightarrow> andThen (os_readDir path) (\<lambda>entries. foldRes (readEntry storage path parent) entries []))) }))"

section \<open>Opening and creating\<close>

definition GetAttributes :: "string \<Rightarrow> nat option \<Rightarrow> ('z handles_scheme, errno + Attributes) state" where
  "GetAttributes relative handle =
     (case handle of Some h \<Rightarrow> handleAttributes h | None \<Rightarrow> Lookup relative)"

definition Open ::
  "'y agekeys_scheme \<Rightarrow> u32 option \<Rightarrow> string \<Rightarrow> u32 \<Rightarrow> ('z handles_scheme, errno + nat) state" where
  "Open A caller relative flags =
     thenDo (Lookup relative) (\<lambda>entry.
     if atType entry = TypeDirectory then ret (Inl EISDIR)
     else withErrno (openFile A caller (storagePath relative) flags))"

definition Create ::
  "'y agekeys_scheme \<Rightarrow> u32 option \<Rightarrow> string \<Rightarrow> string \<Rightarrow> u32 \<Rightarrow> u32 \<Rightarrow>
   ('z handles_scheme, errno + (Attributes \<times> nat)) state" where
  "Create A caller parent name flags mode =
     (if Clean parent \<noteq> objectNamespaceDirectory then ret (Inl EPERM)
      else case normalizeObjectID name of
        Inl _ \<Rightarrow> ret (Inl EINVAL)
      | Inr _ \<Rightarrow>
          thenDo (Lookup parent) (\<lambda>parentEntry.
          if atType parentEntry \<noteq> TypeDirectory then ret (Inl ENOTDIR)
          else case childPath parent name of
            Inl _ \<Rightarrow> ret (Inl EINVAL)
          | Inr relative \<Rightarrow>
              if isReservedFilesystemMetadataPath relative then ret (Inl EPERM)
              else
                thenDo (withErrno (createFile A caller (storagePath relative) flags mode)) (\<lambda>h. do {
                  r \<leftarrow> handleAttributes h;
                  (case r of
                     Inl e \<Rightarrow> do { _ \<leftarrow> closeHandle A h; ret (Inl e) }
                   | Inr attributes \<Rightarrow> ret (Inr (attributes\<lparr>atParentInode := atInode parentEntry\<rparr>, h))) })))"

section \<open>Changing the namespace\<close>

definition MakeDirectory :: "string \<Rightarrow> string \<Rightarrow> u32 \<Rightarrow> errno" where
  "MakeDirectory parent name mode = EPERM"

definition RemoveDirectory :: "string \<Rightarrow> string \<Rightarrow> errno" where
  "RemoveDirectory parent name = EPERM"

definition Rename :: "string \<Rightarrow> string \<Rightarrow> string \<Rightarrow> string \<Rightarrow> u32 \<Rightarrow> errno" where
  "Rename oldParent oldName newParent newName flags = EPERM"

definition Unlink :: "string \<Rightarrow> string \<Rightarrow> ('z locks_scheme, errno + unit) state" where
  "Unlink parent name =
     (case childPath parent name of
        Inl _ \<Rightarrow> ret (Inl EINVAL)
      | Inr relative \<Rightarrow>
          if isReservedFilesystemMetadataPath relative then ret (Inl EPERM)
          else
            let storage = storagePath relative in do {
            ok \<leftarrow> tryNamespaceLock;
            (if \<not> ok then ret (Inl EBUSY)
             else deferring (unlockNamespace True)
               (thenDo (withErrno (virtualType storage)) (\<lambda>(isDirectory, _).
                if isDirectory then ret (Inl EISDIR)
                else withErrno (removeProtectedFileLocked storage)))) })"

section \<open>Attributes by path\<close>

definition setDirectoryAttributes :: "string \<Rightarrow> SetAttributes \<Rightarrow> ('z volume_scheme, unit res) state" where
  "setDirectoryAttributes storage input = do {
     root \<leftarrow> gets vRoot;
     (case directoryPath root storage of
        Inl e \<Rightarrow> ret (Inl e)
      | Inr path \<Rightarrow>
          andThen (case saMode input of None \<Rightarrow> ret (Inr ()) | Some mode \<Rightarrow> os_chmod path (mode AND mode0777)) (\<lambda>_.
          if saModifyTime input = None \<and> saAccessTime input = None then ret (Inr ())
          else andThen (os_stat path) (\<lambda>info.
            os_chtimes path (case saModifyTime input of Some t \<Rightarrow> t | None \<Rightarrow> fi_mtime (ninfo info))))) }"

text \<open>Truncation by path opens the file, resizes it, flushes and closes.\<close>

definition truncateByPath ::
  "'y agekeys_scheme \<Rightarrow> u32 option \<Rightarrow> string \<Rightarrow> SetAttributes \<Rightarrow> ('z handles_scheme, errno + Attributes) state" where
  "truncateByPath A caller storage input =
     thenDo (withErrno (openFile A caller storage O_RDWR)) (\<lambda>h. do {
       r \<leftarrow> setHandleAttributes h input;
       result \<leftarrow> (case r of
          Inl e \<Rightarrow> ret (Inl e)
        | Inr attributes \<Rightarrow> do {
            flushed \<leftarrow> flushHandle A h;
            ret (case flushed of None \<Rightarrow> Inr attributes | Some e \<Rightarrow> Inl e) });
       _ \<leftarrow> closeHandle A h;
       ret result })"

definition setMetaByPath :: "string \<Rightarrow> SetAttributes \<Rightarrow> ('z volume_scheme, Attributes res) state" where
  "setMetaByPath storage input = do {
     root \<leftarrow> gets vRoot;
     (case encryptedPath root storage of
        Inl e \<Rightarrow> ret (Inl e)
      | Inr path \<Rightarrow>
          andThen (os_stat path) (\<lambda>info. do {
            meta0 \<leftarrow> fileMeta storage (Some info);
            (let meta = setTimes (saModifyTime input) (saAccessTime input) (setMode (saMode input) meta0) in
             andThen (setFileMeta storage meta) (\<lambda>_. do {
               uid \<leftarrow> gets vUid;
               gid \<leftarrow> gets vGid;
               attributes \<leftarrow> fileAttributes meta uid gid (inodeFromFileMeta meta storage);
               ret (Inr attributes) })) })) }"

definition SetAttributesByPath ::
  "'y agekeys_scheme \<Rightarrow> u32 option \<Rightarrow> string \<Rightarrow> SetAttributes \<Rightarrow> ('z handles_scheme, errno + Attributes) state" where
  "SetAttributesByPath A caller relative input = do {
     uid \<leftarrow> gets vUid;
     gid \<leftarrow> gets vGid;
     (if saUID input \<noteq> None \<and> saUID input \<noteq> Some uid then ret (Inl EPERM)
      else if saGID input \<noteq> None \<and> saGID input \<noteq> Some gid then ret (Inl EPERM)
      else thenDo (Lookup relative) (\<lambda>entry.
        let storage = storagePath relative in
        if atType entry = TypeDirectory then
          thenDo (withErrno (setDirectoryAttributes storage input)) (\<lambda>_. GetAttributes relative None)
        else do {
          ownerPID \<leftarrow> callerPID caller;
          openHandle \<leftarrow> writableOpenHandle storage ownerPID;
          (case openHandle of
             Some h \<Rightarrow> setHandleAttributes h input
           | None \<Rightarrow>
               if saSize input \<noteq> None then truncateByPath A caller storage input
               else do {
                 unlock \<leftarrow> acquireOpenLock storage True;
                 deferring (releaseOpenLock unlock) (withErrno (setMetaByPath storage input)) }) })) }"

definition SetAttributes ::
  "'y agekeys_scheme \<Rightarrow> u32 option \<Rightarrow> string \<Rightarrow> nat option \<Rightarrow> SetAttributes \<Rightarrow> ('z handles_scheme, errno + Attributes) state" where
  "SetAttributes A caller relative handle input =
     (case handle of
        Some h \<Rightarrow> setHandleAttributes h input
      | None \<Rightarrow> SetAttributesByPath A caller relative input)"

section \<open>Session control\<close>

definition editSessionMarkerName :: string where "editSessionMarkerName = ''user.passfs.edit-session''"
definition encryptSessionMarkerName :: string where "encryptSessionMarkerName = ''user.passfs.encrypt-session''"

definition setEditSession ::
  "'y agekeys_scheme \<Rightarrow> u32 option \<Rightarrow> string \<Rightarrow> bytes \<Rightarrow> ('z auth_scheme, errno + unit) state" where
  "setEditSession A caller relative data =
     (case parseSessionCommand (bytesStr data) of
        Inl _ \<Rightarrow> ret (Inl EINVAL)
      | Inr (operation, token) \<Rightarrow> do {
          ownerPID \<leftarrow> callerPID caller;
          (if ownerPID = 0 then ret (Inl EPERM)
           else case operation of
             SessionBegin \<Rightarrow> withErrno (beginEditSession A caller (storagePath relative) token ownerPID)
           | SessionEnd \<Rightarrow> withErrno (endEditSession (storagePath relative) token ownerPID)) })"

definition setEncryptSession ::
  "'y agekeys_scheme \<Rightarrow> u32 option \<Rightarrow> bytes \<Rightarrow> ('z auth_scheme, errno + unit) state" where
  "setEncryptSession A caller data =
     (case parseSessionCommand (bytesStr data) of
        Inl _ \<Rightarrow> ret (Inl EINVAL)
      | Inr (operation, token) \<Rightarrow> do {
          ownerPID \<leftarrow> callerPID caller;
          (if ownerPID = 0 then ret (Inl EPERM)
           else case operation of
             SessionBegin \<Rightarrow> withErrno (beginEncryptSession A token ownerPID)
           | SessionEnd \<Rightarrow> withErrno (endEncryptSession token ownerPID)) })"

definition SetExtendedAttribute ::
  "'y agekeys_scheme \<Rightarrow> u32 option \<Rightarrow> string \<Rightarrow> string \<Rightarrow> bytes \<Rightarrow> ('z auth_scheme, errno + unit) state" where
  "SetExtendedAttribute A caller relative name data =
     thenDo (Lookup relative) (\<lambda>entry.
     if name = encryptSessionMarkerName then
       (if atType entry \<noteq> TypeDirectory \<or> relative \<noteq> [] then ret (Inl EPERM)
        else setEncryptSession A caller data)
     else if name = editSessionMarkerName then
       (if atType entry = TypeDirectory then ret (Inl EINVAL)
        else setEditSession A caller relative data)
     else ret (Inl ENOTSUP))"

section \<open>Statistics\<close>

record Statfs =
  stBsize :: u64
  stBlocks :: u64
  stBfree :: u64
  stBavail :: u64
  stFiles :: u64
  stFfree :: u64

record Statistics =
  fsBlockSize :: u64
  fsIOSize :: u64
  fsTotalBlocks :: u64
  fsAvailableBlocks :: u64
  fsFreeBlocks :: u64
  fsTotalFiles :: u64
  fsFreeFiles :: u64

text \<open>\<open>syscall.Statfs\<close> is the argument.\<close>

definition StatisticsOf :: "(string \<Rightarrow> Statfs res) \<Rightarrow> ('z volume_scheme, errno + Statistics) state" where
  "StatisticsOf statfs = do {
     root \<leftarrow> gets vRoot;
     ret (case statfs root of
        Inl e \<Rightarrow> Inl (errnoOf e)
      | Inr st \<Rightarrow> Inr \<lparr>fsBlockSize = stBsize st, fsIOSize = stBsize st, fsTotalBlocks = stBlocks st,
          fsAvailableBlocks = stBavail st, fsFreeBlocks = stBfree st, fsTotalFiles = stFiles st, fsFreeFiles = stFfree st\<rparr>) }"

end
