(* ===== verification/HandleMachine.thy ===== *)
theory HandleMachine
  imports FileSystem
begin

text \<open>
  The file system as a machine over its handles and locks: every operation of filesystem.go and
  file_handle.go, in any order, keeps the locks, the registry and the handles consistent. A
  handle open for writing is therefore the only handle of its file, and no file is removed while
  any file is open for writing.
\<close>

section \<open>Operations that leave handles and locks alone\<close>

lemma more_handles:
  assumes "auth.more t = auth.more s"
  shows "lTable t = lTable s" "lEntries t = lEntries s" "lNamespace t = lNamespace s" "hOpen t = hOpen s" "hFiles t = hFiles s"
  using assms by (cases s rule: handles.cases_scheme; cases t rule: handles.cases_scheme; simp)+

lemma volRest_more: "volRest t = volRest s \<Longrightarrow> auth.more t = auth.more s"
  by (cases s rule: auth.cases_scheme; cases t rule: auth.cases_scheme) (simp add: volRest_def)

lemma keeps_more: "keeps volRest m \<Longrightarrow> keeps auth.more m"
  by (erule keeps_mono) (rule volRest_more)

lemma keeps_callMore [keeps]: "keeps auth.more (State (\<lambda>s. (f s, tickd s)))"
  by (simp add: keeps_def tickd_def)

lemma keeps_timeMore [keeps]: "keeps auth.more timeNow"
  by (simp add: keeps_def timeNow_def tickd_def)

lemma keeps_modifyMore: "(\<And>s. auth.more (f s) = auth.more s) \<Longrightarrow> keeps auth.more (modify f)"
  by (rule keeps_modify)

lemma more_updates [simp]:
  "auth.more (closeDone c s) = auth.more s" "auth.more (dropEdit k x y s) = auth.more s"
  "auth.more (pruneEdit k s) = auth.more s" "auth.more (dropEncrypt x y s) = auth.more s"
  "auth.more (removeExpiredAuthorizationsLocked n s) = auth.more s" "auth.more (forgetIdentity s) = auth.more s"
  by (simp_all add: closeDone_def dropEdit_def pruneEdit_def dropEncrypt_def removeExpiredAuthorizationsLocked_def
      forgetIdentity_def Let_def)

lemma keeps_process [keeps]:
  "keeps auth.more (processAlive p)" "keeps auth.more (platformParentProcessID p)" "keeps auth.more (callerPID c)"
  unfolding processAlive_def platformParentProcessID_def callerPID_def by (intro keeps)+

lemma keeps_descend [keeps]: "keeps auth.more (processIsOrDescendsFrom p q)"
proof -
  have "keeps auth.more (descendLoop d v p q)" for d v p
    by (induction d arbitrary: v p) (auto intro!: keeps)
  then show ?thesis unfolding processIsOrDescendsFrom_def by (intro keeps)
qed

lemma keeps_sessions [keeps]:
  "keeps auth.more (activeEncryptIdentityLocked p)" "keeps auth.more (activeEditIdentityLocked k p)"
proof -
  have "keeps auth.more (scanEncrypt p xs)" for xs
    by (induction p xs rule: scanEncrypt.induct) (auto intro!: keeps keeps_modifyMore)
  then show "keeps auth.more (activeEncryptIdentityLocked p)" unfolding activeEncryptIdentityLocked_def by (intro keeps)
  have "keeps auth.more (scanEdit k p xs)" for xs
    by (induction k p xs rule: scanEdit.induct) (auto intro!: keeps keeps_modifyMore)
  then show "keeps auth.more (activeEditIdentityLocked k p)"
    unfolding activeEditIdentityLocked_def by (intro keeps keeps_modifyMore) simp_all
qed

lemma keeps_unlockPrivate [keeps]: "keeps auth.more (unlockPrivateConfig A r c p q)"
proof -
  have "keeps osRest (unlockPrivateConfig A r c p q)"
    unfolding unlockPrivateConfig_def askPrompter_def
    by (intro keeps) (simp_all add: keeps_def)
  then show ?thesis by (intro keeps_more keeps_volRest)
qed

lemma keeps_request [keeps]:
  "keeps auth.more (requestIdentity A q)" "keeps auth.more scheduleIdentityExpiryLocked" "keeps auth.more (grantIdentity k p i)"
  unfolding grantIdentity_def requestIdentity_def scheduleIdentityExpiryLocked_def Let_def
  by (intro keeps keeps_modifyMore; simp)+

lemma keeps_unlock [keeps]:
  "keeps auth.more (unlockIdentityForRequest A k q)" "keeps auth.more (unlockIdentity A c r x)"
  "keeps auth.more (authorize A c r x)" "keeps auth.more (decryptFile A c r x)"
  unfolding decryptFile_def authorize_def unlockIdentity_def unlockIdentityForRequest_def requestAndGrant_def
  by (intro keeps keeps_modifyMore keeps_more [OF keeps_promptDisplayPath] keeps_more [OF keeps_files(2)]; simp)+

lemma keeps_sessionCommands [keeps]:
  "keeps auth.more (beginEditSession A c r x p)" "keeps auth.more (endEditSession r x p)"
  "keeps auth.more (beginEncryptSession A x p)" "keeps auth.more (endEncryptSession x p)"
  unfolding beginEditSession_def endEditSession_def beginEncryptSession_def endEncryptSession_def
    insertEditSession_def insertEncryptSession_def makeChannel_def
  by (intro keeps keeps_modifyMore; simp add: keeps_def)+

lemmas keeps_filesMore [keeps] = keeps_files [THEN keeps_more] keeps_index [THEN keeps_more]
  keeps_recordFileAccess [THEN keeps_more] keeps_newVirtualInode [THEN keeps_more]

lemma keeps_bodies [keeps]:
  "keeps auth.more (loadExistingFile A c r i f w)" "keeps auth.more (storeNewFile A c r m)"
  "keeps auth.more (createBody A c r f perm)"
  unfolding createBody_def loadExistingFile_def storeNewFile_def Let_def by (intro keeps)+

lemma keeps_combinators [keeps]:
  "keeps f m \<Longrightarrow> keeps f (withErrno m)" "keeps f m' \<Longrightarrow> (\<And>a. keeps f (g a)) \<Longrightarrow> keeps f (thenDo m' g)"
  unfolding withErrno_def thenDo_def by (intro keeps; assumption)+

lemma keeps_fileAttributes [keeps]: "keeps volRest (fileAttributes m u g i)"
  unfolding fileAttributes_def Let_def by (intro keeps)

lemma keeps_lookup [keeps]:
  "keeps volRest (Lookup r)" "keeps volRest (ReadDirectory r)" "keeps volRest (setDirectoryAttributes r i)"
  "keeps volRest (setMetaByPath r i)"
  unfolding Lookup_def ReadDirectory_def readEntry_def setDirectoryAttributes_def setMetaByPath_def Let_def by (intro keeps)+

lemmas keeps_lookupMore [keeps] = keeps_lookup [THEN keeps_more]

lemma keeps_case_operation [keeps]:
  "keeps f m \<Longrightarrow> keeps f n \<Longrightarrow> keeps f (case x of SessionBegin \<Rightarrow> m | SessionEnd \<Rightarrow> n)"
  by (cases x) simp_all

lemma keeps_extended [keeps]: "keeps auth.more (SetExtendedAttribute A c r n d)"
  unfolding SetExtendedAttribute_def setEncryptSession_def setEditSession_def by (intro keeps)

section \<open>The invariant\<close>

text \<open>The path lock a closure will release, as a ticket of the lock table.\<close>

definition heldBy :: "pathUnlock \<Rightarrow> lockTicket" where
  "heldBy = (\<lambda>(key, e, w). \<lparr>tkKey = key, tkEntry = e, tkWritable = w, tkTry = False, tkPhase = Holding\<rparr>)"

definition fileTicket :: "OpenFile \<Rightarrow> lockTicket list" where
  "fileTicket f = (case ofUnlockPath f of None \<Rightarrow> [] | Some u \<Rightarrow> [heldBy u])"

definition openTickets :: "OpenFile list \<Rightarrow> lockTicket list" where
  "openTickets fs = concat (map fileTicket fs)"

text \<open>A released handle holds nothing; any other holds the lock of its path, for writing if it is writable.\<close>

definition fileOk :: "OpenFile \<Rightarrow> bool" where
  "fileOk f \<longleftrightarrow>
     (if ofReleased f then ofUnlockPath f = None \<and> \<not> ofUnlock f
      else ofUnlock f = ofWritable f \<and>
        (\<exists>e w. ofUnlockPath f = Some (metadataKey (ofRelative f), e, w) \<and> (ofWritable f \<longrightarrow> w)))"

definition registered :: "'z handles_scheme \<Rightarrow> bool" where
  "registered s \<longleftrightarrow> (\<forall>key h. mhas (openHandlesOf key s) h \<longleftrightarrow>
     h < length (hFiles s) \<and> \<not> ofReleased (hFiles s ! h) \<and> key = metadataKey (ofRelative (hFiles s ! h)))"

text \<open>
  The invariant inside an operation that holds the path locks \<open>T\<close> and the namespace lock \<open>n\<close> times
  for reading, or for writing if \<open>w\<close>.
\<close>

definition handlesOk :: "lockTicket list \<Rightarrow> nat \<Rightarrow> bool \<Rightarrow> 'z handles_scheme \<Rightarrow> bool" where
  "handlesOk T n w s \<longleftrightarrow>
     lockInv (s, T @ openTickets (hFiles s)) \<and>
     lNamespace s = \<lparr>rwReaders = n + length (filter ofUnlock (hFiles s)), rwWriter = w\<rparr> \<and>
     (\<forall>f \<in> set (hFiles s). fileOk f) \<and> registered s"

abbreviation handleInv :: "'z handles_scheme \<Rightarrow> bool" where
  "handleInv \<equiv> handlesOk [] 0 False"

lemma lockInv_view: "lockView t = lockView s \<Longrightarrow> lockInv (t, T) = lockInv (s, T)"
  by (simp add: lockInv_def lockView_def)

lemma lockInv_perm:
  "set T' = set T \<Longrightarrow> (\<And>e. usersOf T' e = usersOf T e) \<Longrightarrow> (\<And>e w. holders T' e w = holders T e w) \<Longrightarrow>
   lockInv (s, T') = lockInv (s, T)"
  by (simp add: lockInv_def entryOk_def)

lemma lockInv_move: "lockInv (s, A @ x # B) = lockInv (s, x # A @ B)"
  by (rule lockInv_perm) auto

lemma handlesOk_cong:
  assumes "lTable t = lTable s" "lEntries t = lEntries s" "lNamespace t = lNamespace s" "hOpen t = hOpen s" "hFiles t = hFiles s"
  shows "handlesOk T n w t = handlesOk T n w s"
  using assms lockInv_view [of t s] by (simp add: handlesOk_def registered_def openHandlesOf_def lockView_def)

lemma handlesOk_more: "auth.more t = auth.more s \<Longrightarrow> handlesOk T n w t = handlesOk T n w s"
  by (rule handlesOk_cong) (erule more_handles)+

lemma wp_moreI: "keeps auth.more m \<Longrightarrow> (\<And>r t. auth.more t = auth.more s \<Longrightarrow> Q r t) \<Longrightarrow> wp m Q s"
  by (rule wp_keepsI)

lemma wp_keepInvI: "keeps auth.more m \<Longrightarrow> handlesOk T n w s \<Longrightarrow> (\<And>r t. handlesOk T n w t \<Longrightarrow> Q r t) \<Longrightarrow> wp m Q s"
  by (erule wp_moreI) (blast dest: handlesOk_more)

section \<open>Taking and releasing locks\<close>

lemma wp_lockNamespaceI:
  assumes "handlesOk T n False s" "w \<Longrightarrow> n = 0 \<and> filter ofUnlock (hFiles s) = []"
    "\<And>t. handlesOk T (if w then n else Suc n) w t \<Longrightarrow> hFiles t = hFiles s \<Longrightarrow> lockView t = lockView s \<Longrightarrow> Q () t"
  shows "wp (lockNamespace w) Q s"
  unfolding lockNamespace_def wp_modify
  by (rule assms(3)) (use assms(1) lockInv_view [of "s\<lparr>lNamespace := x\<rparr>" s for x] in
      \<open>auto simp: handlesOk_def rwLock_def lockView_def registered_def openHandlesOf_def\<close>)

lemma wp_unlockNamespaceI:
  assumes "handlesOk T (if w then n else Suc n) w s" "\<And>t. handlesOk T n False t \<Longrightarrow> hFiles t = hFiles s \<Longrightarrow> Q () t"
  shows "wp (unlockNamespace w) Q s"
  unfolding unlockNamespace_def wp_modify
  by (rule assms(2)) (use assms(1) lockInv_view [of "s\<lparr>lNamespace := x\<rparr>" s for x] in
      \<open>auto simp: handlesOk_def rwUnlock_def lockView_def registered_def openHandlesOf_def\<close>)

lemma wp_tryNamespaceI:
  assumes "handlesOk T n False s"
    and "\<And>t. handlesOk T n True t \<Longrightarrow> filter ofUnlock (hFiles s) = [] \<Longrightarrow> n = 0 \<Longrightarrow> hFiles t = hFiles s \<Longrightarrow> Q True t"
    and "filter ofUnlock (hFiles s) \<noteq> [] \<or> n \<noteq> 0 \<Longrightarrow> Q False s"
  shows "wp tryNamespaceLock Q s"
proof -
  have free: "rwFree True (lNamespace s) \<longleftrightarrow> n = 0 \<and> filter ofUnlock (hFiles s) = []"
    using assms(1) by (simp add: handlesOk_def rwFree_def)
  have "wp (lockNamespace True) (\<lambda>_. Q True) s" if "n = 0" "filter ofUnlock (hFiles s) = []"
    by (rule wp_lockNamespaceI [OF assms(1)]) (use that assms(2) in simp_all)
  then show ?thesis using free assms(3) by (auto simp: tryNamespaceLock_def wp)
qed

definition pathFree :: "string \<Rightarrow> bool \<Rightarrow> 'z locks_scheme \<Rightarrow> bool" where
  "pathFree relative w s \<longleftrightarrow>
     (case mget (lTable s) (metadataKey relative) of None \<Rightarrow> True | Some e \<Rightarrow> rwFree w (pleMutex (lEntries s ! e)))"

lemma registerPathLockUser_frame:
  assumes "run_state (registerPathLockUser key) s = (e, t)"
  shows "lNamespace t = lNamespace s" "hOpen t = hOpen s" "hFiles t = hFiles s"
  using assms by (auto simp: registerPathLockUser_def updEntry_def Let_def split: option.splits)

lemma register_keeps_mutex:
  assumes "run_state (registerPathLockUser (metadataKey relative)) s = (e, t)" "lockInv (s, T)"
  shows "rwFree w (pleMutex (lEntries t ! e)) = pathFree relative w s"
proof (cases "mget (lTable s) (metadataKey relative)")
  case None
  then show ?thesis
    using assms by (auto simp: registerPathLockUser_def Let_def pathFree_def rwFree_def rwIdle_def)
next
  case (Some i)
  then have "i < length (lEntries s)" using lockInvD(2) [OF assms(2)] by blast
  then show ?thesis using assms(1) Some by (auto simp: registerPathLockUser_def pathFree_def)
qed

lemma handlesOk_ticket:
  assumes "handlesOk T n w s" "lockInv (t, T' @ openTickets (hFiles s))"
    "lNamespace t = lNamespace s" "hOpen t = hOpen s" "hFiles t = hFiles s"
  shows "handlesOk T' n w t"
  using assms by (simp add: handlesOk_def registered_def openHandlesOf_def)

lemma entry_frame:
  "lNamespace (updEntry e f s) = lNamespace s" "hOpen (updEntry e f s) = hOpen s" "hFiles (updEntry e f s) = hFiles s"
  by (simp_all add: updEntry_def)

text \<open>A step of the lock machine that an operation makes on a ticket of its own.\<close>

lemma wp_registerI:
  assumes "handlesOk T n w s"
    and "\<And>e t x. handlesOk (\<lparr>tkKey = metadataKey relative, tkEntry = e, tkWritable = ww, tkTry = tr, tkPhase = Waiting\<rparr> # T) n w t \<Longrightarrow>
      rwFree ww (pleMutex (lEntries t ! e)) = pathFree relative ww s \<Longrightarrow> hFiles t = hFiles s \<Longrightarrow> Q e t"
  shows "wp (registerPathLockUser (metadataKey relative)) Q s"
proof (rule wpI)
  fix e t
  assume r: "run_state (registerPathLockUser (metadataKey relative)) s = (e, t)"
  have inv: "lockInv (s, T @ openTickets (hFiles s))" using assms(1) by (simp add: handlesOk_def)
  let ?x = "\<lparr>tkKey = metadataKey relative, tkEntry = e, tkWritable = ww, tkTry = tr, tkPhase = Waiting\<rparr>"
  have "lockInv (t, (?x # T) @ openTickets (hFiles s))"
    using lockInv_step [OF inv lockStep.register [OF r]] by simp
  then show "Q e t"
    using assms(2) handlesOk_ticket [OF assms(1)] registerPathLockUser_frame [OF r] register_keeps_mutex [OF r inv] by blast
qed

lemma wp_lockEntryI:
  assumes "handlesOk (x # T) n w s" "tkPhase x = Waiting" "tkEntry x = e" "tkWritable x = ww"
    "rwFree ww (pleMutex (lEntries s ! e))" "\<And>t. handlesOk (x\<lparr>tkPhase := Holding\<rparr> # T) n w t \<Longrightarrow> hFiles t = hFiles s \<Longrightarrow> Q () t"
  shows "wp (lockEntry e ww) Q s"
proof (rule wpI)
  fix u t
  assume r: "run_state (lockEntry e ww) s = (u, t)"
  have inv: "lockInv (s, [] @ x # T @ openTickets (hFiles s))" using assms(1) by (simp add: handlesOk_def)
  have "lockInv (t, [] @ x\<lparr>tkPhase := Holding\<rparr> # T @ openTickets (hFiles s))"
    by (rule lockInv_step [OF inv], rule lockStep.take) (use assms r in simp_all)
  moreover have "t = updEntry e (\<lambda>x. x\<lparr>pleMutex := rwLock ww (pleMutex x)\<rparr>) s" using r by (simp add: lockEntry_def modify_def)
  ultimately show "Q u t"
    using assms(6) [of t] handlesOk_ticket [OF assms(1), of t "x\<lparr>tkPhase := Holding\<rparr> # T"] by (simp add: entry_frame)
qed

lemma wp_unlockEntryI:
  assumes "handlesOk (x # T) n w s" "tkPhase x = Holding" "tkEntry x = e" "tkWritable x = ww"
    "\<And>t. handlesOk (x\<lparr>tkPhase := Leaving\<rparr> # T) n w t \<Longrightarrow> hFiles t = hFiles s \<Longrightarrow> Q () t"
  shows "wp (unlockEntry e ww) Q s"
proof (rule wpI)
  fix u t
  assume r: "run_state (unlockEntry e ww) s = (u, t)"
  have inv: "lockInv (s, [] @ x # T @ openTickets (hFiles s))" using assms(1) by (simp add: handlesOk_def)
  have "lockInv (t, [] @ x\<lparr>tkPhase := Leaving\<rparr> # T @ openTickets (hFiles s))"
    by (rule lockInv_step [OF inv], rule lockStep.release) (use assms r in simp_all)
  moreover have "t = updEntry e (\<lambda>x. x\<lparr>pleMutex := rwUnlock ww (pleMutex x)\<rparr>) s" using r by (simp add: unlockEntry_def modify_def)
  ultimately show "Q u t"
    using assms(5) [of t] handlesOk_ticket [OF assms(1), of t "x\<lparr>tkPhase := Leaving\<rparr> # T"] by (simp add: entry_frame)
qed

lemma wp_unregisterI:
  assumes "handlesOk (x # T) n w s" "tkPhase x = Leaving" "tkEntry x = e" "tkKey x = key"
    "\<And>t. handlesOk T n w t \<Longrightarrow> hFiles t = hFiles s \<Longrightarrow> Q () t"
  shows "wp (unregisterPathLockUser key e) Q s"
proof (rule wpI)
  fix u t
  assume r: "run_state (unregisterPathLockUser key e) s = (u, t)"
  have inv: "lockInv (s, [] @ x # T @ openTickets (hFiles s))" using assms(1) by (simp add: handlesOk_def)
  have "lockInv (t, [] @ T @ openTickets (hFiles s))"
    by (rule lockInv_step [OF inv], rule lockStep.unregister) (use assms r in simp_all)
  moreover have "lNamespace t = lNamespace s" "hOpen t = hOpen s" "hFiles t = hFiles s"
    using r by (auto simp: unregisterPathLockUser_def modify_def Let_def updEntry_def)
  ultimately show "Q u t"
    using assms(5) [of t] handlesOk_ticket [OF assms(1), of t T] by simp
qed

lemma wp_acquirePathLockI:
  assumes "handlesOk T n w s" "pathFree relative ww s"
    "\<And>e t. handlesOk (heldBy (metadataKey relative, e, ww) # T) n w t \<Longrightarrow> hFiles t = hFiles s \<Longrightarrow>
      Q (metadataKey relative, e, ww) t"
  shows "wp (acquirePathLock relative ww) Q s"
  unfolding acquirePathLock_def wp_bind wp_return
  by (rule wp_registerI [OF assms(1), where tr = False and ww = ww], rule wp_lockEntryI)
    (use assms(2,3) in \<open>auto simp: heldBy_def\<close>)

lemma wp_releasePathLockI:
  assumes "handlesOk (heldBy u # T) n w s" "\<And>t. handlesOk T n w t \<Longrightarrow> hFiles t = hFiles s \<Longrightarrow> Q () t"
  shows "wp (releasePathLock u) Q s"
proof (cases u)
  case (fields key e ww)
  show ?thesis
    unfolding fields releasePathLock_def prod.case wp_bind
    by (rule wp_unlockEntryI [OF assms(1)], simp_all add: fields heldBy_def, rule wp_unregisterI)
      (use assms(2) in auto)
qed

lemma wp_tryPathLockI:
  assumes "handlesOk T n w s"
    "\<And>e t. handlesOk (heldBy (metadataKey relative, e, ww) # T) n w t \<Longrightarrow> hFiles t = hFiles s \<Longrightarrow>
      Q (Some (metadataKey relative, e, ww)) t"
    "\<And>t. handlesOk T n w t \<Longrightarrow> hFiles t = hFiles s \<Longrightarrow> Q None t"
  shows "wp (tryPathLock relative ww) Q s"
  unfolding tryPathLock_def wp_bind
proof (rule wp_registerI [OF assms(1), where tr = True and ww = ww])
  fix e and t :: "'a handles_scheme"
  let ?x = "\<lparr>tkKey = metadataKey relative, tkEntry = e, tkWritable = ww, tkTry = True, tkPhase = Waiting\<rparr>"
  assume t: "handlesOk (?x # T) n w t" and fs: "hFiles t = hFiles s"
  have "wp (lockEntry e ww) (\<lambda>_. Q (Some (metadataKey relative, e, ww))) t" if "rwFree ww (pleMutex (lEntries t ! e))"
  proof (rule wp_lockEntryI [OF t _ _ _ that])
    fix v :: "'a handles_scheme"
    assume v: "handlesOk (?x\<lparr>tkPhase := Holding\<rparr> # T) n w v" "hFiles v = hFiles t"
    then have "handlesOk (heldBy (metadataKey relative, e, ww) # T) n w v"
      by (simp add: handlesOk_def heldBy_def lockInv_def entryOk_def)
    then show "Q (Some (metadataKey relative, e, ww)) v" by (rule assms(2)) (simp add: v fs)
  qed simp_all
  moreover have "wp (unregisterPathLockUser (metadataKey relative) e) (\<lambda>_. Q None) t"
    if "\<not> rwFree ww (pleMutex (lEntries t ! e))"
  proof -
    have inv: "lockInv (t, [] @ ?x # T @ openTickets (hFiles t))" using t by (simp add: handlesOk_def)
    have "lockInv (t, [] @ ?x\<lparr>tkPhase := Leaving\<rparr> # T @ openTickets (hFiles t))"
      by (rule lockInv_step [OF inv], rule lockStep.give_up) (use that in simp_all)
    then have l: "handlesOk (?x\<lparr>tkPhase := Leaving\<rparr> # T) n w t" using t by (simp add: handlesOk_def)
    show ?thesis by (rule wp_unregisterI [OF l]) (use assms(3) fs in simp_all)
  qed
  ultimately show "wp (gets (\<lambda>s. rwFree ww (pleMutex (lEntries s ! e)))) (\<lambda>a. wp (if a then State_Monad.bind (lockEntry e ww)
      (\<lambda>_. ret (Some (metadataKey relative, e, ww))) else State_Monad.bind (unregisterPathLockUser (metadataKey relative) e) (\<lambda>_. ret None)) Q) t"
    by (simp add: wp)
qed

section \<open>Opening\<close>

lemma openTickets_simps [simp]:
  "openTickets (fs @ gs) = openTickets fs @ openTickets gs" "openTickets (f # fs) = fileTicket f @ openTickets fs" "openTickets [] = []"
  by (simp_all add: openTickets_def)

lemma lockInv_swap: "lockInv (s, A @ B @ [x]) = lockInv (s, x # A @ B)"
  using lockInv_move [of s "A @ B" x "[]"] by simp

text \<open>The new handle takes over the path lock and, if it is writable, the namespace lock.\<close>

lemma handlesOk_newFile:
  assumes ok: "handlesOk (heldBy u # T) n False s" and u: "u = (metadataKey relative, e, w)" "isWritable flags \<longrightarrow> w"
    and f: "f = newOpenFile relative data meta flags (isWritable flags) dirty u"
    and t: "t = s\<lparr>hFiles := hFiles s @ [f]\<rparr>" and n: "n = Suc m"
  shows "lockInv (t, T @ openTickets (hFiles t))" "\<forall>f \<in> set (hFiles t). fileOk f"
    "lNamespace t = \<lparr>rwReaders = (if isWritable flags then m else Suc m) + length (filter ofUnlock (hFiles t)), rwWriter = False\<rparr>"
    "\<And>key h. mhas (openHandlesOf key t) h \<longleftrightarrow> h < length (hFiles s) \<and> \<not> ofReleased (hFiles s ! h) \<and> key = metadataKey (ofRelative (hFiles s ! h))"
proof -
  have "lockInv (s, heldBy u # T @ openTickets (hFiles s))" using ok by (simp add: handlesOk_def)
  then have "lockInv (s, T @ openTickets (hFiles s) @ [heldBy u])" by (simp only: lockInv_swap)
  moreover have "lockView t = lockView s" by (simp add: t lockView_def)
  moreover have "fileTicket f = [heldBy u]" by (simp add: f fileTicket_def newOpenFile_def)
  ultimately show "lockInv (t, T @ openTickets (hFiles t))" using lockInv_view [of t s] by (simp add: t)
  show "\<forall>f \<in> set (hFiles t). fileOk f"
    using ok u by (auto simp: handlesOk_def t f fileOk_def newOpenFile_def)
  show "lNamespace t = \<lparr>rwReaders = (if isWritable flags then m else Suc m) + length (filter ofUnlock (hFiles t)), rwWriter = False\<rparr>"
    using ok by (simp add: handlesOk_def t f newOpenFile_def n)
  show "mhas (openHandlesOf key t) h \<longleftrightarrow> h < length (hFiles s) \<and> \<not> ofReleased (hFiles s ! h) \<and> key = metadataKey (ofRelative (hFiles s ! h))" for key h
    using ok by (simp add: handlesOk_def registered_def openHandlesOf_def t)
qed

lemma wp_finishFileOpenI:
  assumes ok: "handlesOk (heldBy u # T) n False s" and u: "u = (metadataKey relative, e, w)" "isWritable flags \<longrightarrow> w"
    and n: "n = Suc m"
    and Q: "\<And>h t. handlesOk T m False t \<Longrightarrow> h = length (hFiles s) \<Longrightarrow>
      hFiles t = hFiles s @ [newOpenFile relative data meta flags (isWritable flags) dirty u] \<Longrightarrow> Q h t"
  shows "wp (finishFileOpen caller relative data meta flags (isWritable flags) dirty u) Q s"
proof -
  define f where "f = newOpenFile relative data meta flags (isWritable flags) dirty u"
  define t where "t = s\<lparr>hFiles := hFiles s @ [f]\<rparr>"
  note new = handlesOk_newFile [OF ok u f_def t_def n]
  define ns where "ns = (if isWritable flags then lNamespace t else rwUnlock False (lNamespace t))"
  define v where "v = t\<lparr>lNamespace := ns\<rparr>"
  have un: "wp (if isWritable flags then ret () else unlockNamespace False) R t = R () v" for R
    by (simp add: wp unlockNamespace_def v_def ns_def)
  have ns: "ns = \<lparr>rwReaders = m + length (filter ofUnlock (hFiles t)), rwWriter = False\<rparr>"
    using new(3) by (simp add: ns_def rwUnlock_def split: if_splits)
  have fin: "wp (registerOpenHandle (length (hFiles s)) pid) (\<lambda>_. Q (length (hFiles s))) x" if x: "auth.more x = auth.more v" for pid x
  proof -
    note xv = more_handles [OF x]
    have rel: "metadataKey (ofRelative (hFiles x ! length (hFiles s))) = metadataKey relative" "\<not> ofReleased f" "ofRelative f = relative"
      using xv by (simp_all add: v_def t_def f_def newOpenFile_def)
    define y where "y = x\<lparr>hOpen := mset_key (metadataKey relative)
      (mset_key (length (hFiles s)) pid (openHandlesOf (metadataKey relative) x)) (hOpen x)\<rparr>"
    have fs: "hFiles y = hFiles s @ [f]" "lNamespace y = ns" "lTable y = lTable t" "lEntries y = lEntries t"
      "openHandlesOf key x = openHandlesOf key t" for key
      using xv by (simp_all add: y_def v_def t_def openHandlesOf_def)
    have "registered y"
      unfolding registered_def
    proof (intro allI)
      fix key h
      have "mhas (openHandlesOf key y) h \<longleftrightarrow> mhas (openHandlesOf key t) h \<or> key = metadataKey relative \<and> h = length (hFiles s)"
        using fs(5) by (auto simp: y_def openHandlesOf_def)
      then show "mhas (openHandlesOf key y) h \<longleftrightarrow>
          h < length (hFiles y) \<and> \<not> ofReleased (hFiles y ! h) \<and> key = metadataKey (ofRelative (hFiles y ! h))"
        using new(4) [of key h] rel by (auto simp: fs(1) nth_append less_Suc_eq)
    qed
    then have "handlesOk T m False y"
      using new(1,2) fs ns lockInv_view [of y t] by (simp add: handlesOk_def lockView_def t_def)
    then show ?thesis
      unfolding registerOpenHandle_def wp_modify Let_def rel(1) using Q fs(1) by (simp add: y_def f_def)
  qed
  have "wp (callerPID caller) (\<lambda>a. wp (registerOpenHandle (length (hFiles s)) a) (\<lambda>_. Q (length (hFiles s)))) v"
    by (rule wp_moreI) (intro keeps, erule fin)
  moreover have alloc: "wp (State (\<lambda>s. (length (hFiles s),
      s\<lparr>hFiles := hFiles s @ [newOpenFile relative data meta flags (isWritable flags) dirty u]\<rparr>))) R s = R (length (hFiles s)) t" for R
    by (simp add: wp_def t_def f_def)
  ultimately show ?thesis unfolding finishFileOpen_def wp_bind wp_return alloc un by simp
qed

lemma wp_openingFileI:
  assumes ok: "handleInv s" and free: "pathFree relative exclusive s" and ex: "isWritable flags \<longrightarrow> exclusive"
    and body: "keeps auth.more body"
    and Q: "\<And>e t. handleInv t \<Longrightarrow> hFiles t = hFiles s \<Longrightarrow> Q (Inl e) t"
      "\<And>h t f. handleInv t \<Longrightarrow> h = length (hFiles s) \<Longrightarrow> hFiles t = hFiles s @ [f] \<Longrightarrow> \<not> ofReleased f \<Longrightarrow> Q (Inr h) t"
  shows "wp (openingFile caller relative flags exclusive body) Q s"
  unfolding openingFile_def wp_bind
proof (rule wp_lockNamespaceI [OF ok])
  fix t :: "'a handles_scheme"
  assume t: "handlesOk [] (if False then 0 else Suc 0) False t" "hFiles t = hFiles s" "lockView t = lockView s"
  have free': "pathFree relative exclusive t" using free t(3) by (simp add: pathFree_def lockView_def split: option.splits)
  have t1: "handlesOk [] 1 False t" using t(1) by simp
  show "wp (acquirePathLock relative exclusive) (\<lambda>a. wp body (\<lambda>r. wp (case r of
      Inl e \<Rightarrow> State_Monad.bind (releasePathLock a) (\<lambda>_. State_Monad.bind (unlockNamespace False) (\<lambda>_. ret (Inl e)))
    | Inr (data, meta, dirty) \<Rightarrow> State_Monad.bind (finishFileOpen caller relative data meta flags (isWritable flags) dirty a)
        (\<lambda>h. ret (Inr h))) Q)) t"
  proof (rule wp_acquirePathLockI [OF t1 free'], rule wp_moreI [OF body])
    fix e :: nat and r and v w :: "'a handles_scheme"
    let ?u = "(metadataKey relative, e, exclusive)"
    assume v: "handlesOk [heldBy ?u] 1 False v" "hFiles v = hFiles t" and "auth.more w = auth.more v"
    then have w: "handlesOk [heldBy ?u] 1 False w" "hFiles w = hFiles s"
      using handlesOk_more [of w v] more_handles(5) [of w v] t(2) by simp_all
    have bad: "wp (releasePathLock ?u) (\<lambda>_. wp (unlockNamespace False) (\<lambda>_. Q (Inl x))) w" for x
      by (rule wp_releasePathLockI [OF w(1)], rule wp_unlockNamespaceI [where T = "[]" and n = 0])
        (use w(2) Q(1) in simp_all)
    have good: "wp (finishFileOpen caller relative data meta flags (isWritable flags) dirty ?u) (\<lambda>h. Q (Inr h)) w"
      for data meta dirty
      by (rule wp_finishFileOpenI [OF w(1) refl ex, where m = 0], simp, rule Q(2) [where f = "newOpenFile _ _ _ _ _ _ _"])
        (use w(2) in \<open>simp_all add: newOpenFile_def\<close>)
    show "wp (case r of
        Inl e \<Rightarrow> State_Monad.bind (releasePathLock ?u) (\<lambda>_. State_Monad.bind (unlockNamespace False) (\<lambda>_. ret (Inl e)))
      | Inr (data, meta, dirty) \<Rightarrow> State_Monad.bind (finishFileOpen caller relative data meta flags (isWritable flags) dirty ?u)
          (\<lambda>h. ret (Inr h))) Q w"
      using bad good by (auto simp: wp split: sum.splits)
  qed
qed simp

lemma wp_openFileI:
  assumes "handleInv s" "pathFree relative (isWritable flags) s"
    and "\<And>e t. handleInv t \<Longrightarrow> hFiles t = hFiles s \<Longrightarrow> Q (Inl e) t"
    and "\<And>h t f. handleInv t \<Longrightarrow> h = length (hFiles s) \<Longrightarrow> hFiles t = hFiles s @ [f] \<Longrightarrow> \<not> ofReleased f \<Longrightarrow> Q (Inr h) t"
  shows "wp (openFile A caller relative flags) Q s"
proof -
  have "wp (openingFile caller relative flags (isWritable flags) (andThen (virtualType relative) (\<lambda>(isDirectory, info).
      if isDirectory then ret (Inl (Errno EISDIR)) else loadExistingFile A caller relative info flags (isWritable flags)))) Q s"
    by (rule wp_openingFileI [OF assms(1,2)]) (intro keeps | use assms(3,4) in blast)+
  then show ?thesis using assms(1,3) by (simp add: openFile_def wp split: sum.splits)
qed

lemma wp_createFileI:
  assumes "handleInv s" "pathFree relative True s"
    and "\<And>e t. handleInv t \<Longrightarrow> hFiles t = hFiles s \<Longrightarrow> Q (Inl e) t"
    and "\<And>h t f. handleInv t \<Longrightarrow> h = length (hFiles s) \<Longrightarrow> hFiles t = hFiles s @ [f] \<Longrightarrow> \<not> ofReleased f \<Longrightarrow> Q (Inr h) t"
  shows "wp (createFile A caller relative flags mode) Q s"
proof -
  have "wp (openingFile caller relative flags True (createBody A caller relative flags mode)) Q s"
    by (rule wp_openingFileI [OF assms(1,2)]) (intro keeps | use assms(3,4) in blast)+
  then show ?thesis using assms(1,3) by (simp add: createFile_def wp split: sum.splits)
qed

section \<open>Operations on a handle\<close>

text \<open>The part of a handle that locks and registry depend on.\<close>

definition sameLocks :: "OpenFile \<Rightarrow> OpenFile \<Rightarrow> bool" where
  "sameLocks f g \<longleftrightarrow> ofReleased f = ofReleased g \<and> ofUnlock f = ofUnlock g \<and> ofUnlockPath f = ofUnlockPath g \<and>
     ofWritable f = ofWritable g \<and> ofRelative f = ofRelative g"

lemma sameLocks_simps [simp]:
  "sameLocks (f\<lparr>ofPendingWrites := p\<rparr>) f" "sameLocks (f\<lparr>ofAppendCandidate := c\<rparr>) f"
  "sameLocks (f\<lparr>ofData := d, ofMeta := m, ofDirty := b\<rparr>) f" "sameLocks (f\<lparr>ofMeta := m, ofDirty := b\<rparr>) f"
  by (simp_all add: sameLocks_def)

lemma sameLocks_ok:
  assumes "sameLocks f g"
  shows "fileTicket f = fileTicket g" "fileOk f = fileOk g" "ofUnlock f = ofUnlock g"
  using assms by (simp_all add: sameLocks_def fileTicket_def fileOk_def)

lemma length_filter_map: "length (filter P xs) = length (filter id (map P xs))"
  by (induction xs) auto

lemma handlesOk_updFile:
  assumes "handlesOk T n w s" "sameLocks (g (hFiles s ! h)) (hFiles s ! h)"
  shows "handlesOk T n w (updFile h g s)"
proof (cases "h < length (hFiles s)")
  case True
  let ?fs = "(hFiles s)[h := g (hFiles s ! h)]"
  note same = sameLocks_ok [OF assms(2)]
  have "map fileTicket ?fs = map fileTicket (hFiles s)" "map ofUnlock ?fs = map ofUnlock (hFiles s)"
    using same True by (simp_all add: map_update list_update_same_conv)
  then have tick: "openTickets ?fs = openTickets (hFiles s)" "length (filter ofUnlock ?fs) = length (filter ofUnlock (hFiles s))"
    unfolding openTickets_def length_filter_map [of ofUnlock] by (simp_all only:)
  have "fileOk f" if "f \<in> set ?fs" for f
    using that assms(1) same(2) True set_update_subset_insert [of "hFiles s" h] by (auto simp: handlesOk_def)
  moreover have "ofReleased (?fs ! i) = ofReleased (hFiles s ! i)" "ofRelative (?fs ! i) = ofRelative (hFiles s ! i)" for i
    using assms(2) True by (cases "i = h"; simp add: sameLocks_def)+
  moreover have "lockView (updFile h g s) = lockView s" by (simp add: lockView_def updFile_def)
  ultimately show ?thesis
    using assms(1) tick lockInv_view [of "updFile h g s" s]
    by (simp add: handlesOk_def registered_def openHandlesOf_def) (simp add: updFile_def)
qed (use assms in \<open>simp add: updFile_def list_update_beyond\<close>)

lemma wp_updFileI:
  assumes "handlesOk T n w s" "sameLocks (g (hFiles s ! h)) (hFiles s ! h)"
    "\<And>t. handlesOk T n w t \<Longrightarrow> hFiles t = (hFiles s)[h := g (hFiles s ! h)] \<Longrightarrow> Q () t"
  shows "wp (modify (updFile h g)) Q s"
  unfolding wp_modify by (rule assms(3)) (use handlesOk_updFile [OF assms(1), of g h, OF assms(2)] in simp_all)

lemma handlesOk_tickd [simp]: "handlesOk T n w (tickd s) = handlesOk T n w s"
  by (rule handlesOk_more) (simp add: tickd_def)

lemma wp_writeHandle_inv:
  assumes "handleInv s"
  shows "wp (writeHandle workaround h data offset) (\<lambda>_. handleInv) s"
proof -
  have leave: "wp (writeLeave h) (\<lambda>_. handleInv) t" if "handleInv t" for t :: "'a handles_scheme"
    unfolding writeLeave_def by (rule wp_updFileI [OF that]) simp_all
  have "wp (writeLocked workaround h b data offset) (\<lambda>_. handleInv) t" if t: "handleInv t" for b and t :: "'a handles_scheme"
    unfolding writeLocked_def wp_bind wp_gets wp_if wp_return wp_Let wp_case_prod
    by (auto simp: wp timeNow_def wp_def [of "State _"] t Let_def split: prod.splits intro!: handlesOk_updFile)
  then have "wp (writeLocked workaround h b data offset) (\<lambda>r. wp (writeLeave h) (\<lambda>_. handleInv)) t"
    if "handleInv t" for b and t :: "'a handles_scheme"
    using that leave by (blast intro: wp_mono)
  moreover have "handleInv (updFile h (\<lambda>f. f\<lparr>ofPendingWrites := ofPendingWrites f + 1\<rparr>) s)"
    by (rule handlesOk_updFile [OF assms]) simp
  ultimately show ?thesis
    unfolding writeHandle_def wp_bind wp_deferring writeEnter_def wp_def [of "State _"] by simp
qed

lemma wp_setHandleAttributes_inv:
  assumes "handleInv s"
  shows "wp (setHandleAttributes h input) (\<lambda>_ t. handleInv t \<and> length (hFiles t) = length (hFiles s)) s"
proof -
  let ?Q = "\<lambda>t. handleInv t \<and> length (hFiles t) = length (hFiles s)"
  have cur: "wp (currentAttributes h) (\<lambda>_. ?Q) t" if "?Q t" for t :: "'a handles_scheme"
  proof (rule wp_moreI)
    show "keeps auth.more (currentAttributes h)"
      unfolding currentAttributes_def Let_def by (intro keeps keeps_more [OF keeps_fileAttributes])
    show "?Q u" if "auth.more u = auth.more t" for u
      using \<open>?Q t\<close> handlesOk_more [OF that] more_handles(5) [OF that] by simp
  qed
  have trunc: "wp (truncateHandle h n) (\<lambda>_. ?Q) s" for n
    unfolding truncateHandle_def wp_bind timeNow_def wp_def [of "State _"]
    by (simp add: wp_modify) (use assms in \<open>auto intro!: handlesOk_updFile\<close>)
  have fin: "wp (modify (updFile h (\<lambda>f. f\<lparr>
      ofMeta := setTimes (saModifyTime input) (saAccessTime input) (setMode (saMode input) (ofMeta f)),
      ofDirty := (ofDirty f \<or> saMode input \<noteq> None \<or> saModifyTime input \<noteq> None \<or> saAccessTime input \<noteq> None)\<rparr>)))
      (\<lambda>_. wp (currentAttributes h) (\<lambda>_. ?Q)) t" if "?Q t" for t :: "'a handles_scheme"
    by (rule wp_updFileI [of "[]" 0 False]) (use that in \<open>auto intro!: cur\<close>)
  have "wp (case saSize input of None \<Rightarrow> ret () | Some n \<Rightarrow> truncateHandle h n) (\<lambda>_. ?Q) s"
    using trunc assms by (simp add: wp split: option.splits)
  note body = wp_mono [OF this fin]
  show ?thesis
    unfolding setHandleAttributes_def wp_bind wp_gets wp_if wp_return by (simp only: assms body if_cancel simp_thms)
qed

section \<open>Flushing and closing\<close>

lemma openFile_lock:
  assumes "handlesOk T n w s" "h < length (hFiles s)" "\<not> ofReleased (hFiles s ! h)"
  obtains e ww where "ofUnlockPath (hFiles s ! h) = Some (metadataKey (ofRelative (hFiles s ! h)), e, ww)"
    "ofWritable (hFiles s ! h) \<longrightarrow> ww" "ofUnlock (hFiles s ! h) = ofWritable (hFiles s ! h)"
proof -
  have "fileOk (hFiles s ! h)" using assms(1,2) by (simp add: handlesOk_def)
  then show ?thesis using that assms(3) by (auto simp: fileOk_def)
qed

lemma wp_flushLocked_inv:
  assumes ok: "handleInv s" and h: "h < length (hFiles s)" "\<not> ofReleased (hFiles s ! h)"
    and Q: "\<And>r t. handleInv t \<Longrightarrow> length (hFiles t) = length (hFiles s) \<Longrightarrow> sameLocks (hFiles t ! h) (hFiles s ! h) \<Longrightarrow> Q r t"
  shows "wp (flushLocked A h) Q s"
proof -
  let ?f = "hFiles s ! h"
  obtain u where u: "ofUnlockPath ?f = Some u" using openFile_lock [OF ok h] by metis
  have "wp (andThen (persistFile A (ofRelative ?f) (ofData ?f) (ofMeta ?f)) (\<lambda>_. State_Monad.bind
      (modify (updFile h (\<lambda>f. f\<lparr>ofMeta := (ofMeta f)\<lparr>Size := of_nat (length (ofData f))\<rparr>, ofDirty := False\<rparr>))) (\<lambda>_. ret (Inr ())))) Q s"
  proof (rule wp_andThenI, rule wp_moreI [OF keeps_filesMore(3)])
    fix r and t :: "'a handles_scheme"
    assume m: "auth.more t = auth.more s"
    note t = handlesOk_more [OF m] more_handles(5) [OF m]
    have upd: "wp (modify (updFile h (\<lambda>f. f\<lparr>ofMeta := (ofMeta f)\<lparr>Size := of_nat (length (ofData f))\<rparr>, ofDirty := False\<rparr>)))
        (\<lambda>_. Q (Inr ())) t"
      by (rule wp_updFileI [of "[]" 0 False]) (use ok t h Q in auto)
    have "sameLocks (hFiles s ! h) (hFiles s ! h)" by (simp add: sameLocks_def)
    then have "Q (Inl e) t" for e using Q [of t] ok t by simp
    then show "case r of Inl e \<Rightarrow> Q (Inl e) t | Inr a \<Rightarrow> wp (State_Monad.bind
        (modify (updFile h (\<lambda>f. f\<lparr>ofMeta := (ofMeta f)\<lparr>Size := of_nat (length (ofData f))\<rparr>, ofDirty := False\<rparr>))) (\<lambda>_. ret (Inr ()))) Q t"
      using upd by (simp add: wp split: sum.splits)
  qed
  moreover have "Q (Inr ()) s" by (rule Q) (use ok in \<open>simp_all add: sameLocks_def\<close>)
  ultimately show ?thesis unfolding flushLocked_def wp_bind wp_gets wp_if Let_def u option.case wp_return by simp
qed

lemma wp_flushHandle_inv:
  assumes "handleInv s" "h < length (hFiles s)"
  shows "wp (flushHandle A h) (\<lambda>_ t. handleInv t \<and> length (hFiles t) = length (hFiles s)) s"
proof -
  have "wp (flushLocked A h) (\<lambda>_ t. handleInv t \<and> length (hFiles t) = length (hFiles s)) s" if "\<not> ofReleased (hFiles s ! h)"
    by (rule wp_flushLocked_inv [OF assms that]) simp
  then show ?thesis using assms by (simp add: flushHandle_def wp)
qed

text \<open>A handle that is marked as released and leaves the registry gives its locks to the caller.\<close>

lemma handlesOk_release:
  assumes ok: "handleInv s" and h: "h < length (hFiles s)" "\<not> ofReleased (hFiles s ! h)"
    and u: "ofUnlockPath (hFiles s ! h) = Some u"
    and run: "run_state (unregisterOpenHandle h) (updFile h releasedFile s) = (r, t)"
  shows "handlesOk [heldBy u] (if ofUnlock (hFiles s ! h) then 1 else 0) False t"
    "length (hFiles t) = length (hFiles s)" "hFiles t ! h = releasedFile (hFiles s ! h)"
    "\<forall>i. i \<noteq> h \<longrightarrow> hFiles t ! i = hFiles s ! i"
proof -
  let ?fs = "hFiles s" and ?f = "hFiles s ! h" and ?key = "metadataKey (ofRelative (hFiles s ! h))"
  let ?a = "take h ?fs" and ?b = "drop (Suc h) ?fs"
  have fs: "?fs = ?a @ ?f # ?b" by (rule id_take_nth_drop [OF h(1)])
  have fs': "hFiles t = ?a @ releasedFile ?f # ?b"
    using run h(1) by (auto simp: unregisterOpenHandle_def modify_def Let_def upd_conv_take_nth_drop)
  have frame: "lTable t = lTable s" "lEntries t = lEntries s" "lNamespace t = lNamespace s"
    using run by (auto simp: unregisterOpenHandle_def modify_def Let_def updFile_def)
  have upd: "hFiles t = ?fs[h := releasedFile ?f]" using fs' h(1) by (simp add: upd_conv_take_nth_drop)
  then show "length (hFiles t) = length ?fs" "hFiles t ! h = releasedFile ?f" "\<forall>i. i \<noteq> h \<longrightarrow> hFiles t ! i = ?fs ! i"
    using h(1) by simp_all
  have tick: "fileTicket ?f = [heldBy u]" "fileTicket (releasedFile ?f) = []"
    using u by (simp_all add: fileTicket_def releasedFile_def)
  have "lockInv (s, openTickets (?a @ ?f # ?b))" using ok fs by (simp add: handlesOk_def)
  then have "lockInv (s, [heldBy u] @ openTickets (hFiles t))" unfolding fs' using tick by (simp add: lockInv_move)
  then have 1: "lockInv (t, [heldBy u] @ openTickets (hFiles t))" using frame lockInv_view [of t s] by (simp add: lockView_def)
  have "rwReaders (lNamespace s) = length (filter ofUnlock (?a @ ?f # ?b))" "rwWriter (lNamespace s) = False"
    using ok fs by (simp_all add: handlesOk_def)
  then have 2: "lNamespace t = \<lparr>rwReaders = (if ofUnlock ?f then 1 else 0) + length (filter ofUnlock (hFiles t)), rwWriter = False\<rparr>"
    unfolding fs' frame by (simp add: releasedFile_def)
  have 3: "fileOk f" if "f \<in> set (hFiles t)" for f
  proof -
    have "f = releasedFile ?f \<or> f \<in> set ?fs" using that set_update_subset_insert [of ?fs h] upd by auto
    then show ?thesis using ok by (auto simp: handlesOk_def fileOk_def releasedFile_def)
  qed
  have reg: "mhas (openHandlesOf key t) i \<longleftrightarrow> mhas (openHandlesOf key s) i \<and> \<not> (key = ?key \<and> i = h)" for key i
  proof -
    have rel: "ofRelative (releasedFile ?f) = ofRelative ?f" by (simp add: releasedFile_def)
    have same: "openHandlesOf k (updFile h releasedFile s) = openHandlesOf k s" for k by (simp add: openHandlesOf_def updFile_def)
    let ?left = "mdel h (openHandlesOf ?key s)"
    have t: "hOpen t = (if ?left = [] then mdel ?key (hOpen s) else mset_key ?key ?left (hOpen s))"
      using run h(1) rel same by (auto simp: unregisterOpenHandle_def modify_def Let_def updFile_def openHandlesOf_def)
    have "openHandlesOf key t = (if key = ?key then ?left else openHandlesOf key s)"
      unfolding openHandlesOf_def t by auto
    then show ?thesis by auto
  qed
  have "registered t"
    unfolding registered_def
  proof (intro allI)
    fix key i
    show "mhas (openHandlesOf key t) i \<longleftrightarrow> i < length (hFiles t) \<and> \<not> ofReleased (hFiles t ! i) \<and> key = metadataKey (ofRelative (hFiles t ! i))"
      using reg [of key i] ok upd h by (cases "i = h") (auto simp: handlesOk_def registered_def releasedFile_def)
  qed
  with 1 2 3 show "handlesOk [heldBy u] (if ofUnlock ?f then 1 else 0) False t" by (simp add: handlesOk_def)
qed

lemma wp_closeHandle_inv:
  assumes ok: "handleInv s" and h: "h < length (hFiles s)"
    and Q: "\<And>r t. handleInv t \<Longrightarrow> length (hFiles t) = length (hFiles s) \<Longrightarrow> ofReleased (hFiles t ! h) \<Longrightarrow> Q r t"
  shows "wp (closeHandle A h) Q s"
proof (cases "ofReleased (hFiles s ! h)")
  case True
  then show ?thesis using Q [OF ok refl] by (simp add: closeHandle_def wp)
next
  case False
  have "wp (flushLocked A h) (\<lambda>r t. wp (modify (updFile h releasedFile)) (\<lambda>_. wp (unregisterOpenHandle h) (\<lambda>_.
      wp (case ofUnlockPath (hFiles t ! h) of Some u \<Rightarrow> releasePathLock u | None \<Rightarrow> ret ()) (\<lambda>_.
      wp (if ofUnlock (hFiles t ! h) then unlockNamespace False else ret ()) (\<lambda>_. Q (errnoFromError (errOf r)))))) t) s"
  proof (rule wp_flushLocked_inv [OF ok h False], goal_cases)
    case (1 r t)
    then have t: "h < length (hFiles t)" "\<not> ofReleased (hFiles t ! h)" using h False by (simp_all add: sameLocks_def)
    obtain u where u: "ofUnlockPath (hFiles t ! h) = Some u" using openFile_lock [OF 1(1) t] by metis
    obtain x v where v: "run_state (unregisterOpenHandle h) (updFile h releasedFile t) = (x, v)" by (meson old.prod.exhaust)
    note rel = handlesOk_release [OF 1(1) t u v]
    have "wp (releasePathLock u) (\<lambda>_. wp (if ofUnlock (hFiles t ! h) then unlockNamespace False else ret ())
        (\<lambda>_. Q (errnoFromError (errOf r)))) v"
    proof (rule wp_releasePathLockI [OF rel(1)])
      fix y :: "'a handles_scheme"
      assume y: "handlesOk [] (if ofUnlock (hFiles t ! h) then 1 else 0) False y" "hFiles y = hFiles v"
      have fin: "Q z a" if "handleInv a" "hFiles a = hFiles y" for z and a :: "'a handles_scheme"
        by (rule Q [OF that(1)]) (use that y(2) rel(2,3) 1(2) in \<open>simp_all add: releasedFile_def\<close>)
      have "wp (unlockNamespace False) (\<lambda>_. Q (errnoFromError (errOf r))) y" if "ofUnlock (hFiles t ! h)"
        by (rule wp_unlockNamespaceI [where T = "[]" and n = 0]) (use that y fin in simp_all)
      then show "wp (if ofUnlock (hFiles t ! h) then unlockNamespace False else ret ()) (\<lambda>_. Q (errnoFromError (errOf r))) y"
        using y fin by (cases "ofUnlock (hFiles t ! h)") (simp_all add: wp)
    qed
    then show ?case unfolding u option.case wp_modify wp_def [of "unregisterOpenHandle h"] v prod.case .
  qed
  then show ?thesis unfolding closeHandle_def wp_bind wp_gets wp_if wp_return using False by simp
qed

section \<open>Operations of the file system\<close>

text \<open>Removal is refused while a file is open for writing.\<close>

definition removalSafe :: "'z handles_scheme \<Rightarrow> bool \<Rightarrow> 'z handles_scheme \<Rightarrow> bool" where
  "removalSafe s busy t \<longleftrightarrow> handleInv t \<and> hFiles t = hFiles s \<and>
     (filter ofUnlock (hFiles s) \<noteq> [] \<longrightarrow> busy \<and> t = s)"

lemma removalSafeI: "handleInv t \<Longrightarrow> hFiles t = hFiles s \<Longrightarrow> filter ofUnlock (hFiles s) = [] \<Longrightarrow> removalSafe s b t"
  by (simp add: removalSafe_def)

lemma wp_removeProtectedFile:
  assumes ok: "handleInv s"
  shows "wp (removeProtectedFile relative) (\<lambda>r. removalSafe s (r = Inl (Errno EBUSY))) s"
  unfolding removeProtectedFile_def wp_bind
proof (rule wp_tryNamespaceI [OF ok], goal_cases)
  case (1 t)
  let ?Q = "\<lambda>r. wp (unlockNamespace True) (\<lambda>_. removalSafe s (r = Inl (Errno EBUSY)))"
  have fin: "?Q r v" if "handlesOk [] 0 True v" "hFiles v = hFiles s" for r :: "unit res" and v
    by (rule wp_unlockNamespaceI [where T = "[]" and n = 0]) (use that 1 in \<open>simp_all add: removalSafeI\<close>)
  have body: "wp (removeProtectedFileLocked relative) (\<lambda>r. wp (releasePathLock u) (\<lambda>_. ?Q r)) v"
    if v: "handlesOk [heldBy u] 0 True v" "hFiles v = hFiles s" for u v
  proof (rule wp_moreI [OF keeps_filesMore(4)], rule wp_releasePathLockI)
    fix x :: "'a handles_scheme"
    assume x: "auth.more x = auth.more v"
    then show "handlesOk [heldBy u] 0 True x" using v handlesOk_more by blast
    show "?Q r y" if "handlesOk [] 0 True y" "hFiles y = hFiles x" for r :: "unit res" and y :: "'a handles_scheme"
      by (rule fin) (use that v more_handles(5) [OF x] in simp_all)
  qed
  have "wp (tryPathLock relative True) (\<lambda>a. wp (case a of None \<Rightarrow> ret (Inl (Errno EBUSY))
      | Some u \<Rightarrow> deferring (releasePathLock u) (removeProtectedFileLocked relative)) ?Q) t"
    by (rule wp_tryPathLockI [where T = "[]" and n = 0 and w = True])
      (use 1 fin [of _ "Inl (Errno EBUSY)"] body in \<open>simp_all add: wp\<close>)
  then show ?case by (simp add: wp_deferring wp_bind wp_if)
next
  case 2
  then show ?case using ok by (simp add: wp removalSafe_def)
qed

lemma wp_Unlink:
  assumes ok: "handleInv s"
  shows "wp (Unlink parent name) (\<lambda>r t. handleInv t \<and> hFiles t = hFiles s \<and>
    (filter ofUnlock (hFiles s) \<noteq> [] \<longrightarrow> r \<in> {Inl EINVAL, Inl EPERM, Inl EBUSY} \<and> t = s)) s"
proof -
  let ?P = "\<lambda>r t. handleInv t \<and> hFiles t = hFiles s \<and>
    (filter ofUnlock (hFiles s) \<noteq> [] \<longrightarrow> r \<in> {Inl EINVAL, Inl EPERM, Inl EBUSY} \<and> t = s)"
  have "wp tryNamespaceLock (\<lambda>a. wp (if \<not> a then ret (Inl EBUSY)
      else deferring (unlockNamespace True) (thenDo (withErrno (virtualType storage)) (\<lambda>(isDirectory, _).
        if isDirectory then ret (Inl EISDIR) else withErrno (removeProtectedFileLocked storage)))) ?P) s" for storage
  proof (rule wp_tryNamespaceI [OF ok], goal_cases)
    case (1 t)
    have "wp (thenDo (withErrno (virtualType storage)) (\<lambda>(isDirectory, _).
        if isDirectory then ret (Inl EISDIR) else withErrno (removeProtectedFileLocked storage)))
        (\<lambda>r. wp (unlockNamespace True) (\<lambda>_. ?P r)) t"
    proof (rule wp_moreI)
      show "keeps auth.more (thenDo (withErrno (virtualType storage)) (\<lambda>(isDirectory, _).
          if isDirectory then ret (Inl EISDIR) else withErrno (removeProtectedFileLocked storage)))"
        by (intro keeps)
      show "wp (unlockNamespace True) (\<lambda>_. ?P r) v" if v: "auth.more v = auth.more t" for r v
        by (rule wp_unlockNamespaceI [where T = "[]" and n = 0])
          (use 1 handlesOk_more [OF v] more_handles(5) [OF v] in simp_all)
    qed
    then show ?case by (simp add: wp_deferring)
  qed (use ok in \<open>simp add: wp\<close>)
  then show ?thesis using ok by (auto simp: Unlink_def wp Let_def split: sum.splits)
qed

lemma pathFree_more: "auth.more t = auth.more s \<Longrightarrow> pathFree r w t = pathFree r w (s :: 'z handles_scheme)"
  using more_handles(1,2) [of t s] by (simp add: pathFree_def cong: option.case_cong)

abbreviation grows :: "'z handles_scheme \<Rightarrow> 'z handles_scheme \<Rightarrow> bool" where
  "grows s t \<equiv> handleInv t \<and> length (hFiles s) \<le> length (hFiles t)"

lemma wp_thenMoreI:
  assumes "keeps auth.more m" "\<And>e t. auth.more t = auth.more s \<Longrightarrow> Q (Inl e) t"
    "\<And>a t. auth.more t = auth.more s \<Longrightarrow> wp (f a) Q t"
  shows "wp (thenDo m f) Q s"
  unfolding thenDo_def wp_bind
  by (rule wp_moreI [OF assms(1)]) (use assms(2,3) in \<open>auto simp: wp split: sum.splits\<close>)

lemma wp_Open_inv:
  assumes ok: "handleInv s" and free: "pathFree (storagePath relative) (isWritable flags) s"
  shows "wp (Open A caller relative flags) (\<lambda>_. grows s) s"
  unfolding Open_def
proof (rule wp_thenMoreI [OF keeps_lookupMore(1)])
  fix t :: "'a handles_scheme"
  assume m: "auth.more t = auth.more s"
  have t: "handleInv t" "hFiles t = hFiles s" using ok handlesOk_more [OF m] more_handles(5) [OF m] by simp_all
  then show "grows s t" by simp
  have "wp (openFile A caller (storagePath relative) flags) (\<lambda>_. grows s) t"
    by (rule wp_openFileI [OF t(1)]) (use free pathFree_more [OF m] t(2) in simp_all)
  then show "wp (if atType entry = TypeDirectory then ret (Inl EISDIR)
      else withErrno (openFile A caller (storagePath relative) flags)) (\<lambda>_. grows s) t" for entry
    using t by (simp add: wp withErrno_def)
qed

lemma grows_more: "handleInv s \<Longrightarrow> auth.more t = auth.more s \<Longrightarrow> grows s t"
  by (simp add: handlesOk_more [of t s] more_handles(5) [of t s])

lemma wp_Create_inv:
  assumes ok: "handleInv s" and free: "\<And>relative. childPath parent name = Inr relative \<Longrightarrow> pathFree (storagePath relative) True s"
  shows "wp (Create A caller parent name flags mode) (\<lambda>_. grows s) s"
proof -
  have create: "wp (thenDo (withErrno (createFile A caller (storagePath relative) flags mode)) (\<lambda>h. State_Monad.bind (handleAttributes h)
      (\<lambda>r. case r of Inl e \<Rightarrow> State_Monad.bind (closeHandle A h) (\<lambda>_. ret (Inl e)) | Inr attributes \<Rightarrow> ret (Inr (g attributes, h)))))
      (\<lambda>_. grows s) t" if t: "auth.more t = auth.more s" and rel: "childPath parent name = Inr relative"
    for relative t and g :: "Attributes \<Rightarrow> Attributes"
  proof -
    have inv: "handleInv t" "hFiles t = hFiles s" using ok handlesOk_more [OF t] more_handles(5) [OF t] by simp_all
    have fin: "wp (handleAttributes h) (\<lambda>r. wp (case r of Inl e \<Rightarrow> State_Monad.bind (closeHandle A h) (\<lambda>_. ret (Inl e))
        | Inr attributes \<Rightarrow> ret (Inr (g attributes, h))) (\<lambda>_. grows s)) v"
      if v: "handleInv v" "h < length (hFiles v)" "length (hFiles s) \<le> length (hFiles v)" for h and v :: "'a handles_scheme"
    proof (rule wp_moreI)
      show "keeps auth.more (handleAttributes h)"
        unfolding handleAttributes_def currentAttributes_def Let_def by (intro keeps keeps_more [OF keeps_fileAttributes])
      fix r :: "errno + Attributes" and x :: "'a handles_scheme"
      assume x: "auth.more x = auth.more v"
      have xi: "handleInv x" "hFiles x = hFiles v" using v(1) handlesOk_more [OF x] more_handles(5) [OF x] by simp_all
      have "wp (closeHandle A h) (\<lambda>_. grows s) x" by (rule wp_closeHandle_inv [OF xi(1)]) (use v xi in simp_all)
      then show "wp (case r of Inl e \<Rightarrow> State_Monad.bind (closeHandle A h) (\<lambda>_. ret (Inl e))
          | Inr attributes \<Rightarrow> ret (Inr (g attributes, h))) (\<lambda>_. grows s) x"
        using v xi by (simp add: wp split: sum.splits)
    qed
    have "wp (createFile A caller (storagePath relative) flags mode) (\<lambda>r t. case r of Inl e \<Rightarrow> grows s t
        | Inr h \<Rightarrow> handleInv t \<and> h < length (hFiles t) \<and> length (hFiles s) \<le> length (hFiles t)) t"
      by (rule wp_createFileI [OF inv(1)]) (use free [OF rel] pathFree_more [OF t] inv(2) in simp_all)
    then show ?thesis
      unfolding thenDo_def withErrno_def wp_bind wp_return
    proof (rule wp_mono)
      fix r :: "nat res" and x :: "'a handles_scheme"
      assume "case r of Inl e \<Rightarrow> grows s x
        | Inr h \<Rightarrow> handleInv x \<and> h < length (hFiles x) \<and> length (hFiles s) \<le> length (hFiles x)"
      then show "wp (case case r of Inl e \<Rightarrow> Inl (errnoOf e) | Inr a \<Rightarrow> Inr a of Inl e \<Rightarrow> ret (Inl e) | Inr h \<Rightarrow>
          State_Monad.bind (handleAttributes h) (\<lambda>r. case r of Inl e \<Rightarrow> State_Monad.bind (closeHandle A h) (\<lambda>_. ret (Inl e))
            | Inr attributes \<Rightarrow> ret (Inr (g attributes, h)))) (\<lambda>_. grows s) x"
        using fin [of x] by (cases r) (simp_all add: wp_bind wp_return)
    qed
  qed
  show ?thesis
  proof (cases "childPath parent name")
    case (Inr relative)
    have "wp (thenDo (Lookup parent) (\<lambda>parentEntry.
        if atType parentEntry \<noteq> TypeDirectory then ret (Inl ENOTDIR)
        else if isReservedFilesystemMetadataPath relative then ret (Inl EPERM)
        else thenDo (withErrno (createFile A caller (storagePath relative) flags mode)) (\<lambda>h. State_Monad.bind (handleAttributes h)
          (\<lambda>r. case r of Inl e \<Rightarrow> State_Monad.bind (closeHandle A h) (\<lambda>_. ret (Inl e))
            | Inr attributes \<Rightarrow> ret (Inr (attributes\<lparr>atParentInode := atInode parentEntry\<rparr>, h)))))) (\<lambda>_. grows s) s"
      by (rule wp_thenMoreI [OF keeps_lookupMore(1)])
        (use create [OF _ Inr] in \<open>auto simp: wp_if wp_return dest: grows_more [OF ok]\<close>)
    then show ?thesis using ok unfolding Create_def Inr sum.case by (cases "normalizeObjectID name") (simp_all add: wp_return wp_if)
  next
    case (Inl e)
    have "wp (thenDo (Lookup parent) (\<lambda>parentEntry. if atType parentEntry \<noteq> TypeDirectory then ret (Inl ENOTDIR) else ret (Inl EINVAL)))
        (\<lambda>_ :: errno + (Attributes \<times> nat). grows s) s"
      by (rule wp_thenMoreI [OF keeps_lookupMore(1)]) (auto simp: wp_if wp_return dest: grows_more [OF ok])
    then show ?thesis using ok unfolding Create_def Inl sum.case by (cases "normalizeObjectID name") (simp_all add: wp_return wp_if)
  qed
qed

lemma keeps_writableOpenHandle: "keeps auth.more (writableOpenHandle r p)"
proof -
  have "keeps auth.more (relatedHandle p xs)" for xs
    by (induction p xs rule: relatedHandle.induct) (auto intro!: keeps)
  then show ?thesis unfolding writableOpenHandle_def by (intro keeps)
qed

lemma wp_truncateByPath_inv:
  assumes ok: "handleInv s" and free: "pathFree storage True s"
  shows "wp (truncateByPath A caller storage input) (\<lambda>_. grows s) s"
proof -
  have wr: "isWritable O_RDWR" by (simp add: isWritable_def O_RDWR_def O_ACCMODE_def)
  have close: "wp (closeHandle A h) (\<lambda>_. grows s) v" if "handleInv v" "h < length (hFiles v)" "length (hFiles s) \<le> length (hFiles v)"
    for h and v :: "'a handles_scheme"
    by (rule wp_closeHandle_inv [OF that(1,2)]) (use that in simp)
  have flush: "wp (flushHandle A h) (\<lambda>_. wp (closeHandle A h) (\<lambda>_. grows s)) v"
    if "handleInv v" "h < length (hFiles v)" "length (hFiles s) \<le> length (hFiles v)" for h and v :: "'a handles_scheme"
    by (rule wp_mono [OF wp_flushHandle_inv [OF that(1,2)]]) (use that in \<open>auto intro: close\<close>)
  have "wp (openFile A caller storage O_RDWR) (\<lambda>r t. case r of Inl e \<Rightarrow> grows s t
      | Inr h \<Rightarrow> handleInv t \<and> h < length (hFiles t) \<and> length (hFiles s) \<le> length (hFiles t)) s"
    by (rule wp_openFileI [OF ok]) (use free wr in simp_all)
  then show ?thesis
    unfolding truncateByPath_def thenDo_def withErrno_def wp_bind wp_return
  proof (rule wp_mono)
    fix r :: "nat res" and t :: "'a handles_scheme"
    assume t: "case r of Inl e \<Rightarrow> grows s t | Inr h \<Rightarrow> handleInv t \<and> h < length (hFiles t) \<and> length (hFiles s) \<le> length (hFiles t)"
    have "wp (setHandleAttributes h input) (\<lambda>r. wp (case r of Inl e \<Rightarrow> ret (Inl e)
        | Inr attributes \<Rightarrow> State_Monad.bind (flushHandle A h) (\<lambda>flushed. ret (case flushed of None \<Rightarrow> Inr attributes | Some e \<Rightarrow> Inl e)))
        (\<lambda>_. wp (closeHandle A h) (\<lambda>_. grows s))) t" if "r = Inr h" for h
      by (rule wp_mono [OF wp_setHandleAttributes_inv])
        (use t that close flush in \<open>auto simp: wp split: sum.splits\<close>)
    then show "wp (case case r of Inl e \<Rightarrow> Inl (errnoOf e) | Inr a \<Rightarrow> Inr a of Inl e \<Rightarrow> ret (Inl e) | Inr h \<Rightarrow>
        State_Monad.bind (setHandleAttributes h input) (\<lambda>r. State_Monad.bind (case r of Inl e \<Rightarrow> ret (Inl e)
        | Inr attributes \<Rightarrow> State_Monad.bind (flushHandle A h) (\<lambda>flushed. ret (case flushed of None \<Rightarrow> Inr attributes | Some e \<Rightarrow> Inl e)))
        (\<lambda>result. State_Monad.bind (closeHandle A h) (\<lambda>_. ret result)))) (\<lambda>_. grows s) t"
      using t by (cases r) (simp_all add: wp)
  qed
qed

lemma wp_setMetaByPath_inv:
  assumes ok: "handleInv s" and free: "pathFree storage True s"
  shows "wp (acquireOpenLock storage True) (\<lambda>unlock. wp (withErrno (setMetaByPath storage input))
    (\<lambda>_. wp (releaseOpenLock unlock) (\<lambda>_. grows s))) s"
  unfolding acquireOpenLock_def wp_bind
proof (rule wp_lockNamespaceI [OF ok])
  fix t :: "'a handles_scheme"
  assume t: "handlesOk [] (if False then 0 else Suc 0) False t" "hFiles t = hFiles s" "lockView t = lockView s"
  have free': "pathFree storage True t" using free t(3) by (simp add: pathFree_def lockView_def split: option.splits)
  have t1: "handlesOk [] 1 False t" using t(1) by simp
  show "wp (acquirePathLock storage True) (\<lambda>unlock. wp (withErrno (setMetaByPath storage input))
      (\<lambda>_. wp (releaseOpenLock unlock) (\<lambda>_. grows s))) t"
  proof (rule wp_acquirePathLockI [OF t1 free'], rule wp_moreI)
    show "keeps auth.more (withErrno (setMetaByPath storage input))" by (intro keeps)
    fix e :: nat and v x :: "'a handles_scheme"
    let ?u = "(metadataKey storage, e, True)"
    assume "handlesOk [heldBy ?u] 1 False v" "hFiles v = hFiles t" and x: "auth.more x = auth.more v"
    then have xi: "handlesOk [heldBy ?u] 1 False x" "hFiles x = hFiles s"
      using handlesOk_more [OF x] more_handles(5) [OF x] t(2) by simp_all
    show "wp (releaseOpenLock ?u) (\<lambda>_. grows s) x"
      unfolding releaseOpenLock_def wp_bind
      by (rule wp_releasePathLockI [OF xi(1)], rule wp_unlockNamespaceI [where T = "[]" and n = 0]) (use xi(2) in simp_all)
  qed
qed simp

lemma wp_SetAttributes_inv:
  assumes ok: "handleInv s" and free: "pathFree (storagePath relative) True s"
  shows "wp (SetAttributes A caller relative handle input) (\<lambda>_. grows s) s"
proof -
  have set: "wp (setHandleAttributes h input) (\<lambda>_. grows s) t" if "handleInv t" "hFiles t = hFiles s" for h and t :: "'a handles_scheme"
    by (rule wp_mono [OF wp_setHandleAttributes_inv [OF that(1)]]) (use that in simp)
  have inv: "handleInv t" "hFiles t = hFiles s" "pathFree (storagePath relative) True t" if "auth.more t = auth.more s" for t :: "'a handles_scheme"
    using ok free handlesOk_more [OF that] more_handles(5) [OF that] pathFree_more [OF that] by simp_all
  have dir: "wp (thenDo (withErrno (setDirectoryAttributes (storagePath relative) input)) (\<lambda>_. GetAttributes relative None)) (\<lambda>_. grows s) t"
    if m: "auth.more t = auth.more s" for t :: "'a handles_scheme"
  proof (rule wp_moreI)
    show "keeps auth.more (thenDo (withErrno (setDirectoryAttributes (storagePath relative) input)) (\<lambda>_. GetAttributes relative None) :: ('a handles_scheme, _) state)"
      unfolding GetAttributes_def option.case by (intro keeps)
    show "grows s v" if "auth.more v = auth.more t" for v :: "'a handles_scheme" using inv [of v] that m by simp
  qed
  have trunc: "wp (truncateByPath A caller (storagePath relative) input) (\<lambda>_. grows s) t"
    and meta: "wp (acquireOpenLock (storagePath relative) True) (\<lambda>unlock. wp (withErrno (setMetaByPath (storagePath relative) input))
      (\<lambda>_. wp (releaseOpenLock unlock) (\<lambda>_. grows s))) t" if m: "auth.more t = auth.more s" for t :: "'a handles_scheme"
    using wp_truncateByPath_inv [OF inv(1,3) [OF m]] wp_setMetaByPath_inv [OF inv(1,3) [OF m]] inv(2) [OF m] by simp_all
  have regular: "wp (callerPID caller) (\<lambda>ownerPID. wp (writableOpenHandle (storagePath relative) ownerPID) (\<lambda>openHandle.
      wp (case openHandle of Some h \<Rightarrow> setHandleAttributes h input
        | None \<Rightarrow> if saSize input \<noteq> None then truncateByPath A caller (storagePath relative) input
          else State_Monad.bind (acquireOpenLock (storagePath relative) True) (\<lambda>unlock.
            deferring (releaseOpenLock unlock) (withErrno (setMetaByPath (storagePath relative) input)))) (\<lambda>_. grows s))) t"
    if m: "auth.more t = auth.more s" for t :: "'a handles_scheme"
  proof (rule wp_moreI, (intro keeps), rule wp_moreI [OF keeps_writableOpenHandle], goal_cases)
    case (1 r v openHandle x)
    then have x: "auth.more x = auth.more s" using m by simp
    show ?case using set [OF inv(1,2) [OF x]] trunc [OF x] meta [OF x] by (auto simp: wp split: option.splits)
  qed
  have "wp (thenDo (Lookup relative) (\<lambda>entry.
      if atType entry = TypeDirectory
      then thenDo (withErrno (setDirectoryAttributes (storagePath relative) input)) (\<lambda>_. GetAttributes relative None)
      else State_Monad.bind (callerPID caller) (\<lambda>ownerPID. State_Monad.bind (writableOpenHandle (storagePath relative) ownerPID) (\<lambda>openHandle.
        case openHandle of Some h \<Rightarrow> setHandleAttributes h input
        | None \<Rightarrow> if saSize input \<noteq> None then truncateByPath A caller (storagePath relative) input
          else State_Monad.bind (acquireOpenLock (storagePath relative) True) (\<lambda>unlock.
            deferring (releaseOpenLock unlock) (withErrno (setMetaByPath (storagePath relative) input))))))) (\<lambda>_. grows s) s"
    by (rule wp_thenMoreI [OF keeps_lookupMore(1)], erule grows_more [OF ok], unfold wp_if wp_bind)
      (simp only: dir regular if_cancel)
  then have "wp (SetAttributesByPath A caller relative input) (\<lambda>_. grows s) s"
    using ok unfolding SetAttributesByPath_def Let_def wp_bind wp_gets wp_if wp_return by (simp del: not_None_eq)
  then show ?thesis using set [OF ok refl] by (simp add: SetAttributes_def split: option.splits)
qed

section \<open>The machine\<close>

text \<open>
  The operations of mounted file systems and open handles, one at a time. An operation that would
  wait for a path lock makes no step until the lock is free; \<open>fs_outside\<close> stands for everything
  that works below handles and locks: lookups, session commands, expiry timers, metadata flushes.
\<close>

inductive fsStep :: "'y agekeys_scheme \<Rightarrow> bool \<Rightarrow> 'z handles_scheme \<Rightarrow> string \<Rightarrow> 'z handles_scheme \<Rightarrow> bool"
  for A workaround where
  fs_open: "pathFree (storagePath relative) (isWritable flags) s \<Longrightarrow>
    run_state (Open A caller relative flags) s = (r, t) \<Longrightarrow> fsStep A workaround s ''open'' t"
| fs_create: "(\<And>relative. childPath parent name = Inr relative \<Longrightarrow> pathFree (storagePath relative) True s) \<Longrightarrow>
    run_state (Create A caller parent name flags mode) s = (r, t) \<Longrightarrow> fsStep A workaround s ''create'' t"
| fs_read: "run_state (readHandle h n offset) s = (r, t) \<Longrightarrow> fsStep A workaround s ''read'' t"
| fs_write: "h < length (hFiles s) \<Longrightarrow> run_state (writeHandle workaround h data offset) s = (r, t) \<Longrightarrow>
    fsStep A workaround s ''write'' t"
| fs_flush: "h < length (hFiles s) \<Longrightarrow> run_state (flushHandle A h) s = (r, t) \<Longrightarrow> fsStep A workaround s ''flush'' t"
| fs_close: "h < length (hFiles s) \<Longrightarrow> run_state (closeHandle A h) s = (r, t) \<Longrightarrow> fsStep A workaround s ''close'' t"
| fs_attributes: "pathFree (storagePath relative) True s \<Longrightarrow>
    run_state (SetAttributes A caller relative handle input) s = (r, t) \<Longrightarrow> fsStep A workaround s ''attributes'' t"
| fs_unlink: "run_state (Unlink parent name) s = (r, t) \<Longrightarrow> fsStep A workaround s ''unlink'' t"
| fs_remove: "run_state (removeProtectedFile relative) s = (r, t) \<Longrightarrow> fsStep A workaround s ''remove'' t"
| fs_outside: "auth.more t = auth.more s \<Longrightarrow> fsStep A workaround s ''outside'' t"

definition noHandles :: "'z handles_scheme \<Rightarrow> bool" where
  "noHandles s \<longleftrightarrow> lTable s = [] \<and> lNamespace s = rwIdle \<and> hOpen s = [] \<and> hFiles s = []"

lemma handleInv_step:
  assumes ok: "handleInv s" and "fsStep A workaround s e t"
  shows "handleInv t"
  using assms(2)
proof cases
  case fs_open
  then show ?thesis using wpD [OF wp_Open_inv [OF ok]] by blast
next
  case fs_create
  then show ?thesis using wpD [OF wp_Create_inv [OF ok]] by blast
next
  case (fs_read h n offset r)
  then show ?thesis using ok by (simp add: readHandle_def gets_def)
next
  case fs_write
  then show ?thesis using wpD [OF wp_writeHandle_inv [OF ok]] by blast
next
  case fs_flush
  then show ?thesis using wpD [OF wp_flushHandle_inv [OF ok]] by blast
next
  case (fs_close h r)
  have "wp (closeHandle A h) (\<lambda>_. handleInv) s" by (rule wp_closeHandle_inv [OF ok fs_close(2)])
  then show ?thesis using wpD fs_close(3) by fast
next
  case fs_attributes
  then show ?thesis using wpD [OF wp_SetAttributes_inv [OF ok]] by blast
next
  case fs_unlink
  then show ?thesis using wpD [OF wp_Unlink [OF ok]] by blast
next
  case fs_remove
  then show ?thesis using wpD [OF wp_removeProtectedFile [OF ok]] by (simp add: removalSafe_def)
next
  case fs_outside
  then show ?thesis using ok handlesOk_more by blast
qed

interpretation fsm: invariant_machine noHandles "fsStep A workaround" handleInv for A workaround
proof
  show "handleInv s" if "noHandles s" for s
    using that by (auto simp: noHandles_def handlesOk_def lockInv_def registered_def openHandlesOf_def rwIdle_def)
  show "handleInv t" if "handleInv s" "fsStep A workaround s e t" for s e t
    by (rule handleInv_step [OF that])
qed

section \<open>Consequences\<close>

lemma openTickets_nth:
  assumes "i < j" "j < length fs" "fileTicket (fs ! i) = [x]" "fileTicket (fs ! j) = [y]"
  obtains a b where "a < length (openTickets fs)" "b < length (openTickets fs)" "a \<noteq> b"
    "openTickets fs ! a = x" "openTickets fs ! b = y"
proof -
  have fs: "fs = take i fs @ fs ! i # drop (Suc i) fs" using assms by (intro id_take_nth_drop) simp
  have j: "j - Suc i < length (drop (Suc i) fs)" "drop (Suc i) fs ! (j - Suc i) = fs ! j" using assms by simp_all
  let ?d = "drop (Suc i) fs"
  have "?d = take (j - Suc i) ?d @ fs ! j # drop (Suc (j - Suc i)) ?d" using id_take_nth_drop [OF j(1)] j(2) by simp
  then have d: "openTickets ?d = openTickets (take (j - Suc i) ?d) @ y # openTickets (drop (Suc (j - Suc i)) ?d)"
    using assms(4) by (metis append_Cons append_Nil openTickets_simps(1,2))
  have t: "openTickets fs = openTickets (take i fs) @ x # openTickets ?d"
    using fs assms(3) by (metis append_Cons append_Nil openTickets_simps(1,2))
  show ?thesis
    by (rule that [of "length (openTickets (take i fs))" "Suc (length (openTickets (take i fs)) + length (openTickets (take (j - Suc i) ?d)))"])
      (simp_all add: t d nth_append)
qed

lemma writer_alone:
  assumes ok: "handleInv s" and ij: "i < length (hFiles s)" "j < length (hFiles s)" "i \<noteq> j"
    and "\<not> ofReleased (hFiles s ! i)" "\<not> ofReleased (hFiles s ! j)"
    and key: "metadataKey (ofRelative (hFiles s ! i)) = metadataKey (ofRelative (hFiles s ! j))"
  shows "\<not> ofWritable (hFiles s ! i)"
proof
  assume w: "ofWritable (hFiles s ! i)"
  have inv: "lockInv (s, openTickets (hFiles s))" using ok by (simp add: handlesOk_def)
  obtain e where i: "ofUnlockPath (hFiles s ! i) = Some (metadataKey (ofRelative (hFiles s ! i)), e, True)"
    using openFile_lock [OF ok ij(1) assms(5)] w by metis
  obtain e' ww where j: "ofUnlockPath (hFiles s ! j) = Some (metadataKey (ofRelative (hFiles s ! j)), e', ww)"
    using openFile_lock [OF ok ij(2) assms(6)] by metis
  let ?x = "heldBy (metadataKey (ofRelative (hFiles s ! i)), e, True)" and ?y = "heldBy (metadataKey (ofRelative (hFiles s ! j)), e', ww)"
  have tick: "fileTicket (hFiles s ! i) = [?x]" "fileTicket (hFiles s ! j) = [?y]" using i j by (simp_all add: fileTicket_def)
  obtain a b where ab: "a < length (openTickets (hFiles s))" "b < length (openTickets (hFiles s))" "a \<noteq> b"
    "openTickets (hFiles s) ! a = ?x" "openTickets (hFiles s) ! b = ?y"
  proof (cases "i < j")
    case True
    then show ?thesis using openTickets_nth [OF _ ij(2) tick] that by metis
  next
    case False
    then have "j < i" using ij(3) by simp
    then show ?thesis using openTickets_nth [OF _ ij(1) tick(2,1)] that by metis
  qed
  have "\<not> tkWritable ?x"
    using holders_pair [OF inv ab(1-3)] ab(4,5) key by (simp add: heldBy_def)
  then show False by (simp add: heldBy_def)
qed

lemma locks_exact:
  assumes ok: "handleInv s"
  shows "lNamespace s = \<lparr>rwReaders = length (filter (\<lambda>f. \<not> ofReleased f \<and> ofWritable f) (hFiles s)), rwWriter = False\<rparr>"
    "dom (mget (lTable s)) = (metadataKey \<circ> ofRelative) ` {f \<in> set (hFiles s). \<not> ofReleased f}"
proof -
  have ok': "fileOk f" if "f \<in> set (hFiles s)" for f using that ok by (simp add: handlesOk_def)
  have "ofUnlock f \<longleftrightarrow> \<not> ofReleased f \<and> ofWritable f" if "f \<in> set (hFiles s)" for f
    using ok' [OF that] by (auto simp: fileOk_def split: if_splits)
  then have "filter ofUnlock (hFiles s) = filter (\<lambda>f. \<not> ofReleased f \<and> ofWritable f) (hFiles s)"
    by (intro filter_cong) simp_all
  then show "lNamespace s = \<lparr>rwReaders = length (filter (\<lambda>f. \<not> ofReleased f \<and> ofWritable f) (hFiles s)), rwWriter = False\<rparr>"
    using ok by (simp add: handlesOk_def)
  have "tkKey ` set (fileTicket f) = (if ofReleased f then {} else {metadataKey (ofRelative f)})" if f: "f \<in> set (hFiles s)" for f
  proof (cases "ofReleased f")
    case True
    then show ?thesis using ok' [OF f] by (simp add: fileOk_def fileTicket_def)
  next
    case False
    then obtain e w where "ofUnlockPath f = Some (metadataKey (ofRelative f), e, w)"
      using ok' [OF f] by (auto simp: fileOk_def)
    then show ?thesis using False by (simp add: fileTicket_def heldBy_def)
  qed
  then have "tkKey ` set (openTickets (hFiles s)) = (metadataKey \<circ> ofRelative) ` {f \<in> set (hFiles s). \<not> ofReleased f}"
    unfolding openTickets_def by (auto simp: image_Union)
  then show "dom (mget (lTable s)) = (metadataKey \<circ> ofRelative) ` {f \<in> set (hFiles s). \<not> ofReleased f}"
    using ok lockInv_dom [of s "openTickets (hFiles s)"] by (simp add: handlesOk_def)
qed

section \<open>A concrete volume\<close>

definition demoObject :: string where
  "demoObject = ''7d444840-9dc0-41d1-b245-5ffdce74fad2''"

definition demoVault :: handles where
  "demoVault = demoHandles\<lparr>hFiles := [],
     osNodes := [(''/'', dirNode), (''/v'', dirNode), (''/v/objects'', dirNode),
       (''/v/objects/'' @ demoObject @ ''.age'', fileNode (ageEncrypt standInAge 0 ''age1KEY'' [1, 2, 3]))],
     vMetadata := emptyMetadata\<lparr>Files :=
       [(''objects/'' @ demoObject, \<lparr>Size = 3, Mode = mode0600, MTime = 5, ATime = 5, Inode = 7\<rparr>)]\<rparr>\<rparr>"

text \<open>The volume after process 7 opened an object for reading and writing.\<close>

definition demoOpen :: handles where
  "demoOpen = snd (run_state (Open standInAge (Some 7) (''by-id/'' @ demoObject) O_RDWR) demoVault)"

lemma demoVault_start: "noHandles demoVault"
  by (simp add: noHandles_def demoVault_def demoHandles_def demoLocks_def demoVolume_def locks.extend_def auth.extend_def
      handles.fields_def locks.fields_def)

lemma demoOpen_reachable: "reachable noHandles (fsStep standInAge False) demoOpen"
proof (rule reach_step)
  show "reachable noHandles (fsStep standInAge False) demoVault" by (rule reach_start) (rule demoVault_start)
  show "fsStep standInAge False demoVault ''open'' demoOpen"
    unfolding demoOpen_def
    by (rule fs_open [OF _ prod.collapse [symmetric]])
      (use demoVault_start in \<open>simp add: pathFree_def noHandles_def\<close>)
qed

lemma demoOpen_files:
  "map (\<lambda>f. (ofRelative f, ofWritable f, ofReleased f, ofData f)) (hFiles demoOpen) =
     [(''objects/'' @ demoObject, True, False, [1, 2, 3])]"
  by code_simp

lemma demoOpen_file:
  obtains f where "hFiles demoOpen = [f]" "ofRelative f = ''objects/'' @ demoObject" "ofWritable f" "\<not> ofReleased f"
  using demoOpen_files by (cases "hFiles demoOpen") auto

section \<open>Properties\<close>

text \<open>
  C14. However the operations of the file system and of its handles follow each other, a handle
  open for writing is the only open handle of its object: no other writer and no reader exists
  beside it.
\<close>

theorem writer_is_alone:
  assumes "reachable noHandles (fsStep A workaround) s"
    and "h < length (hFiles s)" "\<not> ofReleased (hFiles s ! h)" "ofWritable (hFiles s ! h)"
  shows "{i. i < length (hFiles s) \<and> \<not> ofReleased (hFiles s ! i) \<and>
      metadataKey (ofRelative (hFiles s ! i)) = metadataKey (ofRelative (hFiles s ! h))} = {h}"
proof -
  have inv: "handleInv s" using fsm.reachable_inv [OF assms(1)] .
  have "i = h" if "i < length (hFiles s)" "\<not> ofReleased (hFiles s ! i)"
    "metadataKey (ofRelative (hFiles s ! i)) = metadataKey (ofRelative (hFiles s ! h))" for i
    using writer_alone [OF inv assms(2) that(1) _ assms(3) that(2)] that(3) assms(4) by metis
  then show ?thesis using assms(2,3) by blast
qed

theorem writer_is_alone_witness:
  "{i. i < length (hFiles demoOpen) \<and> \<not> ofReleased (hFiles demoOpen ! i) \<and>
      metadataKey (ofRelative (hFiles demoOpen ! i)) = metadataKey (ofRelative (hFiles demoOpen ! 0))} = {0}"
proof -
  obtain f where "hFiles demoOpen = [f]" "ofWritable f" "\<not> ofReleased f" by (rule demoOpen_file)
  then show ?thesis by (intro writer_is_alone [OF demoOpen_reachable]) simp_all
qed

text \<open>
  C16. The locks held between operations are exactly those of the open handles: the namespace
  lock is held once for reading by every handle open for writing and by nobody for writing, and
  the table of path locks has an entry exactly for the paths of open handles. So nothing is left
  locked once every handle is closed.
\<close>

theorem fs_locks_exact:
  assumes "reachable noHandles (fsStep A workaround) s"
  shows "lNamespace s = \<lparr>rwReaders = length (filter (\<lambda>f. \<not> ofReleased f \<and> ofWritable f) (hFiles s)), rwWriter = False\<rparr> \<and>
    dom (mget (lTable s)) = (metadataKey \<circ> ofRelative) ` {f \<in> set (hFiles s). \<not> ofReleased f}"
  using locks_exact [OF fsm.reachable_inv [OF assms]] by simp

theorem fs_locks_exact_witness:
  "rwReaders (lNamespace demoOpen) = 1 \<and> dom (mget (lTable demoOpen)) = {metadataKey (''objects/'' @ demoObject)}"
proof -
  obtain f where f: "hFiles demoOpen = [f]" "ofRelative f = ''objects/'' @ demoObject" "ofWritable f" "\<not> ofReleased f"
    by (rule demoOpen_file)
  then have "{g \<in> set (hFiles demoOpen). \<not> ofReleased g} = {f}" by auto
  then show ?thesis using fs_locks_exact [OF demoOpen_reachable] f by simp
qed

text \<open>
  C15. While any handle is open for writing, neither \<open>Unlink\<close> nor \<open>removeProtectedFile\<close> removes a
  file: \<open>removeProtectedFile\<close> answers \<open>EBUSY\<close>, \<open>Unlink\<close> answers \<open>EBUSY\<close> or refuses the name, and
  nothing at all changes, on disk or in memory.
\<close>

theorem no_removal_while_writing:
  assumes "reachable noHandles (fsStep A workaround) s"
    and "h < length (hFiles s)" "\<not> ofReleased (hFiles s ! h)" "ofWritable (hFiles s ! h)"
  shows "run_state (removeProtectedFile relative) s = (Inl (Errno EBUSY), s) \<and>
    (\<exists>e. e \<in> {EINVAL, EPERM, EBUSY} \<and> run_state (Unlink parent name) s = (Inl e, s))"
proof -
  have inv: "handleInv s" using fsm.reachable_inv [OF assms(1)] .
  have "ofUnlock (hFiles s ! h)" using openFile_lock [OF inv assms(2,3)] assms(4) by metis
  then have busy: "filter ofUnlock (hFiles s) \<noteq> []" using assms(2) nth_mem by (fastforce simp: filter_empty_conv)
  obtain r t where r: "run_state (removeProtectedFile relative) s = (r, t)" by (meson old.prod.exhaust)
  obtain r' t' where r': "run_state (Unlink parent name) s = (r', t')" by (meson old.prod.exhaust)
  show ?thesis
    using wpD [OF wp_removeProtectedFile [OF inv] r] wpD [OF wp_Unlink [OF inv] r'] busy r r'
    by (auto simp: removalSafe_def)
qed

theorem no_removal_while_writing_witness:
  "run_state (removeProtectedFile ''objects/b'') demoOpen = (Inl (Errno EBUSY), demoOpen) \<and>
   (\<exists>e. e \<in> {EINVAL, EPERM, EBUSY} \<and> run_state (Unlink ''by-id'' demoObject) demoOpen = (Inl e, demoOpen))"
proof -
  obtain f where "hFiles demoOpen = [f]" "ofWritable f" "\<not> ofReleased f" by (rule demoOpen_file)
  then show ?thesis by (intro no_removal_while_writing [OF demoOpen_reachable, of 0]) simp_all
qed

text \<open>
  \<open>Close\<close> releases a handle exactly once: it drops the plaintext and every lock of the handle
  whether or not the last write could be stored, and closing again succeeds and changes nothing.
\<close>

theorem Close_releases_once:
  assumes "reachable noHandles (fsStep A workaround) s" "h < length (hFiles s)" and "run_state (closeHandle A h) s = (r, t)"
  shows "ofReleased (hFiles t ! h) \<and> reachable noHandles (fsStep A workaround) t \<and> run_state (closeHandle A h) t = (None, t)"
proof -
  have "wp (closeHandle A h) (\<lambda>_ t. ofReleased (hFiles t ! h)) s"
    by (rule wp_closeHandle_inv [OF fsm.reachable_inv [OF assms(1)] assms(2)]) simp
  from wpD [OF this assms(3)] have rel: "ofReleased (hFiles t ! h)" .
  have "fsStep A workaround s ''close'' t" by (rule fs_close [OF assms(2,3)])
  with assms(1) have "reachable noHandles (fsStep A workaround) t" by (rule reach_step)
  then show ?thesis using rel by (simp add: closeHandle_def gets_def)
qed

theorem Close_releases_once_witness:
  "ofReleased (hFiles (snd (run_state (closeHandle standInAge 0) demoOpen)) ! 0) \<and>
   run_state (closeHandle standInAge 0) (snd (run_state (closeHandle standInAge 0) demoOpen)) =
     (None, snd (run_state (closeHandle standInAge 0) demoOpen))"
proof -
  obtain f where f: "hFiles demoOpen = [f]" by (rule demoOpen_file)
  have "run_state (closeHandle standInAge 0) demoOpen =
      (fst (run_state (closeHandle standInAge 0) demoOpen), snd (run_state (closeHandle standInAge 0) demoOpen))"
    by (rule prod.collapse [symmetric])
  from Close_releases_once [OF demoOpen_reachable _ this] f show ?thesis by simp
qed

end
