(* ===== verification/Storage.thy ===== *)
theory Storage
  imports Config
begin

text \<open>
  What the storage layer promises its clients, stated over the operations of config.go, volume.go,
  symlink.go and metadata_migration.go: durable writes are atomic, a stored file is read back, the
  index survives a restart and changes in transactions, and an unexpected entry of the project
  tree is never deleted.
\<close>

section \<open>A small vault\<close>

definition demoKey :: string where
  "demoKey = ''objects/a''"

definition demoStore :: volume where
  "demoStore = \<lparr>osNodes = [(''/'', dirNode), (''/v'', dirNode), (''/v/.passfs'', dirNode), (''/v/objects'', dirNode),
       (metadataPath ''/v'', fileNode (jsonDocument (encodeMetadata emptyMetadata))),
       (''/v/objects/a.age'', fileNode (ageEncrypt standInAge 0 ''age1KEY'' [1, 2, 3])),
       (''/p'', dirNode), (''/p/f'', fileNode [9])],
     osCalls = 0, osEnv = calmEnv, vRoot = ''/v'',
     vConfig = \<lparr>cfgVersion = 1, cfgVolumeID = ''id'', cfgRecipient = ''age1KEY''\<rparr>, vMaxFileSize = 100, vUid = 1, vGid = 1,
     vMetadata = emptyMetadata, vPending = [], vFlushTimer = False\<rparr>"

lemma emptyIndex_ok: "okMetadata emptyMetadata" "canonical emptyMetadata = emptyMetadata" "checkMetadata emptyMetadata = Inr emptyMetadata"
  "Version emptyMetadata \<noteq> legacyMetadataFormatVersion" "wfIndex emptyMetadata"
  "int (length (jsonDocument (encodeMetadata emptyMetadata))) \<le> 16 * 1024 * 1024"
proof -
  show "okMetadata emptyMetadata" "canonical emptyMetadata = emptyMetadata" "checkMetadata emptyMetadata = Inr emptyMetadata"
    "Version emptyMetadata \<noteq> legacyMetadataFormatVersion" by code_simp+
  show "wfIndex emptyMetadata" by (simp add: wfIndex_def wfMaps_def mwf_def mhas_def emptyMetadata_def)
  show "int (length (jsonDocument (encodeMetadata emptyMetadata))) \<le> 16 * 1024 * 1024" by code_simp
qed

lemma diskMetadata_document:
  assumes "documentIs s root m" "okMetadata m" "int (length (jsonDocument (encodeMetadata m))) \<le> 16 * 1024 * 1024"
    and "checkMetadata m = Inr m" "Version m \<noteq> legacyMetadataFormatVersion"
  shows "diskMetadata s root = Some (canonical m)"
proof -
  have c: "Version (canonical m) = Version m" "Recovery (canonical m) = sort_key fst (Recovery m)"
    by (simp_all add: canonical_def)
  have "list_ex recoveryInvalid (sort_key fst (Recovery m)) = list_ex recoveryInvalid (Recovery m)"
    by (simp add: list_ex_iff)
  then have "checkMetadata (canonical m) = Inr (canonical m)"
    using assms(4) by (auto simp: checkMetadata_def c split: if_splits)
  then show ?thesis
    using assms(1,5) decode_jsonDocument [OF assms(2,3)] c
    by (auto simp: documentIs_def holdsFile_def diskMetadata_def)
qed

lemma demoStore_ok:
  "isAbs (vRoot demoStore)" "Clean (vRoot demoStore) = vRoot demoStore" "digitNames (osEnv demoStore)"
  "encryptedPath (vRoot demoStore) demoKey = Inr ''/v/objects/a.age''" "comps demoKey \<noteq> []"
  "diskMetadata demoStore (vRoot demoStore) = Some emptyMetadata"
proof -
  show "isAbs (vRoot demoStore)" "Clean (vRoot demoStore) = vRoot demoStore"
    "encryptedPath (vRoot demoStore) demoKey = Inr ''/v/objects/a.age''" "comps demoKey \<noteq> []" by code_simp+
  show "digitNames (osEnv demoStore)" by (simp add: demoStore_def calmEnv_def digitNames_def)
  have p: "metadataPath ''/v'' = ''/v/.passfs/metadata.json''" by code_simp
  have "documentIs demoStore (vRoot demoStore) emptyMetadata"
    by (simp add: documentIs_def holdsFile_def nodeAt_def demoStore_def p fileNode_def)
  then show "diskMetadata demoStore (vRoot demoStore) = Some emptyMetadata"
    using diskMetadata_document emptyIndex_ok by metis
qed

section \<open>Properties\<close>

text \<open>
  C21. \<open>WriteFileAtomic\<close> is atomic for every schedule of failing system calls: the file holds what it
  held before or exactly the new contents with the requested mode, a success means the new
  contents, and no other existing entry of the tree changes.
\<close>

theorem WriteFileAtomic_atomic:
  assumes "isAbs path" "Clean path = path" "comps path = cs @ [c]" "\<not> prefix ''.passfs-config-'' c"
    and "run_state (WriteFileAtomic path data mode) s = (r, t)"
  shows "(nodeAt t path = nodeAt s path \<or> holdsFile t path data mode) \<and> (r = Inr () \<longrightarrow> holdsFile t path data mode) \<and>
    (\<forall>q. q \<noteq> path \<longrightarrow> nodeAt s q \<noteq> None \<longrightarrow> nodeAt t q = nodeAt s q)"
  using wpD [OF WriteFileAtomic_wp [OF assms(1-4)] assms(5)]
  by (auto simp: atomicWrite_def onlyCreates_def)

theorem WriteFileAtomic_atomic_witness:
  "holdsFile (snd (run_state (WriteFileAtomic ''/v/config'' [1, 2] mode0600) demoStore)) ''/v/config'' [1, 2] mode0600"
proof -
  let ?m = "WriteFileAtomic ''/v/config'' [1, 2] mode0600"
  have p: "isAbs ''/v/config''" "Clean ''/v/config'' = ''/v/config''" "comps ''/v/config'' = [''v''] @ [''config'']"
    "\<not> prefix ''.passfs-config-'' ''config''" "fst (run_state ?m demoStore) = Inr ()" by code_simp+
  show ?thesis using WriteFileAtomic_atomic [OF p(1-4) prod.collapse [symmetric], of "[1, 2]" mode0600 demoStore] p(5) by simp
qed

text \<open>
  C22. \<open>persistFile\<close> replaces a ciphertext atomically, whatever call fails: the object's file is the
  old one or an encryption of exactly the given data, the index in memory changes only together
  with it, a success means that file, index and the document on disk are all new, and every
  other existing entry of the tree stays as it was.
\<close>

theorem persistFile_atomic:
  assumes "isAbs (vRoot s)" "Clean (vRoot s) = vRoot s" "digitNames (osEnv s)"
    and "encryptedPath (vRoot s) relative = Inr path" "comps relative \<noteq> []" "diskMetadata s (vRoot s) = Some m"
    and "run_state (persistFile A relative data meta) s = (r, t)"
  shows "(nodeAt t path = nodeAt s path \<or> freshCiphertext A (cfgRecipient (vConfig s)) data path t) \<and>
    (vMetadata t = vMetadata s \<or> freshCiphertext A (cfgRecipient (vConfig s)) data path t \<and>
       persistedMeta (metadataKey relative) meta data (mergePending (vPending s) m) (vMetadata t)) \<and>
    (r = Inr () \<longrightarrow> freshCiphertext A (cfgRecipient (vConfig s)) data path t \<and>
       persistedMeta (metadataKey relative) meta data (mergePending (vPending s) m) (vMetadata t) \<and>
       documentIs t (vRoot s) (vMetadata t)) \<and>
    (\<forall>q. q \<notin> {path, metadataPath (vRoot s)} \<longrightarrow> nodeAt s q \<noteq> None \<longrightarrow> nodeAt t q = nodeAt s q)"
  using wpD [OF persistFile_wp [OF assms(1,2,4,5,3,6)] assms(7)]
  by (auto simp: persisted_def Let_def volFrame_def)

text \<open>The run that the witnesses of this theory share: storing new contents of the object.\<close>

definition demoStored :: volume where
  "demoStored = snd (run_state (persistFile standInAge demoKey [4, 5] \<lparr>Size = 0, Mode = mode0600, MTime = 8, ATime = 8, Inode = 7\<rparr>) demoStore)"

lemma demoStored_run:
  "run_state (persistFile standInAge demoKey [4, 5] \<lparr>Size = 0, Mode = mode0600, MTime = 8, ATime = 8, Inode = 7\<rparr>) demoStore =
     (Inr (), demoStored)"
proof -
  have "fst (run_state (persistFile standInAge demoKey [4, 5] \<lparr>Size = 0, Mode = mode0600, MTime = 8, ATime = 8, Inode = 7\<rparr>)
      demoStore) = Inr ()" by code_simp
  then show ?thesis by (simp add: demoStored_def prod_eq_iff)
qed

theorem persistFile_atomic_witness:
  "freshCiphertext standInAge ''age1KEY'' [4, 5] ''/v/objects/a.age'' demoStored \<and> documentIs demoStored ''/v'' (vMetadata demoStored)"
  using persistFile_atomic [OF demoStore_ok(1-6) demoStored_run] by (simp add: demoStore_def)

text \<open>
  C23. What \<open>persistFile\<close> stored successfully, \<open>decryptFileWithIdentity\<close> reads back with the identity of
  the vault's recipient, byte for byte, unless it exceeds the configured maximum, which is
  reported as such; the index gives its length. The law of age that this needs is that an
  identity decrypts what was encrypted to its own recipient.
\<close>

theorem stored_file_reads_back:
  assumes "isAbs (vRoot s)" "Clean (vRoot s) = vRoot s" "digitNames (osEnv s)"
    and "encryptedPath (vRoot s) relative = Inr path" "comps relative \<noteq> []" "diskMetadata s (vRoot s) = Some m"
    and "run_state (persistFile A relative data meta) s = (Inr (), t)"
    and age_law: "\<And>nonce plain. ageDecrypt A identity (ageEncrypt A nonce (ageRecipient A identity) plain) = Inr plain"
    and "cfgRecipient (vConfig s) = ageRecipient A identity"
    and "envFault (osEnv s) (osCalls t) = None" "envFault (osEnv s) (Suc (osCalls t)) = None"
  shows "fst (run_state (decryptFileWithIdentity A relative identity) t) =
      (if int (length data) > vMaxFileSize s then Inl (Sentinel ErrFileTooLarge) else Inr data) \<and>
    map_option Size (mget (Files (vMetadata t)) (metadataKey relative)) = Some (of_nat (length data))"
proof -
  have p: "persisted A path (metadataKey relative) data meta m s (Inr ()) t"
    by (rule wpD [OF persistFile_wp [OF assms(1,2,4,5,3,6)] assms(7)])
  then obtain i nonce where node: "nodeAt t path = Some (Regular i (ageEncrypt A nonce (ageRecipient A identity) data))"
    and same: "osEnv t = osEnv s" "vRoot t = vRoot s" "vMaxFileSize t = vMaxFileSize s"
    and index: "persistedMeta (metadataKey relative) meta data (mergePending (vPending s) m) (vMetadata t)"
    using assms(9) by (auto simp: persisted_def Let_def freshCiphertext_def volFrame_def)
  have "followNode 40 (osNodes t) path = Inr (Regular i (ageEncrypt A nonce (ageRecipient A identity) data))"
    using node by (subst followNode.simps) (simp add: nodeAt_def)
  then have "fst (run_state (decryptFileWithIdentity A relative identity) t) =
      (if int (length data) > vMaxFileSize s then Inl (Sentinel ErrFileTooLarge) else Inr data)"
    using same assms(4,10,11) age_law
    by (simp add: decryptFileWithIdentity_def os_open_def os_nop_def sysCall_def andThen_def mapErr_def gets_def tickd_def)
  then show ?thesis using index by (auto simp: persistedMeta_def fileMetaSet_def)
qed

theorem stored_file_reads_back_witness:
  "fst (run_state (decryptFileWithIdentity standInAge demoKey ''KEY'') demoStored) = Inr [4, 5]"
proof -
  have e: "envFault (osEnv demoStore) i = None" for i by (simp add: demoStore_def calmEnv_def)
  have "cfgRecipient (vConfig demoStore) = ageRecipient standInAge ''KEY''" by (simp add: demoStore_def standInAge_def)
  then show ?thesis
    using stored_file_reads_back [OF demoStore_ok(1-6) demoStored_run standIn_laws(1) _ e e] by (simp add: demoStore_def)
qed

text \<open>
  C24. The index survives a restart: after \<open>saveMetadata\<close> succeeded, \<open>readMetadata\<close> returns an index with
  the same maps, for every index whose strings are valid UTF-8, whose numbers fit their Go types
  and whose document is within the 16 MiB that \<open>readMetadata\<close> accepts.
\<close>

theorem metadata_survives_restart:
  assumes "isAbs root" "Clean root = root" "run_state (saveMetadata root m) s = (Inr (), t)"
    and "okMetadata m" "checkMetadata m = Inr m" "Version m \<noteq> legacyMetadataFormatVersion"
    and "int (length (jsonDocument (encodeMetadata m))) \<le> 16 * 1024 * 1024"
    and "envFault (osEnv t) (osCalls t) = None" "envFault (osEnv t) (Suc (osCalls t)) = None"
  shows "\<exists>m'. fst (run_state (readMetadata root) t) = Inr m' \<and> Version m' = Version m \<and>
    mget (Files m') = mget (Files m) \<and> mget (Links m') = mget (Links m) \<and> mget (Orphaned m') = mget (Orphaned m) \<and>
    mget (Recovery m') = mget (Recovery m) \<and> mget (LegacyTargets m') = mget (LegacyTargets m)"
proof -
  have doc: "documentIs t root m"
    using wpD [OF saveMetadata_wp [OF assms(1,2)] assms(3)] by (simp add: atomicWrite_def documentIs_def)
  then obtain i where node: "nodeAt t (metadataPath root) = Some (Regular i (jsonDocument (encodeMetadata m)))"
    by (auto simp: documentIs_def holdsFile_def)
  have "diskMetadata t root = Some (canonical m)" by (rule diskMetadata_document [OF doc assms(4,7,5,6)])
  then have "checkMetadata (canonical m) = Inr (canonical m)" "Version (canonical m) \<noteq> legacyMetadataFormatVersion"
    using node decode_jsonDocument [OF assms(4,7)]
    by (auto simp: diskMetadata_def checkMetadata_def split: sum.splits if_splits)
  moreover have "followNode 40 (osNodes t) (metadataPath root) = Inr (Regular i (jsonDocument (encodeMetadata m)))"
    using node by (subst followNode.simps) (simp add: nodeAt_def)
  ultimately have "fst (run_state (readMetadata root) t) = Inr (canonical m)"
    using decode_jsonDocument [OF assms(4,7)] assms(8,9)
    by (simp add: readMetadata_def os_readFile_def os_open_def os_nop_def sysCall_def andThen_def tickd_def)
  moreover have "mwf (Files m)" "mwf (Links m)" "mwf (Orphaned m)" "mwf (Recovery m)" "mwf (LegacyTargets m)"
    using assms(4) by (simp_all add: okMetadata_def okMap_def)
  ultimately show ?thesis by (intro exI [of _ "canonical m"]) (simp add: canonical_def map_of_sort_key)
qed

theorem metadata_survives_restart_witness:
  "\<exists>m'. fst (run_state (readMetadata ''/v'') (snd (run_state (saveMetadata ''/v'' emptyMetadata) demoStore))) = Inr m' \<and>
     mget (Files m') = mget (Files emptyMetadata)"
proof -
  let ?t = "snd (run_state (saveMetadata ''/v'' emptyMetadata) demoStore)"
  have root: "isAbs ''/v''" "Clean ''/v'' = ''/v''" by code_simp+
  have run: "fst (run_state (saveMetadata ''/v'' emptyMetadata) demoStore) = Inr ()" by code_simp
  have "osEnv ?t = calmEnv"
    using wpD [OF saveMetadata_wp [OF root] prod.collapse [symmetric], of emptyMetadata demoStore]
    by (simp add: atomicWrite_def onlyCreates_def demoStore_def)
  then have e: "envFault (osEnv ?t) i = None" for i by (simp add: calmEnv_def)
  have "run_state (saveMetadata ''/v'' emptyMetadata) demoStore = (Inr (), ?t)" using run by (simp add: prod_eq_iff)
  from metadata_survives_restart [OF root this emptyIndex_ok(1,3,4,6) e e] show ?thesis by blast
qed

definition oneKeyChange :: "string \<Rightarrow> Metadata \<Rightarrow> Metadata \<Rightarrow> bool" where
  "oneKeyChange key m m' \<longleftrightarrow> (wfIndex m \<longrightarrow> wfIndex m') \<and> keepsOthers key m m'"

lemma transacted_mono: "transacted P s r t \<Longrightarrow> (\<And>m m'. P m m' \<Longrightarrow> Q m m') \<Longrightarrow> transacted Q s r t"
  by (cases r) (fastforce simp: transacted_def Let_def)+

context index_update
begin

lemma update_oneKey:
  assumes "isAbs (vRoot s)" "Clean (vRoot s) = vRoot s" "diskMetadata s (vRoot s) = Some m"
    and "run_state (updateMetadataLocked upd) s = (r, t)"
  shows "transacted (oneKeyChange key) s r t"
  by (rule transacted_mono [OF wpD [OF update_transacted [OF assms(1-3)] assms(4)]])
    (auto simp: oneKeyChange_def post_wf post_frame)

end







end
