(* ===== verification/LinkSearch.thy ===== *)
theory LinkSearch
  imports Storage Frame
begin

text \<open>
  The search for protected links that were moved while passfs was not watching
  (\<open>movedProtectedLinkSearch\<close> of links.go): the directories it starts from, the traversal that
  indexes their symbolic links by the object they point to, and the lookup that extends the index
  root by root until a link is found or nothing is left to index.

  The workers of \<open>indexRoot\<close> only hand results to one loop that takes directories from the front of
  a queue; the traversal is modelled with one worker. The home directory and the temporary
  directory, which Go takes from the process environment, are arguments.
\<close>

section \<open>Search roots\<close>

record userdirs =
  udHome :: string
  udTemp :: string

text \<open>The loops that climb with \<open>filepath.Dir\<close> visit the ancestors of a path, the longest first.\<close>

fun firstDirectory :: "string list \<Rightarrow> ('z os_scheme, string) state" where
  "firstDirectory [] = ret []"
| "firstDirectory (path # parents) = do {
     r \<leftarrow> os_stat path;
     (case r of
        Inr info \<Rightarrow> if isDirNode info then ret path else firstDirectory parents
      | Inl _ \<Rightarrow> firstDirectory parents) }"

definition nearestExistingDirectory :: "string \<Rightarrow> ('z os_scheme, string) state" where
  "nearestExistingDirectory path = firstDirectory (rev (ancestors path))"

definition nearestExistingSearchRoot :: "string \<Rightarrow> ('z os_scheme, string) state" where
  "nearestExistingSearchRoot root = do {
     existing \<leftarrow> nearestExistingDirectory root;
     ret (if existing \<noteq> [] then existing else Clean root) }"

text \<open>The first ancestor below the root that holds a \<open>.git\<close> entry; the climb stops at the home directory.\<close>

fun gitRoot :: "string \<Rightarrow> string list \<Rightarrow> ('z os_scheme, string option) state" where
  "gitRoot home [] = ret None"
| "gitRoot home (current # parents) = do {
     r \<leftarrow> os_lstat (pathJoin [current, ''.git'']);
     (case r of
        Inr _ \<Rightarrow> ret (Some current)
      | Inl _ \<Rightarrow> if home \<noteq> [] \<and> Clean current = Clean home then ret None else gitRoot home parents) }"

text \<open>Where to look when the link is in no repository: by the part of the home directory it was in.\<close>

definition homeRegion :: "string \<Rightarrow> string \<Rightarrow> string \<Rightarrow> string" where
  "homeRegion home sourcePath parent =
     (if home = [] \<or> \<not> PathWithin home sourcePath then parent
      else case pathRel home parent of
        None \<Rightarrow> parent
      | Some relative \<Rightarrow>
          if relative = ''.'' \<or> hasPrefix relative ''..'' then parent
          else
            let components = splitOn slash relative; first = hd components in
            if first = [] \<or> first = ''.'' then parent
            else if first = ''Library'' then
              let depth = (if length components \<ge> 3 \<and> components ! 1 = ''Application Support'' then 3
                           else min 2 (length components)) in
              pathJoin (home # take depth components)
            else pathJoin [home, first])"

definition protectedLinkSearchRoot :: "userdirs \<Rightarrow> string \<Rightarrow> ('z os_scheme, string) state" where
  "protectedLinkSearchRoot U sourcePath =
     (let parent = Clean (pathDir sourcePath) in do {
       repository \<leftarrow> gitRoot (udHome U) (butlast (rev (ancestors parent)));
       nearestExistingSearchRoot
         (case repository of Some current \<Rightarrow> current | None \<Rightarrow> homeRegion (udHome U) sourcePath parent) })"

definition compactSearchRoots :: "string list \<Rightarrow> string list" where
  "compactSearchRoots roots = sort_key (\<lambda>r. - int (length r)) (sort (remdups roots))"

text \<open>On Linux \<open>canonicalTemporaryRoot\<close> is the temporary directory itself.\<close>

definition canonicalTemporaryRoot :: "userdirs \<Rightarrow> string" where
  "canonicalTemporaryRoot U = Clean (udTemp U)"

definition broadRoots :: "userdirs \<Rightarrow> string list \<Rightarrow> string list" where
  "broadRoots U roots =
     filter (\<lambda>broadRoot. broadRoot \<noteq> ''.'' \<and> broadRoot \<notin> set roots)
       (map Clean [udHome U, udTemp U, canonicalTemporaryRoot U])"

section \<open>The index\<close>

record movedProtectedLinkSearch =
  msRoots :: "string list"
  msInternalRoots :: "string list"
  msIndexedRoots :: "string list"
  msTargets :: "string list"
  msObjectTargets :: "(string, string) gomap"
  msByTarget :: "(string, string list) gomap"
  msNextRoot :: nat
  msComprehensive :: bool
  msIndexed :: bool

fun searchRootsOf :: "userdirs \<Rightarrow> linkRecord list \<Rightarrow> ('z os_scheme, string list) state" where
  "searchRootsOf U [] = ret []"
| "searchRootsOf U (record # records) =
     (if \<not> lrProtected record \<or> lrSourcePath record = [] then searchRootsOf U records
      else do {
        root \<leftarrow> protectedLinkSearchRoot U (lrSourcePath record);
        roots \<leftarrow> searchRootsOf U records;
        ret (Clean root # roots) })"

text \<open>What the search looks for: the mounted targets, the target of each object, legacy targets.\<close>

definition recordTargets :: "string \<Rightarrow> string \<Rightarrow> linkRecord \<Rightarrow> string list" where
  "recordTargets cwd mountPoint record =
     (if \<not> lrProtected record then []
      else (case mountedPathForStorage cwd mountPoint (lrRelative record) of Inr target \<Rightarrow> [Clean target] | Inl _ \<Rightarrow> []) @
           (if lrLegacyTarget record \<noteq> [] then [Clean (lrLegacyTarget record)] else []))"

definition addObjectTarget :: "string \<Rightarrow> string \<Rightarrow> linkRecord \<Rightarrow> (string, string) gomap \<Rightarrow> (string, string) gomap" where
  "addObjectTarget cwd mountPoint record m =
     (if \<not> lrProtected record then m
      else case (mountedPathForStorage cwd mountPoint (lrRelative record), objectIDFromStoragePath (lrRelative record)) of
        (Inr target, Inr objectID) \<Rightarrow> mset_key objectID (Clean target) m
      | _ \<Rightarrow> m)"

definition newMovedProtectedLinkSearchWithGlobalRoots ::
  "userdirs \<Rightarrow> string \<Rightarrow> string \<Rightarrow> linkRecord list \<Rightarrow> bool \<Rightarrow> ('z os_scheme, movedProtectedLinkSearch) state" where
  "newMovedProtectedLinkSearchWithGlobalRoots U vault mountPoint records global = do {
     roots \<leftarrow> searchRootsOf U records;
     cwd \<leftarrow> gets (\<lambda>s. envCwd (osEnv s));
     ret \<lparr>msRoots = compactSearchRoots roots @ (if global then broadRoots U roots else []),
          msInternalRoots = [Clean vault, Clean mountPoint], msIndexedRoots = [],
          msTargets = remdups (concat (map (recordTargets cwd mountPoint) records)),
          msObjectTargets = fold (addObjectTarget cwd mountPoint) records [],
          msByTarget = [], msNextRoot = 0, msComprehensive = global, msIndexed = False\<rparr> }"

definition newMovedProtectedLinkSearch ::
  "userdirs \<Rightarrow> string \<Rightarrow> string \<Rightarrow> linkRecord list \<Rightarrow> ('z os_scheme, movedProtectedLinkSearch) state" where
  "newMovedProtectedLinkSearch U vault mountPoint records =
     newMovedProtectedLinkSearchWithGlobalRoots U vault mountPoint records False"

section \<open>Indexing a root\<close>

definition broadHomeSearchExcludedDirectories :: "string list" where
  "broadHomeSearchExcludedDirectories =
     [''applications'', ''library'', ''movies'', ''music'', ''pictures'', ''public'']"

definition movedLinkSearchExcludedDirectories :: "string list" where
  "movedLinkSearchExcludedDirectories =
     [''.bzr'', ''.bundle'', ''.cache'', ''.dart_tool'', ''.git'', ''.gradle'', ''.hg'', ''.idea'', ''.ivy2'', ''.m2'',
      ''.next'', ''.nuget'', ''.npm'', ''.parcel-cache'', ''.pnpm-store'', ''.svn'', ''.svelte-kit'', ''.terraform'',
      ''.terragrunt-cache'', ''.trash'', ''.turbo'', ''.venv'', ''.yarn'', ''__pycache__'', ''_build'',
      ''bower_components'', ''build'', ''caches'', ''carthage'', ''cmakefiles'', ''coverage'', ''deriveddata'', ''dist'',
      ''generated'', ''jspm_packages'', ''node_modules'', ''obj'', ''pods'', ''site-packages'', ''target'',
      ''third-party'', ''third_party'', ''vendor'', ''vendors'', ''venv'', ''virtualenv'']"

text \<open>Whether to skip a directory, and whether skipping it leaves the index incomplete.\<close>

definition shouldSkipDirectory :: "userdirs \<Rightarrow> movedProtectedLinkSearch \<Rightarrow> string \<Rightarrow> string \<Rightarrow> bool \<times> bool" where
  "shouldSkipDirectory U S path name =
     (if list_ex (\<lambda>internalRoot. PathWithin internalRoot path) (msInternalRoots S) then (True, False)
      else if list_ex (\<lambda>indexedRoot. Clean path = indexedRoot \<or> PathWithin indexedRoot path) (msIndexedRoots S)
      then (True, False)
      else
        let lowerName = toLower name in
        if Clean (pathDir path) = Clean (udHome U) \<and> lowerName \<in> set broadHomeSearchExcludedDirectories
        then (True, True)
        else if lowerName \<in> set movedLinkSearchExcludedDirectories then (True, True)
        else if list_ex (hasSuffix lowerName) [''.app'', ''.dsym'', ''.framework'', ''.xcarchive''] then (True, True)
        else (False, False))"

record movedProtectedLinkScanResult =
  srDirectories :: "string list"
  srLinks :: "(string \<times> string) list"
  srIncomplete :: bool

text \<open>The target under which a link is indexed, if it is one of passfs's.\<close>

definition indexTarget :: "movedProtectedLinkSearch \<Rightarrow> string \<Rightarrow> string option" where
  "indexTarget S target =
     (if target \<in> set (msTargets S) then Some target
      else case objectIDFromOpaqueTarget target of
        Inl _ \<Rightarrow> None
      | Inr objectID \<Rightarrow>
          (case mgetz [] (msObjectTargets S) objectID of [] \<Rightarrow> None | t \<Rightarrow> Some t))"

definition scanEntry ::
  "userdirs \<Rightarrow> movedProtectedLinkSearch \<Rightarrow> string \<Rightarrow> string \<times> node \<Rightarrow> movedProtectedLinkScanResult \<Rightarrow>
   ('z os_scheme, movedProtectedLinkScanResult) state" where
  "scanEntry U S directory = (\<lambda>(name, n) result.
     let path = pathJoin [directory, name] in
     if isDirNode n then
       let (skip, incomplete) = shouldSkipDirectory U S path name in
       ret (result\<lparr>srIncomplete := srIncomplete result \<or> incomplete,
                   srDirectories := srDirectories result @ (if skip then [] else [path])\<rparr>)
     else if \<not> isLinkNode n then ret result
     else do {
       l \<leftarrow> inspectProtectedLink path;
       ret (case l of
          Inl _ \<Rightarrow> result
        | Inr link \<Rightarrow>
            if \<not> plIsSymlink link then result
            else case indexTarget S (Clean (plTarget link)) of
              None \<Rightarrow> result
            | Some target \<Rightarrow> result\<lparr>srLinks := srLinks result @ [(target, Clean path)]\<rparr>) })"

fun scanEntries ::
  "userdirs \<Rightarrow> movedProtectedLinkSearch \<Rightarrow> string \<Rightarrow> (string \<times> node) list \<Rightarrow> movedProtectedLinkScanResult \<Rightarrow>
   ('z os_scheme, movedProtectedLinkScanResult) state" where
  "scanEntries U S directory [] result = ret result"
| "scanEntries U S directory (entry # entries) result = do {
     result' \<leftarrow> scanEntry U S directory entry result;
     scanEntries U S directory entries result' }"

definition emptyScan :: movedProtectedLinkScanResult where
  "emptyScan = \<lparr>srDirectories = [], srLinks = [], srIncomplete = False\<rparr>"

definition scanDirectory ::
  "userdirs \<Rightarrow> movedProtectedLinkSearch \<Rightarrow> string \<Rightarrow> ('z os_scheme, movedProtectedLinkScanResult) state" where
  "scanDirectory U S directory = do {
     r \<leftarrow> os_readDir directory;
     (case r of
        Inl _ \<Rightarrow> ret (emptyScan\<lparr>srIncomplete := True\<rparr>)
      | Inr entries \<Rightarrow> scanEntries U S directory entries emptyScan) }"

definition addLink :: "string \<times> string \<Rightarrow> (string, string list) gomap \<Rightarrow> (string, string list) gomap" where
  "addLink = (\<lambda>(target, path) m. mset_key target (List.insert path (mgetz [] m target)) m)"

definition absorbScan :: "movedProtectedLinkScanResult \<Rightarrow> movedProtectedLinkSearch \<Rightarrow> movedProtectedLinkSearch" where
  "absorbScan result S =
     S\<lparr>msComprehensive := msComprehensive S \<and> \<not> srIncomplete result,
       msByTarget := fold addLink (srLinks result) (msByTarget S)\<rparr>"

text \<open>
  The loop over the queue. The first argument bounds the number of directories; \<open>None\<close> is the value
  of a run that exceeds it.
\<close>

fun indexQueue ::
  "nat \<Rightarrow> userdirs \<Rightarrow> movedProtectedLinkSearch \<Rightarrow> string list \<Rightarrow> ('z os_scheme, movedProtectedLinkSearch option) state" where
  "indexQueue k U S [] = ret (Some S)"
| "indexQueue 0 U S (directory # queue) = ret None"
| "indexQueue (Suc k) U S (directory # queue) = do {
     result \<leftarrow> scanDirectory U S directory;
     indexQueue k U (absorbScan result S) (queue @ srDirectories result) }"

definition outOfFuel :: goerr where "outOfFuel = Msg ''out of fuel''"

definition indexRoot ::
  "userdirs \<Rightarrow> movedProtectedLinkSearch \<Rightarrow> string \<Rightarrow> ('z os_scheme, movedProtectedLinkSearch res) state" where
  "indexRoot U S root =
     andThen (os_stat root) (\<lambda>_. do {
       nodes \<leftarrow> gets osNodes;
       r \<leftarrow> indexQueue (Suc (length nodes)) U S [root];
       ret (case r of None \<Rightarrow> Inl outOfFuel | Some S' \<Rightarrow> Inr S') })"

section \<open>Looking a link up\<close>

definition indexNextRoot ::
  "userdirs \<Rightarrow> movedProtectedLinkSearch \<Rightarrow> ('z os_scheme, unit res \<times> movedProtectedLinkSearch) state" where
  "indexNextRoot U S =
     (if msIndexed S then ret (Inr (), S)
      else if msNextRoot S \<ge> length (msRoots S) then ret (Inr (), S\<lparr>msIndexed := True\<rparr>)
      else
        let root = msRoots S ! msNextRoot S; S1 = S\<lparr>msNextRoot := Suc (msNextRoot S)\<rparr> in do {
        r \<leftarrow> indexRoot U S1 root;
        (let (failed, S2) = (case r of
            Inl e \<Rightarrow> (if errorsIs e ErrNotExist then None else Some e, S1)
          | Inr S' \<Rightarrow> (None, S')) in
         case failed of
           Some e \<Rightarrow> ret (Inl (Wrap ''search for an offline protected-link move'' e), S2)
         | None \<Rightarrow>
             ret (Inr (), S2\<lparr>msIndexedRoots := msIndexedRoots S2 @ [Clean root],
                             msIndexed := msIndexed S2 \<or> msNextRoot S2 \<ge> length (msRoots S2)\<rparr>)) })"

text \<open>The one link to the target that is not at the registered path, if there is one.\<close>

definition searchMatch :: "movedProtectedLinkSearch \<Rightarrow> string \<Rightarrow> string \<Rightarrow> string res" where
  "searchMatch S sourcePath target =
     (case filter (\<lambda>candidate. Clean candidate \<noteq> Clean sourcePath) (mgetz [] (msByTarget S) target) of
        [] \<Rightarrow> Inr []
      | [match] \<Rightarrow> Inr match
      | _ \<Rightarrow> Inl (Msg ''multiple symbolic links reference the missing passfs pathname; encrypted data was preserved''))"

fun findLoop ::
  "nat \<Rightarrow> userdirs \<Rightarrow> movedProtectedLinkSearch \<Rightarrow> string \<Rightarrow> string \<Rightarrow>
   ('z os_scheme, (string res \<times> movedProtectedLinkSearch) option) state" where
  "findLoop 0 U S sourcePath target = ret None"
| "findLoop (Suc k) U S sourcePath target =
     (case searchMatch S sourcePath target of
        Inl e \<Rightarrow> ret (Some (Inl e, S))
      | Inr match \<Rightarrow>
          if match \<noteq> [] \<or> msIndexed S then ret (Some (Inr match, S))
          else do {
            (r, S') \<leftarrow> indexNextRoot U S;
            (case r of Inl e \<Rightarrow> ret (Some (Inl e, S')) | Inr _ \<Rightarrow> findLoop k U S' sourcePath target) })"

definition findMoved ::
  "userdirs \<Rightarrow> movedProtectedLinkSearch \<Rightarrow> string \<Rightarrow> string \<Rightarrow> ('z os_scheme, string res \<times> movedProtectedLinkSearch) state" where
  "findMoved U S sourcePath targetPath = do {
     r \<leftarrow> findLoop (length (msRoots S) + 2) U S sourcePath (Clean targetPath);
     ret (case r of None \<Rightarrow> (Inl outOfFuel, S) | Some x \<Rightarrow> x) }"

section \<open>The search only looks\<close>

definition still :: "'z os_scheme \<Rightarrow> (string, node) gomap \<times> environ \<times> 'z" where
  "still s = (osNodes s, osEnv s, os.more s)"

lemma still_onlyTicks: "still t = still s \<longleftrightarrow> onlyTicks s t"
  by (auto simp: still_def onlyTicks_def)

lemma still_simps [simp]: "still (tickd s) = still s"
  by (simp add: still_def)

lemma keeps_stillCall: "(\<And>i s. still (snd (g i s)) = still s) \<Longrightarrow> keeps still (sysCall g)"
  by (simp add: keeps_def sysCall_def split: option.splits)

lemma keeps_looking [keeps]:
  "keeps still os_nop" "keeps still (os_lstat p)" "keeps still (os_stat p)" "keeps still (os_open p)"
  "keeps still (os_readlink p)" "keeps still (os_readDir p)" "keeps still (evalSymlinks p)" "keeps still timeNow"
  unfolding os_nop_def os_lstat_def os_stat_def os_open_def os_readlink_def os_readDir_def evalSymlinks_def timeNow_def
  by (rule keeps_stillCall; simp split: option.splits node.splits)+ (simp add: keeps_def)

lemma keeps_inspect [keeps]: "keeps still (inspectProtectedLink p)"
  unfolding inspectProtectedLink_def by (intro keeps)

lemma keeps_still_resolve [keeps]: "keeps still (ResolvePath p)" "keeps still (ResolvePathEntry p)"
proof -
  have "keeps still (resolveLoop a cs x)" for a cs x
    by (induction a cs x rule: resolveLoop.induct) (auto intro!: keeps split: sum.splits)
  then show "keeps still (ResolvePath p)" for p unfolding ResolvePath_def Let_def by (intro keeps)
  then show "keeps still (ResolvePathEntry p)" unfolding ResolvePathEntry_def Let_def by (intro keeps)
qed

lemma keeps_roots [keeps]:
  "keeps still (nearestExistingDirectory p)" "keeps still (protectedLinkSearchRoot U p)" "keeps still (searchRootsOf U rs)"
proof -
  have first: "keeps still (firstDirectory ps)" for ps by (induction ps) (auto intro!: keeps)
  have git: "keeps still (gitRoot h ps)" for h ps by (induction ps) (auto intro!: keeps)
  show near: "keeps still (nearestExistingDirectory p)" for p unfolding nearestExistingDirectory_def by (rule first)
  show root: "keeps still (protectedLinkSearchRoot U p)" for p
    unfolding protectedLinkSearchRoot_def nearestExistingSearchRoot_def Let_def by (intro keeps git near)
  show "keeps still (searchRootsOf U rs)" by (induction rs) (auto intro!: keeps root)
qed

lemma keeps_newSearch [keeps]: "keeps still (newMovedProtectedLinkSearchWithGlobalRoots U v m rs g)"
  unfolding newMovedProtectedLinkSearchWithGlobalRoots_def by (intro keeps)

lemma keeps_scan [keeps]: "keeps still (scanDirectory U S d)"
proof -
  have entry: "keeps still (scanEntry U S d e r)" for e r
    unfolding scanEntry_def Let_def by (intro keeps)
  have "keeps still (scanEntries U S d es r)" for es r by (induction es arbitrary: r) (auto intro!: keeps entry)
  then show ?thesis unfolding scanDirectory_def by (intro keeps)
qed

lemma keeps_find [keeps]: "keeps still (indexNextRoot U S)" "keeps still (findMoved U S p q)"
proof -
  have queue: "keeps still (indexQueue k U S' ds)" for k S' ds
    by (induction k U S' ds rule: indexQueue.induct) (auto intro!: keeps)
  have root: "keeps still (indexRoot U S' r)" for S' r unfolding indexRoot_def by (intro keeps queue)
  show next': "keeps still (indexNextRoot U S)" for S unfolding indexNextRoot_def Let_def by (intro keeps root)
  have "keeps still (findLoop k U S p q)" for k S p q by (induction k arbitrary: S) (auto intro!: keeps next')
  then show "keeps still (findMoved U S p q)" unfolding findMoved_def by (intro keeps)
qed

section \<open>The search ends\<close>

text \<open>The names of the tree are clean absolute paths, each held by one entry.\<close>

definition wfTree :: "(string, node) gomap \<Rightarrow> bool" where
  "wfTree N \<longleftrightarrow> mwf N \<and> (\<forall>p. mhas N p \<longrightarrow> isAbs p \<and> Clean p = p)"

definition cleanAbs :: "string \<Rightarrow> bool" where
  "cleanAbs p \<longleftrightarrow> isAbs p \<and> Clean p = p"

definition belowNodes :: "(string, node) gomap \<Rightarrow> string \<Rightarrow> string set" where
  "belowNodes N d = {p. mhas N p \<and> below d p}"

lemma finite_belowNodes [simp]: "finite (belowNodes N d)"
  by (rule finite_subset [of _ "fst ` set N"]) (auto simp: belowNodes_def mhas_set)

lemma card_belowNodes: "card (belowNodes N d) \<le> length N"
proof -
  have "card (belowNodes N d) \<le> card (set (map fst N))" by (rule card_mono) (auto simp: belowNodes_def mhas_set)
  also have "\<dots> \<le> length N" using card_length [of "map fst N"] by simp
  finally show ?thesis .
qed

text \<open>The entry of \<open>d\<close> that a path below \<open>d\<close> goes through.\<close>

definition firstElem :: "string \<Rightarrow> string \<Rightarrow> string" where
  "firstElem d p = takeWhile (\<lambda>x. x \<noteq> slash) (drop (length (dirSlash d)) p)"

lemma takeWhile_no_slash: "slash \<notin> set x \<Longrightarrow> takeWhile (\<lambda>c. c \<noteq> slash) (x @ slash # y) = x"
  by (subst takeWhile_append2) auto

lemma length_dirSlash: "length d \<le> length (dirSlash d)"
  by (simp add: dirSlash_def)

lemma below_child:
  assumes "slash \<notin> set x" "x \<noteq> []" "below (dirSlash d @ x) p"
  shows "firstElem d p = x" "prefix (dirSlash d) p"
proof -
  have "last (dirSlash d @ x) \<noteq> slash" using assms(1,2) by (metis last_appendR last_in_set)
  then have "prefix (dirSlash d @ x @ [slash]) p" using assms(3) by (simp add: below_def dirSlash_def split: if_splits)
  then obtain y where "p = dirSlash d @ x @ slash # y" by (auto simp: prefix_def)
  then show "firstElem d p = x" "prefix (dirSlash d) p"
    using takeWhile_no_slash [OF assms(1)] by (simp_all add: firstElem_def)
qed

lemma comps_double_slash: "comps (slash # slash # x) = comps (slash # x)"
  by (simp add: comps_def isAbs_def cleanStep_def)

lemma childNames_entry:
  assumes "wfTree (osNodes s)" "cleanAbs d" "(name, n) \<in> set (childNames s d)"
  shows "map_of (osNodes s) (dirSlash d @ name) = Some n" "below d (dirSlash d @ name)" "slash \<notin> set name"
    "name \<noteq> []" "pathJoin [d, name] = dirSlash d @ name"
proof -
  from assms(3) obtain p where p: "(p, n) \<in> set (osNodes s)" "below d p" "name = drop (length (dirSlash d)) p"
    "slash \<notin> set name" by (auto simp: childNames_def)
  have "prefix (dirSlash d) p" using p(2) by (simp add: below_def)
  then have eq: "p = dirSlash d @ name" unfolding p(3) by (metis append_eq_conv_conj prefix_def)
  have m: "map_of (osNodes s) p = Some n" using assms(1) p(1) mget_in unfolding wfTree_def by fast
  then have clean: "isAbs p" "Clean p = p" using assms(1) by (simp_all add: wfTree_def mhas_def)
  show "map_of (osNodes s) (dirSlash d @ name) = Some n" "below d (dirSlash d @ name)" "slash \<notin> set name"
    using m p(2,4) by (simp_all flip: eq)
  have d: "d \<noteq> []" using assms(2) by (auto simp: cleanAbs_def)
  have "comps (d @ [slash]) = comps d" using d comps_append [of d "[]"] by (simp add: cleanStep_def)
  then have trailing: "Clean (d @ [slash]) = d" using assms(2) d Clean_eq_iff [of "d @ [slash]" d] by (simp add: cleanAbs_def)
  show ne: "name \<noteq> []"
  proof
    assume "name = []"
    then have "p = d @ [slash]" using eq p(2) by (auto simp: below_def dirSlash_def split: if_splits)
    then show False using clean(2) trailing by simp
  qed
  have "Clean (d @ slash # name) = Clean p"
  proof (cases "last d = slash")
    case False
    then show ?thesis using eq d by (simp add: dirSlash_def)
  next
    case True
    then have "comps d = []" using assms(2) clean_abs_last by (auto simp: cleanAbs_def)
    then have "d = [slash]" using assms(2) Clean_abs by (metis cleanAbs_def joinWith.simps(1))
    then show ?thesis using eq comps_double_slash by (simp add: Clean_eq_iff dirSlash_def isAbs_def)
  qed
  then show "pathJoin [d, name] = dirSlash d @ name" using pathJoin2 [OF d] ne clean eq by simp
qed

lemma distinct_childNames:
  assumes "mwf (osNodes s)"
  shows "distinct (map fst (childNames s d))"
proof -
  let ?N = "filter (\<lambda>(p, n). below d p \<and> slash \<notin> set (drop (length (dirSlash d)) p)) (osNodes s)"
  let ?cut = "\<lambda>(p, n). (drop (length (dirSlash d)) p, n)"
  have fst: "map fst (map ?cut ?N) = map (drop (length (dirSlash d))) (map fst ?N)" by auto
  have "distinct (map fst ?N)" using assms by (simp add: mwf_def distinct_map_filter)
  moreover have "inj_on (drop (length (dirSlash d))) (set (map fst ?N))"
    by (rule inj_onI) (auto simp: below_def prefix_def)
  ultimately have "distinct (map fst (map ?cut ?N))" unfolding fst by (subst distinct_map) blast
  then show ?thesis unfolding childNames_def by (simp only: distinct_map distinct_sort set_sort)
qed

definition potential :: "(string, node) gomap \<Rightarrow> string \<Rightarrow> nat" where
  "potential N d = Suc (card (belowNodes N d))"

text \<open>The entries of a directory and what is below them are apart, so their weights add up to less.\<close>

lemma potential_children:
  assumes "wfTree (osNodes s)" "cleanAbs d" "set xs \<subseteq> set (childNames s d)" "distinct (map fst xs)"
  shows "sum_list (map (\<lambda>(name, n). potential (osNodes s) (dirSlash d @ name)) xs) \<le> card (belowNodes (osNodes s) d)"
proof -
  let ?N = "osNodes s" and ?path = "\<lambda>name. dirSlash d @ name"
  have entry: "below d (?path x)" "mhas ?N (?path x)" "slash \<notin> set x" "x \<noteq> []" if x: "x \<in> fst ` set xs" for x
  proof -
    obtain n where "(x, n) \<in> set (childNames s d)" using x assms(3) by auto
    from childNames_entry [OF assms(1,2) this]
    show "below d (?path x)" "mhas ?N (?path x)" "slash \<notin> set x" "x \<noteq> []" by (simp_all add: mhas_def)
  qed
  have fiber: "potential ?N (?path x) \<le> card {p \<in> belowNodes ?N d. firstElem d p = x}" if x: "x \<in> fst ` set xs" for x
  proof -
    have out: "?path x \<notin> belowNodes ?N (?path x)" by (simp add: belowNodes_def below_def)
    have "insert (?path x) (belowNodes ?N (?path x)) \<subseteq> {p \<in> belowNodes ?N d. firstElem d p = x}"
    proof
      fix p assume "p \<in> insert (?path x) (belowNodes ?N (?path x))"
      then consider "p = ?path x" | "mhas ?N p" "below (?path x) p" by (auto simp: belowNodes_def)
      then show "p \<in> {p \<in> belowNodes ?N d. firstElem d p = x}"
      proof cases
        case 1
        have "takeWhile (\<lambda>c. c \<noteq> slash) x = x" using entry(3) [OF x] by (subst takeWhile_eq_all_conv) auto
        then show ?thesis using 1 entry(1,2) [OF x] by (simp add: belowNodes_def firstElem_def)
      next
        case 2
        have "length (dirSlash d @ x) \<le> length p"
          using prefix_length_le [of "dirSlash (?path x)" p] 2(2) order_trans [OF length_dirSlash [of "?path x"]]
          unfolding below_def by blast
        moreover have "0 < length x" using entry(4) [OF x] by simp
        ultimately have "length d < length p" using length_dirSlash [of d] unfolding length_append by linarith
        then have "p \<noteq> d" by blast
        then show ?thesis using 2(1) below_child [OF entry(3,4) [OF x] 2(2)] by (simp add: belowNodes_def below_def)
      qed
    qed
    then have "card (insert (?path x) (belowNodes ?N (?path x))) \<le> card {p \<in> belowNodes ?N d. firstElem d p = x}"
      by (rule card_mono [rotated]) simp
    then show ?thesis using out by (simp add: potential_def)
  qed
  have "sum_list (map (\<lambda>(x, n). potential ?N (?path x)) xs) = (\<Sum>x \<in> fst ` set xs. potential ?N (?path x))"
    using sum_list_distinct_conv_sum_set [OF assms(4), of "\<lambda>x. potential ?N (?path x)"]
    unfolding map_map comp_def case_prod_beta set_map .
  also have "\<dots> \<le> (\<Sum>x \<in> fst ` set xs. card {p \<in> belowNodes ?N d. firstElem d p = x})" by (rule sum_mono) (rule fiber)
  also have "\<dots> = card (\<Union>x \<in> fst ` set xs. {p \<in> belowNodes ?N d. firstElem d p = x})"
    by (rule card_UN_disjoint [symmetric]) auto
  also have "\<dots> \<le> card (belowNodes ?N d)" by (rule card_mono) auto
  finally show ?thesis .
qed

definition wanted :: "userdirs \<Rightarrow> movedProtectedLinkSearch \<Rightarrow> string \<Rightarrow> string \<times> node \<Rightarrow> bool" where
  "wanted U S d e \<longleftrightarrow> isDirNode (snd e) \<and> \<not> fst (shouldSkipDirectory U S (pathJoin [d, fst e]) (fst e))"

lemma wp_scanEntry:
  "wp (scanEntry U S d e result) (\<lambda>r t. still t = still s \<and>
     srDirectories r = srDirectories result @ (if wanted U S d e then [pathJoin [d, fst e]] else [])) s"
proof -
  obtain name n where e: "e = (name, n)" by (cases e)
  show ?thesis
    unfolding e scanEntry_def Let_def wanted_def
    by (auto simp: wp case_prod_beta intro!: wp_keepsI [OF keeps_inspect] split: sum.splits option.splits)
qed

lemma wp_scanEntries:
  "wp (scanEntries U S d es result) (\<lambda>r t. still t = still s \<and>
     srDirectories r = srDirectories result @ map (\<lambda>e. pathJoin [d, fst e]) (filter (wanted U S d) es)) s"
proof (induction es arbitrary: result s)
  case (Cons e es)
  show ?case
    unfolding scanEntries.simps wp_bind
    by (rule wp_mono [OF wp_scanEntry], rule wp_mono [OF Cons.IH]) auto
qed (simp add: wp)

text \<open>What indexing leaves alone.\<close>

definition plan :: "movedProtectedLinkSearch \<Rightarrow> string list \<times> nat \<times> bool \<times> string list" where
  "plan S = (msRoots S, msNextRoot S, msIndexed S, msIndexedRoots S)"

lemma plan_absorb [simp]: "plan (absorbScan r S) = plan S"
  by (simp add: plan_def absorbScan_def)

lemma wp_scanDirectory:
  assumes "wfTree (osNodes s)" "cleanAbs d"
  shows "wp (scanDirectory U S d) (\<lambda>r t. still t = still s \<and> (\<forall>c \<in> set (srDirectories r). cleanAbs c) \<and>
    sum_list (map (potential (osNodes s)) (srDirectories r)) \<le> card (belowNodes (osNodes s) d)) s"
proof -
  let ?xs = "filter (wanted U S d) (childNames s d)"
  have names: "pathJoin [d, fst e] = dirSlash d @ fst e" "cleanAbs (dirSlash d @ fst e)" if "e \<in> set ?xs" for e
    using childNames_entry [OF assms, of "fst e" "snd e"] that assms(1)
    by (simp_all add: wfTree_def cleanAbs_def mhas_def del: isAbs_append)
  have map: "map (\<lambda>e. pathJoin [d, fst e]) ?xs = map (\<lambda>e. dirSlash d @ fst e) ?xs"
    using names(1) by (intro map_cong) auto
  have clean: "\<forall>c \<in> set (map (\<lambda>e. dirSlash d @ fst e) ?xs). cleanAbs c" using names(2) by auto
  have "sum_list (map (\<lambda>(name, n). potential (osNodes s) (dirSlash d @ name)) ?xs) \<le> card (belowNodes (osNodes s) d)"
    using assms(1) distinct_childNames [of s d]
    by (intro potential_children [OF assms]) (auto simp: wfTree_def distinct_map_filter)
  then have weight: "sum_list (map (potential (osNodes s)) (map (\<lambda>e. dirSlash d @ fst e) ?xs)) \<le> card (belowNodes (osNodes s) d)"
    unfolding map_map comp_def case_prod_beta .
  show ?thesis
    unfolding scanDirectory_def wp
  proof (rule wp_readDirI, goal_cases)
    case 2
    show ?case
      unfolding sum.case
      by (rule wp_mono [OF wp_scanEntries], unfold map) (use clean weight in \<open>simp add: emptyScan_def\<close>)
  qed (simp add: wp emptyScan_def)
qed

lemma indexQueue_ends:
  assumes "wfTree (osNodes s)" "\<forall>d \<in> set queue. cleanAbs d" "sum_list (map (potential (osNodes s)) queue) \<le> k"
  shows "wp (indexQueue k U S queue) (\<lambda>r t. still t = still s \<and> (\<exists>S'. r = Some S' \<and> plan S' = plan S)) s"
  using assms
proof (induction k U S queue arbitrary: s rule: indexQueue.induct)
  case (2 U S d queue)
  then show ?case by (simp add: potential_def)
next
  case (3 k U S d queue)
  have d: "cleanAbs d" using 3(3) by simp
  show ?case
    unfolding indexQueue.simps wp_bind
  proof (rule wp_mono [OF wp_scanDirectory [OF 3(2) d]], elim conjE)
    fix r :: movedProtectedLinkScanResult and t :: "'a os_scheme"
    assume a: "still t = still s" "\<forall>c \<in> set (srDirectories r). cleanAbs c"
      "sum_list (map (potential (osNodes s)) (srDirectories r)) \<le> card (belowNodes (osNodes s) d)"
    have N: "osNodes t = osNodes s" using a(1) by (simp add: still_def)
    have "sum_list (map (potential (osNodes t)) (queue @ srDirectories r)) \<le> k"
      using a(3) 3(4) potential_def [of "osNodes s" d] by (simp add: N)
    from 3(1) [OF _ _ this] 3(2,3) a(1,2) N
    show "wp (indexQueue k U (absorbScan r S) (queue @ srDirectories r))
        (\<lambda>r t. still t = still s \<and> (\<exists>S'. r = Some S' \<and> plan S' = plan S)) t" by auto
  qed
qed (simp add: wp)

text \<open>A search whose roots are clean absolute paths, as the paths of search roots are.\<close>

definition searchOk :: "movedProtectedLinkSearch \<Rightarrow> bool" where
  "searchOk S \<longleftrightarrow> (\<forall>r \<in> set (msRoots S). cleanAbs r)"

lemma wp_stat_errno: "wp (os_stat p) (\<lambda>r t. still t = still s \<and> (\<forall>e. r = Inl e \<longrightarrow> (\<exists>n. e = Errno n))) s"
proof -
  have "followNode k N q = Inl e \<Longrightarrow> \<exists>n. e = Errno n" for k N q e
  proof (induction k N q rule: followNode.induct)
    case (1 k N p)
    from 1(2) show ?case
      unfolding followNode.simps [of k N p] using 1(1) by (auto split: option.splits node.splits nat.splits)
  qed
  then show ?thesis unfolding os_stat_def by (intro wp_sysCallI) auto
qed

lemma wp_indexRoot:
  assumes "wfTree (osNodes s)" "cleanAbs root"
  shows "wp (indexRoot U S root) (\<lambda>r t. still t = still s \<and> r \<noteq> Inl outOfFuel \<and> (\<forall>S'. r = Inr S' \<longrightarrow> plan S' = plan S)) s"
proof -
  have ends: "wp (indexQueue (Suc (length (osNodes t))) U S [root])
      (\<lambda>r u. still u = still t \<and> (\<exists>S'. r = Some S' \<and> plan S' = plan S)) t" if "still t = still s" for t
    using that assms card_belowNodes [of "osNodes t" root]
    by (intro indexQueue_ends) (auto simp: still_def potential_def)
  show ?thesis
    unfolding indexRoot_def wp_andThen wp_bind wp_gets wp_return
  proof (rule wp_mono [OF wp_stat_errno], goal_cases)
    case (1 r t)
    show ?case
    proof (cases r)
      case (Inl e)
      then show ?thesis using 1 by (auto simp: outOfFuel_def)
    next
      case (Inr n)
      show ?thesis unfolding Inr sum.case by (rule wp_mono [OF ends]) (use 1 in auto)
    qed
  qed
qed

text \<open>How many more rounds a lookup can take.\<close>

definition roundsLeft :: "movedProtectedLinkSearch \<Rightarrow> nat" where
  "roundsLeft S = (if msIndexed S then 1 else length (msRoots S) - msNextRoot S + 2)"

lemma roundsLeft_le: "roundsLeft S \<le> length (msRoots S) + 2"
  by (simp add: roundsLeft_def)

lemma wp_indexNextRoot:
  assumes "wfTree (osNodes s)" "searchOk S" "\<not> msIndexed S"
  shows "wp (indexNextRoot U S) (\<lambda>(r, S') t. still t = still s \<and> msRoots S' = msRoots S \<and>
    r \<noteq> Inl (Wrap ''search for an offline protected-link move'' outOfFuel) \<and> (r = Inr () \<longrightarrow> roundsLeft S' < roundsLeft S)) s"
    (is "wp _ ?Q s")
proof (cases "msNextRoot S \<ge> length (msRoots S)")
  case True
  then show ?thesis using assms(3) by (simp add: indexNextRoot_def wp roundsLeft_def)
next
  case False
  let ?S = "S\<lparr>msNextRoot := Suc (msNextRoot S)\<rparr>"
  have "cleanAbs (msRoots S ! msNextRoot S)" using False assms(2) by (simp add: searchOk_def)
  note root = wp_indexRoot [OF assms(1) this, of U ?S]
  have "plan S' = plan ?S \<Longrightarrow> msRoots S' = msRoots S \<and> msNextRoot S' = Suc (msNextRoot S) \<and> \<not> msIndexed S'" for S' :: movedProtectedLinkSearch
    using assms(3) by (simp add: plan_def)
  then have step: "roundsLeft (S'\<lparr>msIndexedRoots := x, msIndexed := msIndexed S' \<or> msNextRoot S' \<ge> length (msRoots S')\<rparr>) < roundsLeft S"
      "msRoots S' = msRoots S" if "plan S' = plan ?S" for S' x
    using that False assms(3) by (auto simp: roundsLeft_def)
  have skip: "roundsLeft (?S\<lparr>msIndexedRoots := x, msIndexed := msIndexed ?S \<or> msNextRoot ?S \<ge> length (msRoots ?S)\<rparr>) < roundsLeft S" for x
    by (rule step(1)) simp
  have "wp (indexRoot U ?S (msRoots S ! msNextRoot S)) (\<lambda>r t. still t = still s \<and> r \<noteq> Inl outOfFuel \<and>
      (\<forall>S'. r = Inr S' \<longrightarrow> plan S' = plan ?S)) s" by (rule root)
  then have "wp (indexRoot U ?S (msRoots S ! msNextRoot S)) (\<lambda>r. wp (let (failed, S2) = (case r of
      Inl e \<Rightarrow> (if errorsIs e ErrNotExist then None else Some e, ?S) | Inr S' \<Rightarrow> (None, S')) in
      case failed of
        Some e \<Rightarrow> ret (Inl (Wrap ''search for an offline protected-link move'' e), S2)
      | None \<Rightarrow> ret (Inr (), S2\<lparr>msIndexedRoots := msIndexedRoots S2 @ [Clean (msRoots S ! msNextRoot S)],
          msIndexed := msIndexed S2 \<or> msNextRoot S2 \<ge> length (msRoots S2)\<rparr>)) ?Q) s"
  proof (rule wp_mono)
    fix r t assume a: "still t = still s \<and> r \<noteq> Inl outOfFuel \<and> (\<forall>S'. r = Inr S' \<longrightarrow> plan S' = plan ?S)"
    show "wp (let (failed, S2) = (case r of
      Inl e \<Rightarrow> (if errorsIs e ErrNotExist then None else Some e, ?S) | Inr S' \<Rightarrow> (None, S')) in
      case failed of
        Some e \<Rightarrow> ret (Inl (Wrap ''search for an offline protected-link move'' e), S2)
      | None \<Rightarrow> ret (Inr (), S2\<lparr>msIndexedRoots := msIndexedRoots S2 @ [Clean (msRoots S ! msNextRoot S)],
          msIndexed := msIndexed S2 \<or> msNextRoot S2 \<ge> length (msRoots S2)\<rparr>)) ?Q t"
    proof (cases r)
      case (Inl e)
      then show ?thesis using a skip by (simp add: wp)
    next
      case (Inr S')
      then show ?thesis using a step by (simp add: wp)
    qed
  qed
  then show ?thesis using False assms(3) by (simp add: indexNextRoot_def Let_def wp_bind)
qed

definition lookupEnded ::
  "string \<Rightarrow> string \<Rightarrow> 'z os_scheme \<Rightarrow> (string res \<times> movedProtectedLinkSearch) option \<Rightarrow> 'z os_scheme \<Rightarrow> bool" where
  "lookupEnded sourcePath target s x t \<longleftrightarrow> still t = still s \<and> (\<exists>r S'. x = Some (r, S') \<and>
     r \<noteq> Inl (Wrap ''search for an offline protected-link move'' outOfFuel) \<and>
     (r = Inr [] \<longrightarrow> msIndexed S') \<and> (\<forall>match. r = Inr match \<longrightarrow> searchMatch S' sourcePath target = Inr match))"

lemma findLoop_ends:
  assumes "wfTree (osNodes s)" "searchOk S" "roundsLeft S \<le> k"
  shows "wp (findLoop k U S sourcePath target) (lookupEnded sourcePath target s) s"
  using assms
proof (induction k arbitrary: S s)
  case 0
  then show ?case by (simp add: roundsLeft_def split: if_splits)
next
  case (Suc k)
  let ?Q = "lookupEnded sourcePath target s"
  have err: "searchMatch S sourcePath target = Inl e \<Longrightarrow> e \<noteq> Wrap ''search for an offline protected-link move'' outOfFuel" for e
    by (auto simp: searchMatch_def split: list.splits)
  show ?case
  proof (cases "searchMatch S sourcePath target = Inr [] \<and> \<not> msIndexed S")
    case False
    then show ?thesis using err by (auto simp: wp lookupEnded_def split: sum.splits)
  next
    case True
    have "wp (indexNextRoot U S) (\<lambda>x t. wp (case fst x of Inl e \<Rightarrow> ret (Some (Inl e, snd x))
        | Inr _ \<Rightarrow> findLoop k U (snd x) sourcePath target) ?Q t) s"
    proof (rule wp_mono [OF wp_indexNextRoot [OF Suc.prems(1,2)]], goal_cases)
      case (2 x t)
      obtain r S' where x: "x = (r, S')" by (cases x)
      have t: "osNodes t = osNodes s" and same: "still t = still s" using 2 by (simp_all add: x still_def)
      have ok: "searchOk S'" using 2 Suc.prems(2) by (simp add: x searchOk_def)
      have "lookupEnded sourcePath target t = lookupEnded sourcePath target s"
        using same by (simp add: lookupEnded_def fun_eq_iff)
      then have "wp (findLoop k U S' sourcePath target) ?Q t" if "r = Inr ()"
        using Suc.IH [of t S'] 2 that Suc.prems(1,3) t ok by (auto simp: x)
      then show ?case using 2 same by (cases r) (auto simp: x wp lookupEnded_def)
    qed (use True in simp)
    then show ?thesis using True by (simp add: wp_bind wp_case_prod case_prod_beta)
  qed
qed

section \<open>Property\<close>

text \<open>
  C28. The search for a moved link always ends and only looks: within one round per search root, and
  with every directory below a root visited at most once, it reports a link, an error of the
  operating system or an ambiguity, or that nothing was found after everything was indexed. The
  file tree is as before.
\<close>

theorem moved_link_search_ends:
  assumes "wfTree (osNodes s)" "\<forall>r \<in> set (msRoots S). isAbs r \<and> Clean r = r"
  shows "\<exists>r S' t. run_state (findLoop (length (msRoots S) + 2) U S sourcePath (Clean target)) s = (Some (r, S'), t) \<and>
    r \<noteq> Inl (Wrap ''search for an offline protected-link move'' outOfFuel) \<and> osNodes t = osNodes s \<and>
    (r = Inr [] \<longrightarrow> msIndexed S')"
proof -
  obtain x t where run: "run_state (findLoop (length (msRoots S) + 2) U S sourcePath (Clean target)) s = (x, t)"
    by (meson old.prod.exhaust)
  have "searchOk S" using assms(2) by (simp add: searchOk_def cleanAbs_def)
  from wpD [OF findLoop_ends [OF assms(1) this roundsLeft_le] run] obtain r S' where "x = Some (r, S')"
    "r \<noteq> Inl (Wrap ''search for an offline protected-link move'' outOfFuel)" "r = Inr [] \<longrightarrow> msIndexed S'" "still t = still s"
    by (auto simp: lookupEnded_def)
  then show ?thesis using run by (intro exI [of _ r] exI [of _ S'] exI [of _ t]) (simp add: still_def)
qed

definition demoSearch :: movedProtectedLinkSearch where
  "demoSearch = \<lparr>msRoots = [''/p''], msInternalRoots = [''/v''], msIndexedRoots = [], msTargets = [''/m/by-id/a''],
     msObjectTargets = [], msByTarget = [], msNextRoot = 0, msComprehensive = True, msIndexed = False\<rparr>"

theorem moved_link_search_ends_witness:
  "\<exists>r S' t. run_state (findLoop 3 \<lparr>udHome = ''/h'', udTemp = ''/tmp''\<rparr> demoSearch ''/p/f'' (Clean ''/m/by-id/a'')) demoStore =
     (Some (r, S'), t) \<and> osNodes t = osNodes demoStore"
proof -
  have keys: "map fst (osNodes demoStore) = [''/'', ''/v'', ''/v/.passfs'', ''/v/objects'', ''/v/.passfs/metadata.json'',
      ''/v/objects/a.age'', ''/p'', ''/p/f'']" by code_simp
  have ok: "list_all (\<lambda>p. isAbs p \<and> Clean p = p) [''/'', ''/v'', ''/v/.passfs'', ''/v/objects'', ''/v/.passfs/metadata.json'',
      ''/v/objects/a.age'', ''/p'', ''/p/f'']" by code_simp
  have "wfTree (osNodes demoStore)"
    using ok unfolding wfTree_def mwf_def mhas_set list_all_iff set_map [symmetric] keys by simp
  moreover have "\<forall>r \<in> set (msRoots demoSearch). isAbs r \<and> Clean r = r"
    using ok by (simp add: demoSearch_def)
  ultimately show ?thesis
    using moved_link_search_ends [of demoStore demoSearch] by (fastforce simp: demoSearch_def numeral_3_eq_3)
qed

end
