(* ===== verification/Links.thy ===== *)
theory Links
  imports LinkSearch
begin

text \<open>
  The link synchronizer (link\_tracker.go, link\_tracker\_linux.go, file\_limit.go and links.go): the
  kernel references that follow a project-side link through renames, and one reconciliation pass
  over the link records of a volume, with every decision it takes: a link in place, moved,
  replaced, deleted, or not found. Log output is not modelled; a pass reports its issues.
\<close>

section \<open>State\<close>

text \<open>
  The synchronizer next to its volume. An entry of the tracker is an open \<open>O_PATH\<close> descriptor, which
  pins an inode; a synchronizer without tracker is \<open>None\<close>. The process's open-file limit is the pair
  of \<open>syCur\<close> and \<open>syMax\<close>, and \<open>syChanged\<close> is the variable that the update of \<open>rebaseLinkSources\<close> captures.
\<close>

record sync = volume +
  syMountPoint :: string
  syTracker :: "(string, u64) gomap option"
  syGlobal :: bool
  syClosed :: bool
  syAttached :: bool
  syCur :: u64
  syMax :: u64
  syChanged :: nat

section \<open>Kernel references (link\_tracker\_linux.go)\<close>

definition inodePath :: "'z os_scheme \<Rightarrow> u64 \<Rightarrow> string option" where
  "inodePath s ino = map_option fst (find (\<lambda>(p, n). fi_ino (ninfo n) = ino) (osNodes s))"

definition openProtectedLinkReference :: "string \<Rightarrow> ('z os_scheme, u64 res) state" where
  "openProtectedLinkReference path = sysCall (\<lambda>_ s.
     (case nodeAt s path of None \<Rightarrow> Inl (Errno ENOENT) | Some n \<Rightarrow> Inr (fi_ino (ninfo n)), s))"

text \<open>\<open>unix.Fstat\<close> says whether the inode is linked, \<open>/proc/self/fd\<close> where.\<close>

definition os_fstatLinked :: "u64 \<Rightarrow> ('z os_scheme, bool res) state" where
  "os_fstatLinked ino = sysCall (\<lambda>_ s. (Inr (inodePath s ino \<noteq> None), s))"

definition os_procPath :: "u64 \<Rightarrow> ('z os_scheme, string res) state" where
  "os_procPath ino = sysCall (\<lambda>_ s. (Inr (case inodePath s ino of None \<Rightarrow> '' (deleted)'' | Some p \<Rightarrow> p), s))"

definition currentPath :: "u64 \<Rightarrow> ('z os_scheme, string option res) state" where
  "currentPath reference =
     andThen (os_fstatLinked reference) (\<lambda>linked.
     if \<not> linked then ret (Inr None)
     else andThen (os_procPath reference) (\<lambda>path.
       ret (Inr (if hasSuffix path '' (deleted)'' then None else Some (Clean path)))))"

section \<open>The tracker (link\_tracker.go)\<close>

definition sameLink :: "string \<Rightarrow> string \<Rightarrow> ('z os_scheme, bool res) state" where
  "sameLink firstPath secondPath =
     andThen (os_lstat firstPath) (\<lambda>first.
     andThen (os_lstat secondPath) (\<lambda>second.
       ret (Inr (fi_ino (ninfo first) = fi_ino (ninfo second)))))"

definition updTracker :: "((string, u64) gomap \<Rightarrow> (string, u64) gomap) \<Rightarrow> 'z sync_scheme \<Rightarrow> 'z sync_scheme" where
  "updTracker f s = s\<lparr>syTracker := map_option f (syTracker s)\<rparr>"

definition trackerForget :: "string \<Rightarrow> ('z sync_scheme, unit) state" where
  "trackerForget relative = do {
     refs \<leftarrow> gets syTracker;
     (case refs of
        None \<Rightarrow> ret ()
      | Some m \<Rightarrow>
          if mhas m (metadataKey relative)
          then do { _ \<leftarrow> os_nop; modify (updTracker (mdel (metadataKey relative))) }
          else ret ()) }"

text \<open>Opening a new reference, when none is held.\<close>

definition trackerOpen :: "string \<Rightarrow> string \<Rightarrow> ('z sync_scheme, unit res) state" where
  "trackerOpen relative sourcePath =
     andThen (mapErr (Wrap ''track protected link'') (openProtectedLinkReference sourcePath)) (\<lambda>reference. do {
       _ \<leftarrow> modify (updTracker (mset_key (metadataKey relative) reference));
       ret (Inr ()) })"

definition trackerEnsure :: "string \<Rightarrow> string \<Rightarrow> ('z sync_scheme, unit res) state" where
  "trackerEnsure relative sourcePath = do {
     refs \<leftarrow> gets syTracker;
     (case refs of
        None \<Rightarrow> ret (Inr ())
      | Some m \<Rightarrow>
          (case mget m (metadataKey relative) of
             None \<Rightarrow> trackerOpen relative sourcePath
           | Some reference \<Rightarrow>
               andThen (currentPath reference) (\<lambda>linked.
               case linked of
                 Some current \<Rightarrow>
                   andThen (sameLink current sourcePath) (\<lambda>same.
                     ret (if same then Inr ()
                          else Inl (Msg ''the tracked protected link moved while another link appeared at its old pathname; encrypted data was preserved'')))
               | None \<Rightarrow> do { _ \<leftarrow> trackerForget relative; trackerOpen relative sourcePath }))) }"

text \<open>The state of a reference: not tracked, tracked but unlinked, or linked at a path.\<close>

definition trackerState :: "string \<Rightarrow> ('z sync_scheme, string option option res) state" where
  "trackerState relative = do {
     refs \<leftarrow> gets syTracker;
     (case mget (case refs of None \<Rightarrow> [] | Some m \<Rightarrow> m) (metadataKey relative) of
        None \<Rightarrow> ret (Inr None)
      | Some reference \<Rightarrow> andThen (currentPath reference) (\<lambda>path. ret (Inr (Some path)))) }"

definition trackerReplace :: "string \<Rightarrow> string \<Rightarrow> string \<Rightarrow> ('z sync_scheme, unit res) state" where
  "trackerReplace oldRelative newRelative sourcePath = do {
     _ \<leftarrow> trackerForget oldRelative;
     mapErr (Wrap ''track moved protected link'') (trackerEnsure newRelative sourcePath) }"

fun closeAll :: "string list \<Rightarrow> ('z sync_scheme, unit) state" where
  "closeAll [] = ret ()"
| "closeAll (key # keys) = do { _ \<leftarrow> os_nop; _ \<leftarrow> modify (updTracker (mdel key)); closeAll keys }"

definition trackerClose :: "('z sync_scheme, unit) state" where
  "trackerClose = do {
     refs \<leftarrow> gets syTracker;
     closeAll (map fst (case refs of None \<Rightarrow> [] | Some m \<Rightarrow> m)) }"

section \<open>The open-file limit (file\_limit.go)\<close>

definition linkReferenceFileReserve :: int where "linkReferenceFileReserve = 256"
definition maxTrackedProtectedLinks :: int where "maxTrackedProtectedLinks = 65536"

definition rlimInfinity :: u64 where "rlimInfinity = - 1"

definition ensureLinkReferenceCapacity :: "int \<Rightarrow> ('z sync_scheme, unit res) state" where
  "ensureLinkReferenceCapacity protectedLinks =
     (if protectedLinks < 0 \<or> protectedLinks > maxTrackedProtectedLinks
      then ret (Inl (Msg ''passfs can track at most 65536 protected links''))
      else
        let required = (of_int (protectedLinks + linkReferenceFileReserve) :: u64) in
        andThen (mapErr (Wrap ''read open-file limit'') os_nop) (\<lambda>_. do {
          cur \<leftarrow> gets syCur;
          maximum \<leftarrow> gets syMax;
          (if cur \<ge> required then ret (Inr ())
           else if maximum \<noteq> rlimInfinity \<and> maximum < required
           then ret (Inl (Msg ''open-file hard limit is too low''))
           else andThen (mapErr (Wrap ''raise open-file limit'') os_nop) (\<lambda>_. do {
             _ \<leftarrow> modify (\<lambda>s. s\<lparr>syCur := required\<rparr>);
             ret (Inr ()) })) }))"

definition linkReferenceCount :: "linkRecord list \<Rightarrow> int" where
  "linkReferenceCount records =
     int (length (filter (\<lambda>r. lrProtected r \<and> lrSourcePath r \<noteq> []) records))"

section \<open>Moved directories\<close>

definition confirmedDirectoryMove :: "linkDirectoryMove \<Rightarrow> ('z os_scheme, bool) state" where
  "confirmedDirectoryMove move = do {
     r \<leftarrow> os_lstat (oldRoot move);
     (case r of
        Inr _ \<Rightarrow> ret False
      | Inl e \<Rightarrow>
          if \<not> errorsIs e ErrNotExist then ret False
          else do {
            i \<leftarrow> os_stat (newRoot move);
            ret (case i of Inl _ \<Rightarrow> False | Inr info \<Rightarrow> isDirNode info) }) }"

text \<open>The new path of a link that was strictly below the old directory.\<close>

definition rebasedSource :: "string \<Rightarrow> string \<Rightarrow> string \<Rightarrow> string option" where
  "rebasedSource oldR newR source =
     (case pathRel oldR (Clean source) of
        None \<Rightarrow> None
      | Some relative \<Rightarrow>
          if relative = ''.'' \<or> relative = ''..'' \<or> hasPrefix relative ''../'' then None
          else Some (pathJoin [newR, relative]))"

definition rebaseLinks :: "string \<Rightarrow> string \<Rightarrow> (string, string) gomap \<Rightarrow> (string, string) gomap" where
  "rebaseLinks oldR newR =
     mmap (\<lambda>_ source. case rebasedSource oldR newR source of None \<Rightarrow> source | Some source' \<Rightarrow> source')"

definition rebaseCount :: "string \<Rightarrow> string \<Rightarrow> (string, string) gomap \<Rightarrow> nat" where
  "rebaseCount oldR newR m = length (filter (\<lambda>(_, source). rebasedSource oldR newR source \<noteq> None) m)"

definition rebaseLinkSources :: "string \<Rightarrow> string \<Rightarrow> ('z sync_scheme, nat res) state" where
  "rebaseLinkSources old new =
     (let oldR = Clean old; newR = Clean new in do {
       _ \<leftarrow> modify (\<lambda>s. s\<lparr>syChanged := 0\<rparr>);
       andThen (updateMetadataLocked (\<lambda>m. do {
           _ \<leftarrow> modify (\<lambda>s. s\<lparr>syChanged := rebaseCount oldR newR (Links m)\<rparr>);
           ret (Inr (m\<lparr>Links := rebaseLinks oldR newR (Links m)\<rparr>)) })) (\<lambda>_. do {
         changed \<leftarrow> gets syChanged;
         ret (Inr changed) }) })"

section \<open>One record of a pass\<close>

text \<open>What a pass has found so far.\<close>

record syncPass =
  psIssues :: "(string, goerr) gomap"
  psMoves :: "(linkDirectoryMove, nat) gomap"
  psSearch :: movedProtectedLinkSearch

definition issue :: "string \<Rightarrow> goerr \<Rightarrow> syncPass \<Rightarrow> syncPass" where
  "issue path e P = P\<lparr>psIssues := mset_key path e (psIssues P)\<rparr>"

definition busy :: goerr where "busy = Errno EBUSY"

definition trackedLinkDeletionGrace :: int where "trackedLinkDeletionGrace = 500000000"
definition pendingObjectRegistrationGrace :: int where "pendingObjectRegistrationGrace = 30000000000"

definition errIncompleteLinkSearch :: goerr where
  "errIncompleteLinkSearch =
     Msg ''protected link could not be located with a complete search; encrypted data was preserved''"

text \<open>\<open>time.Since(time.Unix(0, at))\<close>\<close>

definition timeSince :: "int \<Rightarrow> ('z os_scheme, int) state" where
  "timeSince at = do { now \<leftarrow> timeNow; ret (now - at) }"

text \<open>Marking a record; the error of \<open>markLinkRecovery\<close> and \<open>markLinkOrphan\<close> is ignored here.\<close>

definition markConflict :: "string \<Rightarrow> string \<Rightarrow> ('z volume_scheme, unit res) state" where
  "markConflict relative reason = do {
     now \<leftarrow> timeNow;
     markLinkRecovery relative RecoveryConflict reason now }"

definition markMissing :: "string \<Rightarrow> ('z volume_scheme, unit res) state" where
  "markMissing relative = do { now \<leftarrow> timeNow; markLinkOrphan relative now }"

text \<open>A record whose link is deleted for good: the object moves to the recovery area.\<close>

definition syncDeleted :: "linkRecord \<Rightarrow> string \<Rightarrow> syncPass \<Rightarrow> ('z sync_scheme, syncPass) state" where
  "syncDeleted record sourcePath P = do {
     now \<leftarrow> timeNow;
     r \<leftarrow> markLinkRecovery (lrRelative record) RecoveryTrash ''protected link was deleted'' now;
     (case r of
        Inl e \<Rightarrow>
          if errorsIs e ErrNotExist then do { _ \<leftarrow> trackerForget (lrRelative record); ret P }
          else ret (issue sourcePath (Wrap ''move deleted protected object to recovery'' e) P)
      | Inr _ \<Rightarrow> do { _ \<leftarrow> trackerForget (lrRelative record); ret P }) }"

text \<open>The link is in place, perhaps with an old target.\<close>

definition linkInPlace :: "linkRecord \<Rightarrow> protectedLink \<Rightarrow> bool" where
  "linkInPlace record link \<longleftrightarrow> plIsSymlink link \<and>
     (targetMatchesStorage (plTarget link) (lrRelative record) \<or>
      (lrLegacyTarget record \<noteq> [] \<and> plTarget link = Clean (lrLegacyTarget record)))"

definition syncInPlace :: "linkRecord \<Rightarrow> string \<Rightarrow> string \<Rightarrow> protectedLink \<Rightarrow> syncPass \<Rightarrow> ('z sync_scheme, syncPass) state" where
  "syncInPlace record sourcePath expectedTarget link P = do {
     r \<leftarrow> (if plTarget link \<noteq> Clean expectedTarget
        then mapErr (Wrap ''migrate protected link target'') (replaceProtectedLink sourcePath expectedTarget (plTarget link))
        else ret (Inr ()));
     (case r of
        Inl e \<Rightarrow> ret (issue sourcePath e P)
      | Inr _ \<Rightarrow> do {
          t \<leftarrow> trackerEnsure (lrRelative record) sourcePath;
          (case t of
             Inl e \<Rightarrow> ret (issue sourcePath e P)
           | Inr _ \<Rightarrow> do {
               c \<leftarrow> clearLinkOrphan (lrRelative record);
               ret (case c of Inl e \<Rightarrow> issue sourcePath e P | Inr _ \<Rightarrow> P) }) }) }"

text \<open>A tracked reference that does not lead elsewhere.\<close>

definition syncTracked :: "linkRecord \<Rightarrow> string \<Rightarrow> bool \<Rightarrow> protectedLink \<Rightarrow> syncPass \<Rightarrow> ('z sync_scheme, syncPass) state" where
  "syncTracked record sourcePath linked link P =
     (if linked then ret (issue sourcePath busy P)
      else if plExists link then do {
        _ \<leftarrow> markConflict (lrRelative record) ''protected pathname was replaced'';
        ret (issue sourcePath (Msg ''protected pathname was replaced; encrypted data was preserved'') P) }
      else do {
        waiting \<leftarrow> (if lrOrphanedAt record = 0 then ret True
          else do { elapsed \<leftarrow> timeSince (lrOrphanedAt record); ret (elapsed < trackedLinkDeletionGrace) });
        (if waiting then do { _ \<leftarrow> markMissing (lrRelative record); ret (issue sourcePath busy P) }
         else syncDeleted record sourcePath P) })"

text \<open>The link was found elsewhere.\<close>

definition countMove :: "string \<Rightarrow> string \<Rightarrow> syncPass \<Rightarrow> syncPass" where
  "countMove sourcePath movedPath P =
     (case inferLinkDirectoryMove sourcePath movedPath of
        None \<Rightarrow> P
      | Some move \<Rightarrow> P\<lparr>psMoves := mset_key move (Suc (mgetz 0 (psMoves P) move)) (psMoves P)\<rparr>)"

definition adoptMoved :: "linkRecord \<Rightarrow> string \<Rightarrow> string \<Rightarrow> string \<Rightarrow> protectedLink \<Rightarrow> syncPass \<Rightarrow> ('z sync_scheme, syncPass) state" where
  "adoptMoved record sourcePath movedPath expectedTarget movedLink P = do {
     r \<leftarrow> (if plTarget movedLink \<noteq> Clean expectedTarget
        then replaceProtectedLink movedPath expectedTarget (plTarget movedLink) else ret (Inr ()));
     (case r of
        Inl e \<Rightarrow> ret (issue movedPath e P)
      | Inr _ \<Rightarrow>
          let P' = countMove sourcePath movedPath P in do {
          l \<leftarrow> setLinkSource (lrRelative record) movedPath;
          (case l of
             Inl e \<Rightarrow> ret (issue movedPath e P')
           | Inr _ \<Rightarrow> do {
               refs \<leftarrow> gets syTracker;
               (if refs = None then ret P'
                else do {
                  t \<leftarrow> trackerReplace (lrRelative record) (lrRelative record) movedPath;
                  ret (case t of Inl e \<Rightarrow> issue movedPath e P' | Inr _ \<Rightarrow> P') }) }) }) }"

definition retireMoved :: "linkRecord \<Rightarrow> string \<Rightarrow> string \<Rightarrow> syncPass \<Rightarrow> ('z sync_scheme, syncPass) state" where
  "retireMoved record sourcePath movedPath P = do {
     r \<leftarrow> retireProtectedLink movedPath (lrRelative record);
     (let failed = (case r of Inl e \<Rightarrow> if errorsIs e ErrNotExist then None else Some e | Inr _ \<Rightarrow> None) in
      case failed of
        Some e \<Rightarrow> ret (issue movedPath (Wrap ''retire displaced protected link'' e) P)
      | None \<Rightarrow> do {
          c \<leftarrow> markConflict (lrRelative record) ''atomic save replaced the protected pathname'';
          (case c of
             Inl e \<Rightarrow> ret (issue sourcePath (Wrap ''record atomic-save conflict'' e) P)
           | Inr _ \<Rightarrow> do {
               _ \<leftarrow> trackerForget (lrRelative record);
               ret (issue sourcePath (Msg ''atomic save replaced the protected pathname; encrypted data was preserved'') P) }) }) }"

definition movedLinkOk :: "linkRecord \<Rightarrow> protectedLink \<Rightarrow> bool" where
  "movedLinkOk record movedLink \<longleftrightarrow> plIsSymlink movedLink \<and>
     (targetMatchesStorage (plTarget movedLink) (lrRelative record) \<or> plTarget movedLink = Clean (lrLegacyTarget record))"

definition syncMoved ::
  "linkRecord \<Rightarrow> string \<Rightarrow> string \<Rightarrow> string \<Rightarrow> protectedLink \<Rightarrow> syncPass \<Rightarrow> ('z sync_scheme, syncPass) state" where
  "syncMoved record sourcePath movedPath expectedTarget link P = do {
     l \<leftarrow> inspectProtectedLink movedPath;
     (case l of
        Inl e \<Rightarrow> ret (issue movedPath e P)
      | Inr movedLink \<Rightarrow>
          if \<not> movedLinkOk record movedLink then do {
            _ \<leftarrow> markConflict (lrRelative record) ''moved protected link changed target'';
            ret (issue movedPath (Msg ''moved protected link changed target; encrypted data was preserved'') P) }
          else if plExists link then retireMoved record sourcePath movedPath P
          else adoptMoved record sourcePath movedPath expectedTarget movedLink P) }"

text \<open>The link was not found anywhere.\<close>

definition syncAbsent :: "linkRecord \<Rightarrow> string \<Rightarrow> protectedLink \<Rightarrow> syncPass \<Rightarrow> ('z sync_scheme, syncPass) state" where
  "syncAbsent record sourcePath link P =
     (if plExists link then do {
        _ \<leftarrow> markConflict (lrRelative record) ''protected pathname was replaced'';
        ret (issue sourcePath (Msg ''protected pathname was replaced; encrypted data was preserved'') P) }
      else do {
        pending \<leftarrow> (if sourcePath = [] \<and> lrOrphanedAt record \<noteq> 0
          then do { elapsed \<leftarrow> timeSince (lrOrphanedAt record); ret (elapsed < pendingObjectRegistrationGrace) }
          else ret False);
        (if pending then ret (issue (lrRelative record) busy P)
         else if lrLegacyTarget record \<noteq> []
         then ret (issue (lrRelative record) (Msg ''legacy protected link could not be located; encrypted data was preserved'') P)
         else if \<not> msComprehensive (psSearch P) \<or> \<not> msIndexed (psSearch P) then do {
           _ \<leftarrow> markMissing (lrRelative record);
           ret (issue sourcePath errIncompleteLinkSearch P) }
         else syncDeleted record sourcePath P) })"

definition syncSearch ::
  "userdirs \<Rightarrow> linkRecord \<Rightarrow> string \<Rightarrow> string \<Rightarrow> protectedLink \<Rightarrow> syncPass \<Rightarrow> ('z sync_scheme, syncPass) state" where
  "syncSearch U record sourcePath expectedTarget link P = do {
     (r1, S1) \<leftarrow> findMoved U (psSearch P) sourcePath expectedTarget;
     (r, S) \<leftarrow> (if r1 = Inr [] \<and> lrLegacyTarget record \<noteq> []
        then findMoved U S1 sourcePath (lrLegacyTarget record) else ret (r1, S1));
     (let P' = P\<lparr>psSearch := S\<rparr> in
      case r of
        Inl e \<Rightarrow> do {
          _ \<leftarrow> markMissing (lrRelative record);
          ret (issue sourcePath e P') }
      | Inr movedPath \<Rightarrow>
          if movedPath \<noteq> [] then syncMoved record sourcePath movedPath expectedTarget link P'
          else syncAbsent record sourcePath link P') }"

definition syncMissing ::
  "userdirs \<Rightarrow> linkRecord \<Rightarrow> string \<Rightarrow> string \<Rightarrow> protectedLink \<Rightarrow> syncPass \<Rightarrow> ('z sync_scheme, syncPass) state" where
  "syncMissing U record sourcePath expectedTarget link P = do {
     st \<leftarrow> trackerState (lrRelative record);
     (case st of
        Inl e \<Rightarrow> ret (issue sourcePath e P)
      | Inr None \<Rightarrow> syncSearch U record sourcePath expectedTarget link P
      | Inr (Some None) \<Rightarrow> syncTracked record sourcePath False link P
      | Inr (Some (Some trackedPath)) \<Rightarrow>
          if Clean trackedPath \<noteq> sourcePath \<and> trackedPath \<noteq> []
          then syncMoved record sourcePath trackedPath expectedTarget link P
          else syncTracked record sourcePath True link P) }"

text \<open>A record with its registered path, if it has one, and the target its link should have.\<close>

definition syncAt :: "userdirs \<Rightarrow> linkRecord \<Rightarrow> string \<Rightarrow> string \<Rightarrow> syncPass \<Rightarrow> ('z sync_scheme, syncPass) state" where
  "syncAt U record sourcePath expectedTarget P = do {
     l \<leftarrow> (if sourcePath = [] then ret (Inr noLink) else inspectProtectedLink sourcePath);
     (case l of
        Inl e \<Rightarrow> ret (issue sourcePath e P)
      | Inr link \<Rightarrow>
          if linkInPlace record link then syncInPlace record sourcePath expectedTarget link P
          else if reState (lrRecovery record) \<noteq> [] then ret P
          else syncMissing U record sourcePath expectedTarget link P) }"

definition syncRecord :: "userdirs \<Rightarrow> linkRecord \<Rightarrow> syncPass \<Rightarrow> ('z sync_scheme, syncPass) state" where
  "syncRecord U record P =
     (if \<not> lrProtected record then ret P
      else do {
        mountPoint \<leftarrow> gets syMountPoint;
        cwd \<leftarrow> gets (\<lambda>s. envCwd (osEnv s));
        (case mountedPathForStorage cwd mountPoint (lrRelative record) of
           Inl e \<Rightarrow> ret (issue (lrRelative record) e P)
         | Inr expectedTarget \<Rightarrow>
             let sourcePath = (if Clean (lrSourcePath record) = ''.'' then [] else Clean (lrSourcePath record)) in
             syncAt U record sourcePath expectedTarget P) })"

section \<open>A pass\<close>

fun syncRecords :: "userdirs \<Rightarrow> linkRecord list \<Rightarrow> syncPass \<Rightarrow> ('z sync_scheme, syncPass) state" where
  "syncRecords U [] P = ret P"
| "syncRecords U (record # records) P = do { P' \<leftarrow> syncRecord U record P; syncRecords U records P' }"

fun applyMoves :: "(linkDirectoryMove \<times> nat) list \<Rightarrow> syncPass \<Rightarrow> ('z sync_scheme, syncPass) state" where
  "applyMoves [] P = ret P"
| "applyMoves ((move, count) # moves) P = do {
     confirmed \<leftarrow> (if count < 2 then ret False else confirmedDirectoryMove move);
     (if \<not> confirmed then applyMoves moves P
      else do {
        r \<leftarrow> rebaseLinkSources (oldRoot move) (newRoot move);
        applyMoves moves
          (case r of
             Inl e \<Rightarrow> issue (oldRoot move) (Wrap ''record moved protected directory'' e) P
           | Inr changed \<Rightarrow> if changed > 0 then issue (oldRoot move) busy P else P) }) }"

definition synchronizeOpaqueLinksOnce ::
  "userdirs \<Rightarrow> movedProtectedLinkSearch \<Rightarrow> ('z sync_scheme, (string, goerr) gomap) state" where
  "synchronizeOpaqueLinksOnce U S = do {
     mountPoint \<leftarrow> gets syMountPoint;
     r \<leftarrow> refreshMetadata;
     (case r of
        Inl e \<Rightarrow> ret [(mountPoint, Wrap ''refresh protected link metadata'' e)]
      | Inr _ \<Rightarrow> do {
          records \<leftarrow> linkRecords;
          refs \<leftarrow> gets syTracker;
          c \<leftarrow> (if refs = None then ret (Inr ()) else ensureLinkReferenceCapacity (linkReferenceCount records));
          (case c of
             Inl e \<Rightarrow> ret [(mountPoint, e)]
           | Inr _ \<Rightarrow> do {
               P \<leftarrow> syncRecords U records \<lparr>psIssues = [], psMoves = [], psSearch = S\<rparr>;
               P' \<leftarrow> applyMoves (psMoves P) P;
               ret (psIssues P') }) }) }"

section \<open>The synchronizer\<close>

definition linkReconciliationLockFileName :: string where
  "linkReconciliationLockFileName = ''link-reconciliation.lock''"

definition WithLinkReconciliationLock :: "string \<Rightarrow> ('z os_scheme, 'a res) state \<Rightarrow> ('z os_scheme, 'a res) state" where
  "WithLinkReconciliationLock root action =
     andThen (mapErr (Wrap ''open link reconciliation lock'')
       (openCoordinationLock (pathJoin [root, internalDirName, linkReconciliationLockFileName]))) (\<lambda>_. do {
     locked \<leftarrow> os_nop;
     (case locked of
        Inl e \<Rightarrow> do {
          c \<leftarrow> os_nop;
          ret (Inl (Join (Wrap ''lock link reconciliation'' e # (case c of Inl e' \<Rightarrow> [e'] | Inr _ \<Rightarrow> [])))) }
      | Inr _ \<Rightarrow> do {
          r \<leftarrow> action;
          u \<leftarrow> mapErr (Wrap ''unlock link reconciliation'') os_nop;
          c \<leftarrow> mapErr (Wrap ''close link reconciliation lock'') os_nop;
          ret (case errorsJoin [errOf r, errOf u, errOf c] of None \<Rightarrow> r | Some e \<Rightarrow> Inl e) }) })"

definition EnableGlobalMoveSearch :: "'z sync_scheme \<Rightarrow> 'z sync_scheme" where
  "EnableGlobalMoveSearch s = s\<lparr>syGlobal := True\<rparr>"

definition attachLinkSynchronizer :: "('z sync_scheme, unit res) state" where
  "attachLinkSynchronizer = do {
     attached \<leftarrow> gets syAttached;
     (if attached then ret (Inl (Msg ''a protected link synchronizer is already attached''))
      else do { _ \<leftarrow> modify (\<lambda>s. s\<lparr>syAttached := True\<rparr>); ret (Inr ()) }) }"

definition detachLinkSynchronizer :: "('z sync_scheme, unit) state" where
  "detachLinkSynchronizer = modify (\<lambda>s. s\<lparr>syAttached := False\<rparr>)"

definition NewLinkSynchronizer :: "string \<Rightarrow> ('z sync_scheme, unit res) state" where
  "NewLinkSynchronizer mountPoint = do {
     records \<leftarrow> linkRecords;
     andThen (ensureLinkReferenceCapacity (linkReferenceCount records)) (\<lambda>_.
     andThen attachLinkSynchronizer (\<lambda>_. do {
       _ \<leftarrow> modify (\<lambda>s. s\<lparr>syMountPoint := mountPoint, syTracker := Some [], syGlobal := False, syClosed := False\<rparr>);
       ret (Inr ()) })) }"

text \<open>\<open>Synchronize\<close> reports whether the caller should retry soon.\<close>

definition retryIssues :: "(string, goerr) gomap \<Rightarrow> bool" where
  "retryIssues issues = list_ex (\<lambda>(_, e). errorsIsErrno e EBUSY \<or> errorsIs e ErrNotExist) issues"

definition Synchronize :: "userdirs \<Rightarrow> ('z sync_scheme, bool) state" where
  "Synchronize U = do {
     root \<leftarrow> gets vRoot;
     r \<leftarrow> WithLinkReconciliationLock root (do {
       closed \<leftarrow> gets syClosed;
       (if closed then ret (Inr False)
        else do {
          mountPoint \<leftarrow> gets syMountPoint;
          records \<leftarrow> linkRecords;
          global \<leftarrow> gets syGlobal;
          search \<leftarrow> newMovedProtectedLinkSearchWithGlobalRoots U root mountPoint records global;
          issues \<leftarrow> synchronizeOpaqueLinksOnce U search;
          ret (Inr (retryIssues issues)) }) });
     ret (case r of Inl _ \<Rightarrow> True | Inr retry \<Rightarrow> retry) }"

definition prepareRecord :: "linkRecord \<Rightarrow> ('z sync_scheme, unit res) state" where
  "prepareRecord record =
     (if \<not> lrProtected record \<or> lrSourcePath record = [] then ret (Inr ())
      else do {
        mountPoint \<leftarrow> gets syMountPoint;
        cwd \<leftarrow> gets (\<lambda>s. envCwd (osEnv s));
        (case mountedPathForStorage cwd mountPoint (lrRelative record) of
           Inl _ \<Rightarrow> ret (Inr ())
         | Inr targetPath \<Rightarrow> do {
             l \<leftarrow> inspectProtectedLink (lrSourcePath record);
             (case l of
                Inl _ \<Rightarrow> ret (Inr ())
              | Inr link \<Rightarrow>
                  if plIsSymlink link \<and> plTarget link = Clean targetPath
                  then trackerEnsure (lrRelative record) (lrSourcePath record)
                  else ret (Inr ())) }) })"

definition Prepare :: "('z sync_scheme, unit res) state" where
  "Prepare = do {
     closed \<leftarrow> gets syClosed;
     (if closed then ret (Inl (Msg ''protected link tracker is closed''))
      else andThen refreshMetadata (\<lambda>_. do {
        records \<leftarrow> linkRecords;
        forEach records prepareRecord })) }"

definition closeSynchronizer :: "('z sync_scheme, unit) state" where
  "closeSynchronizer = do {
     _ \<leftarrow> detachLinkSynchronizer;
     closed \<leftarrow> gets syClosed;
     (if closed then ret ()
      else do { _ \<leftarrow> modify (\<lambda>s. s\<lparr>syClosed := True\<rparr>); trackerClose }) }"

fun watchedParents :: "linkRecord list \<Rightarrow> ('z os_scheme, string list) state" where
  "watchedParents [] = ret []"
| "watchedParents (record # records) =
     (if \<not> lrProtected record \<or> lrSourcePath record = [] then watchedParents records
      else do {
        directory \<leftarrow> nearestExistingDirectory (pathDir (lrSourcePath record));
        rest \<leftarrow> watchedParents records;
        ret (if directory = [] then rest else directory # rest) })"

definition watchDirectories :: "('z sync_scheme, string list) state" where
  "watchDirectories = do {
     root \<leftarrow> gets vRoot;
     internal \<leftarrow> nearestExistingDirectory (pathJoin [root, internalDirName]);
     records \<leftarrow> linkRecords;
     parents \<leftarrow> watchedParents records;
     ret (sort (remdups ((if internal = [] then [] else [internal]) @ parents))) }"

end
