(* ===== verification/LinkSafety.thy ===== *)
theory LinkSafety
  imports Links
begin

text \<open>
  What a reconciliation step may change. Rewriting and retiring links touches links and its own
  scratch directories only; the index is edited in at most one transaction, which keeps the record
  of every object. So whatever fails, no regular file changes but the metadata document.
\<close>

section \<open>Invariants of computations\<close>

text \<open>\<open>preserves I m\<close>: whatever the environment does, \<open>m\<close> keeps the predicate \<open>I\<close> of the state.\<close>

named_theorems preserves \<open>predicates that computations preserve\<close>

definition preserves :: "('s \<Rightarrow> bool) \<Rightarrow> ('s, 'a) state \<Rightarrow> bool" where
  "preserves I m \<longleftrightarrow> (\<forall>t. I t \<longrightarrow> wp m (\<lambda>_. I) t)"

lemma preservesI: "(\<And>t. I t \<Longrightarrow> wp m (\<lambda>_. I) t) \<Longrightarrow> preserves I m"
  by (simp add: preserves_def)

lemma wp_preservesI: "preserves I m \<Longrightarrow> I t \<Longrightarrow> (\<And>r u. I u \<Longrightarrow> Q r u) \<Longrightarrow> wp m Q t"
  unfolding preserves_def by (blast intro: wp_mono)

lemma preserves_keeps: "keeps f m \<Longrightarrow> (\<And>t u. f u = f t \<Longrightarrow> I t \<Longrightarrow> I u) \<Longrightarrow> preserves I m"
  by (rule preservesI) (blast intro: wp_keepsI)

lemma preserves_rules [preserves]:
  "preserves I (ret a)" "preserves I (gets f)"
  "preserves I m \<Longrightarrow> (\<And>x. preserves I (g x)) \<Longrightarrow> preserves I (State_Monad.bind m g)"
  "preserves I m \<Longrightarrow> preserves I n \<Longrightarrow> preserves I (if b then m else n)"
  "(\<And>y. preserves I (h y)) \<Longrightarrow> preserves I (Let x h)"
  "(\<And>e. preserves I (k e)) \<Longrightarrow> (\<And>a. preserves I (l a)) \<Longrightarrow> preserves I (case r of Inl e \<Rightarrow> k e | Inr a \<Rightarrow> l a)"
  "preserves I n \<Longrightarrow> (\<And>a. preserves I (h a)) \<Longrightarrow> preserves I (case w of None \<Rightarrow> n | Some a \<Rightarrow> h a)"
  "(\<And>a b. preserves I (q a b)) \<Longrightarrow> preserves I (case v of (a, b) \<Rightarrow> q a b)"
  by (auto simp: preserves_def wp intro: wp_mono split: sum.splits option.splits prod.splits)

lemma preserves_andThen [preserves]:
  "preserves I m \<Longrightarrow> (\<And>x. preserves I (g x)) \<Longrightarrow> preserves I (andThen m g)"
  "preserves I m \<Longrightarrow> preserves I (mapErr e m)"
  unfolding andThen_def mapErr_def by (intro preserves; assumption?)+

section \<open>Scratch entries\<close>

definition scratchName :: "string \<Rightarrow> bool" where
  "scratchName c \<longleftrightarrow> prefix ''.passfs-link-'' c \<or> prefix ''.passfs-retire-'' c \<or> prefix ''.passfs-unprotect-'' c"

definition scratchFree :: "string \<Rightarrow> bool" where
  "scratchFree q \<longleftrightarrow> list_all (\<lambda>c. \<not> scratchName c) (splitOn slash q)"

lemma comps_in_split: "c \<in> set (comps p) \<Longrightarrow> c \<in> set (splitOn slash (Clean p))"
proof (cases "isAbs p")
  case True
  assume "c \<in> set (comps p)"
  then show ?thesis using True splitOn_join_comps [of p] splitOn_append [of slash "[]" "joinWith slash (comps p)"]
    by (cases "comps p = []") (auto simp: Clean_abs)
next
  case False
  assume "c \<in> set (comps p)"
  then show ?thesis using False splitOn_join_comps [of p] by (auto simp: Clean_rel)
qed

lemma dirSlash_ends:
  obtains e where "dirSlash d = e @ [slash]"
proof (cases "d \<noteq> [] \<and> last d = slash")
  case True
  then show ?thesis using that [of "butlast d"] append_butlast_last_id [of d] by (simp add: dirSlash_def)
qed (use that [of d] in \<open>auto simp: dirSlash_def\<close>)

lemma comps_append_proper: "a \<noteq> [] \<Longrightarrow> proper x \<Longrightarrow> comps (a @ slash # x) = comps a @ [x]"
  using comps_append [of a x] foldl_cleanStep_proper [of "[x]"] by (simp add: splitOn_no_sep proper_def)

lemma comps_root_proper: "proper x \<Longrightarrow> comps (slash # x) = [x]"
  using foldl_cleanStep_proper [of "[x]" True "[]"] by (simp add: comps_def isAbs_def splitOn_no_sep proper_def cleanStep_def)

text \<open>The scratch directory of an operation, the link in it and everything below it.\<close>

lemma split_below:
  assumes "slash \<notin> set x" "x \<noteq> []" "q = dirSlash d @ x \<or> below (dirSlash d @ x) q"
  shows "x \<in> set (splitOn slash q)"
proof -
  obtain e where e: "dirSlash d = e @ [slash]" by (rule dirSlash_ends)
  have "last x \<noteq> slash" using assms(1,2) last_in_set by metis
  then have "q = e @ slash # x \<or> (\<exists>y. q = e @ slash # (x @ slash # y))"
    using assms(2,3) e by (auto simp: below_def dirSlash_def [of "_ @ _"] prefix_def)
  then show ?thesis using splitOn_no_sep [OF assms(1)] by (auto simp: splitOn_append)
qed

lemma proper_leaf: "proper ''link''" "proper ''plaintext''"
  by (simp_all add: proper_def)

lemma scratch_entries:
  assumes "scratchName c" "slash \<notin> set c" "dir = tempName D c"
  shows "\<not> scratchFree dir" "below dir q \<Longrightarrow> \<not> scratchFree q" "proper x \<Longrightarrow> \<not> scratchFree (pathJoin [dir, x])"
proof -
  have c: "c \<noteq> []" "proper c" using assms(1,2) by (auto simp: scratchName_def proper_def)
  note below = split_below [OF assms(2) c(1)]
  show "\<not> scratchFree dir" using below [of dir D] assms by (auto simp: scratchFree_def list_all_iff tempName_def)
  show "\<not> scratchFree q" if "below dir q"
    using below [of q D] that assms by (auto simp: scratchFree_def list_all_iff tempName_def)
  have dir: "dir \<noteq> []" using assms(3) c by (simp add: tempName_def)
  obtain e where e: "dirSlash D = e @ [slash]" by (rule dirSlash_ends)
  then have "c \<in> set (comps dir)"
    using assms(3) comps_root_proper [OF c(2)] comps_append_proper [OF _ c(2), of e] by (cases "e = []") (simp_all add: tempName_def)
  then show "\<not> scratchFree (pathJoin [dir, x])" if "proper x"
    using comps_append_proper [OF dir that] comps_in_split [of c "dir @ slash # x"] pathJoin2 [OF dir, of x] assms(1) that
    by (auto simp: scratchFree_def list_all_iff proper_def)
qed

section \<open>Links are the only entries that rewriting touches\<close>

definition keepsRegular :: "'z os_scheme \<Rightarrow> 'z os_scheme \<Rightarrow> bool" where
  "keepsRegular s t \<longleftrightarrow> osEnv t = osEnv s \<and> os.more t = os.more s \<and>
     (\<forall>q i d. scratchFree q \<longrightarrow> nodeAt s q = Some (Regular i d) \<longrightarrow> nodeAt t q = Some (Regular i d))"

definition linkOrNone :: "'z os_scheme \<Rightarrow> string \<Rightarrow> bool" where
  "linkOrNone s p \<longleftrightarrow> (case nodeAt s p of None \<Rightarrow> True | Some n \<Rightarrow> isLinkNode n)"

lemma keepsRegular_refl [simp]: "keepsRegular s s"
  by (simp add: keepsRegular_def)

lemma keepsRegular_tickd [simp]: "keepsRegular s (tickd t) = keepsRegular s t" "linkOrNone (tickd t) p = linkOrNone t p"
  by (simp_all add: keepsRegular_def linkOrNone_def)

lemma keepsRegular_trans: "keepsRegular s t \<Longrightarrow> keepsRegular t u \<Longrightarrow> keepsRegular s u"
  by (simp add: keepsRegular_def)

lemma keepsRegular_put [simp]:
  "\<not> scratchFree p \<Longrightarrow> keepsRegular s t \<Longrightarrow> keepsRegular s (putNode p n t)"
  "\<not> scratchFree p \<Longrightarrow> keepsRegular s t \<Longrightarrow> keepsRegular s (delNode p t)"
  by (auto simp: keepsRegular_def)

lemma regular_not_link:
  "keepsRegular s t \<Longrightarrow> linkOrNone t p \<Longrightarrow> scratchFree q \<Longrightarrow> nodeAt s q = Some (Regular i d) \<Longrightarrow> q \<noteq> p"
  unfolding keepsRegular_def linkOrNone_def by force

lemma keepsRegular_link:
  assumes "linkOrNone t p" "keepsRegular s t"
  shows "isLinkNode n \<Longrightarrow> keepsRegular s (putNode p n t)" "keepsRegular s (delNode p t)"
proof -
  have other: "q \<noteq> p \<and> nodeAt t q = Some (Regular i d)" if "scratchFree q" "nodeAt s q = Some (Regular i d)" for q i d
    using regular_not_link [OF assms(2,1) that] assms(2) that unfolding keepsRegular_def by blast
  then show "isLinkNode n \<Longrightarrow> keepsRegular s (putNode p n t)" "keepsRegular s (delNode p t)"
    using assms(2) unfolding keepsRegular_def by simp_all
qed

lemma linkOrNone_simps [simp]:
  "linkOrNone (putNode p n t) q = (if q = p then isLinkNode n else linkOrNone t q)"
  "linkOrNone (delNode p t) q = (q = p \<or> linkOrNone t q)"
  by (auto simp: linkOrNone_def)

lemma linkOrNone_node: "linkOrNone t p \<Longrightarrow> nodeAt t p = Some n \<Longrightarrow> isLinkNode n \<and> \<not> isDirNode n"
  by (cases n) (auto simp: linkOrNone_def)

text \<open>The state of such an operation: the link, and its scratch path, hold links or nothing.\<close>

definition linkWork :: "string \<Rightarrow> string \<Rightarrow> 'z os_scheme \<Rightarrow> 'z os_scheme \<Rightarrow> bool" where
  "linkWork p tmp s t \<longleftrightarrow> keepsRegular s t \<and> linkOrNone t p \<and> linkOrNone t tmp"

lemma linkWork_still: "still u = still t \<Longrightarrow> linkWork p tmp s u = linkWork p tmp s t"
  by (simp add: linkWork_def keepsRegular_def linkOrNone_def still_def nodeAt_def)

lemma linkWork_tickd [simp]: "linkWork p tmp s (tickd t) = linkWork p tmp s t"
  by (simp add: linkWork_def)

lemma work_look: "keeps still m \<Longrightarrow> preserves (linkWork p tmp s) m"
  by (rule preserves_keeps) (blast dest: linkWork_still)+

lemma work_exchange [preserves]: "preserves (linkWork p tmp s) (exchangePaths tmp p)"
proof (intro preservesI wp_exchangeI)
  fix t m n assume "linkWork p tmp s t" "nodeAt t tmp = Some m" "nodeAt t p = Some n"
  then show "linkWork p tmp s (putNode tmp n (putNode p m (tickd t)))"
    using linkOrNone_node [of t] by (auto simp: linkWork_def intro!: keepsRegular_link)
qed (use linkOrNone_node in \<open>auto simp: linkWork_def\<close>)

lemma work_remove [preserves]: "x = tmp \<or> \<not> scratchFree x \<Longrightarrow> preserves (linkWork p tmp s) (os_remove x)"
  by (intro preservesI wp_removeI) (auto simp: linkWork_def intro: keepsRegular_link)

lemma work_restore [preserves]: "preserves (linkWork p tmp s) (renameNoReplace tmp p)"
proof (intro preservesI wp_renameNoReplaceI)
  fix t n assume "linkWork p tmp s t" "nodeAt t tmp = Some n" "nodeAt t p = None"
  then show "linkWork p tmp s (putNode p n (delNode tmp (tickd t)))"
    using linkOrNone_node [of t] by (auto simp: linkWork_def intro!: keepsRegular_link)
qed (use linkOrNone_node in \<open>auto simp: linkWork_def\<close>)

lemma keeps_sync [keeps]: "keeps still (syncDirectory d)"
  unfolding syncDirectory_def by (intro keeps)

lemma keeps_expectLink [keeps]: "keeps still (expectLink e p)"
  unfolding expectLink_def by (intro keeps)

lemma keepsRegular_delTree:
  assumes "keepsRegular s t" "\<And>q. q = dir \<or> below dir q \<Longrightarrow> \<not> scratchFree q"
  shows "keepsRegular s (delTree dir t)"
  using assms unfolding keepsRegular_def by auto

lemma removeAll_keepsRegular:
  assumes "keepsRegular s t" "scratchName c" "slash \<notin> set c" "dir = tempName D c"
    "\<And>r u. keepsRegular s u \<Longrightarrow> Q r u"
  shows "wp (os_removeAll dir) Q t"
  by (rule wp_removeAllI; rule assms(5))
    (use assms(1) scratch_entries(1,2) [OF assms(2-4)] in \<open>auto intro: keepsRegular_delTree\<close>)

definition isLinkAt :: "'z os_scheme \<Rightarrow> string \<Rightarrow> bool" where
  "isLinkAt s p \<longleftrightarrow> (\<exists>i x. nodeAt s p = Some (Symlink i x))"

text \<open>The scratch directory has just been made and the link is in its place.\<close>

lemma scratch_made:
  assumes "isLinkAt s p" "nodeAt s dir = None" "\<not> scratchFree dir"
  shows "keepsRegular s (putNode dir (Directory i) (tickd s))" "linkOrNone (putNode dir (Directory i) (tickd s)) p"
    "isLinkAt (putNode dir (Directory i) (tickd s)) p"
  using assms by (auto simp: isLinkAt_def linkOrNone_def)

lemma linkWork_keeps: "linkWork p tmp s t \<Longrightarrow> keepsRegular s t"
  by (simp add: linkWork_def)

lemma exchange_keepsRegular:
  assumes "keepsRegular s u" "linkOrNone u p" "\<not> scratchFree (pathJoin [dir, ''link''])" "\<not> scratchFree dir"
    and "\<And>q. keeps still (validate q)"
  shows "wp (exchangeBody p target validate dir) (\<lambda>_ t. keepsRegular s t) u"
  unfolding exchangeBody_def Let_def wp_bind
proof (rule wp_symlinkI, goal_cases)
  case (2 i)
  have "linkWork p (pathJoin [dir, ''link'']) s (putNode (pathJoin [dir, ''link'']) (Symlink i target) (tickd u))"
    using assms(1-3) by (simp add: linkWork_def)
  then show ?case
    unfolding sum.case exchangeRollback_def
    by (rule wp_preservesI [rotated])
      (use assms(4) in \<open>auto intro!: preserves work_look [OF keeps_sync] work_look [OF assms(5)] simp: linkWork_keeps\<close>)
qed (use assms(1) in \<open>simp add: wp\<close>)

lemma digitNames_scratch:
  assumes "digitNames e" "pfx \<in> {''.passfs-link-'', ''.passfs-retire-'', ''.passfs-unprotect-''}"
  shows "scratchName (pfx @ envName e i)" "slash \<notin> set (pfx @ envName e i)"
  using assms digitNames_proper [OF assms(1), of pfx i] by (auto simp: scratchName_def proper_def)

lemma replace_keepsRegular:
  assumes "isLinkAt s p" "digitNames (osEnv s)"
  shows "wp (replaceProtectedLink p target expected) (\<lambda>_ t. keepsRegular s t) s"
  unfolding replaceProtectedLink_def exchangePathWithSymlink_def wp_bind wp_case_sum
proof (rule wp_mkdirTempI, goal_cases)
  case (2 x i dir)
  note name = digitNames_scratch [OF assms(2) insertI1, of "osCalls s", folded 2(3)]
  note scratch = scratch_entries(1,2) [OF name 2(1)] scratch_entries(3) [OF name 2(1) proper_leaf(1)]
  note made = scratch_made [OF assms(1) 2(2) scratch(1)]
  show ?case
    unfolding sum.case wp_bind wp_case_prod
    by (rule wp_mono [OF exchange_keepsRegular [OF made(1,2) scratch(3,1) keeps_expectLink]])
      (auto simp: wp intro!: removeAll_keepsRegular [OF _ name 2(1)])
qed (simp add: wp)

lemma retire_keepsRegular:
  assumes "isLinkAt s p" "digitNames (osEnv s)"
  shows "wp (retireProtectedLink p storage) (\<lambda>_ t. keepsRegular s t) s"
  unfolding retireProtectedLink_def wp_bind wp_case_sum
proof (rule wp_mkdirTempI, goal_cases)
  case (2 x i dir)
  let ?s = "putNode dir (Directory i) (tickd s)" and ?tmp = "pathJoin [dir, ''link'']"
  note name = digitNames_scratch [OF assms(2) insertI2 [OF insertI1], of "osCalls s", folded 2(3)]
  note scratch = scratch_entries(1,2) [OF name 2(1)] scratch_entries(3) [OF name 2(1) proper_leaf(1)]
  note made = scratch_made [OF assms(1) 2(2) scratch(1)]
  have rename: "wp (os_rename p ?tmp) (\<lambda>r t. keepsRegular s t \<and> (r = Inr () \<longrightarrow> linkWork p ?tmp s t)) ?s"
    unfolding os_rename_def
    by (rule wp_sysCallI)
      (use made scratch(3) in \<open>auto simp: linkWork_def isLinkAt_def moveNode_def intro!: keepsRegular_put(1) keepsRegular_link(2)
         split: option.splits node.splits if_splits\<close>)
  have body: "wp (retireBody p storage dir) (\<lambda>_ t. keepsRegular s t) ?s"
    unfolding retireBody_def Let_def wp_bind
  proof (rule wp_mono [OF rename], goal_cases)
    case (1 r t)
    show ?case
    proof (cases r)
      case (Inr u)
      show ?thesis
        unfolding Inr sum.case retireRestore_def
        by (rule wp_preservesI [where I = "linkWork p ?tmp s"])
          (use 1 Inr scratch in \<open>auto intro!: preserves work_look [OF keeps_sync] work_look [OF keeps_inspect] simp: linkWork_keeps\<close>)
    qed (use 1 in \<open>simp add: wp\<close>)
  qed
  show ?case
    unfolding sum.case wp_bind wp_case_prod
    by (rule wp_mono [OF body]) (auto simp: wp intro!: removeAll_keepsRegular [OF _ name 2(1)])
qed (simp add: wp)

section \<open>One record\<close>

text \<open>
  The volume before its index is edited: every regular file is in place and the index is the old
  one. Afterwards the metadata document may be new, and the index still lists every object.
\<close>

definition untouched :: "'z sync_scheme \<Rightarrow> 'z sync_scheme \<Rightarrow> bool" where
  "untouched s t \<longleftrightarrow> osEnv t = osEnv s \<and> vRoot t = vRoot s \<and> vMetadata t = vMetadata s \<and> vPending t = vPending s \<and>
     (\<forall>q i d. scratchFree q \<longrightarrow> nodeAt s q = Some (Regular i d) \<longrightarrow> nodeAt t q = Some (Regular i d))"

definition settled :: "Metadata \<Rightarrow> 'z sync_scheme \<Rightarrow> 'z sync_scheme \<Rightarrow> bool" where
  "settled m s t \<longleftrightarrow>
     (vMetadata t = vMetadata s \<or> Files (vMetadata t) = Files (mergePending (vPending s) m)) \<and>
     (\<forall>q i d. scratchFree q \<longrightarrow> q \<noteq> metadataPath (vRoot s) \<longrightarrow> nodeAt s q = Some (Regular i d) \<longrightarrow>
        nodeAt t q = Some (Regular i d))"

lemma untouched_settled: "untouched s t \<Longrightarrow> settled m s t"
  by (simp add: untouched_def settled_def)

lemma untouched_refl [simp]: "untouched s s"
  by (simp add: untouched_def)

lemma keepsRegular_untouched: "untouched s t \<Longrightarrow> keepsRegular t u \<Longrightarrow> untouched s u"
  using more_volume [of u t] by (simp add: untouched_def keepsRegular_def)

text \<open>The parts of the volume that tracking a link never changes.\<close>

definition core :: "'z sync_scheme \<Rightarrow> (string, node) gomap \<times> environ \<times> string \<times> Metadata \<times> (string, int) gomap" where
  "core s = (osNodes s, osEnv s, vRoot s, vMetadata s, vPending s)"

lemma still_core: "still t = still s \<Longrightarrow> core t = core s" for s t :: "'z sync_scheme"
  using more_volume [of t s] by (simp add: still_def core_def)

lemma core_tickd [simp]: "core (tickd s) = core s"
  by (simp add: core_def tickd_def)

lemma keeps_core: "keeps still m \<Longrightarrow> keeps core (m :: ('z sync_scheme, 'a) state)"
  by (erule keeps_mono) (rule still_core)

lemma core_untouched: "core u = core t \<Longrightarrow> untouched s t \<Longrightarrow> untouched s u"
  by (simp add: core_def untouched_def nodeAt_def)

lemma core_settled: "core u = core t \<Longrightarrow> settled m s t \<Longrightarrow> settled m s u"
  by (simp add: core_def settled_def nodeAt_def)

lemma core_isLinkAt: "core u = core t \<Longrightarrow> isLinkAt u p = isLinkAt t p"
  by (simp add: core_def isLinkAt_def nodeAt_def)

lemma keeps_coreTracker [keeps]: "keeps core (modify (updTracker f))"
  by (rule keeps_modify) (simp add: core_def updTracker_def)

lemma keeps_reference:
  "keeps still (openProtectedLinkReference p)" "keeps still (os_fstatLinked i)" "keeps still (os_procPath i)"
  unfolding openProtectedLinkReference_def os_fstatLinked_def os_procPath_def
  by (rule keeps_stillCall; simp)+

lemmas keeps_coreCalls [keeps] = keeps_reference [THEN keeps_core] keeps_looking [THEN keeps_core]
  keeps_inspect [THEN keeps_core] keeps_find(2) [THEN keeps_core] keeps_still_resolve [THEN keeps_core]

lemma keeps_tracker [keeps]:
  "keeps core (trackerForget r)" "keeps core (trackerEnsure r p)" "keeps core (trackerState r)"
  "keeps core (trackerReplace r r' p)" "keeps core (timeSince i)"
proof -
  show forget: "keeps core (trackerForget r)" for r unfolding trackerForget_def by (intro keeps)
  have opened: "keeps core (trackerOpen r p)" for r p unfolding trackerOpen_def by (intro keeps)
  have current: "keeps core (currentPath i)" for i unfolding currentPath_def by (intro keeps)
  have same: "keeps core (sameLink p q)" for p q unfolding sameLink_def by (intro keeps)
  show ensure: "keeps core (trackerEnsure r p)" for r p
    unfolding trackerEnsure_def by (intro keeps forget opened current same)
  show "keeps core (trackerState r)" unfolding trackerState_def by (intro keeps current)
  show "keeps core (trackerReplace r r' p)" unfolding trackerReplace_def by (intro keeps forget ensure)
  show "keeps core (timeSince i)" unfolding timeSince_def by (intro keeps)
qed

subsection \<open>One transaction\<close>

definition ready :: "Metadata \<Rightarrow> 'z sync_scheme \<Rightarrow> bool" where
  "ready m s \<longleftrightarrow> isAbs (vRoot s) \<and> Clean (vRoot s) = vRoot s \<and> digitNames (osEnv s) \<and>
     scratchFree (metadataPath (vRoot s)) \<and> diskMetadata s (vRoot s) = Some m"

lemma ready_untouched: "ready m s \<Longrightarrow> untouched s t \<Longrightarrow> ready m t"
proof -
  assume r: "ready m s" and u: "untouched s t"
  then obtain i d where n: "nodeAt s (metadataPath (vRoot s)) = Some (Regular i d)"
    by (auto simp: ready_def diskMetadata_def split: option.splits node.splits)
  then have "nodeAt t (metadataPath (vRoot s)) = nodeAt s (metadataPath (vRoot s))"
    using r u by (simp add: ready_def untouched_def)
  from diskMetadata_cong [OF this] show ?thesis using r u by (simp add: ready_def untouched_def)
qed

lemma transacted_settled:
  assumes "ready m s" "untouched s t" "transacted (\<lambda>a b. Files b = Files a) t r u"
  shows "settled m s u"
proof -
  have root: "vRoot t = vRoot s" "vMetadata t = vMetadata s" "vPending t = vPending s" using assms(2) by (simp_all add: untouched_def)
  have disk: "diskMetadata t (vRoot s) = Some m" using ready_untouched [OF assms(1,2)] root by (simp add: ready_def)
  have frame: "volFrame {metadataPath (vRoot s)} (metadataScratch (vRoot s)) t u" using assms(3) root by (simp add: transacted_def Let_def)
  have "vMetadata u = vMetadata s \<or> Files (vMetadata u) = Files (mergePending (vPending s) m)"
    using assms(3) disk root by (cases r) (auto simp: transacted_def Let_def)
  moreover have "nodeAt u q = Some (Regular i d)"
    if "scratchFree q" "q \<noteq> metadataPath (vRoot s)" "nodeAt s q = Some (Regular i d)" for q i d
    using frame assms(2) that by (auto simp: untouched_def volFrame_def)
  ultimately show ?thesis by (simp add: settled_def)
qed

definition settles :: "Metadata \<Rightarrow> 'z sync_scheme \<Rightarrow> ('z sync_scheme, 'a) state \<Rightarrow> bool" where
  "settles m s c \<longleftrightarrow> (\<forall>t. untouched s t \<longrightarrow> wp c (\<lambda>_. settled m s) t)"

lemma settlesD: "settles m s c \<Longrightarrow> untouched s t \<Longrightarrow> wp c (\<lambda>_. settled m s) t"
  by (simp add: settles_def)

lemma settles_look:
  assumes "keeps core c" "\<And>a. settles m s (f a)"
  shows "settles m s (State_Monad.bind c f)"
  unfolding settles_def wp_bind
proof (intro allI impI)
  fix t assume t: "untouched s t"
  show "wp c (\<lambda>a. wp (f a) (\<lambda>_. settled m s)) t"
    by (rule wp_keepsI [OF assms(1)]) (rule settlesD [OF assms(2) core_untouched [OF _ t]])
qed

lemma settles_then:
  assumes "settles m s c" "\<And>a. keeps core (f a)"
  shows "settles m s (State_Monad.bind c f)"
  unfolding settles_def wp_bind
proof (intro allI impI)
  fix t assume t: "untouched s t"
  show "wp c (\<lambda>a. wp (f a) (\<lambda>_. settled m s)) t"
    by (rule wp_mono [OF settlesD [OF assms(1) t]], rule wp_keepsI [OF assms(2)], erule core_settled)
qed

lemma settles_rules:
  "settles m s (ret a)" "settles m s c \<Longrightarrow> settles m s c' \<Longrightarrow> settles m s (if b then c else c')"
  "(\<And>y. settles m s (h y)) \<Longrightarrow> settles m s (Let x h)"
  "(\<And>e. settles m s (k e)) \<Longrightarrow> (\<And>a. settles m s (l a)) \<Longrightarrow> settles m s (case r of Inl e \<Rightarrow> k e | Inr a \<Rightarrow> l a)"
  "settles m s c \<Longrightarrow> (\<And>a. settles m s (g a)) \<Longrightarrow> settles m s (case w of None \<Rightarrow> c | Some a \<Rightarrow> g a)"
  "(\<And>a b. settles m s (q a b)) \<Longrightarrow> settles m s (case v of (a, b) \<Rightarrow> q a b)"
  by (auto simp: settles_def wp untouched_settled split: sum.splits option.splits prod.splits)

lemma settles_update:
  assumes "ready m s" "\<And>t n. ready n t \<Longrightarrow> wp (updateMetadataLocked upd) (transacted post t) t"
    and "\<And>a b. post a b \<Longrightarrow> Files b = Files a"
  shows "settles m s (updateMetadataLocked upd)"
  unfolding settles_def
proof (intro allI impI)
  fix t assume t: "untouched s t"
  show "wp (updateMetadataLocked upd) (\<lambda>_. settled m s) t"
    by (rule wp_mono [OF assms(2) [OF ready_untouched [OF assms(1) t]]])
      (rule transacted_settled [OF assms(1) t transacted_mono], assumption, rule assms(3))
qed

text \<open>The four edits of a pass keep the record of every object.\<close>

lemma settles_marks:
  assumes "ready m s"
  shows "settles m s (markLinkRecovery r state reason when)" "settles m s (markLinkOrphan r when)"
    "settles m s (clearLinkOrphan r)" "settles m s (setLinkSource r p)"
proof -
  have "settles m s (updateMetadataLocked (\<lambda>m. ret (linkRecoveryMarked k st re w m)))" for k st re w
    by (rule settles_update [OF assms recover.update_transacted])
      (auto simp: ready_def linkRecoveryMarked_def Let_def split: if_splits)
  then show "settles m s (markLinkRecovery r state reason when)"
    unfolding markLinkRecovery_def by (intro settles_rules)
  have "settles m s (updateMetadataLocked (\<lambda>m. ret (linkOrphanMarked k w m)))" for k w
    by (rule settles_update [OF assms orphan.update_transacted])
      (auto simp: ready_def linkOrphanMarked_def split: if_splits)
  then show "settles m s (markLinkOrphan r when)"
    unfolding markLinkOrphan_def by (intro settles_look settles_rules keeps)
  have "settles m s (updateMetadataLocked (\<lambda>m. ret (linkOrphanCleared k m)))" for k
    by (rule settles_update [OF assms clearOrphan.update_transacted]) (auto simp: ready_def linkOrphanCleared_def)
  then show "settles m s (clearLinkOrphan r)"
    unfolding clearLinkOrphan_def by (intro settles_look settles_rules keeps)
  have "settles m s (updateMetadataLocked (\<lambda>m. ret (linkSourceSet k p' m)))" for k p'
    by (rule settles_update [OF assms setLink.update_transacted]) (auto simp: ready_def linkSourceSet_def split: if_splits)
  then show "settles m s (setLinkSource r p)"
    unfolding setLinkSource_def andThen_def by (intro settles_look settles_rules keeps)
qed

subsection \<open>The branches of a pass\<close>

lemma settles_conflict:
  assumes "ready m s"
  shows "settles m s (markConflict r reason)" "settles m s (markMissing r)"
  unfolding markConflict_def markMissing_def by (intro settles_look settles_marks assms keeps)+

lemma settles_leaf:
  assumes "ready m s"
  shows "settles m s (syncDeleted record p P)" "settles m s (syncTracked record p l link P)"
    "settles m s (syncAbsent record p link P)"
proof -
  note mark = settles_marks [OF assms] settles_conflict [OF assms]
  show del: "settles m s (syncDeleted record p P)"
    unfolding syncDeleted_def
    by (rule settles_look, intro keeps, rule settles_then, rule mark, intro keeps)
  have missing: "settles m s (do { _ \<leftarrow> markMissing r; ret x })" "settles m s (do { _ \<leftarrow> markConflict r reason; ret x })"
    for r reason and x :: syncPass
    by (rule settles_then, rule mark, intro keeps)+
  show "settles m s (syncTracked record p l link P)"
    unfolding syncTracked_def by (intro settles_rules missing settles_look del keeps)
  show "settles m s (syncAbsent record p link P)"
    unfolding syncAbsent_def by (intro settles_rules missing settles_look del keeps)
qed

lemma wp_linkOps:
  assumes "ready m s" "untouched s t" "isLinkAt t p" "\<And>r u. untouched s u \<Longrightarrow> Q r u"
  shows "wp (replaceProtectedLink p target expected) Q t" "wp (retireProtectedLink p storage) Q t"
proof -
  have d: "digitNames (osEnv t)" using ready_untouched [OF assms(1,2)] by (simp add: ready_def)
  show "wp (replaceProtectedLink p target expected) Q t"
    by (rule wp_mono [OF replace_keepsRegular [OF assms(3) d]]) (rule assms(4) [OF keepsRegular_untouched [OF assms(2)]])
  show "wp (retireProtectedLink p storage) Q t"
    by (rule wp_mono [OF retire_keepsRegular [OF assms(3) d]]) (rule assms(4) [OF keepsRegular_untouched [OF assms(2)]])
qed

lemma wp_inspectLinkI:
  assumes "untouched s t" "\<And>r u. untouched s u \<Longrightarrow> (\<And>l. r = Inr l \<Longrightarrow> plIsSymlink l \<Longrightarrow> isLinkAt u p) \<Longrightarrow> Q r u"
  shows "wp (inspectProtectedLink p) Q t"
proof -
  have u: "untouched s (tickd t)" "untouched s (tickd (tickd t))" using assms(1) by (auto intro: core_untouched [of _ t])
  show ?thesis by (rule wp_inspectI; rule assms(2)) (use u in \<open>auto simp: isLinkAt_def\<close>)
qed

lemma settles_afterReplace:
  assumes "ready m s" "untouched s t" "isLinkAt t p" "\<And>r. settles m s (f r)"
  shows "wp (State_Monad.bind (if b then replaceProtectedLink p target expected else ret (Inr ())) f) (\<lambda>_. settled m s) t"
    "wp (State_Monad.bind (if b then mapErr g (replaceProtectedLink p target expected) else ret (Inr ())) f) (\<lambda>_. settled m s) t"
  unfolding wp_bind wp_if wp_mapErr wp_return
  using settlesD [OF assms(4)] assms(2) by (auto intro!: wp_linkOps(1) [OF assms(1-3)])

lemma settles_inPlace:
  assumes "ready m s" "untouched s t" "isLinkAt t p"
  shows "wp (syncInPlace record p target link P) (\<lambda>_. settled m s) t"
  unfolding syncInPlace_def
  by (rule settles_afterReplace(2) [OF assms])
    (intro settles_rules settles_look keeps settles_then settles_marks assms(1))

lemma settles_moved:
  assumes "ready m s"
  shows "settles m s (syncMoved record p q target link P)"
proof -
  note mark = settles_marks [OF assms] settles_conflict [OF assms]
  have adopt: "wp (adoptMoved record p q target l P) (\<lambda>_. settled m s) t" if t: "untouched s t" "isLinkAt t q" for l t
    unfolding adoptMoved_def
    by (rule settles_afterReplace(1) [OF assms t], intro settles_rules, rule settles_then, rule mark, intro keeps)
  have retire: "wp (retireMoved record p q P) (\<lambda>_. settled m s) t" if t: "untouched s t" "isLinkAt t q" for t
  proof -
    have conflict: "settles m s (do {
          c \<leftarrow> markConflict (lrRelative record) ''atomic save replaced the protected pathname'';
          (case c of
             Inl e \<Rightarrow> ret (issue p (Wrap ''record atomic-save conflict'' e) P)
           | Inr _ \<Rightarrow> do {
               _ \<leftarrow> trackerForget (lrRelative record);
               ret (issue p (Msg ''atomic save replaced the protected pathname; encrypted data was preserved'') P) }) })"
      by (rule settles_then, rule mark, intro keeps)
    show ?thesis
      unfolding retireMoved_def wp_bind Let_def
      by (rule wp_linkOps(2) [OF assms t])
        (rule settlesD [OF settles_rules(5)], rule conflict, rule settles_rules(1))
  qed
  have changed: "settles m s (do { _ \<leftarrow> markConflict r reason; ret x })" for r reason and x :: syncPass
    by (rule settles_then, rule mark, intro keeps)
  show ?thesis
    unfolding settles_def syncMoved_def wp_bind
  proof (intro allI impI)
    fix t assume t: "untouched s t"
    show "wp (inspectProtectedLink q) (\<lambda>l. wp (case l of
        Inl e \<Rightarrow> ret (issue q e P)
      | Inr movedLink \<Rightarrow>
          if \<not> movedLinkOk record movedLink then do {
            _ \<leftarrow> markConflict (lrRelative record) ''moved protected link changed target'';
            ret (issue q (Msg ''moved protected link changed target; encrypted data was preserved'') P) }
          else if plExists link then retireMoved record p q P
          else adoptMoved record p q target movedLink P) (\<lambda>_. settled m s)) t"
      by (rule wp_inspectLinkI [OF t])
        (auto simp: wp_return wp_if untouched_settled movedLinkOk_def
          intro!: settlesD [OF changed] retire adopt split: sum.splits)
  qed
qed

lemma settles_record:
  assumes "ready m s"
  shows "wp (syncRecord U record P) (\<lambda>_. settled m s) s"
proof -
  note leaf = settles_leaf [OF assms] settles_moved [OF assms] settles_conflict [OF assms]
  have search: "settles m s (syncSearch U record p target link P)" for p target link
    unfolding syncSearch_def
    by (intro settles_look settles_rules keeps leaf settles_then)
  have missing: "settles m s (syncMissing U record p target link P)" for p target link
    unfolding syncMissing_def by (intro settles_look settles_rules keeps leaf search)
  have source: "wp (syncAt U record p target P) (\<lambda>_. settled m s) s" for p target
  proof (cases "p = []")
    case True
    then show ?thesis
      using settlesD [OF missing, of s] by (simp add: syncAt_def wp noLink_def linkInPlace_def untouched_settled)
  next
    case False
    then show ?thesis
      unfolding syncAt_def wp_bind if_not_P [OF False]
      by (intro wp_inspectLinkI [of s s])
        (auto simp: wp_return wp_if untouched_settled linkInPlace_def
          intro!: settlesD [OF missing] settles_inPlace [OF assms] split: sum.splits)
  qed
  then show ?thesis
    unfolding syncRecord_def Let_def wp_if wp_bind wp_gets wp_return wp_case_sum
    by (simp add: untouched_settled split: sum.splits)
qed

section \<open>Property\<close>

definition demoSync :: sync where
  "demoSync = volume.extend demoStore
     (sync.fields ''/m'' (Some []) False False True 1024 4096 0)"

definition demoRecord :: linkRecord where
  "demoRecord = zeroRecord\<lparr>lrRelative := ''objects/7d444840-9dc0-41d1-b245-5ffdce74fad2'', lrSourcePath := ''/p/f'', lrProtected := True\<rparr>"

definition demoPass :: syncPass where
  "demoPass = \<lparr>psIssues = [], psMoves = [], psSearch = demoSearch\<rparr>"

text \<open>
  C29. Reconciling a record never destroys data, whatever it finds and whichever calls fail: every
  regular file of the machine keeps its place and contents, except the metadata document and the
  scratch entries of passfs, and the index still lists every object that it listed.
\<close>

theorem sync_step_keeps_data:
  assumes "isAbs (vRoot s)" "Clean (vRoot s) = vRoot s" "digitNames (osEnv s)" "scratchFree (metadataPath (vRoot s))"
    and "diskMetadata s (vRoot s) = Some m" and "run_state (syncRecord U record P) s = (P', t)"
  shows "(\<forall>q i d. scratchFree q \<longrightarrow> q \<noteq> metadataPath (vRoot s) \<longrightarrow> nodeAt s q = Some (Regular i d) \<longrightarrow>
      nodeAt t q = Some (Regular i d)) \<and>
    (vMetadata t = vMetadata s \<or> Files (vMetadata t) = Files (mergePending (vPending s) m))"
proof -
  have "ready m s" using assms by (simp add: ready_def)
  from wpD [OF settles_record [OF this] assms(6)] show ?thesis unfolding settled_def by blast
qed

theorem sync_step_keeps_data_witness:
  "nodeAt (snd (run_state (syncRecord \<lparr>udHome = ''/h'', udTemp = ''/tmp''\<rparr> demoRecord demoPass) demoSync)) ''/p/f'' = Some (fileNode [9])"
proof -
  have same: "vRoot demoSync = vRoot demoStore" "osEnv demoSync = osEnv demoStore" "osNodes demoSync = osNodes demoStore"
    by (simp_all add: demoSync_def volume.defs sync.defs)
  have disk: "diskMetadata demoSync (vRoot demoSync) = Some emptyMetadata"
    using demoStore_ok(6) by (simp add: same diskMetadata_def nodeAt_def)
  have free: "scratchFree (metadataPath (vRoot demoSync))" "scratchFree ''/p/f''" "''/p/f'' \<noteq> metadataPath (vRoot demoSync)"
    by code_simp+
  have p: "metadataPath ''/v'' = ''/v/.passfs/metadata.json''" by code_simp
  have n: "nodeAt demoSync ''/p/f'' = Some (fileNode [9])"
    unfolding nodeAt_def same by (simp add: demoStore_def p)
  show ?thesis
    using sync_step_keeps_data [OF _ _ _ free(1) disk prod.collapse [symmetric]] demoStore_ok(1-3) free(2,3) n
    unfolding same fileNode_def by metis
qed

end
