(* ===== verification/Mount.thy ===== *)
theory Mount
  imports LinkSafety
begin

text \<open>
  Whether a directory is a mounted passfs (mount\_status.go and mount\_status\_linux.go): the kernel's
  mount table is read line by line, its fields are split, and the mount points, in which the kernel
  writes some bytes as octal escapes, are decoded and compared. The theorem says that the answer is
  that of the table itself.
\<close>

section \<open>The standard library\<close>

text \<open>\<open>strings.Fields\<close>: the maximal runs without white space; the first argument is the run so far.\<close>

fun fieldsFrom :: "string \<Rightarrow> string \<Rightarrow> string list" where
  "fieldsFrom word [] = (if word = [] then [] else [word])"
| "fieldsFrom word (c # s) =
     (case find (\<lambda>r. prefix r (c # s)) spaceRunes of
        None \<Rightarrow> fieldsFrom (word @ [c]) s
      | Some r \<Rightarrow> (if word = [] then [] else [word]) @ fieldsFrom [] (drop (length r - 1) s))"

definition strings_Fields :: "string \<Rightarrow> string list" where
  "strings_Fields s = fieldsFrom [] s"

text \<open>
  \<open>bufio.Scanner\<close>: lines without their terminator and a final carriage return; a last line without
  terminator counts when it is not empty. A line of 64 KiB or more stops the scan with an error.
\<close>

definition newline :: char where "newline = CHR 0x0A"

definition scanLines :: "string \<Rightarrow> string list" where
  "scanLines s = (let ls = splitOn newline s in if last ls = [] then butlast ls else ls)"

definition dropCR :: "string \<Rightarrow> string" where
  "dropCR line = (if line \<noteq> [] \<and> last line = CHR 0x0D then butlast line else line)"

definition maxScanTokenSize :: int where "maxScanTokenSize = 64 * 1024"

section \<open>Mount status\<close>

definition MountAdapterUnknown :: string where "MountAdapterUnknown = []"
definition MountAdapterFUSE :: string where "MountAdapterFUSE = ''fuse''"
definition MountAdapterFSKit :: string where "MountAdapterFSKit = ''fskit''"

definition canonicalMountPoint :: "string \<Rightarrow> ('z os_scheme, string res) state" where
  "canonicalMountPoint path = do {
     cwd \<leftarrow> gets (\<lambda>s. envCwd (osEnv s));
     (let absolute = Clean (absPath cwd path); parent = pathDir absolute in do {
       r \<leftarrow> evalSymlinks parent;
       ret (case r of
          Inr resolvedParent \<Rightarrow> Inr (pathJoin [resolvedParent, pathBase absolute])
        | Inl e \<Rightarrow> if errorsIs e ErrNotExist then Inr (pathJoin [parent, pathBase absolute]) else Inl e) }) }"

definition backslash :: char where "backslash = CHR 0x5C"

definition octalVal :: "char \<Rightarrow> nat option" where
  "octalVal c = (let n = of_char c in if 48 \<le> n \<and> n \<le> (55 :: nat) then Some (n - 48) else None)"

text \<open>\<open>strconv.ParseUint(digits, 8, 8)\<close> on three characters.\<close>

definition parseOctal :: "char \<Rightarrow> char \<Rightarrow> char \<Rightarrow> nat option" where
  "parseOctal a b c =
     (case (octalVal a, octalVal b, octalVal c) of
        (Some x, Some y, Some z) \<Rightarrow> if 64 * x + 8 * y + z < 256 then Some (64 * x + 8 * y + z) else None
      | _ \<Rightarrow> None)"

fun decodeMountInfoPath :: "string \<Rightarrow> string res" where
  "decodeMountInfoPath [] = Inr []"
| "decodeMountInfoPath (c # value) =
     (if c \<noteq> backslash then
        (case decodeMountInfoPath value of Inl e \<Rightarrow> Inl e | Inr rest \<Rightarrow> Inr (c # rest))
      else case value of
        x # y # z # value' \<Rightarrow>
          (case parseOctal x y z of
             None \<Rightarrow> Inl (Msg ''strconv.ParseUint: invalid syntax or value out of range'')
           | Some n \<Rightarrow> (case decodeMountInfoPath value' of Inl e \<Rightarrow> Inl e | Inr rest \<Rightarrow> Inr (char_of n # rest)))
      | _ \<Rightarrow> Inl (Msg ''invalid escape in /proc/self/mountinfo''))"

definition mountInfoPathMatches :: "string \<Rightarrow> string \<Rightarrow> bool res" where
  "mountInfoPathMatches encodedPath target =
     (case decodeMountInfoPath encodedPath of Inl e \<Rightarrow> Inl e | Inr current \<Rightarrow> Inr (Clean current = target))"

text \<open>The position of the field that separates the optional fields, if there is one.\<close>

definition separatorOf :: "string list \<Rightarrow> nat option" where
  "separatorOf words = (if ''-'' \<in> set words then Some (length (takeWhile (\<lambda>f. f \<noteq> ''-'') words)) else None)"

text \<open>One line: no match, or the adapter of a matching mount.\<close>

definition mountLine :: "string \<Rightarrow> string \<Rightarrow> string option res" where
  "mountLine target line =
     (let words = strings_Fields (dropCR line) in
      case separatorOf words of
        None \<Rightarrow> Inr None
      | Some separator \<Rightarrow>
          if separator + 2 \<ge> length words \<or> length words < 5 then Inr None
          else case mountInfoPathMatches (words ! 4) target of
            Inl e \<Rightarrow> Inl e
          | Inr matches \<Rightarrow>
              if \<not> matches then Inr None
              else if words ! (separator + 1) = ''fuse.passfs'' \<and> words ! (separator + 2) = ''passfs''
              then Inr (Some MountAdapterFUSE) else Inr (Some MountAdapterUnknown))"

fun scanMounts :: "string \<Rightarrow> string list \<Rightarrow> (bool \<times> string) res" where
  "scanMounts target [] = Inr (False, MountAdapterUnknown)"
| "scanMounts target (line # lines) =
     (if int (length line) \<ge> maxScanTokenSize then Inl (Msg ''bufio.Scanner: token too long'')
      else case mountLine target line of
        Inl e \<Rightarrow> Inl e
      | Inr (Some adapter) \<Rightarrow> Inr (True, adapter)
      | Inr None \<Rightarrow> scanMounts target lines)"

definition mountInfoPath :: string where "mountInfoPath = ''/proc/self/mountinfo''"

definition MountAdapterStatus :: "string \<Rightarrow> ('z os_scheme, (bool \<times> string) res) state" where
  "MountAdapterStatus mountPoint =
     andThen (os_open mountInfoPath) (\<lambda>table.
     andThen (canonicalMountPoint mountPoint) (\<lambda>target.
     andThen os_nop (\<lambda>_.
       ret (scanMounts target (scanLines (bytesStr table))))))"

definition MountStatus :: "string \<Rightarrow> ('z os_scheme, (bool \<times> bool) res) state" where
  "MountStatus mountPoint =
     andThen (MountAdapterStatus mountPoint) (\<lambda>(mounted, adapter).
       ret (Inr (mounted, adapter \<noteq> MountAdapterUnknown)))"

section \<open>The kernel's table\<close>

text \<open>
  How Linux writes the table: in a path the bytes space, tab, newline, backslash and hash are
  written as a backslash and three octal digits.
\<close>

definition octalDigits :: "char \<Rightarrow> string" where
  "octalDigits c = (let n = of_char c in [char_of (48 + n div 64), char_of (48 + n div 8 mod 8), char_of (48 + n mod (8 :: nat))])"

definition mangledChars :: "char list" where
  "mangledChars = [CHR 0x20, CHR 0x09, CHR 0x0A, CHR 0x5C, CHR 0x23]"

definition mangle :: "string \<Rightarrow> string" where
  "mangle path = concat (map (\<lambda>c. if c \<in> set mangledChars then backslash # octalDigits c else [c]) path)"

record mount =
  mnHead :: "string list"
  mnPoint :: string
  mnOptions :: "string list"
  mnType :: string
  mnSource :: string
  mnSuper :: string

text \<open>
  A line: identifiers, device and root (four fields), the mount point, options and optional
  fields, the separator, type, source and super options.
\<close>

definition mountFields :: "mount \<Rightarrow> string list" where
  "mountFields m = mnHead m @ [mangle (mnPoint m)] @ mnOptions m @ [''-'', mnType m, mangle (mnSource m), mnSuper m]"

definition renderMount :: "mount \<Rightarrow> string" where
  "renderMount m = joinWith CHR 0x20 (mountFields m)"

definition renderTable :: "mount list \<Rightarrow> string" where
  "renderTable ms = concat (map (\<lambda>m. renderMount m @ [newline]) ms)"

text \<open>A field that \<open>strings.Fields\<close> keeps whole.\<close>

definition plainField :: "string \<Rightarrow> bool" where
  "plainField f \<longleftrightarrow> f \<noteq> [] \<and> list_all (\<lambda>s. list_all (\<lambda>r. \<not> prefix r s) spaceRunes) (suffixes f)"

definition mountOk :: "mount \<Rightarrow> bool" where
  "mountOk m \<longleftrightarrow> length (mnHead m) = 4 \<and> list_all plainField (mountFields m) \<and>
     ''-'' \<notin> set (mnHead m) \<and> ''-'' \<notin> set (mnOptions m) \<and> mnPoint m \<noteq> ''-'' \<and>
     int (length (renderMount m)) < maxScanTokenSize"

text \<open>What the table says: the first entry for the directory, and whether it is passfs's.\<close>

definition tableStatus :: "mount list \<Rightarrow> string \<Rightarrow> bool \<times> string" where
  "tableStatus ms target =
     (case find (\<lambda>m. Clean (mnPoint m) = target) ms of
        None \<Rightarrow> (False, MountAdapterUnknown)
      | Some m \<Rightarrow>
          (True, if mnType m = ''fuse.passfs'' \<and> mnSource m = ''passfs'' then MountAdapterFUSE else MountAdapterUnknown))"

section \<open>Splitting a line\<close>

lemma spaceRunes_ok: "r \<in> set spaceRunes \<Longrightarrow> r \<noteq> [] \<and> CHR 0x20 \<notin> set (tl r)"
  by (auto simp: spaceRunes_def)

definition noSpace :: "string \<Rightarrow> bool" where
  "noSpace s \<longleftrightarrow> list_all (\<lambda>s. list_all (\<lambda>r. \<not> prefix r s) spaceRunes) (suffixes s)"

lemma noSpace_Cons: "noSpace (c # s) \<longleftrightarrow> (\<forall>r \<in> set spaceRunes. \<not> prefix r (c # s)) \<and> noSpace s"
  by (auto simp: noSpace_def list_all_iff)

lemma rune_across:
  assumes "r \<in> set spaceRunes" "prefix r (c # s @ rest)" "rest = [] \<or> (\<exists>x. rest = CHR 0x20 # x)"
  shows "prefix r (c # s)"
proof -
  have "prefix r ((c # s) @ rest)" using assms(2) by simp
  then consider "prefix r (c # s)" | y where "r = (c # s) @ y" "prefix y rest" "y \<noteq> []"
    unfolding prefix_append by (metis append_Nil2 prefix_order.refl)
  then show ?thesis
  proof cases
    case 2
    then have "CHR 0x20 \<in> set (tl r)" using assms(3) by (cases y) auto
    then show ?thesis using spaceRunes_ok [OF assms(1)] by blast
  qed
qed

lemma fieldsFrom_word:
  assumes "noSpace f" "rest = [] \<or> (\<exists>x. rest = CHR 0x20 # x)"
  shows "fieldsFrom word (f @ rest) = fieldsFrom (word @ f) rest"
  using assms(1)
proof (induction f arbitrary: word)
  case (Cons c f)
  have "find (\<lambda>r. prefix r (c # f @ rest)) spaceRunes = None"
    using Cons.prems rune_across [OF _ _ assms(2)] by (auto simp: find_None_iff noSpace_Cons)
  then show ?case using Cons by (simp add: noSpace_Cons)
qed simp

lemma fieldsFrom_space: "fieldsFrom word (CHR 0x20 # s) = (if word = [] then [] else [word]) @ fieldsFrom [] s"
proof -
  have "find (\<lambda>r. prefix r (CHR 0x20 # s)) spaceRunes = Some [CHR 0x20]" by (simp add: spaceRunes_def)
  then show ?thesis by simp
qed

lemma fields_join: "list_all plainField fs \<Longrightarrow> strings_Fields (joinWith CHR 0x20 fs) = fs"
  unfolding strings_Fields_def
proof (induction fs rule: induct_list012)
  case (2 x)
  then show ?case using fieldsFrom_word [of x "[]" "[]"] by (simp add: plainField_def noSpace_def)
next
  case (3 x y ys)
  then show ?case
    using fieldsFrom_word [of x "CHR 0x20 # joinWith CHR 0x20 (y # ys)" "[]"]
    by (simp add: plainField_def noSpace_def fieldsFrom_space del: fieldsFrom.simps(2))
qed simp

section \<open>Decoding a path\<close>

lemma octalVal_digit: "n < 8 \<Longrightarrow> octalVal (char_of (48 + n)) = Some n"
  by (simp add: octalVal_def)

lemma decode_octal: "octalDigits c = [x, y, z] \<Longrightarrow> parseOctal x y z = Some (of_char c)"
proof -
  assume d: "octalDigits c = [x, y, z]"
  let ?n = "of_char c :: nat"
  have n: "?n < 256" by simp
  have top: "?n div 64 < 8" by (rule less_mult_imp_div_less) (rule less_trans [OF n], simp)
  have digits: "octalVal x = Some (?n div 64)" "octalVal y = Some (?n div 8 mod 8)" "octalVal z = Some (?n mod 8)"
    using d top by (auto simp: octalDigits_def Let_def intro!: octalVal_digit)
  have "?n div 64 = ?n div 8 div 8" by (simp flip: div_mult2_eq)
  then have "64 * (?n div 64) + 8 * (?n div 8 mod 8) + ?n mod 8 = ?n"
    using div_mult_mod_eq [of "?n div 8" 8] div_mult_mod_eq [of ?n 8] by linarith
  then show ?thesis using digits n by (simp add: parseOctal_def)
qed

lemma decode_mangle: "decodeMountInfoPath (mangle p) = Inr p"
proof (induction p)
  case (Cons c p)
  have m: "mangle (c # p) = (if c \<in> set mangledChars then backslash # octalDigits c else [c]) @ mangle p"
    by (simp add: mangle_def)
  obtain x y z where d: "octalDigits c = [x, y, z]" by (simp add: octalDigits_def Let_def)
  show ?case
  proof (cases "c \<in> set mangledChars")
    case True
    then show ?thesis using Cons decode_octal [OF d] by (simp add: m d)
  next
    case False
    then have "c \<noteq> backslash" by (auto simp: mangledChars_def backslash_def)
    then show ?thesis using Cons False by (simp add: m)
  qed
qed (simp add: mangle_def)

lemma mangle_inj: "mangle p = mangle q \<longleftrightarrow> p = q"
  using decode_mangle [of p] decode_mangle [of q] by (metis sum.inject(2))

lemma mangle_eq: "mangle p = ''-'' \<longleftrightarrow> p = ''-''" "mangle p = ''passfs'' \<longleftrightarrow> p = ''passfs''"
proof -
  have same: "''-'' = mangle ''-''" "''passfs'' = mangle ''passfs''" by code_simp+
  show "mangle p = ''-'' \<longleftrightarrow> p = ''-''" by (subst same(1)) (rule mangle_inj)
  show "mangle p = ''passfs'' \<longleftrightarrow> p = ''passfs''" by (subst same(2)) (rule mangle_inj)
qed

section \<open>A line and a table\<close>

lemma noSpace_chars: "noSpace f \<Longrightarrow> c \<in> set f \<Longrightarrow> [c] \<notin> set spaceRunes"
  by (induction f) (auto simp: noSpace_Cons)

lemma plain_chars:
  assumes "plainField f"
  shows "f \<noteq> []" "newline \<notin> set f" "CHR 0x0D \<notin> set f"
proof -
  have f: "f \<noteq> []" "noSpace f" using assms by (auto simp: plainField_def noSpace_def)
  have "[newline] \<in> set spaceRunes" "[CHR 0x0D] \<in> set spaceRunes" by (simp_all add: spaceRunes_def newline_def)
  then show "f \<noteq> []" "newline \<notin> set f" "CHR 0x0D \<notin> set f" using f noSpace_chars [OF f(2)] by blast+
qed

lemma set_joinWith: "set (joinWith c fs) \<subseteq> insert c (\<Union> (set ` set fs))"
  by (induction fs rule: joinWith.induct) auto

lemma line_chars:
  assumes "mountOk m"
  shows "newline \<notin> set (renderMount m)" "dropCR (renderMount m) = renderMount m"
proof -
  have "x \<notin> set (renderMount m)" if "x = newline \<or> x = CHR 0x0D" for x
  proof -
    have "x \<notin> set f" if "f \<in> set (mountFields m)" for f
      using assms plain_chars [of f] that \<open>x = newline \<or> x = CHR 0x0D\<close> by (auto simp: mountOk_def list_all_iff)
    then show ?thesis using set_joinWith [of "CHR 0x20" "mountFields m"] that by (auto simp: renderMount_def newline_def)
  qed
  then show "newline \<notin> set (renderMount m)" "dropCR (renderMount m) = renderMount m"
    unfolding dropCR_def using last_in_set by metis+
qed

lemma separator_render:
  assumes "mountOk m"
  shows "separatorOf (mountFields m) = Some (5 + length (mnOptions m))"
proof -
  have "takeWhile (\<lambda>f. f \<noteq> ''-'') ((mnHead m @ [mangle (mnPoint m)] @ mnOptions m) @ ''-'' # x) =
      mnHead m @ [mangle (mnPoint m)] @ mnOptions m" for x
    by (rule takeWhile_tail [THEN trans]) (use assms mangle_eq(1) in \<open>auto simp: mountOk_def takeWhile_eq_all_conv\<close>)
  then show ?thesis using assms by (simp add: separatorOf_def mountFields_def mountOk_def)
qed

lemma mountLine_render:
  assumes "mountOk m"
  shows "mountLine target (renderMount m) =
    Inr (if Clean (mnPoint m) = target
         then Some (if mnType m = ''fuse.passfs'' \<and> mnSource m = ''passfs'' then MountAdapterFUSE else MountAdapterUnknown)
         else None)"
proof -
  have words: "strings_Fields (dropCR (renderMount m)) = mountFields m"
    using assms fields_join line_chars(2) by (simp add: mountOk_def renderMount_def)
  have n: "length (mnHead m) = 4" using assms by (simp add: mountOk_def)
  have at: "mountFields m ! 4 = mangle (mnPoint m)"
    "mountFields m ! (6 + length (mnOptions m)) = mnType m" "mountFields m ! (7 + length (mnOptions m)) = mangle (mnSource m)"
    "length (mountFields m) = 9 + length (mnOptions m)"
    using n by (simp_all add: mountFields_def nth_append numeral_eq_Suc)
  show ?thesis
    by (simp add: mountLine_def Let_def words separator_render [OF assms] at mountInfoPathMatches_def decode_mangle mangle_eq)
qed

lemma scan_render: "list_all mountOk ms \<Longrightarrow> scanMounts target (map renderMount ms) = Inr (tableStatus ms target)"
  by (induction ms) (auto simp: mountLine_render tableStatus_def mountOk_def)

lemma lines_render: "list_all mountOk ms \<Longrightarrow> scanLines (renderTable ms) = map renderMount ms"
proof -
  assume ok: "list_all mountOk ms"
  then have "splitOn newline (renderTable ms) = map renderMount ms @ [[]]"
    by (induction ms) (auto simp: renderTable_def splitOn_append splitOn_no_sep line_chars(1))
  then show ?thesis by (simp add: scanLines_def)
qed

section \<open>Property\<close>

text \<open>
  C30. \<open>MountAdapterStatus\<close> answers what the kernel's mount table says. For a table written the way
  Linux writes it, whatever bytes the mount points hold that do not form Unicode white space, the
  answer is that of the first entry whose mount point is the given directory, with aliases in its
  parent resolved, and it is \<open>fuse\<close> exactly for a mount of type \<open>fuse.passfs\<close> from \<open>passfs\<close>. Without
  failing calls there is an answer, a failed call is reported, and nothing is changed.
\<close>

theorem MountAdapterStatus_table:
  assumes "nodeAt s mountInfoPath = Some (Regular i (strBytes (renderTable ms)))" "list_all mountOk ms"
    and "run_state (canonicalMountPoint mountPoint) (tickd s) = (Inr target, u)"
    and "run_state (MountAdapterStatus mountPoint) s = (r, t)"
  shows "((\<exists>e. r = Inl e) \<or> r = Inr (tableStatus ms target)) \<and>
    ((\<forall>k. envFault (osEnv s) k = None) \<longrightarrow> r = Inr (tableStatus ms target)) \<and> onlyTicks s t"
proof -
  have table: "followNode 40 (osNodes s) mountInfoPath = Inr (Regular i (strBytes (renderTable ms)))"
    using assms(1) by (subst followNode.simps) (simp add: nodeAt_def)
  have "keeps still (canonicalMountPoint mountPoint)" unfolding canonicalMountPoint_def by (intro keeps)
  from keepsD [OF this assms(3)] have u: "onlyTicks s u" by (simp add: still_onlyTicks)
  then have "osEnv u = osEnv s" by (simp add: onlyTicks_def)
  then show ?thesis
    using assms(2-4) table u
    by (auto simp: MountAdapterStatus_def andThen_def os_open_def os_nop_def sysCall_def lines_render scan_render
        split: option.splits)
qed

definition demoMount :: mount where
  "demoMount = \<lparr>mnHead = [''36'', ''1'', ''0:40'', ''/''], mnPoint = ''/m m'', mnOptions = [''rw''], mnType = ''fuse.passfs'',
     mnSource = ''passfs'', mnSuper = ''rw''\<rparr>"

definition demoMounted :: os where
  "demoMounted = \<lparr>osNodes = [(''/'', dirNode), (mountInfoPath, fileNode (strBytes (renderTable [demoMount])))],
     osCalls = 0, osEnv = calmEnv\<rparr>"

theorem MountAdapterStatus_table_witness:
  "fst (run_state (MountAdapterStatus ''/m m'') demoMounted) = Inr (True, MountAdapterFUSE)"
proof -
  have ok: "list_all mountOk [demoMount]" by code_simp
  let ?run = "run_state (canonicalMountPoint ''/m m'') (tickd demoMounted)"
  have "fst ?run = Inr ''/m m''" by code_simp
  then have target: "?run = (Inr ''/m m'', snd ?run)" by (simp add: prod_eq_iff)
  have calm: "envFault (osEnv demoMounted) k = None" for k by (simp add: demoMounted_def calmEnv_def)
  have node: "nodeAt demoMounted mountInfoPath = Some (Regular (ninfo (fileNode [])) (strBytes (renderTable [demoMount])))"
    by code_simp
  have "tableStatus [demoMount] ''/m m'' = (True, MountAdapterFUSE)" by code_simp
  then show ?thesis
    using MountAdapterStatus_table [OF node ok target prod.collapse [symmetric]] calm by simp
qed

end
