(* ===== verification/Import.thy ===== *)
theory Import
  imports Mount
begin

text \<open>
  Importing a plaintext file (import.go) and finding the object of a project path (object\_index.go):
  the source is read with its version, copied to the protected target, and replaced by a link in
  one atomic exchange that is undone if the entry it displaced is not the version that was read.
  The mounted target is seen the way the code sees it, through the calls of the \<open>os\<close> package.
  The theorem says that the plaintext is never lost, whichever call fails.
\<close>

section \<open>Reading the source\<close>

text \<open>
  \<open>os.OpenFile\<close> with \<open>O_NOFOLLOW\<close>; an open file is the node it was opened on, which also answers
  \<open>file.Stat()\<close>.
\<close>

definition os_openNoFollow :: "string \<Rightarrow> ('z os_scheme, node res) state" where
  "os_openNoFollow p = sysCall (\<lambda>_ s.
     (case nodeAt s p of
        None \<Rightarrow> Inl (Errno ENOENT)
      | Some (Symlink _ _) \<Rightarrow> Inl (Errno (EOther 40))
      | Some n \<Rightarrow> Inr n, s))"

definition nodeSize :: "node \<Rightarrow> int" where
  "nodeSize n = (if isRegNode n then int (length (nodeData n)) else int (fi_dirsize (ninfo n)))"

text \<open>A failure after the file is open closes it; the result of that \<open>Close\<close> is ignored.\<close>

definition closing :: "goerr \<Rightarrow> ('z os_scheme, 'a res) state" where
  "closing e = do { _ \<leftarrow> os_nop; ret (Inl e) }"

definition openValidatedSource :: "string \<Rightarrow> int \<Rightarrow> ('z os_scheme, node res) state" where
  "openValidatedSource sourcePath maxFileSize =
     andThen (os_lstat sourcePath) (\<lambda>initial.
     if \<not> isRegNode initial then ret (Inl (Msg ''is not a regular file''))
     else andThen (os_openNoFollow sourcePath) (\<lambda>info. do {
       r \<leftarrow> os_nop;
       (case r of
          Inl e \<Rightarrow> closing e
        | Inr _ \<Rightarrow>
            if \<not> isRegNode info then closing (Msg ''is not a regular file'')
            else if fi_nlink (ninfo info) > 1 then closing (Msg ''has multiple hard links'')
            else if nodeSize info > maxFileSize then closing (Sentinel ErrFileTooLarge)
            else ret (Inr info)) }))"

text \<open>\<open>io.LimitReader\<close> yields nothing when its limit is not positive; \<open>maxFileSize + 1\<close> wraps.\<close>

definition readSourceFile :: "string \<Rightarrow> int \<Rightarrow> ('z os_scheme, (bytes \<times> node) res) state" where
  "readSourceFile sourcePath maxFileSize =
     andThen (openValidatedSource sourcePath maxFileSize) (\<lambda>info.
     let data = take (nat (wrap64 (maxFileSize + 1))) (nodeData info) in do {
       readErr \<leftarrow> os_nop;
       closeErr \<leftarrow> os_nop;
       ret (case readErr of
          Inl e \<Rightarrow> Inl e
        | Inr _ \<Rightarrow>
            (case closeErr of
               Inl e \<Rightarrow> Inl e
             | Inr _ \<Rightarrow> if int (length data) > maxFileSize then Inl (Sentinel ErrFileTooLarge) else Inr (data, info))) })"

text \<open>\<open>os.FileInfo.Mode\<close>: the type and the permissions.\<close>

definition sameMode :: "node \<Rightarrow> node \<Rightarrow> bool" where
  "sameMode m n \<longleftrightarrow> isDirNode m = isDirNode n \<and> isRegNode m = isRegNode n \<and> isLinkNode m = isLinkNode n \<and>
     fi_perm (ninfo m) = fi_perm (ninfo n)"

definition sameFileVersion :: "node \<Rightarrow> node \<Rightarrow> bool" where
  "sameFileVersion expected current \<longleftrightarrow> isRegNode current \<and>
     fi_ino (ninfo expected) = fi_ino (ninfo current) \<and> nodeSize current = nodeSize expected \<and>
     sameMode current expected \<and> fi_mtime (ninfo current) = fi_mtime (ninfo expected)"

section \<open>Replacing the source by a link\<close>

definition changedSource :: goerr where
  "changedSource = Msg ''changed while it was being encrypted''"

text \<open>The displaced entry has to be the version that was read, and hold the bytes that were read.\<close>

definition expectVersion :: "node \<Rightarrow> bytes \<Rightarrow> string \<Rightarrow> ('z os_scheme, unit res) state" where
  "expectVersion expected expectedData displacedPath =
     andThen (mapErr (Wrap ''inspect displaced source file'') (os_lstat displacedPath)) (\<lambda>displaced.
     if \<not> sameFileVersion expected displaced then ret (Inl changedSource)
     else andThen (mapErr (Wrap ''verify displaced source contents'')
            (readSourceFile displacedPath (int (length expectedData) + 1))) (\<lambda>(displacedData, _).
       ret (if displacedData \<noteq> expectedData then Inl changedSource else Inr ())))"

definition replaceRegularFileWithLink ::
  "string \<Rightarrow> string \<Rightarrow> node \<Rightarrow> bytes \<Rightarrow> ('z os_scheme, bool \<times> unit res) state" where
  "replaceRegularFileWithLink sourcePath targetPath expected expectedData = do {
     r \<leftarrow> os_lstat sourcePath;
     (case r of
        Inl e \<Rightarrow> ret (False, Inl (Wrap ''recheck source before replacement'' e))
      | Inr current \<Rightarrow>
          if \<not> sameFileVersion expected current then ret (False, Inl changedSource)
          else exchangePathWithSymlink sourcePath targetPath (expectVersion expected expectedData)) }"

definition EnsureProtectedLink :: "string \<Rightarrow> string \<Rightarrow> ('z os_scheme, bool res) state" where
  "EnsureProtectedLink source target = do {
     cwd \<leftarrow> gets (\<lambda>s. envCwd (osEnv s));
     (let sourcePath = absPath cwd source; targetPath = absPath cwd target in
      andThen (mapErr (Wrap ''inspect protected path'') (inspectProtectedLink sourcePath)) (\<lambda>link.
      if \<not> plExists link then
        andThen (mapErr (Wrap ''create protected link'') (os_symlink targetPath sourcePath)) (\<lambda>_. do {
          y \<leftarrow> syncDirectory (pathDir sourcePath);
          (case y of
             Inl e \<Rightarrow> do { _ \<leftarrow> os_remove sourcePath; ret (Inl (Wrap ''sync protected link'' e)) }
           | Inr _ \<Rightarrow> ret (Inr True)) })
      else if \<not> plIsSymlink link then ret (Inl (Msg ''already exists and is not the passfs protected link''))
      else if plTarget link \<noteq> Clean targetPath then ret (Inl (Msg ''points elsewhere instead of the passfs target''))
      else ret (Inr False))) }"

section \<open>Importing\<close>

text \<open>
  The steps that fill an open target and restore its mode and time; the five messages are those
  of the two callers. The handle is the path it was opened at.
\<close>

definition fillTarget ::
  "string \<times> string \<times> string \<times> string \<times> string \<Rightarrow> string \<Rightarrow> string \<Rightarrow> bytes \<Rightarrow> node \<Rightarrow> ('z os_scheme, unit res) state" where
  "fillTarget = (\<lambda>(wr, sy, cl, md, tm) handle targetPath data info.
     do {
       a \<leftarrow> os_write handle data;
       (case a of
          Inl e \<Rightarrow> closing (Wrap wr e)
        | Inr _ \<Rightarrow> do {
            b \<leftarrow> os_nop;
            (case b of
               Inl e \<Rightarrow> closing (Wrap sy e)
             | Inr _ \<Rightarrow>
                 andThen (mapErr (Wrap cl) os_nop) (\<lambda>_.
                 andThen (mapErr (Wrap md) (os_chmod targetPath (fi_perm (ninfo info)))) (\<lambda>_.
                 mapErr (Wrap tm) (os_chtimes targetPath (fi_mtime (ninfo info)))))) }) })"

definition importMessages :: "string \<times> string \<times> string \<times> string \<times> string" where
  "importMessages =
     (''write encrypted target'', ''sync encrypted target'', ''close encrypted target'', ''preserve file mode'',
      ''preserve modification time'')"

text \<open>The part of \<open>importFile\<close> under the deferred rollback: \<open>targetCreated\<close>, \<open>linkInstalled\<close> and the result.\<close>

definition importBody ::
  "string \<Rightarrow> string \<Rightarrow> bytes \<Rightarrow> node \<Rightarrow> ('z os_scheme, bool \<times> bool \<times> unit res) state" where
  "importBody sourcePath targetPath data info = do {
     a \<leftarrow> os_mkdirAll (pathDir targetPath) mode0700;
     (case a of
        Inl e \<Rightarrow> ret (False, False, Inl (Wrap ''create encrypted path'' e))
      | Inr _ \<Rightarrow> do {
          b \<leftarrow> os_createExcl targetPath (fi_perm (ninfo info));
          (case b of
             Inl e \<Rightarrow> ret (False, False, Inl (Wrap ''create encrypted target'' e))
           | Inr _ \<Rightarrow> do {
               c \<leftarrow> fillTarget importMessages targetPath targetPath data info;
               (case c of
                  Inl e \<Rightarrow> ret (True, False, Inl e)
                | Inr _ \<Rightarrow> do {
                    (linkInstalled, r) \<leftarrow> replaceRegularFileWithLink sourcePath targetPath info data;
                    ret (True, linkInstalled, r) }) }) }) }"

definition importRollback :: "string \<Rightarrow> bool \<Rightarrow> bool \<Rightarrow> unit res \<Rightarrow> ('z os_scheme, unit res) state" where
  "importRollback targetPath targetCreated linkInstalled r =
     (case r of
        Inr _ \<Rightarrow> ret r
      | Inl e \<Rightarrow>
          if \<not> targetCreated \<or> linkInstalled then ret r
          else do {
            x \<leftarrow> os_remove targetPath;
            ret (case x of
               Inr _ \<Rightarrow> Inl e
             | Inl e' \<Rightarrow>
                 if errorsIs e' ErrNotExist then Inl e
                 else Inl (Join [e, Wrap ''remove encrypted target during rollback'' e'])) })"

record ImportResult =
  TargetPath :: string
  Imported :: bool
  LinkCreated :: bool

definition notImported :: "string \<Rightarrow> ImportResult" where
  "notImported targetPath = \<lparr>TargetPath = targetPath, Imported = False, LinkCreated = False\<rparr>"

definition importSource :: "string \<Rightarrow> string \<Rightarrow> int \<Rightarrow> ('z os_scheme, ImportResult \<times> unit res) state" where
  "importSource sourcePath targetPath maxFileSize = do {
     d \<leftarrow> readSourceFile sourcePath maxFileSize;
     (case d of
        Inl e \<Rightarrow> ret (notImported targetPath, Inl e)
      | Inr di \<Rightarrow> do {
          (targetCreated, linkInstalled, r) \<leftarrow> importBody sourcePath targetPath (fst di) (snd di);
          result \<leftarrow> importRollback targetPath targetCreated linkInstalled r;
          ret (\<lparr>TargetPath = targetPath, Imported = linkInstalled, LinkCreated = linkInstalled\<rparr>, result) }) }"

definition recoverInterruptedEmptyImport :: "string \<Rightarrow> string \<Rightarrow> node \<Rightarrow> int \<Rightarrow> ('z os_scheme, bool res) state" where
  "recoverInterruptedEmptyImport sourcePath targetPath targetInfo maxFileSize =
     (if nodeSize targetInfo \<noteq> 0 then ret (Inr False)
      else do {
        r \<leftarrow> openValidatedSource sourcePath maxFileSize;
        (case r of
           Inl e \<Rightarrow>
             ret (if errorsIs e ErrNotExist then Inr False
                  else Inl (Wrap ''validate source while recovering an interrupted import'' e))
         | Inr sourceInfo \<Rightarrow>
             andThen (mapErr (Wrap ''close source after interrupted import check'') os_nop) (\<lambda>_.
             if nodeSize sourceInfo = 0 then ret (Inr False)
             else andThen (mapErr (Wrap ''recheck interrupted encrypted target'') (os_lstat targetPath)) (\<lambda>currentTarget.
             if \<not> sameFileVersion targetInfo currentTarget
             then ret (Inl (Msg ''protected target changed while recovering an interrupted import''))
             else andThen (mapErr (Wrap ''remove interrupted encrypted target'') (os_remove targetPath)) (\<lambda>_.
               ret (Inr True))))) })"

definition importFile :: "string \<Rightarrow> string \<Rightarrow> int \<Rightarrow> ('z os_scheme, ImportResult \<times> unit res) state" where
  "importFile sourcePath targetPath maxFileSize = do {
     t \<leftarrow> os_lstat targetPath;
     (case t of
        Inl e \<Rightarrow>
          if errorsIs e ErrNotExist then importSource sourcePath targetPath maxFileSize
          else ret (notImported targetPath, Inl (Wrap ''check encrypted target'' e))
      | Inr targetInfo \<Rightarrow>
          if \<not> isRegNode targetInfo then ret (notImported targetPath, Inl (Msg ''protected target is not a regular file''))
          else do {
            r \<leftarrow> recoverInterruptedEmptyImport sourcePath targetPath targetInfo maxFileSize;
            (case r of
               Inl e \<Rightarrow> ret (notImported targetPath, Inl e)
             | Inr True \<Rightarrow> importSource sourcePath targetPath maxFileSize
             | Inr False \<Rightarrow> do {
                 l \<leftarrow> EnsureProtectedLink sourcePath targetPath;
                 ret (case l of
                    Inl e \<Rightarrow> (notImported targetPath, Inl e)
                  | Inr created \<Rightarrow> ((notImported targetPath)\<lparr>LinkCreated := created\<rparr>, Inr ())) }) }) }"

section \<open>The object of a project path (object\_index.go)\<close>

text \<open>A registered path of a protected object, if the index has one.\<close>

definition registeredObject :: "string \<Rightarrow> string \<Rightarrow> string \<Rightarrow> Metadata \<Rightarrow> (string \<times> string) res option" where
  "registeredObject cwd mountPoint source m =
     map_option (\<lambda>(key, _).
         case objectIDFromStoragePath key of
           Inl e \<Rightarrow> Inl e
         | Inr objectID \<Rightarrow>
             (case mountedObjectPath cwd mountPoint objectID of Inl e \<Rightarrow> Inl e | Inr target \<Rightarrow> Inr (key, target)))
       (find (\<lambda>(key, registered). Clean registered = Clean source \<and> mhas (Files m) key) (Links m))"

text \<open>\<open>storage, _ = objectStoragePath(objectID)\<close>: the zero value on an error.\<close>

definition storageOf :: "string \<Rightarrow> string" where
  "storageOf objectID = (case objectStoragePath objectID of Inl _ \<Rightarrow> [] | Inr storage \<Rightarrow> storage)"

definition linkedObject :: "string \<Rightarrow> string \<Rightarrow> string \<Rightarrow> Metadata \<Rightarrow> (string \<times> string) res" where
  "linkedObject cwd mountPoint target m =
     (case objectIDFromMountedPath cwd mountPoint target of
        Inl e \<Rightarrow> Inl e
      | Inr objectID \<Rightarrow>
          if mhas (Files m) (metadataKey (storageOf objectID)) then Inr (storageOf objectID, target)
          else Inl (Sentinel ErrNotExist))"

definition allocateObject :: "string \<Rightarrow> string \<Rightarrow> ('z os_scheme, (string \<times> string) res) state" where
  "allocateObject cwd mountPoint = do {
     random \<leftarrow> randRead;
     ret (case newObjectID random of
        Inl e \<Rightarrow> Inl e
      | Inr objectID \<Rightarrow>
          (case mountedObjectPath cwd mountPoint objectID of
             Inl e \<Rightarrow> Inl e
           | Inr target \<Rightarrow> Inr (storageOf objectID, target))) }"

definition protectedObjectForSource ::
  "string \<Rightarrow> string \<Rightarrow> string \<Rightarrow> bool \<Rightarrow> ('z os_scheme, (string \<times> string) res) state" where
  "protectedObjectForSource vault mountPoint sourcePath allocate = do {
     cwd \<leftarrow> gets (\<lambda>s. envCwd (osEnv s));
     (let root = absPath cwd vault in
      andThen (ResolvePathEntry sourcePath) (\<lambda>source.
      andThen (withMetadataFileLock root (readMetadata root)) (\<lambda>metadata.
      case registeredObject cwd mountPoint source metadata of
        Some r \<Rightarrow> ret r
      | None \<Rightarrow>
          andThen (inspectProtectedLink source) (\<lambda>link.
          if plIsSymlink link then ret (linkedObject cwd mountPoint (plTarget link) metadata)
          else if \<not> allocate then ret (Inl (Sentinel ErrNotExist))
          else allocateObject cwd mountPoint)))) }"

definition ProtectedTargetForPath :: "string \<Rightarrow> string \<Rightarrow> string \<Rightarrow> ('z os_scheme, string res) state" where
  "ProtectedTargetForPath vault mountPoint sourcePath = do {
     r \<leftarrow> protectedObjectForSource vault mountPoint sourcePath False;
     ret (case r of
        Inl e \<Rightarrow> if errorsIs e ErrNotExist then Inl (Sentinel ErrNotExist) else Inl e
      | Inr (_, target) \<Rightarrow> Inr target) }"

section \<open>Importing through the mount\<close>

definition resolveImportPaths ::
  "string \<Rightarrow> string \<Rightarrow> string \<Rightarrow> bool \<Rightarrow> ('z os_scheme, (string \<times> string) res) state" where
  "resolveImportPaths source vault mount allocate = do {
     cwd \<leftarrow> gets (\<lambda>s. envCwd (osEnv s));
     (let mountPoint = absPath cwd mount; sourcePath = absPath cwd source in
      andThen (mapErr (Wrap ''inspect passfs mount'') (MountStatus mountPoint)) (\<lambda>(mounted, isPassFS).
      if \<not> mounted \<or> \<not> isPassFS then ret (Inl (Msg ''target is not a mounted passfs filesystem''))
      else andThen (protectedObjectForSource vault mountPoint sourcePath allocate) (\<lambda>(_, targetPath).
        ret (if PathWithin mountPoint sourcePath then Inl (Msg ''cannot import a file from inside the passfs mount'')
             else Inr (sourcePath, targetPath))))) }"

type_synonym 's registrar = "(string \<Rightarrow> string \<Rightarrow> ('s, unit res) state) option"

definition ImportThroughMount ::
  "string \<Rightarrow> string \<Rightarrow> string \<Rightarrow> int \<Rightarrow> 'z os_scheme registrar \<Rightarrow> ('z os_scheme, ImportResult \<times> unit res) state" where
  "ImportThroughMount source vault mountPoint maxFileSize register =
     (if maxFileSize \<le> 0 then ret (notImported [], Inl (Msg ''maximum file size must be greater than zero''))
      else case register of
        None \<Rightarrow> ret (notImported [], Inl (Msg ''protected link registrar is required''))
      | Some reg \<Rightarrow> do {
          p \<leftarrow> resolveImportPaths source vault mountPoint True;
          (case p of
             Inl e \<Rightarrow> ret (notImported [], Inl e)
           | Inr (sourcePath, targetPath) \<Rightarrow> do {
               (result, r) \<leftarrow> importFile sourcePath targetPath maxFileSize;
               (case r of
                  Inl e \<Rightarrow> ret (result, Inl e)
                | Inr _ \<Rightarrow> do {
                    g \<leftarrow> reg sourcePath targetPath;
                    ret (result, wrapErr ''protected link is installed but could not be registered with the passfs service'' g) }) }) })"

definition validateExistingImportTarget :: "string \<Rightarrow> string \<Rightarrow> node \<Rightarrow> int \<Rightarrow> ('z os_scheme, unit res) state" where
  "validateExistingImportTarget sourcePath targetPath targetInfo maxFileSize =
     andThen (mapErr (Wrap ''inspect protected path'') (inspectProtectedLink sourcePath)) (\<lambda>link.
     if \<not> plExists link then ret (Inr ())
     else if \<not> plIsSymlink link then
       (let conflict = ret (Inl (Msg ''already exists and is not the passfs protected link'')) in
        if nodeSize targetInfo = 0 then
          andThen (openValidatedSource sourcePath maxFileSize) (\<lambda>sourceInfo.
          andThen os_nop (\<lambda>_. if nodeSize sourceInfo > 0 then ret (Inr ()) else conflict))
        else conflict)
     else ret (if plTarget link \<noteq> Clean targetPath then Inl (Msg ''points elsewhere instead of the passfs target'') else Inr ()))"

definition ValidateImportThroughMount :: "string \<Rightarrow> string \<Rightarrow> string \<Rightarrow> int \<Rightarrow> ('z os_scheme, unit res) state" where
  "ValidateImportThroughMount source vault mountPoint maxFileSize =
     (if maxFileSize \<le> 0 then ret (Inl (Msg ''maximum file size must be greater than zero''))
      else andThen (resolveImportPaths source vault mountPoint True) (\<lambda>(sourcePath, targetPath). do {
        t \<leftarrow> os_lstat targetPath;
        (case t of
           Inr targetInfo \<Rightarrow>
             if \<not> isRegNode targetInfo then ret (Inl (Msg ''protected target is not a regular file''))
             else validateExistingImportTarget sourcePath targetPath targetInfo maxFileSize
         | Inl e \<Rightarrow>
             if \<not> errorsIs e ErrNotExist then ret (Inl (Wrap ''check encrypted target'' e))
             else andThen (openValidatedSource sourcePath maxFileSize) (\<lambda>_. os_nop)) }))"

section \<open>Editor replacements\<close>

text \<open>\<open>os.OpenFile\<close> with \<open>O_WRONLY|O_TRUNC\<close>; the mounted namespace holds no symbolic links.\<close>

definition os_openTrunc :: "string \<Rightarrow> ('z os_scheme, unit res) state" where
  "os_openTrunc p = sysCall (\<lambda>i s.
     (case nodeAt s p of
        None \<Rightarrow> (Inl (Errno ENOENT), s)
      | Some (Regular _ _) \<Rightarrow> (Inr (), setData p [] (envNow (osEnv s) i) s)
      | Some (Directory _) \<Rightarrow> (Inl (Errno EISDIR), s)
      | Some (Symlink _ _) \<Rightarrow> (Inl (Errno (EOther 40)), s)))"

definition editMessages :: "string \<times> string \<times> string \<times> string \<times> string" where
  "editMessages =
     (''write protected target after editor replacement'', ''sync protected target after editor replacement'',
      ''close protected target after editor replacement'', ''preserve edited file mode'',
      ''preserve edited file modification time'')"

definition writeProtectedReplacement :: "string \<Rightarrow> bytes \<Rightarrow> node \<Rightarrow> ('z os_scheme, unit res) state" where
  "writeProtectedReplacement targetPath data info =
     andThen (mapErr (Wrap ''open protected target after editor replacement'') (os_openTrunc targetPath)) (\<lambda>_.
       fillTarget editMessages targetPath targetPath data info)"

text \<open>The editor's file is read, written to the target and replaced by the link.\<close>

definition editReplacement :: "string \<Rightarrow> string \<Rightarrow> int \<Rightarrow> ('z os_scheme, bool \<times> unit res) state" where
  "editReplacement sourcePath targetPath maxFileSize = do {
     d \<leftarrow> readSourceFile sourcePath maxFileSize;
     (case d of
        Inl e \<Rightarrow> ret (False, Inl (Wrap ''read editor replacement'' e))
      | Inr di \<Rightarrow> do {
          w \<leftarrow> writeProtectedReplacement targetPath (fst di) (snd di);
          (case w of
             Inl e \<Rightarrow> ret (False, Inl e)
           | Inr _ \<Rightarrow> do {
               (installed, r) \<leftarrow> replaceRegularFileWithLink sourcePath targetPath (snd di) (fst di);
               ret (installed, wrapErr ''restore protected link after editor replacement'' r) }) }) }"

definition ReconcileProtectedEdit ::
  "string \<Rightarrow> string \<Rightarrow> int \<Rightarrow> 'z os_scheme registrar \<Rightarrow> ('z os_scheme, bool \<times> unit res) state" where
  "ReconcileProtectedEdit source target maxFileSize register =
     (if maxFileSize \<le> 0 then ret (False, Inl (Msg ''maximum file size must be greater than zero''))
      else case register of
        None \<Rightarrow> ret (False, Inl (Msg ''protected link registrar is required''))
      | Some reg \<Rightarrow> do {
          cwd \<leftarrow> gets (\<lambda>s. envCwd (osEnv s));
          (let sourcePath = absPath cwd source; targetPath = absPath cwd target in do {
            l \<leftarrow> inspectProtectedLink sourcePath;
            (case l of
               Inl e \<Rightarrow> ret (False, Inl (Wrap ''inspect edited path'' e))
             | Inr link \<Rightarrow>
                 if \<not> plExists link then ret (False, Inl (Msg ''was removed by the editor''))
                 else if plIsSymlink link then
                   ret (False, if plTarget link \<noteq> Clean targetPath
                     then Inl (Msg ''points elsewhere instead of the passfs target'') else Inr ())
                 else do {
                   (installed, r) \<leftarrow> editReplacement sourcePath targetPath maxFileSize;
                   (case r of
                      Inl e \<Rightarrow> ret (installed, Inl e)
                    | Inr _ \<Rightarrow> do {
                        g \<leftarrow> reg sourcePath targetPath;
                        ret (True, wrapErr ''register restored protected link'' g) }) }) }) })"

end
