(* ===== verification/ImportSafety.thy ===== *)
theory ImportSafety
  imports Import
begin

text \<open>
  What importing a file may change: the source, the target and scratch entries only, and the
  plaintext is at the source or, behind the new link, at the target, whichever calls fail.
\<close>

section \<open>Reading\<close>

lemma wrap64_near: "0 \<le> x \<Longrightarrow> x - 2 \<le> wrap64 x \<Longrightarrow> wrap64 x = x"
proof (rule ccontr)
  assume x: "0 \<le> x" "x - 2 \<le> wrap64 x" "wrap64 x \<noteq> x"
  define q :: int where "q = (x + 2 ^ 63) div 2 ^ 64"
  have eq: "wrap64 x = x - q * 2 ^ 64"
    unfolding wrap64_def q_def using div_mult_mod_eq [of "x + 2 ^ 63" "2 ^ 64"] by linarith
  have "0 \<le> q" unfolding q_def using x(1) by (simp add: pos_imp_zdiv_nonneg_iff)
  then have "q = 0 \<or> 1 \<le> q" by linarith
  then show False using eq x by auto
qed

lemma wp_openNoFollowI:
  "(\<And>e. Q (Inl e) (tickd s)) \<Longrightarrow> (\<And>n. nodeAt s p = Some n \<Longrightarrow> Q (Inr n) (tickd s)) \<Longrightarrow> wp (os_openNoFollow p) Q s"
  unfolding os_openNoFollow_def by (rule wp_sysCallI) (auto split: option.splits node.splits)

lemma wp_closingI: "Q (Inl e) (tickd s) \<Longrightarrow> wp (closing e) Q s"
  unfolding closing_def wp by (rule wp_nopI) simp_all

lemma wp_openValidatedI:
  assumes "\<And>e t. onlyTicks s t \<Longrightarrow> Q (Inl e) t"
    and "\<And>i d t. onlyTicks s t \<Longrightarrow> nodeAt s p = Some (Regular i d) \<Longrightarrow> int (length d) \<le> limit \<Longrightarrow> Q (Inr (Regular i d)) t"
  shows "wp (openValidatedSource p limit) Q s"
proof -
  have reg: "\<exists>i d. n = Regular i d \<and> int (length d) \<le> limit" if "isRegNode n" "\<not> nodeSize n > limit" for n
    using that by (cases n) (auto simp: nodeSize_def)
  have ok: "Q (Inr n) t" if "onlyTicks s t" "nodeAt s p = Some n" "isRegNode n" "\<not> nodeSize n > limit" for n t
    using assms(2) reg [OF that(3,4)] that(1,2) by auto
  show ?thesis
    unfolding openValidatedSource_def wp
    by (auto simp: wp intro!: wp_lstatI wp_openNoFollowI wp_nopI wp_closingI assms(1) ok)
qed

lemma wp_readSourceI:
  assumes "\<And>e t. onlyTicks s t \<Longrightarrow> Q (Inl e) t"
    and "\<And>i d data t. onlyTicks s t \<Longrightarrow> nodeAt s p = Some (Regular i d) \<Longrightarrow> int (length d) \<le> limit \<Longrightarrow>
      data = take (nat (wrap64 (limit + 1))) d \<Longrightarrow> Q (Inr (data, Regular i d)) t"
  shows "wp (readSourceFile p limit) Q s"
  unfolding readSourceFile_def wp
  by (auto simp: wp Let_def intro!: wp_openValidatedI wp_nopI assms)

lemma keeps_source [keeps]: "keeps still (openValidatedSource p limit)" "keeps still (readSourceFile p limit)"
proof -
  have nofollow: "keeps still (os_openNoFollow p)" for p
    unfolding os_openNoFollow_def by (rule keeps_stillCall) simp
  have closing: "keeps still (closing e)" for e unfolding closing_def by (intro keeps)
  show opened: "keeps still (openValidatedSource p limit)" for p limit
    unfolding openValidatedSource_def by (intro keeps nofollow closing)
  show "keeps still (readSourceFile p limit)" unfolding readSourceFile_def by (intro keeps opened)
qed

section \<open>The check of the displaced source\<close>

text \<open>A check that succeeds has compared all bytes, whatever the lengths are.\<close>

lemma whole_data:
  assumes "int (length d) \<le> int (length data) + 1" "take (nat (wrap64 (2 + int (length data)))) d = data"
  shows "d = data"
proof -
  let ?x = "2 + int (length data)"
  have le: "length data \<le> nat (wrap64 ?x)" using arg_cong [OF assms(2), of length] by simp
  have "wrap64 ?x = ?x"
  proof (cases "data = []")
    case False
    then have "0 < length data" by simp
    then have "?x - 2 \<le> wrap64 ?x" using le by linarith
    then show ?thesis by (rule wrap64_near [rotated]) simp
  qed (simp add: wrap64_def)
  then show ?thesis using assms by simp
qed

interpretation source_version: displaced_check "expectVersion expected data" "\<lambda>_ n. \<exists>i. n = Regular i data"
proof
  fix q u r u'
  assume run: "run_state (expectVersion expected data q) u = (r, u')"
  have "keeps still (expectVersion expected data q)" unfolding expectVersion_def by (intro keeps)
  from keepsD [OF this run] show "sameExcept {} u u'" by (simp add: still_def sameExcept_def nodeAt_def)
next
  fix q u u' n
  assume run: "run_state (expectVersion expected data q) u = (Inr (), u')" and n: "nodeAt u q = Some n"
  have "wp (expectVersion expected data q) (\<lambda>r _. r = Inr () \<longrightarrow> (\<exists>i. n = Regular i data)) u"
    unfolding expectVersion_def wp
    using n by (auto simp: wp intro!: wp_lstatI wp_readSourceI whole_data)
  from wpD [OF this run] show "\<exists>i. n = Regular i data" by simp
qed

section \<open>Replacing the source\<close>

text \<open>An import touches the source, the target and scratch entries, and creates directories.\<close>

definition importFrame :: "string \<Rightarrow> string \<Rightarrow> 'z os_scheme \<Rightarrow> 'z os_scheme \<Rightarrow> bool" where
  "importFrame src tgt s t \<longleftrightarrow> osEnv t = osEnv s \<and> os.more t = os.more s \<and>
     (\<forall>q n. scratchFree q \<longrightarrow> q \<noteq> src \<longrightarrow> q \<noteq> tgt \<longrightarrow> nodeAt s q = Some n \<longrightarrow> nodeAt t q = Some n)"

lemma importFrame_refl [simp]: "importFrame src tgt s s"
  by (simp add: importFrame_def)

lemma importFrame_trans: "importFrame src tgt s t \<Longrightarrow> importFrame src tgt t u \<Longrightarrow> importFrame src tgt s u"
  by (simp add: importFrame_def)

lemma importFrame_simps [simp]:
  "importFrame src tgt s (tickd t) = importFrame src tgt s t" "importFrame src tgt (tickd s) t = importFrame src tgt s t"
  "importFrame src tgt s t \<Longrightarrow> importFrame src tgt s (putNode tgt n t)"
  "importFrame src tgt s t \<Longrightarrow> importFrame src tgt s (delNode tgt t)"
  by (auto simp: importFrame_def)

lemma importFrame_same: "sameExcept {tgt} s t \<Longrightarrow> importFrame src tgt s t"
  by (auto simp: importFrame_def sameExcept_def)

lemma importFrame_ticks: "onlyTicks s t \<Longrightarrow> importFrame src tgt s t"
  by (auto simp: importFrame_def onlyTicks_def nodeAt_def)

lemma replaceRegular_wp:
  assumes p: "isAbs src" "Clean src = src" "comps src = cs @ [c]"
    and names: "digitNames (osEnv s)" and tgt: "scratchFree tgt" "tgt \<noteq> src" and n: "nodeAt s src = Some (Regular i d)"
  shows "wp (replaceRegularFileWithLink src tgt info data)
    (\<lambda>(linked, r) t. importFrame src tgt s t \<and> nodeAt t tgt = nodeAt s tgt \<and> (r = Inr () \<longrightarrow> linked) \<and>
       (if linked then (\<exists>j. nodeAt t src = Some (Symlink j tgt)) \<and> (d = data \<or> (\<exists>tmp. nodeAt t tmp = Some (Regular i d)))
        else nodeAt t src = Some (Regular i d))) s"
    (is "wp _ ?Q s")
proof -
  have exchange: "wp (exchangePathWithSymlink src tgt (expectVersion info data)) ?Q (tickd s)"
  proof (rule wp_mono [OF source_version.exchange_wp [OF p, where n = "Regular i d"]], goal_cases)
    case (3 a t)
    obtain linked r where a: "a = (linked, r)" by (cases a)
    let ?c = "''.passfs-link-'' @ envName (osEnv s) (osCalls (tickd s))"
    note name = digitNames_scratch [OF names insertI1, of "osCalls (tickd s)"]
    note scratch = scratch_entries(1,2) [OF name refl, of "pathDir src"] scratch_entries(3) [OF name refl proper_leaf(1), of "pathDir src"]
    have same: "nodeAt t q = nodeAt s q" if "scratchFree q" "q \<noteq> src" for q
      using 3 a that scratch by auto
    then have "importFrame src tgt s t" using 3 a by (auto simp: importFrame_def)
    then show ?case using 3 a same [OF tgt] by (auto simp: exchanged_def split: if_splits)
  qed (use n in simp_all)
  show ?thesis
    unfolding replaceRegularFileWithLink_def wp
    by (rule wp_lstatI) (use n exchange in \<open>auto simp: wp\<close>)
qed

section \<open>Filling the target\<close>

lemma wp_chtimesI:
  "(\<And>e. Q (Inl (Errno e)) (tickd s)) \<Longrightarrow>
   (\<And>n. nodeAt s p = Some n \<Longrightarrow> Q (Inr ()) (putNode p (withInfo ((ninfo n)\<lparr>fi_mtime := t\<rparr>) n) (tickd s))) \<Longrightarrow>
   wp (os_chtimes p t) Q s"
  unfolding os_chtimes_def by (rule wp_sysCallI) (auto split: option.splits)

text \<open>The target as a copy of the source: its bytes, mode and modification time.\<close>

definition isCopy :: "finfo \<Rightarrow> bytes \<Rightarrow> node option \<Rightarrow> bool" where
  "isCopy i d x \<longleftrightarrow> (\<exists>k. x = Some (Regular k d) \<and> fi_perm k = fi_perm i \<and> fi_mtime k = fi_mtime i)"

lemma fillTarget_wp:
  assumes "nodeAt s tgt = Some (Regular k x)"
  shows "wp (fillTarget msgs tgt tgt data info)
    (\<lambda>r t. sameExcept {tgt} s t \<and> (r = Inr () \<longrightarrow> isCopy (ninfo info) data (nodeAt t tgt))) s"
proof -
  obtain wr sy cl md tm where "msgs = (wr, sy, cl, md, tm)" by (cases msgs)
  then show ?thesis
    unfolding fillTarget_def wp
    by (auto simp: wp assms isCopy_def intro!: wp_writeI wp_closingI wp_nopI wp_chmodI wp_chtimesI)
qed

section \<open>Importing\<close>

text \<open>The source is a link and the plaintext is behind it.\<close>

definition linkedTo :: "string \<Rightarrow> string \<Rightarrow> finfo \<Rightarrow> bytes \<Rightarrow> 'z os_scheme \<Rightarrow> bool" where
  "linkedTo src tgt i d t \<longleftrightarrow> (\<exists>j. nodeAt t src = Some (Symlink j tgt)) \<and> isCopy i d (nodeAt t tgt)"

definition importDone :: "string \<Rightarrow> string \<Rightarrow> finfo \<Rightarrow> bytes \<Rightarrow> 'z os_scheme \<Rightarrow> bool \<Rightarrow> unit res \<Rightarrow> 'z os_scheme \<Rightarrow> bool" where
  "importDone src tgt i d s linked r t \<longleftrightarrow> importFrame src tgt s t \<and> (r = Inr () \<longrightarrow> linked) \<and>
     (if linked then linkedTo src tgt i d t else nodeAt t src = Some (Regular i d))"

lemma importBody_wp:
  assumes p: "isAbs src" "Clean src = src" "comps src = cs @ [c]"
    and names: "digitNames (osEnv s)" and tgt: "scratchFree tgt" "tgt \<noteq> src" and n: "nodeAt s src = Some (Regular i d)"
  shows "wp (importBody src tgt d (Regular i d))
    (\<lambda>(created, linked, r) t. importDone src tgt i d s linked r t) s"
  unfolding importBody_def wp
proof (rule wp_mkdirAllI, goal_cases)
  case (1 a t)
  have src: "nodeAt t src = Some (Regular i d)" using 1(1) [of src] n by auto
  have frame: "importFrame src tgt s t" using 1 by (simp add: importFrame_def) (metis option.distinct(1))
  show ?case
  proof (cases a)
    case (Inr x)
    show ?thesis
      unfolding Inr sum.case wp
    proof (rule wp_createExclI, goal_cases)
      case (2 k)
      show ?case
        unfolding sum.case wp
      proof (rule wp_mono [OF fillTarget_wp [where k = k and x = "[]"]], goal_cases)
        case (2 b u)
        have u: "nodeAt u src = Some (Regular i d)" "importFrame src tgt s u" "digitNames (osEnv u)"
          using 2 src tgt(2) frame names by (auto simp: sameExcept_def importFrame_def)
        show ?case
        proof (cases b)
          case (Inr y)
          then have copy: "isCopy i d (nodeAt u tgt)" using 2 by simp
          show ?thesis
            unfolding Inr sum.case wp
            by (rule wp_mono [OF replaceRegular_wp [OF p u(3) tgt u(1)]])
              (use copy u(2) in \<open>auto simp: wp importDone_def linkedTo_def split: if_splits elim: importFrame_trans\<close>)
        qed (use u in \<open>simp add: wp importDone_def\<close>)
      qed simp
    qed (use src frame in \<open>simp add: wp importDone_def\<close>)
  qed (use src frame in \<open>simp add: wp importDone_def\<close>)
qed

lemma importRollback_wp:
  assumes "importDone src tgt i d s linked r t" "tgt \<noteq> src"
  shows "wp (importRollback tgt created linked r) (\<lambda>r'. importDone src tgt i d s linked r') t"
proof (cases r)
  case (Inl e)
  then show ?thesis
    unfolding importRollback_def wp
    using assms by (auto simp: wp importDone_def intro!: wp_removeI)
qed (use assms in \<open>simp add: importRollback_def wp\<close>)

lemma ticks_start:
  assumes "onlyTicks s t" "nodeAt s src = Some n" "digitNames (osEnv s)"
  shows "nodeAt t src = Some n" "digitNames (osEnv t)" "importFrame src tgt s t"
  using assms importFrame_ticks [OF assms(1)] by (simp_all add: onlyTicks_def nodeAt_def)

text \<open>A source that can be read is read as a whole.\<close>

lemma read_all:
  assumes n: "nodeAt s src = Some (Regular i d)" and limit: "limit < 2 ^ 63 - 1"
    and Q: "\<And>e t. onlyTicks s t \<Longrightarrow> Q (Inl e) t" "\<And>t. onlyTicks s t \<Longrightarrow> Q (Inr (d, Regular i d)) t"
  shows "wp (readSourceFile src limit) Q s"
proof (rule wp_readSourceI, goal_cases)
  case (1 e t)
  then show ?case by (rule Q(1))
next
  case (2 i' d' data t)
  then have d: "i' = i" "d' = d" using n by simp_all
  have "in64 (limit + 1)" using limit 2(3) by (simp add: in64_def)
  then have "data = d" using 2(3,4) d by (simp add: wrap64_id)
  then show ?case using Q(2) [OF 2(1)] d by simp
qed

lemma importSource_wp:
  assumes p: "isAbs src" "Clean src = src" "comps src = cs @ [c]"
    and names: "digitNames (osEnv s)" and tgt: "scratchFree tgt" "tgt \<noteq> src" and n: "nodeAt s src = Some (Regular i d)"
    and limit: "limit < 2 ^ 63 - 1"
  shows "wp (importSource src tgt limit) (\<lambda>(result, r) t. importDone src tgt i d s (Imported result) r t) s"
  unfolding importSource_def wp
proof (rule read_all [OF n limit], goal_cases)
  case (1 e t)
  then show ?case using n by (simp add: wp importDone_def notImported_def importFrame_ticks onlyTicks_nodeAt)
next
  case (2 t)
  note t = ticks_start [OF 2 n names]
  note frame = t(3) [of tgt]
  show ?case
    unfolding sum.case wp fst_conv snd_conv
  proof (rule wp_mono [OF importBody_wp [OF p t(2) tgt t(1)]], goal_cases)
    case (1 a u)
    obtain created linked r where a: "a = (created, linked, r)" by (cases a)
    have "importDone src tgt i d s linked r u" using 1 a frame by (auto simp: importDone_def elim: importFrame_trans)
    from importRollback_wp [OF this tgt(2), of created] show ?case
      unfolding a by (simp add: wp)
  qed
qed

lemma absPath_clean: "isAbs p \<Longrightarrow> Clean p = p \<Longrightarrow> absPath cwd p = p"
  by (simp add: absPath_def)

text \<open>Where a regular file is, \<open>EnsureProtectedLink\<close> reports an error and changes nothing.\<close>

lemma wp_ensureLinkI:
  assumes "isAbs src" "Clean src = src" "nodeAt s src = Some (Regular i d)" "\<And>e t. onlyTicks s t \<Longrightarrow> Q (Inl e) t"
  shows "wp (EnsureProtectedLink src tgt) Q s"
proof -
  have inspect: "wp (inspectProtectedLink src) (\<lambda>r t. onlyTicks s t \<and> (\<forall>l. r = Inr l \<longrightarrow> \<not> plIsSymlink l)) s"
    by (rule wp_inspectI) (use assms(3) in simp_all)
  show ?thesis
    unfolding EnsureProtectedLink_def Let_def wp absPath_clean [OF assms(1,2)]
  proof (rule wp_mono [OF inspect], goal_cases)
    case (1 r t)
    then have "nodeAt t src = Some (Regular i d)" using assms(3) onlyTicks_nodeAt [of s t] by simp
    then show ?case using 1 by (cases r) (auto simp: wp intro!: wp_symlinkI assms(4))
  qed
qed

text \<open>Removing an interrupted import leaves the source alone.\<close>

lemma wp_recoverI:
  assumes "\<And>r t. importFrame src tgt s t \<Longrightarrow> nodeAt t src = nodeAt s src \<Longrightarrow> Q r t" "tgt \<noteq> src"
  shows "wp (recoverInterruptedEmptyImport src tgt info limit) Q s"
proof -
  have look: "Q r t" if "onlyTicks s t" for r t using assms(1) that by (simp add: importFrame_ticks onlyTicks_nodeAt)
  have del: "Q r (delNode tgt (tickd t))" if "onlyTicks s t" for r t
    using assms that by (simp add: importFrame_ticks onlyTicks_nodeAt)
  show ?thesis
    unfolding recoverInterruptedEmptyImport_def wp
    by (auto simp: wp intro!: wp_openValidatedI wp_nopI wp_lstatI wp_removeI look del)
qed

lemma importFile_wp:
  assumes p: "isAbs src" "Clean src = src" "comps src = cs @ [c]"
    and names: "digitNames (osEnv s)" and tgt: "scratchFree tgt" "tgt \<noteq> src" and n: "nodeAt s src = Some (Regular i d)"
    and limit: "limit < 2 ^ 63 - 1"
  shows "wp (importFile src tgt limit) (\<lambda>(result, r) t. importDone src tgt i d s (Imported result) r t) s"
    (is "wp _ ?Q s")
proof -
  have same: "importDone src tgt i d s (Imported (notImported tgt)) (Inl e) t" if "importFrame src tgt s t" "nodeAt t src = nodeAt s src" for e t
    using that n by (simp add: importDone_def notImported_def)
  have start: "wp (importSource src tgt limit) ?Q t" if "importFrame src tgt s t" "nodeAt t src = nodeAt s src" for t
    by (rule wp_mono [OF importSource_wp [OF p _ tgt _ limit]])
      (use that n names in \<open>auto simp: importDone_def importFrame_def\<close>)
  have link: "wp (EnsureProtectedLink src tgt) (\<lambda>l. ?Q (case l of
      Inl e \<Rightarrow> (notImported tgt, Inl e) | Inr x \<Rightarrow> ((notImported tgt)\<lparr>LinkCreated := x\<rparr>, Inr ()))) t"
    if "importFrame src tgt s t" "nodeAt t src = nodeAt s src" for t
  proof (rule wp_ensureLinkI [OF p(1,2)], goal_cases)
    case (2 e u)
    then show ?case using same [of u e] that importFrame_trans [OF that(1) importFrame_ticks] by (simp add: onlyTicks_nodeAt)
  qed (use that n in simp)
  show ?thesis
    unfolding importFile_def wp
    by (rule wp_lstatI) (auto simp: wp intro!: start same wp_recoverI [OF _ tgt(2)] link split: bool.splits sum.splits)
qed

section \<open>Editor replacements\<close>

lemma writeReplacement_wp:
  "wp (writeProtectedReplacement tgt data info)
    (\<lambda>r t. sameExcept {tgt} s t \<and> (r = Inr () \<longrightarrow> isCopy (ninfo info) data (nodeAt t tgt))) s"
  unfolding writeProtectedReplacement_def os_openTrunc_def wp
proof (rule wp_sysCallI, goal_cases)
  case (2 r t)
  show ?case
  proof (cases r)
    case (Inr x)
    then obtain k y where t: "nodeAt t tgt = Some (Regular k y)" "sameExcept {tgt} s t"
      using 2 by (auto split: option.splits node.splits)
    show ?thesis
      unfolding Inr sum.case
      by (rule wp_mono [OF fillTarget_wp [OF t(1)]]) (use sameExcept_trans [OF t(2), of "{tgt}"] in auto)
  qed (use 2 in \<open>auto split: option.splits node.splits\<close>)
qed simp

lemma editReplacement_wp:
  assumes p: "isAbs src" "Clean src = src" "comps src = cs @ [c]"
    and names: "digitNames (osEnv s)" and tgt: "scratchFree tgt" "tgt \<noteq> src" and n: "nodeAt s src = Some (Regular i d)"
    and limit: "limit < 2 ^ 63 - 1"
  shows "wp (editReplacement src tgt limit) (\<lambda>(linked, r) t. importDone src tgt i d s linked r t) s"
  unfolding editReplacement_def wp
proof (rule read_all [OF n limit], goal_cases)
  case (1 e t)
  then show ?case using n by (simp add: wp importDone_def importFrame_ticks onlyTicks_nodeAt)
next
  case (2 u)
  note u = ticks_start [OF 2 n names]
  show ?case
    unfolding sum.case wp fst_conv snd_conv
  proof (rule wp_mono [OF writeReplacement_wp], goal_cases)
    case (1 w t)
    then have t: "nodeAt t src = Some (Regular i d)" "digitNames (osEnv t)" "importFrame src tgt s t"
      using u(1,2) tgt(2) importFrame_trans [OF u(3) importFrame_same] by (auto simp: sameExcept_def)
    show ?case
    proof (cases w)
      case (Inr x)
      show ?thesis
        unfolding Inr sum.case wp
        by (rule wp_mono [OF replaceRegular_wp [OF p t(2) tgt t(1)]])
          (use 1 Inr t(3) in \<open>auto simp: wp wrapErr_def importDone_def linkedTo_def split: if_splits sum.splits elim: importFrame_trans\<close>)
    qed (use t in \<open>simp add: wp importDone_def\<close>)
  qed
qed

definition secured :: "string \<Rightarrow> string \<Rightarrow> finfo \<Rightarrow> bytes \<Rightarrow> unit res \<Rightarrow> 'z os_scheme \<Rightarrow> bool" where
  "secured src tgt i d r t \<longleftrightarrow> (nodeAt t src = Some (Regular i d) \<or> linkedTo src tgt i d t) \<and>
     (r = Inr () \<longrightarrow> linkedTo src tgt i d t)"

section \<open>Properties\<close>

text \<open>
  C31. Importing never loses the plaintext, whichever call fails and whatever the target holds:
  afterwards the source is the same file as before, or it is a link to the target and the target
  holds the same bytes with the same mode and modification time. A success means the second, and
  every other entry of the tree outside scratch directories stays as it was.
\<close>

theorem import_keeps_plaintext:
  assumes "isAbs src" "Clean src = src" "comps src = cs @ [c]" "digitNames (osEnv s)" "scratchFree tgt" "tgt \<noteq> src"
    and "nodeAt s src = Some (Regular i d)" "limit < 2 ^ 63 - 1"
    and "run_state (importFile src tgt limit) s = ((result, r), t)"
  shows "(nodeAt t src = Some (Regular i d) \<or> linkedTo src tgt i d t) \<and> (r = Inr () \<longrightarrow> linkedTo src tgt i d t) \<and>
    (\<forall>q n. scratchFree q \<longrightarrow> q \<noteq> src \<longrightarrow> q \<noteq> tgt \<longrightarrow> nodeAt s q = Some n \<longrightarrow> nodeAt t q = Some n)"
proof -
  have "importDone src tgt i d s (Imported result) r t" using wpD [OF importFile_wp [OF assms(1-8)] assms(9)] by simp
  then show ?thesis unfolding importDone_def importFrame_def by (auto split: if_splits)
qed

definition demoImport :: os where
  "demoImport = \<lparr>osNodes = [(''/'', dirNode), (''/p'', dirNode), (''/p/f'', fileNode [9]), (''/m'', dirNode)],
     osCalls = 0, osEnv = calmEnv\<rparr>"

definition demoEdit :: os where
  "demoEdit = putNode ''/m/f'' (fileNode [1, 2]) demoImport"

lemma demoImport_ok:
  "isAbs ''/p/f''" "Clean ''/p/f'' = ''/p/f''" "comps ''/p/f'' = [''p''] @ [''f'']" "digitNames (osEnv demoImport)"
  "scratchFree ''/m/f''" "''/m/f'' \<noteq> ''/p/f''" "nodeAt demoImport ''/p/f'' = Some (Regular (ninfo (fileNode [])) [9])"
proof -
  show "digitNames (osEnv demoImport)" by (simp add: demoImport_def calmEnv_def digitNames_def)
qed code_simp+

theorem import_keeps_plaintext_witness:
  "linkedTo ''/p/f'' ''/m/f'' (ninfo (fileNode [])) [9] (snd (run_state (importFile ''/p/f'' ''/m/f'' 100) demoImport))"
proof -
  let ?run = "run_state (importFile ''/p/f'' ''/m/f'' 100) demoImport"
  have "snd (fst ?run) = Inr ()" by code_simp
  then have "?run = ((fst (fst ?run), Inr ()), snd ?run)" by (simp add: prod_eq_iff)
  from import_keeps_plaintext [OF demoImport_ok _ this] show ?thesis by simp
qed

text \<open>
  C32. Reconciling an atomic save never loses what the editor wrote, whichever call fails: afterwards
  the edited path is still the file the editor left, or it is the link again and the protected
  target holds exactly its bytes. A success means the second. The registrar, which is the
  caller's, is assumed to leave the two entries alone.
\<close>

theorem edit_keeps_plaintext:
  assumes "isAbs src" "Clean src = src" "comps src = cs @ [c]" "digitNames (osEnv s)" "scratchFree tgt" "tgt \<noteq> src"
    and "nodeAt s src = Some (Regular i d)" "isAbs tgt" "Clean tgt = tgt" "limit < 2 ^ 63 - 1"
    and reg: "\<And>a b u r v. run_state (reg a b) u = (r, v) \<Longrightarrow> nodeAt v src = nodeAt u src \<and> nodeAt v tgt = nodeAt u tgt"
    and "run_state (ReconcileProtectedEdit src tgt limit (Some reg)) s = ((restored, r), t)"
  shows "(nodeAt t src = Some (Regular i d) \<or> linkedTo src tgt i d t) \<and> (r = Inr () \<longrightarrow> linkedTo src tgt i d t)"
proof -
  have kept: "nodeAt t src = Some (Regular i d)" "digitNames (osEnv t)" if "onlyTicks s t" for t
    using ticks_start [OF that assms(7,4)] by simp_all
  have same: "secured src tgt i d (Inl e) t" if "onlyTicks s t" for e t
    using kept [OF that] by (simp add: secured_def)
  have register: "wp (reg src tgt) (\<lambda>g. secured src tgt i d (wrapErr m g)) u" if "linkedTo src tgt i d u" for m u
    by (rule wpI) (use reg that in \<open>auto simp: linkedTo_def secured_def\<close>)
  have restore: "wp (editReplacement src tgt limit) (\<lambda>a t. (\<forall>e. snd a = Inl e \<longrightarrow> secured src tgt i d (Inl e) t) \<and>
      (snd a = Inr () \<longrightarrow> wp (reg src tgt) (\<lambda>g. secured src tgt i d (wrapErr m g)) t)) u" if u: "onlyTicks s u" for m u
    by (rule wp_mono [OF editReplacement_wp [OF assms(1-3) kept(2) [OF u] assms(5,6) kept(1) [OF u] assms(10)]])
      (use register in \<open>auto simp: importDone_def secured_def split: prod.splits sum.splits if_splits\<close>)
  have inspect: "wp (inspectProtectedLink src) (\<lambda>r t. onlyTicks s t \<and> (\<forall>l. r = Inr l \<longrightarrow> \<not> plIsSymlink l)) s"
    by (rule wp_inspectI) (use assms(7) in simp_all)
  have "wp (ReconcileProtectedEdit src tgt limit (Some reg)) (\<lambda>(_, r). secured src tgt i d r) s"
    unfolding ReconcileProtectedEdit_def Let_def wp absPath_clean [OF assms(1,2)] absPath_clean [OF assms(8,9)]
    by (auto simp: wp case_prod_beta intro!: wp_mono [OF inspect] same restore split: sum.splits)
  from wpD [OF this assms(12)] show ?thesis by (simp add: secured_def)
qed

theorem edit_keeps_plaintext_witness:
  "linkedTo ''/p/f'' ''/m/f'' (ninfo (fileNode [])) [9]
     (snd (run_state (ReconcileProtectedEdit ''/p/f'' ''/m/f'' 100 (Some (\<lambda>_ _. ret (Inr ())))) demoEdit))"
proof -
  let ?run = "run_state (ReconcileProtectedEdit ''/p/f'' ''/m/f'' 100 (Some (\<lambda>_ _. ret (Inr ())))) demoEdit"
  have "snd (fst ?run) = Inr ()" by code_simp
  then have run: "?run = ((fst (fst ?run), Inr ()), snd ?run)" by (simp add: prod_eq_iff)
  have paths: "isAbs ''/m/f''" "Clean ''/m/f'' = ''/m/f''" by code_simp+
  have node: "nodeAt demoEdit ''/p/f'' = Some (Regular (ninfo (fileNode [])) [9])" by code_simp
  have names: "digitNames (osEnv demoEdit)" using demoImport_ok(4) by (simp add: demoEdit_def)
  show ?thesis
    using edit_keeps_plaintext [OF demoImport_ok(1-3) names demoImport_ok(5,6) node paths _ _ run] by simp
qed

end
