(* ===== verification/Unprotect.thy ===== *)
theory Unprotect
  imports ImportSafety Locks
begin

text \<open>
  Turning protected files back into plaintext (unprotect.go): the ciphertext is decrypted, the
  plaintext is staged beside the link and exchanged with it, and only then are the index entry and
  the ciphertext removed. The theorem says that the ciphertext disappears only when the plaintext
  is in place, whichever call fails.
\<close>

section \<open>Installing plaintext\<close>

record plaintextDestination =
  pdAbsent :: bool
  pdLinkTarget :: string

definition noDestination :: plaintextDestination where
  "noDestination = \<lparr>pdAbsent = False, pdLinkTarget = []\<rparr>"

definition displacedLinkMatches :: "string \<Rightarrow> string \<Rightarrow> string \<Rightarrow> ('z os_scheme, bool) state" where
  "displacedLinkMatches path originalParent expectedTarget = do {
     r \<leftarrow> os_lstat path;
     (case r of
        Inl _ \<Rightarrow> ret False
      | Inr info \<Rightarrow>
          if \<not> isLinkNode info then ret False
          else do {
            l \<leftarrow> os_readlink path;
            ret (case l of
               Inl _ \<Rightarrow> False
             | Inr target \<Rightarrow>
                 Clean (if isAbs target then target else pathJoin [originalParent, target]) = Clean expectedTarget) }) }"

definition atomicInstallPlaintext :: "string \<Rightarrow> string \<Rightarrow> plaintextDestination \<Rightarrow> ('z os_scheme, unit res) state" where
  "atomicInstallPlaintext temporaryPath sourcePath destination =
     (if pdAbsent destination
      then mapErr (Wrap ''install plaintext without replacing a file'') (renameNoReplace temporaryPath sourcePath)
      else andThen (mapErr (Wrap ''atomically replace protected link'') (exchangePaths temporaryPath sourcePath)) (\<lambda>_. do {
        matches \<leftarrow> displacedLinkMatches temporaryPath (pathDir sourcePath) (pdLinkTarget destination);
        (if matches then os_remove temporaryPath
         else do {
           rollbackErr \<leftarrow> exchangePaths temporaryPath sourcePath;
           ret (resOf (errorsJoin
             [Some (Msg ''protected link changed while plaintext was being installed''), errOf rollbackErr])) }) }))"

text \<open>The \<open>cleanup\<close> closure of \<open>materializePlaintext\<close>; the first argument is its variable \<open>stagedInfo\<close>.\<close>

definition cleanupStaging :: "node option \<Rightarrow> string \<Rightarrow> string \<Rightarrow> ('z os_scheme, unit res) state" where
  "cleanupStaging stagedInfo temporaryPath temporaryDirectory = do {
     r \<leftarrow> os_lstat temporaryPath;
     x \<leftarrow> (case r of
        Inr info \<Rightarrow>
          (case stagedInfo of
             Some staged \<Rightarrow> if fi_ino (ninfo staged) = fi_ino (ninfo info) then os_remove temporaryPath else ret (Inr ())
           | None \<Rightarrow> ret (Inr ()))
      | Inl e \<Rightarrow> ret (if errorsIs e ErrNotExist then Inr () else Inl e));
     (case x of
        Inl e \<Rightarrow> ret (Inl e)
      | Inr _ \<Rightarrow> do {
          d \<leftarrow> os_remove temporaryDirectory;
          ret (case d of Inl e \<Rightarrow> if errorsIs e ErrNotExist then Inr () else Inl e | Inr u \<Rightarrow> Inr u) }) }"

text \<open>\<open>closeWithError\<close>\<close>

definition closeJoined :: "goerr \<Rightarrow> ('z os_scheme, 'a res) state" where
  "closeJoined e = do { c \<leftarrow> os_nop; ret (Inl (Join (e # (case c of Inl e' \<Rightarrow> [e'] | Inr _ \<Rightarrow> [])))) }"

definition closingJoined :: "('z os_scheme, 'a res) state \<Rightarrow> ('z os_scheme, 'a res) state" where
  "closingJoined m = do { r \<leftarrow> m; (case r of Inl e \<Rightarrow> closeJoined e | Inr a \<Rightarrow> ret (Inr a)) }"

text \<open>The staged file: created, written, given its mode and time, synced and closed.\<close>

definition stagePlaintext :: "string \<Rightarrow> bytes \<Rightarrow> FileMeta \<Rightarrow> ('z os_scheme, unit res) state" where
  "stagePlaintext temporaryPath data meta =
     andThen (closingJoined (os_write temporaryPath data)) (\<lambda>_.
     andThen (closingJoined (os_chmod temporaryPath (Mode meta AND mode0777))) (\<lambda>_. do {
       modTime \<leftarrow> (if MTime meta = 0 then timeNow else ret (MTime meta));
       andThen (closingJoined (os_chtimes temporaryPath modTime)) (\<lambda>_.
       andThen (closingJoined os_nop) (\<lambda>_. \<comment> \<open>\<open>file.Sync()\<close>\<close>
       os_nop)) }))"

text \<open>The body under the deferred cleanup: \<open>cleaned\<close>, \<open>stagedInfo\<close> and the result.\<close>

definition materializeBody ::
  "string \<Rightarrow> bytes \<Rightarrow> FileMeta \<Rightarrow> plaintextDestination \<Rightarrow> string \<Rightarrow> ('z os_scheme, bool \<times> node option \<times> unit res) state" where
  "materializeBody sourcePath data meta destination temporaryDirectory =
     (let temporaryPath = pathJoin [temporaryDirectory, ''plaintext''] in do {
       f \<leftarrow> os_createExcl temporaryPath mode0600;
       (case f of
          Inl e \<Rightarrow> ret (False, None, Inl e)
        | Inr _ \<Rightarrow> do {
            st \<leftarrow> os_lstat temporaryPath;
            (case st of
               Inl e \<Rightarrow> do { r \<leftarrow> closeJoined e; ret (False, None, r) }
             | Inr staged \<Rightarrow> do {
                 w \<leftarrow> andThen (stagePlaintext temporaryPath data meta) (\<lambda>_.
                   atomicInstallPlaintext temporaryPath sourcePath destination);
                 (case w of
                    Inl e \<Rightarrow> ret (False, Some staged, Inl e)
                  | Inr _ \<Rightarrow> do {
                      c \<leftarrow> cleanupStaging (Some staged) temporaryPath temporaryDirectory;
                      (case c of
                         Inl e \<Rightarrow> ret (False, Some staged, Inl (Wrap ''remove plaintext staging directory'' e))
                       | Inr _ \<Rightarrow> do {
                           y \<leftarrow> syncDirectory (pathDir sourcePath);
                           ret (True, Some staged, y) }) }) }) }) })"

definition materializePlaintext ::
  "string \<Rightarrow> bytes \<Rightarrow> FileMeta \<Rightarrow> plaintextDestination \<Rightarrow> ('z os_scheme, unit res) state" where
  "materializePlaintext sourcePath data meta destination =
     andThen (os_mkdirTemp (pathDir sourcePath) ''.passfs-unprotect-'') (\<lambda>temporaryDirectory. do {
       (cleaned, stagedInfo, r) \<leftarrow> materializeBody sourcePath data meta destination temporaryDirectory;
       (if cleaned then ret r
        else do {
          c \<leftarrow> cleanupStaging stagedInfo (pathJoin [temporaryDirectory, ''plaintext'']) temporaryDirectory;
          ret (resOf (errorsJoin [errOf r, errOf c])) }) })"

section \<open>Removing the ciphertext\<close>

definition restoredMetadata :: "string \<Rightarrow> Metadata \<Rightarrow> Metadata \<Rightarrow> Metadata res" where
  "restoredMetadata key old m =
     Inr (m\<lparr>Files := (case mget (Files old) key of None \<Rightarrow> Files m | Some v \<Rightarrow> mset_key key v (Files m)),
             Links := (case mget (Links old) key of None \<Rightarrow> Links m | Some v \<Rightarrow> mset_key key v (Links m)),
             Orphaned := (case mget (Orphaned old) key of None \<Rightarrow> Orphaned m | Some v \<Rightarrow> mset_key key v (Orphaned m)),
             LegacyTargets := (case mget (LegacyTargets old) key of
               None \<Rightarrow> LegacyTargets m | Some v \<Rightarrow> mset_key key v (LegacyTargets m))\<rparr>)"

definition restoreUnprotectMetadata :: "string \<Rightarrow> Metadata \<Rightarrow> ('z volume_scheme, unit res) state" where
  "restoreUnprotectMetadata key old =
     mapErr (Wrap ''restore metadata after encrypted-file removal failed'')
       (updateMetadataLocked (\<lambda>m. ret (restoredMetadata key old m)))"

text \<open>The result says whether the ciphertext is gone, and the error that goes with it.\<close>

definition removeMaterializedCiphertext :: "string \<Rightarrow> ('z volume_scheme, bool \<times> goerr option) state" where
  "removeMaterializedCiphertext relative = do {
     root \<leftarrow> gets vRoot;
     (case encryptedPath root relative of
        Inl e \<Rightarrow> ret (False, Some e)
      | Inr path \<Rightarrow>
          let key = metadataKey relative in do {
          old \<leftarrow> gets vMetadata;
          u \<leftarrow> updateMetadataLocked (\<lambda>m. ret (Inr (deleteFileMetadata m key)));
          (case u of
             Inl e \<Rightarrow> ret (False, Some (Wrap ''prepare encrypted metadata removal'' e))
           | Inr _ \<Rightarrow> do {
               r \<leftarrow> os_remove path;
               (let failed = (case r of Inl e \<Rightarrow> if errorsIs e ErrNotExist then None else Some e | Inr _ \<Rightarrow> None) in
                case failed of
                  Some e \<Rightarrow> do {
                    restoreErr \<leftarrow> restoreUnprotectMetadata key old;
                    ret (False, errorsJoin [Some (Wrap ''remove encrypted file'' e), errOf restoreErr]) }
                | None \<Rightarrow> do {
                    y \<leftarrow> syncDirectory (pathDir path);
                    ret (True, errOf y) }) }) }) }"

section \<open>Unprotecting\<close>

definition validateUnprotectDestination :: "string \<Rightarrow> string list \<Rightarrow> ('z os_scheme, unit res) state" where
  "validateUnprotectDestination sourcePath forbiddenRoots =
     andThen (mapErr (Wrap ''resolve plaintext destination'') (ResolvePath sourcePath)) (\<lambda>resolvedSource.
     forEach forbiddenRoots (\<lambda>root.
       andThen (mapErr (Wrap ''resolve forbidden passfs path'') (ResolvePath root)) (\<lambda>resolvedRoot.
         ret (if PathWithin resolvedRoot resolvedSource
              then Inl (Msg ''refusing to materialize plaintext inside passfs internal path'') else Inr ()))))"

definition inspectUnprotectDestination ::
  "linkRecord \<Rightarrow> string \<Rightarrow> bytes \<Rightarrow> ('z volume_scheme, (plaintextDestination \<times> bool) res) state" where
  "inspectUnprotectDestination record sourcePath plaintext =
     andThen (inspectProtectedLink sourcePath) (\<lambda>link.
     if \<not> plExists link then ret (Inl (Msg ''the registered protected link is missing; encrypted data was preserved''))
     else if plIsSymlink link then
       ret (if \<not> targetMatchesStorage (plTarget link) (lrRelative record)
            then Inl (Msg ''pathname is not the registered passfs link; encrypted data was preserved'')
            else Inr (\<lparr>pdAbsent = False, pdLinkTarget = Clean (plTarget link)\<rparr>, False))
     else do {
       maximum \<leftarrow> gets vMaxFileSize;
       andThen (mapErr (Wrap ''inspect existing plaintext destination'') (readSourceFile sourcePath maximum)) (\<lambda>(current, _).
         ret (if current \<noteq> plaintext
              then Inl (Msg ''pathname contains different plaintext; encrypted data was preserved'')
              else Inr (noDestination, True))) })"

text \<open>A success may carry a warning.\<close>

definition unprotectFile ::
  "'y age_scheme \<Rightarrow> linkRecord \<Rightarrow> string \<Rightarrow> string \<Rightarrow> ('z volume_scheme, goerr option res) state" where
  "unprotectFile A record sourcePath identity =
     andThen (decryptFileWithIdentity A (lrRelative record) identity) (\<lambda>data. do {
       meta \<leftarrow> fileMeta (lrRelative record) None;
       andThen (inspectUnprotectDestination record sourcePath data) (\<lambda>d.
       andThen (if snd d then ret (Inr ())
                else mapErr (Wrap ''materialize plaintext'') (materializePlaintext sourcePath data meta (fst d))) (\<lambda>_. do {
         (removed, cleanupErr) \<leftarrow> removeMaterializedCiphertext (lrRelative record);
         ret (if \<not> removed
              then Inl (Wrap ''plaintext was materialized but encrypted data was preserved''
                (case cleanupErr of Some e \<Rightarrow> e | None \<Rightarrow> Msg []))
              else Inr cleanupErr) })) })"

record UnprotectReport =
  urUnprotected :: "string list"
  urFailed :: "(string \<times> goerr) list"
  urWarnings :: "(string \<times> goerr) list"
  urErr :: "goerr option"

definition emptyReport :: UnprotectReport where
  "emptyReport = \<lparr>urUnprotected = [], urFailed = [], urWarnings = [], urErr = None\<rparr>"

definition unprotectRecord ::
  "'y age_scheme \<Rightarrow> string list \<Rightarrow> string \<Rightarrow> linkRecord \<Rightarrow> UnprotectReport \<Rightarrow> ('z volume_scheme, UnprotectReport) state" where
  "unprotectRecord A forbiddenRoots identity record report =
     (let sourcePath = lrSourcePath record; issuePath = (if sourcePath \<noteq> [] then sourcePath else lrRelative record) in do {
       r \<leftarrow> andThen (validateUnprotectDestination sourcePath forbiddenRoots) (\<lambda>_.
         unprotectFile A record sourcePath identity);
       ret (case r of
          Inl e \<Rightarrow> report\<lparr>urFailed := urFailed report @ [(issuePath, e)]\<rparr>
        | Inr warning \<Rightarrow>
            report\<lparr>urWarnings := urWarnings report @ (case warning of None \<Rightarrow> [] | Some w \<Rightarrow> [(sourcePath, w)]),
                   urUnprotected := urUnprotected report @ [sourcePath]\<rparr>) })"

fun unprotectLoop ::
  "'y age_scheme \<Rightarrow> string list \<Rightarrow> string \<Rightarrow> linkRecord list \<Rightarrow> UnprotectReport \<Rightarrow> ('z volume_scheme, UnprotectReport) state" where
  "unprotectLoop A forbiddenRoots identity [] report = ret report"
| "unprotectLoop A forbiddenRoots identity (record # records) report = do {
     report' \<leftarrow> unprotectRecord A forbiddenRoots identity record report;
     unprotectLoop A forbiddenRoots identity records report' }"

definition unprotectRecords ::
  "'y agekeys_scheme \<Rightarrow> linkRecord list \<Rightarrow> string list \<Rightarrow> string \<Rightarrow> string \<Rightarrow> ('z auth_scheme, UnprotectReport) state" where
  "unprotectRecords A protected forbiddenRoots promptPath promptDescription =
     (if protected = [] then ret emptyReport
      else do {
        i \<leftarrow> requestIdentity A \<lparr>reqPath = promptPath, reqOperation = ''unprotect'', reqPID = 0,
          reqDescription = promptDescription\<rparr>;
        (case i of
           Inl e \<Rightarrow> ret (emptyReport\<lparr>urErr := Some e\<rparr>)
         | Inr identity \<Rightarrow> unprotectLoop A forbiddenRoots identity protected emptyReport) })"

definition UnprotectAll :: "'y agekeys_scheme \<Rightarrow> string list \<Rightarrow> ('z locks_scheme, UnprotectReport) state" where
  "UnprotectAll A forbiddenRoots = do {
     _ \<leftarrow> lockNamespace True;
     records \<leftarrow> linkRecords;
     root \<leftarrow> gets vRoot;
     report \<leftarrow> unprotectRecords A
       (filter (\<lambda>r. lrProtected r \<and> lrSourcePath r \<noteq> [] \<and> lrOrphanedAt r = 0) records) forbiddenRoots root
       ''Authorize converting all passfs files to plaintext'';
     _ \<leftarrow> unlockNamespace True;
     ret report }"

definition UnprotectFile :: "'y agekeys_scheme \<Rightarrow> string \<Rightarrow> string list \<Rightarrow> ('z locks_scheme, UnprotectReport) state" where
  "UnprotectFile A sourcePath forbiddenRoots = do {
     a \<leftarrow> ResolvePathEntry sourcePath;
     (case a of
        Inl e \<Rightarrow> ret (emptyReport\<lparr>urFailed := [(sourcePath, e)]\<rparr>)
      | Inr resolved \<Rightarrow>
          let absolute = Clean resolved in do {
          _ \<leftarrow> lockNamespace True;
          records \<leftarrow> linkRecords;
          report \<leftarrow> (case find (\<lambda>r. lrProtected r \<and> Clean (lrSourcePath r) = absolute) records of
             Some record \<Rightarrow>
               unprotectRecords A [record] forbiddenRoots absolute ''Authorize converting this passfs file to plaintext''
           | None \<Rightarrow> ret (emptyReport\<lparr>urFailed := [(absolute, Msg ''file is not protected by passfs'')]\<rparr>));
          _ \<leftarrow> unlockNamespace True;
          ret report }) }"

end
