(* ===== verification/UnprotectSafety.thy ===== *)
theory UnprotectSafety
  imports Unprotect
begin

text \<open>
  What unprotecting a file may change: the link becomes the plaintext in one exchange, and the
  ciphertext is removed only after that.
\<close>

section \<open>Installing plaintext\<close>

lemma resOf_Inr [simp]: "resOf e = Inr u \<longleftrightarrow> e = None"
  by (cases e) simp_all

lemma keeps_displaced [keeps]: "keeps still (displacedLinkMatches p d e)"
  unfolding displacedLinkMatches_def by (intro keeps)

lemma wp_displacedI: "(\<And>b t. onlyTicks s t \<Longrightarrow> Q b t) \<Longrightarrow> wp (displacedLinkMatches p d e) Q s"
  by (rule wp_keepsI [OF keeps_displaced]) (simp add: still_onlyTicks)

lemma onlyTicks_same: "onlyTicks t u \<Longrightarrow> sameExcept X s u = sameExcept X s t"
  by (simp add: onlyTicks_def sameExcept_def nodeAt_def)

lemma atomicInstall_wp:
  assumes "nodeAt s tmp = Some (Regular k data)" "nodeAt s src = Some n" "\<not> isDirNode n" "tmp \<noteq> src" "\<not> pdAbsent dest"
  shows "wp (atomicInstallPlaintext tmp src dest)
    (\<lambda>r t. sameExcept {tmp, src} s t \<and> (nodeAt t src = Some n \<or> nodeAt t src = Some (Regular k data)) \<and>
       (r = Inr () \<longrightarrow> nodeAt t src = Some (Regular k data))) s"
    (is "wp _ ?Q s")
proof -
  have rest: "wp (if b then os_remove tmp else do {
        rollbackErr \<leftarrow> exchangePaths tmp src;
        ret (resOf (errorsJoin [Some c, errOf rollbackErr])) }) ?Q u"
    if "nodeAt u tmp = Some n" "nodeAt u src = Some (Regular k data)" "sameExcept {tmp, src} s u" for b c u
    unfolding wp using that assms(3,4) by (auto simp: wp intro!: wp_removeI wp_exchangeI)
  have decide: "wp (displacedLinkMatches tmp d e) (\<lambda>b. wp (if b then os_remove tmp else do {
        rollbackErr \<leftarrow> exchangePaths tmp src;
        ret (resOf (errorsJoin [Some c, errOf rollbackErr])) }) ?Q) u"
    if "nodeAt u tmp = Some n" "nodeAt u src = Some (Regular k data)" "sameExcept {tmp, src} s u" for d e c u
    by (rule wp_displacedI, rule rest) (use that in \<open>simp_all add: onlyTicks_same onlyTicks_nodeAt\<close>)
  show ?thesis
    unfolding atomicInstallPlaintext_def if_not_P [OF assms(5)] wp_andThen wp_mapErr
    by (rule wp_exchangeI) (use assms decide in \<open>auto simp: wp\<close>)
qed

lemma stagePlaintext_wp:
  assumes "nodeAt s tmp = Some (Regular k x)"
  shows "wp (stagePlaintext tmp data meta)
    (\<lambda>r t. sameExcept {tmp} s t \<and> (r = Inr () \<longrightarrow> (\<exists>k. nodeAt t tmp = Some (Regular k data)))) s"
  unfolding stagePlaintext_def closingJoined_def closeJoined_def wp
  by (auto simp: wp assms intro!: wp_writeI wp_nopI wp_chmodI wp_chtimesI)

lemma cleanupStaging_wp: "wp (cleanupStaging staged tmp dir) (\<lambda>_ t. sameExcept {tmp, dir} s t) s"
  unfolding cleanupStaging_def wp
  by (auto simp: wp intro!: wp_lstatI wp_removeI split: option.splits)

text \<open>The path \<open>src\<close> holds its old entry \<open>n\<close> or a regular file with the given data, and a success means the second.\<close>

definition materialized :: "string \<Rightarrow> node \<Rightarrow> bytes \<Rightarrow> unit res \<Rightarrow> 'z os_scheme \<Rightarrow> bool" where
  "materialized src n data r t \<longleftrightarrow> (nodeAt t src = Some n \<or> (\<exists>k. nodeAt t src = Some (Regular k data))) \<and>
     (r = Inr () \<longrightarrow> (\<exists>k. nodeAt t src = Some (Regular k data)))"

lemma materialized_mono: "materialized src n data r t \<Longrightarrow> (r' = Inr () \<Longrightarrow> r = Inr ()) \<Longrightarrow> nodeAt u src = nodeAt t src \<Longrightarrow>
    materialized src n data r' u"
  by (simp add: materialized_def)

lemma materializeBody_wp:
  assumes n: "nodeAt s src = Some n" "\<not> isDirNode n" and dest: "\<not> pdAbsent dest" and dir: "dir \<noteq> src"
    and tmp: "tmp = pathJoin [dir, ''plaintext'']"
  shows "wp (materializeBody src data meta dest dir)
    (\<lambda>(_, _, r) t. sameExcept {tmp, dir, src} s t \<and> materialized src n data r t) s"
    (is "wp _ ?Q s")
  unfolding materializeBody_def Let_def tmp [symmetric] wp
proof (rule wp_createExclI, goal_cases)
  case (2 i)
  then have ne: "tmp \<noteq> src" using n by auto
  have fail: "?Q (c, st, Inl e) t" if "sameExcept {tmp} s t" for c st e t
    using that n ne by (auto simp: sameExcept_def materialized_def)
  have after: "wp (cleanupStaging st tmp dir) (\<lambda>x t. case x of
      Inl e \<Rightarrow> ?Q (False, st, Inl (Wrap m e)) t
    | Inr _ \<Rightarrow> wp (syncDirectory (pathDir src)) (\<lambda>y. ?Q (True, st, y)) t) u"
    if "sameExcept {tmp, src} s u" "\<exists>k. nodeAt u src = Some (Regular k data)" for st m u
    using that ne dir
    by (intro wp_mono [OF cleanupStaging_wp])
      (auto simp: sameExcept_def materialized_def intro!: wp_syncDirectoryI split: sum.splits)
  have install: "wp (atomicInstallPlaintext tmp src dest) (\<lambda>w t. case w of
      Inl e \<Rightarrow> ?Q (False, st, Inl e) t
    | Inr _ \<Rightarrow> wp (cleanupStaging st tmp dir) (\<lambda>x t. case x of
        Inl e \<Rightarrow> ?Q (False, st, Inl (Wrap m e)) t
      | Inr _ \<Rightarrow> wp (syncDirectory (pathDir src)) (\<lambda>y. ?Q (True, st, y)) t) t) u"
    if "sameExcept {tmp} s u" "nodeAt u tmp = Some (Regular k data)" for st m k u
  proof (rule wp_mono [OF atomicInstall_wp [OF that(2) _ n(2) ne dest]], goal_cases)
    case (2 w t)
    have "sameExcept {tmp, src} s t" using 2 that(1) by (auto simp: sameExcept_def)
    then show ?case using 2 after by (auto simp: sameExcept_def materialized_def split: sum.splits)
  qed (use that n ne in \<open>auto simp: sameExcept_def\<close>)
  have stage: "wp (stagePlaintext tmp data meta) (\<lambda>r t. case r of
      Inl e \<Rightarrow> ?Q (False, st, Inl e) t
    | Inr _ \<Rightarrow> wp (atomicInstallPlaintext tmp src dest) (\<lambda>w t. case w of
        Inl e \<Rightarrow> ?Q (False, st, Inl e) t
      | Inr _ \<Rightarrow> wp (cleanupStaging st tmp dir) (\<lambda>x t. case x of
          Inl e \<Rightarrow> ?Q (False, st, Inl (Wrap m e)) t
        | Inr _ \<Rightarrow> wp (syncDirectory (pathDir src)) (\<lambda>y. ?Q (True, st, y)) t) t) t) u"
    if "sameExcept {tmp} s u" "nodeAt u tmp = Some (Regular i [])" for st m u
  proof (rule wp_mono [OF stagePlaintext_wp [OF that(2)]], goal_cases)
    case (1 r t)
    then have "sameExcept {tmp} s t" using that(1) by (auto simp: sameExcept_def)
    then show ?case using 1 fail install by (cases r) auto
  qed
  show ?case
    unfolding sum.case wp
  proof (rule wp_lstatI, goal_cases)
    case (1 e)
    then show ?case unfolding sum.case closeJoined_def wp using n ne by (auto simp: wp materialized_def intro!: wp_nopI)
  next
    case (2 n')
    then show ?case
      unfolding sum.case wp using stage [of "tickd (putNode tmp (Regular i []) (tickd s))"] by simp
  qed
qed (use n in \<open>simp add: wp materialized_def\<close>)

text \<open>Outside \<open>src\<close> and scratch entries nothing changes.\<close>

definition quiet :: "string \<Rightarrow> 'z os_scheme \<Rightarrow> 'z os_scheme \<Rightarrow> bool" where
  "quiet src s t \<longleftrightarrow> osEnv t = osEnv s \<and> os.more t = os.more s \<and>
     (\<forall>q. scratchFree q \<longrightarrow> q \<noteq> src \<longrightarrow> nodeAt t q = nodeAt s q)"

lemma materializePlaintext_wp:
  assumes n: "nodeAt s src = Some n" "\<not> isDirNode n" and dest: "\<not> pdAbsent dest" and names: "digitNames (osEnv s)" "scratchFree src"
  shows "wp (materializePlaintext src data meta dest) (\<lambda>r t. quiet src s t \<and> materialized src n data r t) s"
  unfolding materializePlaintext_def wp
proof (rule wp_mkdirTempI, goal_cases)
  case (1 e)
  then show ?case using n by (simp add: quiet_def materialized_def)
next
  case (2 x i dir)
  define tmp where "tmp = pathJoin [dir, ''plaintext'']"
  note name = digitNames_scratch [OF names(1) insertI2 [OF insertI2 [OF insertI1]], of "osCalls s", folded 2(3)]
  note scratch = scratch_entries(1) [OF name 2(1)] scratch_entries(3) [OF name 2(1) proper_leaf(2), folded tmp_def]
  have dir: "dir \<noteq> src" and ne: "tmp \<noteq> src" using scratch names(2) by auto
  have quiet: "quiet src s u" if "sameExcept {tmp, dir, src} (putNode dir (Directory i) (tickd s)) u" for u
    using that scratch by (auto simp: quiet_def sameExcept_def)
  show ?case
    unfolding sum.case wp tmp_def [symmetric]
  proof (rule wp_mono [OF materializeBody_wp [OF _ n(2) dest dir tmp_def]], goal_cases)
    case (2 a t)
    obtain cleaned staged r where a: "a = (cleaned, staged, r)" by (cases a)
    have "wp (cleanupStaging staged tmp dir) (\<lambda>c u. quiet src s u \<and> materialized src n data (resOf (errorsJoin [errOf r, errOf c])) u) t"
    proof (rule wp_mono [OF cleanupStaging_wp], goal_cases)
      case (1 c u)
      then have "quiet src s u" "nodeAt u src = nodeAt t src"
        using 2 a quiet [of u] dir ne by (auto simp: sameExcept_def)
      moreover have "r = Inr ()" if "resOf (errorsJoin [errOf r, errOf c]) = Inr ()"
        using that by (cases r) (auto simp: resOf_def split: option.splits)
      ultimately show ?case using 2 a materialized_mono by blast
    qed
    then show ?case using 2 a quiet by (auto simp: wp)
  qed (use n dir in simp)
qed

section \<open>Removing the ciphertext\<close>

interpretation restored: index_transaction "\<lambda>m. ret (restoredMetadata key old m)" "\<lambda>m m'. restoredMetadata key old m = Inr m'"
  for key old
  by unfold_locales (simp add: wp)

text \<open>An index whose document can be read back.\<close>

definition readable :: "Metadata \<Rightarrow> bool" where
  "readable m \<longleftrightarrow> okMetadata m \<and> int (length (jsonDocument (encodeMetadata m))) \<le> 16 * 1024 * 1024 \<and>
     checkMetadata m = Inr m \<and> Version m \<noteq> legacyMetadataFormatVersion"

lemma readable_disk: "documentIs s root m \<Longrightarrow> readable m \<Longrightarrow> diskMetadata s root = Some (canonical m)"
  by (simp add: readable_def diskMetadata_document)

lemma transacted_keeps:
  "transacted post s r t \<Longrightarrow> nodeAt s q = Some n \<Longrightarrow> q \<noteq> metadataPath (vRoot s) \<Longrightarrow> nodeAt t q = Some n"
  "transacted post s r t \<Longrightarrow> vRoot t = vRoot s"
  by (auto simp: transacted_def Let_def volFrame_def)

lemma transacted_Inr:
  "transacted post s (Inr u) t \<Longrightarrow> diskMetadata s (vRoot s) = Some m \<Longrightarrow>
    post (mergePending (vPending s) m) (vMetadata t) \<and> documentIs t (vRoot s) (vMetadata t)"
  by (auto simp: transacted_def Let_def)

lemma removeCiphertext_wp:
  assumes root: "isAbs (vRoot s)" "Clean (vRoot s) = vRoot s" and disk: "diskMetadata s (vRoot s) = Some m"
    and ok: "readable (deleteFileMetadata (mergePending (vPending s) m) (metadataKey rel))"
    and enc: "encryptedPath (vRoot s) rel = Inr enc" and src: "nodeAt s src = Some n" "src \<noteq> metadataPath (vRoot s)" "src \<noteq> enc"
  shows "wp (removeMaterializedCiphertext rel) (\<lambda>_ t. nodeAt t src = Some n) s"
proof -
  let ?root = "vRoot s" and ?key = "metadataKey rel"
  have restore: "wp (restoreUnprotectMetadata ?key old) (\<lambda>_ t. nodeAt t src = Some n) u"
    if "nodeAt u src = Some n" "vRoot u = ?root" "diskMetadata u ?root = Some m'" for u old m'
    unfolding restoreUnprotectMetadata_def wp
    by (rule wp_mono [OF restored.update_transacted]) (use that root src(2) in \<open>auto dest: transacted_keeps\<close>)
  have rest: "wp (os_remove enc) (\<lambda>r. wp (case (case r of Inl e \<Rightarrow> if errorsIs e ErrNotExist then None else Some e | Inr _ \<Rightarrow> None) of
        Some e \<Rightarrow> do { restoreErr \<leftarrow> restoreUnprotectMetadata ?key old; ret (False, f e restoreErr) }
      | None \<Rightarrow> do { y \<leftarrow> syncDirectory d; ret (True, errOf y) }) (\<lambda>_ t. nodeAt t src = Some n)) u"
    if u: "nodeAt u src = Some n" "vRoot u = ?root" "diskMetadata u ?root = Some m'" for u old f d m'
  proof (rule wp_removeI, goal_cases)
    case (1 e)
    have "diskMetadata (tickd u) ?root = Some m'" using u(3) diskMetadata_cong [of "tickd u" ?root u] by simp
    then show ?case using u restore [of "tickd u"] by (auto simp: wp intro!: wp_syncDirectoryI)
  qed (use u src(3) in \<open>auto simp: wp intro!: wp_syncDirectoryI\<close>)
  show ?thesis
    unfolding removeMaterializedCiphertext_def wp_bind wp_gets enc sum.case Let_def
  proof (rule wp_mono [OF remove.update_transacted [OF root disk]], goal_cases)
    case (1 a t)
    note t = transacted_keeps(1) [OF 1 src(1,2)] transacted_keeps(2) [OF 1]
    show ?case
    proof (cases a)
      case (Inr x)
      from transacted_Inr [OF 1 [unfolded Inr] disk] ok have "\<exists>m'. diskMetadata t ?root = Some m'"
        by (auto dest: readable_disk)
      then show ?thesis unfolding Inr sum.case wp_bind using rest [OF t] by auto
    qed (use t in \<open>simp add: wp\<close>)
  qed
qed

section \<open>A whole file\<close>

text \<open>What reading the index may change on the way: the lock file appears and the index is refreshed.\<close>

definition grown :: "'z volume_scheme \<Rightarrow> 'z volume_scheme \<Rightarrow> bool" where
  "grown s t \<longleftrightarrow> osEnv t = osEnv s \<and> vRoot t = vRoot s \<and> vPending t = vPending s \<and> vMaxFileSize t = vMaxFileSize s \<and>
     (\<forall>q n. nodeAt s q = Some n \<longrightarrow> nodeAt t q = Some n)"

lemma grown_refl [simp]: "grown s s" and grown_tickd [simp]: "grown s (tickd t) = grown s t"
  by (simp_all add: grown_def)

lemma grown_set [simp]: "grown s (t\<lparr>vMetadata := m\<rparr>) = grown s t"
  by (simp add: grown_def nodeAt_def)

lemma grown_ticks: "onlyTicks s t \<Longrightarrow> grown s t" for s t :: "'z volume_scheme"
  using more_volume [of t s] by (simp add: onlyTicks_def grown_def nodeAt_def)

lemma grown_trans: "grown s t \<Longrightarrow> grown t u \<Longrightarrow> grown s u"
  by (simp add: grown_def)

lemma onlyCreates_grown: "onlyCreates {} C s t \<Longrightarrow> grown s t" for s t :: "'z volume_scheme"
  using more_volume [of t s] onlyCreates_keeps [of "{}" C s t] by (simp add: onlyCreates_def grown_def)

lemma refresh_grown:
  assumes "diskMetadata s (vRoot s) = Some m" "isAbs (vRoot s)" "Clean (vRoot s) = vRoot s"
  shows "wp refreshMetadata (\<lambda>_. grown s) s"
  unfolding refreshMetadata_def wp
proof (rule wp_withLockI [where R = "\<lambda>_. grown s"], goal_cases)
  case (2 t)
  have "diskMetadata t (vRoot s) = Some m"
    using assms 2 onlyCreates_nodeAt [OF 2, of "metadataPath (vRoot s)"] vault_file_paths(4) [OF assms(2,3)]
      diskMetadata_cong [of t "vRoot s" s] by simp
  then show ?case by (rule wp_readMetadataI) (use 2 onlyCreates_grown in auto)
qed (auto intro: onlyCreates_grown simp: wp grown_set split: sum.splits)

lemma fileMeta_grown:
  assumes "diskMetadata s (vRoot s) = Some m" "isAbs (vRoot s)" "Clean (vRoot s) = vRoot s"
  shows "wp (fileMeta rel None) (\<lambda>_. grown s) s"
  unfolding fileMeta_def Let_def wp
  by (auto simp: wp intro!: wp_mono [OF refresh_grown [OF assms]] split: option.splits sum.splits prod.splits)

text \<open>What both reading the index and installing plaintext leave alone.\<close>

definition steady :: "string \<Rightarrow> 'z volume_scheme \<Rightarrow> 'z volume_scheme \<Rightarrow> bool" where
  "steady src s t \<longleftrightarrow> osEnv t = osEnv s \<and> vRoot t = vRoot s \<and> vPending t = vPending s \<and> vMaxFileSize t = vMaxFileSize s \<and>
     (\<forall>q n. scratchFree q \<longrightarrow> q \<noteq> src \<longrightarrow> nodeAt s q = Some n \<longrightarrow> nodeAt t q = Some n)"

lemma steady_trans: "steady src s t \<Longrightarrow> steady src t u \<Longrightarrow> steady src s u"
  by (simp add: steady_def)

lemma grown_steady: "grown s t \<Longrightarrow> steady src s t"
  by (simp add: grown_def steady_def)

lemma quiet_steady: "quiet src s t \<Longrightarrow> steady src s t" for s t :: "'z volume_scheme"
  using more_volume [of t s] by (simp add: quiet_def steady_def)

lemma steady_disk:
  assumes "steady src s t" "diskMetadata s root = Some m" "scratchFree (metadataPath root)" "metadataPath root \<noteq> src"
  shows "diskMetadata t root = Some m"
proof -
  obtain n where "nodeAt s (metadataPath root) = Some n"
    using assms(2) by (cases "nodeAt s (metadataPath root)") (simp_all add: diskMetadata_def)
  then show ?thesis using assms diskMetadata_cong [of t root s] by (simp add: steady_def)
qed

lemma follow_regular: "nodeAt s p = Some (Regular i d) \<Longrightarrow> followNode k (osNodes s) p = Inr (Regular i d)"
  by (simp add: nodeAt_def followNode.simps)

lemma decrypt_wp:
  assumes "encryptedPath (vRoot s) rel = Inr enc" "nodeAt s enc = Some (Regular ci cipher)"
  shows "wp (decryptFileWithIdentity A rel identity)
    (\<lambda>r t. onlyTicks s t \<and> (\<forall>data. r = Inr data \<longrightarrow> ageDecrypt A identity cipher = Inr data)) s"
  unfolding decryptFileWithIdentity_def wp_bind wp_gets assms(1) sum.case
  using assms(2) by (auto simp: wp follow_regular intro!: wp_openI wp_nopI split: sum.splits if_splits)

text \<open>A destination is a link, or it holds the plaintext already.\<close>

definition destinationOk :: "string \<Rightarrow> bytes \<Rightarrow> 'z os_scheme \<Rightarrow> (plaintextDestination \<times> bool) res \<Rightarrow> bool" where
  "destinationOk src data s r \<longleftrightarrow> (\<forall>d. r = Inr d \<longrightarrow>
     (if snd d then \<exists>k. nodeAt s src = Some (Regular k data)
      else \<not> pdAbsent (fst d) \<and> (\<exists>k x. nodeAt s src = Some (Symlink k x))))"

lemma destinationOk_Inl [simp]: "destinationOk src data s (Inl e)"
  by (simp add: destinationOk_def)

lemma inspectDestination_wp:
  assumes limit: "vMaxFileSize s < 2 ^ 63 - 1"
  shows "wp (inspectUnprotectDestination record src data) (\<lambda>r t. onlyTicks s t \<and> destinationOk src data s r) s"
    (is "wp _ ?Q s")
proof -
  have look: "wp (readSourceFile src limit) (\<lambda>r u. onlyTicks s u \<and> (\<forall>d n. r = Inr (d, n) \<longrightarrow> (\<exists>k. nodeAt s src = Some (Regular k d)))) t"
    if t: "onlyTicks s t" and l: "limit < 2 ^ 63 - 1" for limit t
  proof (rule wp_readSourceI, goal_cases)
    case (1 e u)
    then show ?case using t by (auto intro: onlyTicks_trans)
  next
    case (2 k d d' u)
    then have "nodeAt s src = Some (Regular k d)" using onlyTicks_nodeAt [OF t, of src] by simp
    moreover have "in64 (limit + 1)" using l 2 by (simp add: in64_def)
    ultimately show ?case using 2 t by (auto simp: wrap64_id intro: onlyTicks_trans)
  qed
  have max: "vMaxFileSize t = vMaxFileSize s" if "onlyTicks s t" for t
    using that more_volume [of t s] by (simp add: onlyTicks_def)
  have rest: "wp (do {
       maximum \<leftarrow> gets vMaxFileSize;
       andThen (mapErr (Wrap m1) (readSourceFile src maximum)) (\<lambda>(current, _).
         ret (if current \<noteq> data then Inl m2 else Inr (noDestination, True))) }) ?Q t" if t: "onlyTicks s t" for m1 m2 t
    unfolding wp max [OF t]
    by (rule wp_mono [OF look [OF t limit]]) (auto simp: wp destinationOk_def split: sum.splits)
  show ?thesis
    unfolding inspectUnprotectDestination_def wp_andThen
  proof (rule wp_inspectI, goal_cases)
    case (3 l)
    then show ?case using rest [of "tickd s"] by (simp add: wp_return)
  next
    case (4 l)
    then show ?case using rest [of "tickd (tickd s)"] by (simp add: wp_return)
  qed (auto simp: wp destinationOk_def)
qed

text \<open>The decrypted content of a ciphertext is the content of a regular file.\<close>

definition plaintextAt :: "'y age_scheme \<Rightarrow> string \<Rightarrow> bytes \<Rightarrow> string \<Rightarrow> 'z os_scheme \<Rightarrow> bool" where
  "plaintextAt A identity cipher src t \<longleftrightarrow>
     (\<exists>k data. ageDecrypt A identity cipher = Inr data \<and> nodeAt t src = Some (Regular k data))"

definition safely :: "'y age_scheme \<Rightarrow> string \<Rightarrow> bytes \<Rightarrow> string \<Rightarrow> node \<Rightarrow> string \<Rightarrow> node \<Rightarrow> 'a res \<Rightarrow> 'z os_scheme \<Rightarrow> bool" where
  "safely A identity cipher src n enc c r t \<longleftrightarrow>
     plaintextAt A identity cipher src t \<or> (nodeAt t src = Some n \<and> nodeAt t enc = Some c \<and> (\<exists>e. r = Inl e))"

text \<open>
  The situation before a file is unprotected: an index that can be read and written back without
  the object, the ciphertext, and an entry at the project path, none of them a scratch entry.
\<close>

definition protectedAt ::
  "Metadata \<Rightarrow> string \<Rightarrow> string \<Rightarrow> node \<Rightarrow> string \<Rightarrow> node \<Rightarrow> 'z volume_scheme \<Rightarrow> bool" where
  "protectedAt m rel src n enc c s \<longleftrightarrow>
     isAbs (vRoot s) \<and> Clean (vRoot s) = vRoot s \<and> diskMetadata s (vRoot s) = Some m \<and>
     readable (deleteFileMetadata (mergePending (vPending s) m) (metadataKey rel)) \<and>
     encryptedPath (vRoot s) rel = Inr enc \<and> nodeAt s enc = Some c \<and> nodeAt s src = Some n \<and>
     src \<noteq> enc \<and> src \<noteq> metadataPath (vRoot s) \<and>
     scratchFree src \<and> scratchFree enc \<and> scratchFree (metadataPath (vRoot s)) \<and>
     digitNames (osEnv s) \<and> vMaxFileSize s < 2 ^ 63 - 1"

lemma steady_enc: "protectedAt m rel src n enc c s \<Longrightarrow> steady src s u \<Longrightarrow> nodeAt u enc = Some c"
  by (auto simp: protectedAt_def steady_def)

lemma steady_index: "protectedAt m rel src n enc c s \<Longrightarrow> steady src s u \<Longrightarrow> diskMetadata u (vRoot s) = Some m"
  by (rule steady_disk) (auto simp: protectedAt_def)

text \<open>Once the plaintext is in place it stays there, whatever the removal of the ciphertext does.\<close>

lemma remove_safely:
  assumes p: "protectedAt m rel src n enc c s" "steady src s u"
    and data: "ageDecrypt A identity cipher = Inr data" "nodeAt u src = Some (Regular k data)"
  shows "wp (do {
      (removed, cleanupErr) \<leftarrow> removeMaterializedCiphertext rel;
      ret (f removed cleanupErr) }) (safely A identity cipher src n enc c) u"
proof -
  have same: "vRoot u = vRoot s" "vPending u = vPending s" using p(2) by (simp_all add: steady_def)
  have "wp (removeMaterializedCiphertext rel) (\<lambda>_ t. nodeAt t src = Some (Regular k data)) u"
    by (rule removeCiphertext_wp [of u m _ enc])
      (use same p(1) data(2) steady_index [OF p] in \<open>auto simp: protectedAt_def\<close>)
  then show ?thesis unfolding wp by (rule wp_mono) (use data in \<open>auto simp: wp safely_def plaintextAt_def\<close>)
qed

lemma materialize_safely:
  assumes p: "protectedAt m rel src n enc c s" "steady src s u" "nodeAt u src = Some n"
    and data: "ageDecrypt A identity cipher = Inr data" and dest: "destinationOk src data u (Inr d)"
  shows "wp (if snd d then ret (Inr ()) else mapErr (Wrap msg) (materializePlaintext src data meta (fst d)))
    (\<lambda>a t. (\<forall>e. a = Inl e \<longrightarrow> (\<forall>m. safely A identity cipher src n enc c (Inl m) t)) \<and>
      (a = Inr () \<longrightarrow> steady src s t \<and> (\<exists>k. nodeAt t src = Some (Regular k data)))) u"
proof (cases "snd d")
  case False
  then have d: "\<not> pdAbsent (fst d)" "\<not> isDirNode n" using dest p(3) by (auto simp: destinationOk_def)
  have names: "digitNames (osEnv u)" "scratchFree src" using p(1,2) by (simp_all add: protectedAt_def steady_def)
  show ?thesis
    unfolding if_not_P [OF False] wp_mapErr
  proof (rule wp_mono [OF materializePlaintext_wp [OF p(3) d(2,1) names]], goal_cases)
    case (1 a t)
    then have "steady src s t" using p(2) quiet_steady steady_trans by blast
    then show ?case
      using 1 data steady_enc [OF p(1)] by (cases a) (auto simp: materialized_def safely_def plaintextAt_def)
  qed
qed (use p dest in \<open>auto simp: wp destinationOk_def\<close>)

lemma unprotect_rest:
  assumes p: "protectedAt m rel src n enc c s" and u: "onlyTicks s u" and data: "ageDecrypt A identity cipher = Inr data"
    and rel: "rel = lrRelative record"
  shows "wp (do {
       meta \<leftarrow> fileMeta rel None;
       andThen (inspectUnprotectDestination record src data) (\<lambda>d.
       andThen (if snd d then ret (Inr ()) else mapErr (Wrap msg) (materializePlaintext src data meta (fst d))) (\<lambda>_. do {
         (removed, cleanupErr) \<leftarrow> removeMaterializedCiphertext rel;
         ret (f removed cleanupErr) })) }) (safely A identity cipher src n enc c) u"
proof -
  have g: "grown s u" using grown_ticks [OF u] .
  have "wp (fileMeta rel None) (\<lambda>_. grown u) u"
    by (rule fileMeta_grown [of u m]) (use g p steady_index [OF p grown_steady [OF g]] in \<open>auto simp: grown_def protectedAt_def\<close>)
  then show ?thesis
    unfolding wp_bind
  proof (rule wp_mono, goal_cases)
    case (1 meta v)
    have gv: "grown s v" using grown_trans [OF g 1] .
    have lv: "vMaxFileSize v < 2 ^ 63 - 1" using gv p by (simp add: grown_def protectedAt_def)
    show ?case
      unfolding wp_andThen
    proof (rule wp_mono [OF inspectDestination_wp [OF lv]], goal_cases)
      case (1 a w)
      then have gw: "grown s w" using grown_trans [OF gv grown_ticks] by blast
      have st: "steady src s w" "nodeAt w src = Some n"
        using grown_steady [OF gw] gw p by (simp_all add: grown_def protectedAt_def)
      show ?case
      proof (cases a)
        case (Inr d)
        have dest: "destinationOk src data w (Inr d)"
          using 1 Inr onlyTicks_nodeAt [of v w src] by (simp add: destinationOk_def split: if_splits)
        show ?thesis
          unfolding Inr sum.case
          by (rule wp_mono [OF materialize_safely [OF p st data dest]]) (use remove_safely [OF p] data in \<open>auto split: sum.splits\<close>)
      qed (use st steady_enc [OF p] in \<open>simp add: safely_def\<close>)
    qed
  qed
qed

text \<open>
  C33. Unprotecting one file never loses it: in every run of \<open>unprotectFile\<close>, whichever call fails,
  either the registered path holds the decrypted content of the ciphertext at the end, or the path
  and the ciphertext are both as they were and an error is reported; a success, with or without a
  warning, means that the plaintext is in place.
\<close>

theorem unprotect_keeps_data:
  assumes p: "protectedAt m (lrRelative record) src n enc (Regular ci cipher) s"
    and run: "run_state (unprotectFile A record src identity) s = (r, t)"
  shows "plaintextAt A identity cipher src t \<or> (nodeAt t src = nodeAt s src \<and> nodeAt t enc = nodeAt s enc \<and> (\<exists>e. r = Inl e))"
proof -
  have enc: "encryptedPath (vRoot s) (lrRelative record) = Inr enc" "nodeAt s enc = Some (Regular ci cipher)" "nodeAt s src = Some n"
    using p by (simp_all add: protectedAt_def)
  have "wp (unprotectFile A record src identity) (safely A identity cipher src n enc (Regular ci cipher)) s"
    unfolding unprotectFile_def wp_andThen
  proof (rule wp_mono [OF decrypt_wp [OF enc(1,2)]], goal_cases)
    case (1 a t)
    show ?case
    proof (cases a)
      case (Inr data)
      show ?thesis unfolding Inr sum.case by (rule unprotect_rest [OF p]) (use 1 Inr in auto)
    qed (use 1 enc onlyTicks_nodeAt [of s t] in \<open>simp add: safely_def\<close>)
  qed
  from wpD [OF this run] show ?thesis using enc by (auto simp: safely_def)
qed

text \<open>A vault with one stored object and its link.\<close>

definition demoObject :: string where
  "demoObject = ''00000000-0000-4000-8000-000000000000''"

definition demoLinked :: volume where
  "demoLinked = putNode ''/p/s'' (Symlink (ninfo (fileNode [])) (''/m/by-id/'' @ demoObject))
     (putNode (''/v/objects/'' @ demoObject @ ''.age'') (fileNode (ageEncrypt standInAge 0 ''age1KEY'' [4, 5])) demoStore)"

definition demoRecord :: linkRecord where
  "demoRecord = zeroRecord\<lparr>lrRelative := ''objects/'' @ demoObject, lrSourcePath := ''/p/s'', lrProtected := True\<rparr>"

lemma demoLinked_disk: "diskMetadata demoLinked (vRoot demoLinked) = Some emptyMetadata"
proof -
  have "vRoot demoLinked = vRoot demoStore"
    "nodeAt demoLinked (metadataPath (vRoot demoStore)) = nodeAt demoStore (metadataPath (vRoot demoStore))" by code_simp+
  then show ?thesis using demoStore_ok(6) diskMetadata_cong [of demoLinked "vRoot demoStore" demoStore] by simp
qed

theorem unprotect_keeps_data_witness:
  "let run = run_state (unprotectFile standInAge demoRecord ''/p/s'' ''KEY'') demoLinked;
       enc = ''/v/objects/'' @ demoObject @ ''.age'' in
   plaintextAt standInAge ''KEY'' (ageEncrypt standInAge 0 ''age1KEY'' [4, 5]) ''/p/s'' (snd run) \<or>
   nodeAt (snd run) ''/p/s'' = nodeAt demoLinked ''/p/s'' \<and> nodeAt (snd run) enc = nodeAt demoLinked enc \<and> (\<exists>e. fst run = Inl e)"
proof -
  have "isAbs (vRoot demoLinked)" "Clean (vRoot demoLinked) = vRoot demoLinked" by code_simp+
  moreover have "deleteFileMetadata (mergePending (vPending demoLinked) emptyMetadata) (metadataKey (lrRelative demoRecord)) = emptyMetadata"
    by code_simp
  moreover have "readable emptyMetadata" using emptyIndex_ok by (simp add: readable_def)
  moreover have "encryptedPath (vRoot demoLinked) (lrRelative demoRecord) = Inr (''/v/objects/'' @ demoObject @ ''.age'')"
    "nodeAt demoLinked (''/v/objects/'' @ demoObject @ ''.age'') =
       Some (Regular (ninfo (fileNode [])) (ageEncrypt standInAge 0 ''age1KEY'' [4, 5]))" by code_simp+
  moreover have "nodeAt demoLinked ''/p/s'' = Some (Symlink (ninfo (fileNode [])) (''/m/by-id/'' @ demoObject))"
    "''/p/s'' \<noteq> ''/v/objects/'' @ demoObject @ ''.age''" "''/p/s'' \<noteq> metadataPath (vRoot demoLinked)" by code_simp+
  moreover have "scratchFree ''/p/s''" "scratchFree (''/v/objects/'' @ demoObject @ ''.age'')" "scratchFree (metadataPath (vRoot demoLinked))"
    by code_simp+
  moreover have "digitNames (osEnv demoLinked)" using demoStore_ok(3) by (simp add: demoLinked_def)
  moreover have "vMaxFileSize demoLinked < 2 ^ 63 - 1" by (simp add: demoLinked_def demoStore_def putNode_def)
  ultimately have "protectedAt emptyMetadata (lrRelative demoRecord) ''/p/s'' (Symlink (ninfo (fileNode [])) (''/m/by-id/'' @ demoObject))
      (''/v/objects/'' @ demoObject @ ''.age'') (Regular (ninfo (fileNode [])) (ageEncrypt standInAge 0 ''age1KEY'' [4, 5])) demoLinked"
    using demoLinked_disk by (simp add: protectedAt_def del: append_Cons)
  from unprotect_keeps_data [OF this prod.collapse [symmetric]] show ?thesis by (simp only: Let_def)
qed

end
