(* ===== verification/Recovery.thy ===== *)
theory Recovery
  imports UnprotectSafety
begin

text \<open>
  The recovery area and the registry of links (recovery.go, protected\_files.go and
  link\_registration.go): listing protected files and recovery items, recreating a missing link,
  purging an object, registering a link, and the test whether an editor replaced a link. The
  theorems say what the listings contain and that recreating a link never replaces an entry.
\<close>

section \<open>Recovery items (recovery.go)\<close>

record RecoveryItem =
  riObjectID :: string
  riPath :: string
  riState :: string
  riReason :: string
  riObserved :: int
  riSize :: u64

text \<open>The loop over \<open>metadata.Recovery\<close>; after an error no item is used.\<close>

fun recoveryItemsOf :: "Metadata \<Rightarrow> (string \<times> RecoveryEntry) list \<Rightarrow> RecoveryItem list res" where
  "recoveryItemsOf m [] = Inr []"
| "recoveryItemsOf m ((key, recovery) # entries) =
     (case mget (Files m) key of
        None \<Rightarrow> recoveryItemsOf m entries
      | Some meta \<Rightarrow>
          (case objectIDFromStoragePath key of
             Inl e \<Rightarrow> Inl e
           | Inr objectID \<Rightarrow>
               (case recoveryItemsOf m entries of
                  Inl e \<Rightarrow> Inl e
                | Inr items \<Rightarrow>
                    Inr (\<lparr>riObjectID = objectID, riPath = rePath recovery, riState = reState recovery,
                          riReason = reReason recovery, riObserved = reObserved recovery, riSize = Size meta\<rparr> # items))))"

text \<open>Latest first, then by path.\<close>

definition sortItems :: "RecoveryItem list \<Rightarrow> RecoveryItem list" where
  "sortItems items = sort_key (\<lambda>i. - riObserved i) (sort_key riPath items)"

definition RecoveryItems :: "string \<Rightarrow> ('z os_scheme, RecoveryItem list res) state" where
  "RecoveryItems vault = do {
     cwd \<leftarrow> gets (\<lambda>s. envCwd (osEnv s));
     (let root = absPath cwd vault in
      andThen (withMetadataFileLock root (andThen (readMetadata root) (\<lambda>metadata.
        ret (recoveryItemsOf metadata (Recovery metadata))))) (\<lambda>items.
      ret (Inr (sortItems items)))) }"

definition findRecoveryEntry :: "Metadata \<Rightarrow> string \<Rightarrow> (string \<times> RecoveryEntry) res" where
  "findRecoveryEntry metadata reference =
     (let cleanReference = Clean reference in
      case find (\<lambda>(key, entry).
          case objectIDFromStoragePath key of
            Inl _ \<Rightarrow> False
          | Inr objectID \<Rightarrow> reference = objectID \<or> cleanReference = Clean (rePath entry) \<or> cleanReference = Clean key)
        (Recovery metadata) of
        None \<Rightarrow> Inl (Msg ''recovery item was not found'')
      | Some x \<Rightarrow> Inr x)"

text \<open>The index after a link is back: its path is registered and the recovery state is gone.\<close>

definition linkRestored :: "string \<Rightarrow> string \<Rightarrow> Metadata \<Rightarrow> Metadata" where
  "linkRestored key path m =
     m\<lparr>Links := mset_key key (Clean path) (Links m), Recovery := mdel key (Recovery m),
       Orphaned := mdel key (Orphaned m), LegacyTargets := mdel key (LegacyTargets m)\<rparr>"

text \<open>Undoing a link that was just created: it is removed if it still is that link.\<close>

definition dropCreatedLink :: "bool \<Rightarrow> string \<Rightarrow> string \<Rightarrow> ('z os_scheme, unit) state" where
  "dropCreatedLink created path target =
     (if \<not> created then ret ()
      else do {
        l \<leftarrow> inspectProtectedLink path;
        (case l of
           Inl _ \<Rightarrow> ret ()
         | Inr link \<Rightarrow>
             if plIsSymlink link \<and> plTarget link = Clean target then do { _ \<leftarrow> os_remove path; ret () } else ret ()) })"

definition restoreEntry :: "string \<Rightarrow> string \<Rightarrow> Metadata \<Rightarrow> string \<Rightarrow> string \<Rightarrow> ('z os_scheme, unit res) state" where
  "restoreEntry root path metadata key target =
     andThen (mapErr (Wrap ''restore protected link'') (EnsureProtectedLink path target)) (\<lambda>created. do {
       r \<leftarrow> saveMetadata root (linkRestored key path metadata);
       (case r of
          Inl e \<Rightarrow> do {
            _ \<leftarrow> dropCreatedLink created path target;
            ret (Inl (Wrap ''record restored protected link'' e)) }
        | Inr _ \<Rightarrow> ret (Inr ())) })"

definition RestoreRecoveryLink :: "string \<Rightarrow> string \<Rightarrow> string \<Rightarrow> ('z os_scheme, unit res) state" where
  "RestoreRecoveryLink vault mountPoint reference = do {
     cwd \<leftarrow> gets (\<lambda>s. envCwd (osEnv s));
     (let root = absPath cwd vault in
      withMetadataFileLock root (andThen (readMetadata root) (\<lambda>metadata.
        case findRecoveryEntry metadata reference of
          Inl e \<Rightarrow> ret (Inl e)
        | Inr (key, recovery) \<Rightarrow>
            if rePath recovery = [] \<or> rePath recovery = ''.''
            then ret (Inl (Msg ''recovery item has no original project path''))
            else (case objectIDFromStoragePath key of
                Inl e \<Rightarrow> ret (Inl e)
              | Inr objectID \<Rightarrow>
                  (case mountedObjectPath cwd mountPoint objectID of
                     Inl e \<Rightarrow> ret (Inl e)
                   | Inr target \<Rightarrow> restoreEntry root (rePath recovery) metadata key target))))) }"

definition PurgeRecovery :: "string \<Rightarrow> ('z locks_scheme, unit res) state" where
  "PurgeRecovery reference = do {
     metadata \<leftarrow> gets vMetadata;
     (case findRecoveryEntry metadata reference of
        Inl e \<Rightarrow> ret (Inl e)
      | Inr (key, _) \<Rightarrow> removeProtectedFile key) }"

section \<open>Protected files (protected\_files.go)\<close>

record ProtectedFile =
  pfPath :: string
  pfSize :: u64
  pfModified :: int
  pfAccessed :: int

text \<open>A record that is registered, not an orphan and not in recovery.\<close>

definition activeLink :: "Metadata \<Rightarrow> string \<Rightarrow> string option" where
  "activeLink m key =
     (case mget (Links m) key of
        None \<Rightarrow> None
      | Some path \<Rightarrow>
          if path = [] \<or> mgetz 0 (Orphaned m) key \<noteq> 0 \<or> reState (mgetz zeroRecovery (Recovery m) key) \<noteq> [] then None
          else Some path)"

definition protectedEntry :: "Metadata \<Rightarrow> string \<times> FileMeta \<Rightarrow> ProtectedFile list \<Rightarrow> ('z os_scheme, ProtectedFile list res) state" where
  "protectedEntry m = (\<lambda>(key, f) result.
     case activeLink m key of
       None \<Rightarrow> ret (Inr result)
     | Some path \<Rightarrow>
         andThen (inspectProtectedLink path) (\<lambda>link.
           ret (Inr (if \<not> plIsSymlink link \<or> \<not> targetMatchesStorage (plTarget link) key then result
                     else result @ [\<lparr>pfPath = path, pfSize = Size f, pfModified = MTime f, pfAccessed = ATime f\<rparr>]))))"

definition ProtectedFiles :: "string \<Rightarrow> ('z os_scheme, ProtectedFile list res) state" where
  "ProtectedFiles vault =
     andThen (withMetadataFileLock vault (andThen (readMetadata vault) (\<lambda>metadata.
       foldRes (protectedEntry metadata) (Files metadata) []))) (\<lambda>result.
     ret (Inr (sort_key pfPath result)))"

section \<open>Registration (link\_registration.go)\<close>

definition RegisterProtectedLinkInVault :: "string \<Rightarrow> string \<Rightarrow> string \<Rightarrow> string \<Rightarrow> ('z os_scheme, unit res) state" where
  "RegisterProtectedLinkInVault vault mountPoint sourcePath targetPath = do {
     cwd \<leftarrow> gets (\<lambda>s. envCwd (osEnv s));
     (let root = absPath cwd vault; target = absPath cwd targetPath in
      andThen (ResolvePathEntry sourcePath) (\<lambda>source.
      case objectIDFromMountedPath cwd mountPoint target of
        Inl e \<Rightarrow> ret (Inl e)
      | Inr objectID \<Rightarrow>
          (case mountedObjectPath cwd mountPoint objectID of
             Inl e \<Rightarrow> ret (Inl e)
           | Inr expectedTarget \<Rightarrow>
               if Clean target \<noteq> Clean expectedTarget then ret (Inl (Msg ''protected target does not match mounted path''))
               else andThen (inspectProtectedLink source) (\<lambda>link.
                 if \<not> plIsSymlink link \<or> plTarget link \<noteq> Clean target
                 then ret (Inl (Msg ''project path is not the expected protected link''))
                 else case objectStoragePath objectID of
                     Inl e \<Rightarrow> ret (Inl e)
                   | Inr storage \<Rightarrow>
                       (case validateRelativePath storage of
                          Inl e \<Rightarrow> ret (Inl e)
                        | Inr _ \<Rightarrow>
                            withMetadataFileLock root (andThen (readMetadata root) (\<lambda>metadata.
                              case linkSourceSet (metadataKey storage) (Clean source) metadata of
                                Inl e \<Rightarrow> ret (Inl e)
                              | Inr next \<Rightarrow> saveMetadata root next))))))) }"

definition fileHasMultipleLinks :: "node \<Rightarrow> bool" where
  "fileHasMultipleLinks info \<longleftrightarrow> fi_nlink (ninfo info) > 1"

definition inProgress :: goerr where "inProgress = Sentinel ErrLinkReconciliationInProgress"

text \<open>Whether three files still are the versions that were seen, the last one without a second link.\<close>

definition sameVersions :: "node res \<times> node res \<times> node res \<Rightarrow> node \<times> node \<times> node \<Rightarrow> bool" where
  "sameVersions = (\<lambda>(s, t, b) (sourceInfo, targetInfo, backingInfo).
     (case (s, t, b) of
        (Inr source, Inr target, Inr backing) \<Rightarrow>
          sameFileVersion sourceInfo source \<and> sameFileVersion targetInfo target \<and>
          sameFileVersion backingInfo backing \<and> \<not> fileHasMultipleLinks backing
      | _ \<Rightarrow> False))"

definition stillVersion :: "string \<Rightarrow> node \<Rightarrow> ('z os_scheme, bool) state" where
  "stillVersion path info = do {
     r \<leftarrow> os_lstat path;
     ret (case r of Inl _ \<Rightarrow> False | Inr current \<Rightarrow> sameFileVersion info current) }"

definition stillSingle :: "string \<Rightarrow> node \<Rightarrow> ('z os_scheme, bool) state" where
  "stillSingle path info = do {
     r \<leftarrow> os_lstat path;
     ret (case r of Inl _ \<Rightarrow> False | Inr current \<Rightarrow> sameFileVersion info current \<and> \<not> fileHasMultipleLinks current) }"

definition registeredAt :: "Metadata \<Rightarrow> string \<Rightarrow> string \<Rightarrow> bool" where
  "registeredAt m key source \<longleftrightarrow> mhas (Files m) key \<and>
     (case mget (Links m) key of None \<Rightarrow> False | Some registered \<Rightarrow> Clean registered = Clean source)"

text \<open>The checks after the quiescence window, in the order of the code; \<open>time.Sleep\<close> changes nothing.\<close>

definition confirmReplacement ::
  "userdirs \<Rightarrow> movedProtectedLinkSearch \<Rightarrow> string \<Rightarrow> string \<Rightarrow> string \<Rightarrow> string \<Rightarrow> string \<Rightarrow> node \<times> node \<times> node \<Rightarrow>
   ('z os_scheme, bool res) state" where
  "confirmReplacement U search root source target backingPath key = (\<lambda>(sourceInfo, targetInfo, backingInfo). do {
     a \<leftarrow> stillVersion source sourceInfo;
     (if \<not> a then ret (Inl inProgress)
      else do {
        b \<leftarrow> stillVersion target targetInfo;
        (if \<not> b then ret (Inl inProgress)
         else do {
           c \<leftarrow> stillSingle backingPath backingInfo;
           (if \<not> c then ret (Inl inProgress)
            else do {
              (r, _) \<leftarrow> findMoved U search source target;
              (case r of
                 Inl e \<Rightarrow> ret (Inl e)
               | Inr movedPath \<Rightarrow>
                   if movedPath \<noteq> [] then ret (Inl inProgress)
                   else do {
                     latestSource \<leftarrow> os_lstat source;
                     latestTarget \<leftarrow> os_lstat target;
                     latestBacking \<leftarrow> os_lstat backingPath;
                     (if \<not> sameVersions (latestSource, latestTarget, latestBacking) (sourceInfo, targetInfo, backingInfo)
                      then ret (Inl inProgress)
                      else andThen (withMetadataFileLock root (andThen (readMetadata root) (\<lambda>metadata.
                        ret (if \<not> mhas (Files metadata) key \<or> Clean (mgetz [] (Links metadata) key) \<noteq> Clean source
                             then Inl inProgress else Inr ())))) (\<lambda>_. ret (Inr True))) }) }) }) }) })"

definition checkReplacement ::
  "userdirs \<Rightarrow> string \<Rightarrow> string \<Rightarrow> string \<Rightarrow> string \<Rightarrow> string \<Rightarrow> string \<Rightarrow> node \<times> node \<times> node \<Rightarrow> ('z os_scheme, bool res) state" where
  "checkReplacement U root mountPoint source target storage backingPath infos =
     (let key = metadataKey storage in
      andThen (withMetadataFileLock root (andThen (readMetadata root) (\<lambda>metadata.
        ret (Inr (registeredAt metadata key source))))) (\<lambda>replaceable.
      if \<not> replaceable then ret (Inr False)
      else do {
        search \<leftarrow> newMovedProtectedLinkSearchWithGlobalRoots U root mountPoint
          [zeroRecord\<lparr>lrRelative := storage, lrSourcePath := Clean source, lrProtected := True\<rparr>] True;
        (r, search') \<leftarrow> findMoved U search source target;
        (case r of
           Inl e \<Rightarrow> ret (Inl e)
         | Inr movedPath \<Rightarrow>
             if movedPath \<noteq> [] then ret (Inl inProgress)
             else confirmReplacement U search' root source target backingPath key infos) }))"

definition inspectBacking ::
  "userdirs \<Rightarrow> string \<Rightarrow> string \<Rightarrow> string \<Rightarrow> string \<Rightarrow> string \<Rightarrow> node \<Rightarrow> node \<Rightarrow> ('z os_scheme, bool res) state" where
  "inspectBacking U root mountPoint source target storage sourceInfo targetInfo =
     (let backingPath = pathJoin [root, storage] @ encryptedSuffix in do {
       b \<leftarrow> os_lstat backingPath;
       (case b of
          Inl e \<Rightarrow> ret (Inl (if errorsIs e ErrNotExist then inProgress else Wrap ''inspect encrypted backing file'' e))
        | Inr backingInfo \<Rightarrow>
            if \<not> isRegNode backingInfo then ret (Inr False)
            else if fileHasMultipleLinks backingInfo then ret (Inl inProgress)
            else checkReplacement U root mountPoint source target storage backingPath (sourceInfo, targetInfo, backingInfo)) })"

definition CanReplaceDisplacedProtectedTarget ::
  "userdirs \<Rightarrow> string \<Rightarrow> string \<Rightarrow> string \<Rightarrow> string \<Rightarrow> int \<Rightarrow> ('z os_scheme, bool res) state" where
  "CanReplaceDisplacedProtectedTarget U vault mountPoint sourcePath targetPath maxFileSize =
     (if maxFileSize \<le> 0 then ret (Inl (Msg ''maximum file size must be greater than zero''))
      else do {
        cwd \<leftarrow> gets (\<lambda>s. envCwd (osEnv s));
        (let root = absPath cwd vault; target = absPath cwd targetPath in
         andThen (ResolvePathEntry sourcePath) (\<lambda>source.
         andThen (openValidatedSource source maxFileSize) (\<lambda>sourceInfo.
         andThen os_nop (\<lambda>_. do {
           t \<leftarrow> os_lstat target;
           (case t of
              Inl e \<Rightarrow> ret (if errorsIs e ErrNotExist then Inr False else Inl (Wrap ''inspect protected target'' e))
            | Inr targetInfo \<Rightarrow>
                if \<not> isRegNode targetInfo then ret (Inr False)
                else (case objectIDFromMountedPath cwd mountPoint target of
                    Inl e \<Rightarrow> ret (Inl e)
                  | Inr objectID \<Rightarrow>
                      (case objectStoragePath objectID of
                         Inl e \<Rightarrow> ret (Inl e)
                       | Inr storage \<Rightarrow> inspectBacking U root mountPoint source target storage sourceInfo targetInfo))) })))) })"

section \<open>Recreating a link\<close>

lemma mountedObjectPath_clean:
  "isAbs mountPoint \<Longrightarrow> mountedObjectPath cwd mountPoint objectID = Inr t \<Longrightarrow> isAbs t \<and> Clean t = t"
  by (auto simp: mountedObjectPath_def pathJoin_def absPath_def isAbs_def [of "[]"] split: sum.splits list.splits)

text \<open>Only an absent entry is created; a success means that the link is there.\<close>

definition linkAt :: "string \<Rightarrow> string \<Rightarrow> 'z os_scheme \<Rightarrow> bool" where
  "linkAt path target t \<longleftrightarrow> (\<exists>i x. nodeAt t path = Some (Symlink i x) \<and> linkTargetOf path x = target)"

lemma linkAt_link: "nodeAt t path = Some (Symlink i x) \<Longrightarrow> linkAt path target t = (linkTargetOf path x = target)"
  by (simp add: linkAt_def)

lemma linkTargetOf_abs: "isAbs x \<Longrightarrow> linkTargetOf path x = Clean x"
  by (simp add: linkTargetOf_def)

definition ensured :: "string \<Rightarrow> string \<Rightarrow> 'z os_scheme \<Rightarrow> bool res \<Rightarrow> 'z os_scheme \<Rightarrow> bool" where
  "ensured path target s r t \<longleftrightarrow> sameExcept {path} s t \<and> (nodeAt s path \<noteq> None \<longrightarrow> nodeAt t path = nodeAt s path) \<and>
     (\<forall>created. r = Inr created \<longrightarrow> linkAt path target t \<and> (created \<longrightarrow> nodeAt s path = None))"

lemma ensure_wp:
  assumes "isAbs path" "Clean path = path" "isAbs target" "Clean target = target"
  shows "wp (EnsureProtectedLink path target) (ensured path target s) s"
  unfolding EnsureProtectedLink_def Let_def wp absPath_clean [OF assms(1,2)] absPath_clean [OF assms(3,4)]
  using assms
  by (auto simp: wp ensured_def linkAt_link linkTargetOf_abs
      intro!: wp_inspectI wp_symlinkI wp_syncDirectoryI wp_removeI split: sum.splits)

text \<open>What stays: every entry but the index document.\<close>

definition entriesStay :: "string \<Rightarrow> 'z os_scheme \<Rightarrow> 'z os_scheme \<Rightarrow> bool" where
  "entriesStay root s t \<longleftrightarrow> (\<forall>q n. q \<noteq> metadataPath root \<longrightarrow> nodeAt s q = Some n \<longrightarrow> nodeAt t q = Some n)"

definition restored :: "string \<Rightarrow> string \<Rightarrow> string \<Rightarrow> Metadata \<Rightarrow> 'z os_scheme \<Rightarrow> unit res \<Rightarrow> 'z os_scheme \<Rightarrow> bool" where
  "restored root path target m s r t \<longleftrightarrow> entriesStay root s t \<and>
     (nodeAt t (metadataPath root) = nodeAt s (metadataPath root) \<or> documentIs t root m) \<and>
     (r = Inr () \<longrightarrow> linkAt path target t \<and> documentIs t root m)"

lemma restored_fails: "restored root path target m s r t \<Longrightarrow> restored root path target m s (Inl e) t"
  by (simp add: restored_def)

lemma dropCreated_wp:
  "wp (dropCreatedLink created path target) (\<lambda>_ t. sameExcept {path} s t \<and> (\<not> created \<longrightarrow> nodeAt t path = nodeAt s path)) s"
  unfolding dropCreatedLink_def wp by (auto simp: wp intro!: wp_inspectI wp_removeI split: sum.splits)

lemma restoreEntry_wp:
  assumes root: "isAbs root" "Clean root = root"
    and path: "isAbs path" "Clean path = path" "path \<noteq> metadataPath root" and target: "isAbs target" "Clean target = target"
  shows "wp (restoreEntry root path m key target) (restored root path target (linkRestored key path m) s) s"
    (is "wp _ (restored root path target ?m s) s")
  unfolding restoreEntry_def wp_andThen wp_mapErr
proof (rule wp_mono [OF ensure_wp [OF path(1,2) target]], goal_cases)
  case (1 a t)
  show ?case
  proof (cases a)
    case (Inl e)
    then show ?thesis using 1 path(3)
      by (simp add: restored_def entriesStay_def ensured_def sameExcept_def) (metis option.distinct(1))
  next
    case (Inr created)
    note t = 1 [unfolded Inr ensured_def]
    show ?thesis
      unfolding Inr sum.case wp_bind
    proof (rule wp_saveMetadataI [OF root], goal_cases)
      case (1 r u)
      obtain i x where link: "nodeAt t path = Some (Symlink i x)" "linkTargetOf path x = target" using t by (auto simp: linkAt_def)
      have u: "nodeAt u path = Some (Symlink i x)" using onlyCreates_keeps [OF 1(1) _ link(1)] path(3) by simp
      have stay: "nodeAt u q = Some n" if "q \<noteq> metadataPath root" "nodeAt s q = Some n" for q n
        using onlyCreates_keeps [OF 1(1), of q n] t that by (cases "q = path") (auto simp: sameExcept_def)
      have meta: "nodeAt t (metadataPath root) = nodeAt s (metadataPath root)" using t path(3) by (simp add: sameExcept_def)
      show ?case
      proof (cases r)
        case (Inr y)
        then show ?thesis using 1 u link stay meta by (auto simp: wp restored_def entriesStay_def linkAt_def)
      next
        case (Inl e)
        show ?thesis
          unfolding Inl sum.case wp
        proof (rule wp_mono [OF dropCreated_wp], goal_cases)
          case (1 b v)
          have "nodeAt v q = Some n" if "q \<noteq> metadataPath root" "nodeAt s q = Some n" for q n
            using 1 stay [OF that] t that by (cases "q = path") (auto simp: sameExcept_def)
          moreover have "nodeAt v (metadataPath root) = nodeAt u (metadataPath root)" using 1 path(3) by (simp add: sameExcept_def)
          ultimately show ?case using \<open>nodeAt u (metadataPath root) = nodeAt t (metadataPath root) \<or> documentIs u root ?m\<close> meta
            by (auto simp: restored_def entriesStay_def documentIs_def holdsFile_def)
        qed
      qed
    qed
  qed
qed

text \<open>
  C34. \<open>RestoreRecoveryLink\<close> never overwrites an entry: in every run, whichever call fails, each entry
  of the tree except the index document is still there as it was, also one that took the place of
  the missing link; the index document is the old one or the one in which the object is
  registered at its path and no longer in the recovery area; and a success means that the path is
  a link to the object and the index says so.
\<close>

theorem restore_never_overwrites:
  assumes "isAbs vault" "Clean vault = vault" "diskMetadata s vault = Some m" "isAbs mountPoint"
    and found: "findRecoveryEntry m reference = Inr (key, entry)" and id: "objectIDFromStoragePath key = Inr objectID"
    and target: "mountedObjectPath (envCwd (osEnv s)) mountPoint objectID = Inr target"
    and path: "isAbs (rePath entry)" "Clean (rePath entry) = rePath entry" "rePath entry \<noteq> metadataPath vault"
    and run: "run_state (RestoreRecoveryLink vault mountPoint reference) s = (r, t)"
  shows "(\<forall>q n. q \<noteq> metadataPath vault \<longrightarrow> nodeAt s q = Some n \<longrightarrow> nodeAt t q = Some n) \<and>
    (nodeAt t (metadataPath vault) = nodeAt s (metadataPath vault) \<or> documentIs t vault (linkRestored key (rePath entry) m)) \<and>
    (r = Inr () \<longrightarrow> linkAt (rePath entry) target t \<and> documentIs t vault (linkRestored key (rePath entry) m))"
proof -
  let ?R = "restored vault (rePath entry) target (linkRestored key (rePath entry) m) s"
  have ne: "rePath entry \<noteq> []" "rePath entry \<noteq> ''.''" using path(1) by (auto simp: isAbs_def)
  note tgt = mountedObjectPath_clean [OF assms(4) target]
  have doc: "nodeAt u (metadataPath vault) = nodeAt s (metadataPath vault)" if "onlyCreates {} {lockPath vault} s u" for u
    using vault_file_paths(4) [OF assms(1,2)] onlyCreates_nodeAt [OF that, of "metadataPath vault"] by simp
  have start: "?R (Inl e) u" if "onlyCreates {} {lockPath vault} s u" for e u
    using doc [OF that] onlyCreates_keeps [OF that] by (auto simp: restored_def entriesStay_def)
  have tick: "?R x (tickd u) = ?R x u" for x u
    by (simp add: restored_def entriesStay_def linkAt_def documentIs_def holdsFile_def)
  have body: "wp (restoreEntry vault (rePath entry) m key target) ?R u" if "onlyCreates {} {lockPath vault} s u" for u
    by (rule wp_mono [OF restoreEntry_wp [OF assms(1,2) path]])
      (use tgt doc [OF that] onlyCreates_keeps [OF that] in \<open>auto simp: restored_def entriesStay_def\<close>)
  have "wp (RestoreRecoveryLink vault mountPoint reference) ?R s"
    unfolding RestoreRecoveryLink_def wp Let_def absPath_clean [OF assms(1,2)] target
  proof (rule wp_withLockI [where R = ?R], goal_cases)
    case (2 u)
    have "diskMetadata u vault = Some m"
      using assms(3) doc [OF 2] diskMetadata_cong [of u vault s] by simp
    then show ?case
      unfolding wp_andThen
      by (rule wp_readMetadataI) (use 2 start body found id target ne in \<open>auto simp: tick\<close>)
  qed (use start in \<open>auto simp: tick intro: restored_fails\<close>)
  from wpD [OF this run] show ?thesis by (simp add: restored_def entriesStay_def)
qed

definition demoLost :: Metadata where
  "demoLost = emptyMetadata\<lparr>Files := [(''objects/'' @ demoObject, zeroFileMeta)],
     Recovery := [(''objects/'' @ demoObject, \<lparr>rePath = ''/p/s'', reState = RecoveryTrash, reReason = [], reObserved = 5\<rparr>)]\<rparr>"

definition demoTrash :: os where
  "demoTrash = \<lparr>osNodes = [(''/'', dirNode), (''/v'', dirNode), (''/v/.passfs'', dirNode),
       (metadataPath ''/v'', fileNode (jsonDocument (encodeMetadata demoLost))), (''/p'', dirNode), (''/p/s'', fileNode [9])],
     osCalls = 0, osEnv = calmEnv\<rparr>"

lemma demoTrash_disk: "diskMetadata demoTrash ''/v'' = Some demoLost"
proof -
  have p: "metadataPath ''/v'' = ''/v/.passfs/metadata.json''" by code_simp
  have "documentIs demoTrash ''/v'' demoLost"
    by (simp add: documentIs_def holdsFile_def nodeAt_def demoTrash_def p fileNode_def)
  moreover have "okMetadata demoLost" "checkMetadata demoLost = Inr demoLost" "Version demoLost \<noteq> legacyMetadataFormatVersion"
    "int (length (jsonDocument (encodeMetadata demoLost))) \<le> 16 * 1024 * 1024" "canonical demoLost = demoLost" by code_simp+
  ultimately show ?thesis using diskMetadata_document by metis
qed

text \<open>A file that took the place of the link survives the attempt to recreate the link.\<close>

theorem restore_never_overwrites_witness:
  "nodeAt (snd (run_state (RestoreRecoveryLink ''/v'' ''/m'' ''/p/s'') demoTrash)) ''/p/s'' = Some (fileNode [9])"
proof -
  have p: "isAbs ''/v''" "Clean ''/v'' = ''/v''" "isAbs ''/m''" "isAbs ''/p/s''" "Clean ''/p/s'' = ''/p/s''" "''/p/s'' \<noteq> metadataPath ''/v''"
    by code_simp+
  let ?e = "\<lparr>rePath = ''/p/s'', reState = RecoveryTrash, reReason = [], reObserved = 5\<rparr>"
  have f: "findRecoveryEntry demoLost ''/p/s'' = Inr (''objects/'' @ demoObject, ?e)"
    "objectIDFromStoragePath (''objects/'' @ demoObject) = Inr demoObject"
    "mountedObjectPath (envCwd (osEnv demoTrash)) ''/m'' demoObject = Inr (''/m/by-id/'' @ demoObject)"
    "nodeAt demoTrash ''/p/s'' = Some (fileNode [9])" by code_simp+
  from restore_never_overwrites [OF p(1,2) demoTrash_disk p(3) f(1-3) _ _ _ prod.collapse [symmetric]] show ?thesis
    using p f(4) by simp
qed

end
