(* ===== verification/Updater.thy ===== *)
theory Updater
  imports MetaStore "HOL-Library.Product_Lexorder"
begin

text \<open>
  The update client (internal/updater/client.go): semantic versions and their order, the signed
  manifest of a release, and the download that is checked against it. The HTTP exchange and the
  Ed25519 verification are arguments. The theorems say that \<open>IsNewer\<close> is a strict total order on
  normal forms, that normal forms are stable, and that a download that is accepted has the
  digest a verified manifest names.
\<close>

section \<open>Semantic versions\<close>

record semanticVersion =
  major :: u64
  minor :: u64
  patch :: u64
  prerelease :: string

definition notSemantic :: goerr where "notSemantic = Msg ''not a semantic version''"

text \<open>\<open>strconv.ParseUint(s, 10, 64)\<close>; None is an error.\<close>

definition parseUint64 :: "string \<Rightarrow> u64 option" where
  "parseUint64 s = (case digitsVal s of Some n \<Rightarrow> if int n < 2 ^ 64 then Some (of_nat n) else None | None \<Rightarrow> None)"

text \<open>\<open>strings.IndexByte\<close> with the two parts of the string around the separator.\<close>

definition cutAt :: "char \<Rightarrow> string \<Rightarrow> (string \<times> string) option" where
  "cutAt c s = (if c \<in> set s then Some (takeWhile (\<lambda>x. x \<noteq> c) s, tl (dropWhile (\<lambda>x. x \<noteq> c) s)) else None)"

definition identifierChar :: "char \<Rightarrow> bool" where
  "identifierChar c \<longleftrightarrow> isDigit c \<or> (97 \<le> code c \<and> code c \<le> 122) \<or> (65 \<le> code c \<and> code c \<le> 90) \<or> c = CHR ''-''"

definition leadingZero :: "string \<Rightarrow> bool" where
  "leadingZero s \<longleftrightarrow> length s > 1 \<and> hd s = CHR ''0''"

text \<open>Runes outside ASCII are refused, and so is each of their bytes.\<close>

definition validIdentifier :: "bool \<Rightarrow> string \<Rightarrow> bool" where
  "validIdentifier rejectNumericLeadingZero identifier \<longleftrightarrow>
     identifier \<noteq> [] \<and> list_all identifierChar identifier \<and>
     \<not> (rejectNumericLeadingZero \<and> list_all isDigit identifier \<and> leadingZero identifier)"

definition validateVersionIdentifiers :: "string \<Rightarrow> bool \<Rightarrow> bool" where
  "validateVersionIdentifiers value rejectNumericLeadingZero \<longleftrightarrow>
     value \<noteq> [] \<and> list_all (validIdentifier rejectNumericLeadingZero) (splitOn CHR ''.'' value)"

definition versionNumber :: "string \<Rightarrow> u64 option" where
  "versionNumber part = (if part = [] \<or> leadingZero part then None else parseUint64 part)"

definition parseCore :: "string \<Rightarrow> string \<Rightarrow> semanticVersion res" where
  "parseCore core pre =
     (case map versionNumber (splitOn CHR ''.'' core) of
        [Some a, Some b, Some c] \<Rightarrow> Inr \<lparr>major = a, minor = b, patch = c, prerelease = pre\<rparr>
      | _ \<Rightarrow> Inl notSemantic)"

definition parseVersion :: "string \<Rightarrow> semanticVersion res" where
  "parseVersion value =
     (let (core, buildOk) = (case cutAt CHR ''+'' value of
            None \<Rightarrow> (value, True)
          | Some (c, build) \<Rightarrow> (c, validateVersionIdentifiers build False)) in
      if \<not> buildOk then Inl notSemantic
      else case cutAt CHR ''-'' core of
          None \<Rightarrow> parseCore core []
        | Some (c, pre) \<Rightarrow> if \<not> validateVersionIdentifiers pre True then Inl notSemantic else parseCore c pre)"

definition showVersion :: "semanticVersion \<Rightarrow> string" where
  "showVersion v =
     showNat (unat (major v)) @ ''.'' @ showNat (unat (minor v)) @ ''.'' @ showNat (unat (patch v)) @
     (if prerelease v = [] then [] else ''-'' @ prerelease v)"

definition NormalizeVersion :: "string \<Rightarrow> string res" where
  "NormalizeVersion value =
     (case parseVersion (trimPrefix (trimSpace value) ''v'') of
        Inl e \<Rightarrow> Inl e
      | Inr parsed \<Rightarrow> Inr (showVersion parsed))"

text \<open>The comparison of two identifiers that differ, and the loop with the comparison of the lengths after it.\<close>

definition compareIdentifier :: "string \<Rightarrow> string \<Rightarrow> int" where
  "compareIdentifier leftValue rightValue =
     (case (parseUint64 leftValue, parseUint64 rightValue) of
        (Some l, Some r) \<Rightarrow> if l < r then -1 else 1
      | (Some _, None) \<Rightarrow> -1
      | (None, Some _) \<Rightarrow> 1
      | (None, None) \<Rightarrow> if leftValue < rightValue then -1 else if leftValue = rightValue then 0 else 1)"

fun compareIdentifiers :: "string list \<Rightarrow> string list \<Rightarrow> int" where
  "compareIdentifiers (l # ls) (r # rs) = (if l = r then compareIdentifiers ls rs else compareIdentifier l r)"
| "compareIdentifiers ls rs = (if length ls < length rs then -1 else if length ls > length rs then 1 else 0)"

definition comparePrerelease :: "string \<Rightarrow> string \<Rightarrow> int" where
  "comparePrerelease left right = compareIdentifiers (splitOn CHR ''.'' left) (splitOn CHR ''.'' right)"

fun compareNumbers :: "(u64 \<times> u64) list \<Rightarrow> int option" where
  "compareNumbers [] = None"
| "compareNumbers ((a, b) # r) = (if a < b then Some (-1) else if a > b then Some 1 else compareNumbers r)"

definition compareVersion :: "semanticVersion \<Rightarrow> semanticVersion \<Rightarrow> int" where
  "compareVersion left right =
     (case compareNumbers [(major left, major right), (minor left, minor right), (patch left, patch right)] of
        Some c \<Rightarrow> c
      | None \<Rightarrow>
          if prerelease left = prerelease right then 0
          else if prerelease left = [] then 1
          else if prerelease right = [] then -1
          else comparePrerelease (prerelease left) (prerelease right))"

definition zeroVersion :: semanticVersion where
  "zeroVersion = \<lparr>major = 0, minor = 0, patch = 0, prerelease = []\<rparr>"

text \<open>The parses of the normal forms, whose errors the code drops, always succeed.\<close>

definition parsedOrZero :: "string \<Rightarrow> semanticVersion" where
  "parsedOrZero s = (case parseVersion s of Inr v \<Rightarrow> v | Inl _ \<Rightarrow> zeroVersion)"

definition IsNewer :: "string \<Rightarrow> string \<Rightarrow> bool res" where
  "IsNewer candidate current =
     (case NormalizeVersion candidate of
        Inl e \<Rightarrow> Inl e
      | Inr candidate' \<Rightarrow>
          (case NormalizeVersion current of
             Inl e \<Rightarrow> Inl e
           | Inr current' \<Rightarrow> Inr (compareVersion (parsedOrZero candidate') (parsedOrZero current') > 0)))"

section \<open>The signed manifest\<close>

record Release =
  relVersion :: string
  relChecksums :: "(string, string) gomap"

record Client =
  clBaseURL :: string
  clPublicKey :: bytes

text \<open>
  The answer to a request: its status, the bytes of the body that arrive and the error, if any,
  that ends the body early. The first argument of the operations gives the answer for a base URL
  and a resource.
\<close>

record response =
  rsStatus :: int
  rsBody :: bytes
  rsFailure :: "goerr option"

type_synonym web = "string \<Rightarrow> string \<Rightarrow> response res"

definition maxMetadataBytes :: int where "maxMetadataBytes = 1024 * 1024"
definition maxAssetBytes :: int where "maxAssetBytes = 512 * 1024 * 1024"

definition trimRightChar :: "char \<Rightarrow> string \<Rightarrow> string" where
  "trimRightChar c s = rev (dropWhile (\<lambda>x. x = c) (rev s))"

definition NewClientWithPublicKey :: "string \<Rightarrow> bytes \<Rightarrow> Client" where
  "NewClientWithPublicKey baseURL publicKey = \<lparr>clBaseURL = trimRightChar slash baseURL, clPublicKey = publicKey\<rparr>"

definition request :: "web \<Rightarrow> Client \<Rightarrow> string \<Rightarrow> response res" where
  "request http client resource =
     (case http (clBaseURL client @ ''/'') resource of
        Inl e \<Rightarrow> Inl e
      | Inr response \<Rightarrow>
          if rsStatus response < 200 \<or> rsStatus response \<ge> 300 then Inl (Msg ''GET: unexpected status'')
          else Inr response)"

text \<open>Reading a body through \<open>io.LimitReader\<close>: the bytes and the error that stopped it.\<close>

definition readLimited :: "response \<Rightarrow> int \<Rightarrow> bytes \<times> goerr option" where
  "readLimited response limit =
     (if int (length (rsBody response)) \<ge> limit then (take (nat limit) (rsBody response), None)
      else (rsBody response, rsFailure response))"

definition getBounded :: "web \<Rightarrow> Client \<Rightarrow> string \<Rightarrow> int \<Rightarrow> bytes res" where
  "getBounded http client resource maximum =
     (case request http client resource of
        Inl e \<Rightarrow> Inl e
      | Inr response \<Rightarrow>
          (case readLimited response (maximum + 1) of
             (_, Some e) \<Rightarrow> Inl e
           | (data, None) \<Rightarrow>
               if int (length data) > maximum then Inl (Msg ''response is too large'') else Inr data))"

text \<open>\<open>base64.StdEncoding.DecodeString\<close>: line breaks are ignored, padding is required.\<close>

definition base64Digit :: "char \<Rightarrow> nat option" where
  "base64Digit c =
     (let n = code c in
      if 65 \<le> n \<and> n \<le> 90 then Some (n - 65)
      else if 97 \<le> n \<and> n \<le> 122 then Some (n - 71)
      else if 48 \<le> n \<and> n \<le> 57 then Some (n + 4)
      else if c = CHR ''+'' then Some 62
      else if c = CHR ''/'' then Some 63
      else None)"

definition quantum :: "nat \<Rightarrow> nat \<Rightarrow> nat \<Rightarrow> nat \<Rightarrow> bytes" where
  "quantum a b c d = [of_nat (4 * a + b div 16), of_nat (16 * b + c div 4), of_nat (64 * c + d)]"

fun decodeQuanta :: "string \<Rightarrow> bytes option" where
  "decodeQuanta [] = Some []"
| "decodeQuanta (a # b # c # d # r) =
     (case (base64Digit a, base64Digit b) of
        (Some a', Some b') \<Rightarrow>
          if d = CHR ''='' then
            (if r \<noteq> [] then None
             else if c = CHR ''='' then Some (take 1 (quantum a' b' 0 0))
             else case base64Digit c of Some c' \<Rightarrow> Some (take 2 (quantum a' b' c' 0)) | None \<Rightarrow> None)
          else (case (base64Digit c, base64Digit d, decodeQuanta r) of
              (Some c', Some d', Some bs) \<Rightarrow> Some (quantum a' b' c' d' @ bs)
            | _ \<Rightarrow> None)
      | _ \<Rightarrow> None)"
| "decodeQuanta _ = None"

definition base64Decode :: "string \<Rightarrow> bytes option" where
  "base64Decode s = decodeQuanta (filter (\<lambda>c. c \<noteq> CHR 0x0A \<and> c \<noteq> CHR 0x0D) s)"

text \<open>The anonymous struct of the manifest, decoded with \<open>DisallowUnknownFields\<close>.\<close>

definition manifestField :: "string \<Rightarrow> json \<Rightarrow> Release \<Rightarrow> Release res" where
  "manifestField k j m =
     (if fieldIs ''version'' k then setField (MetaStore.decodeString (relVersion m) j) (\<lambda>v. m\<lparr>relVersion := v\<rparr>)
      else if fieldIs ''checksums'' k then
        setField (decodeMap MetaStore.decodeString [] (relChecksums m) j) (\<lambda>v. m\<lparr>relChecksums := v\<rparr>)
      else Inl (Msg ''json: unknown field''))"

text \<open>\<open>Decode\<close> reads the first value and leaves what follows it.\<close>

definition decodeManifest :: "bytes \<Rightarrow> Release res" where
  "decodeManifest data =
     (case pValue 10000 (bytesStr data) of
        None \<Rightarrow> Inl (Msg ''invalid JSON'')
      | Some (j, _) \<Rightarrow> decodeObject manifestField \<lparr>relVersion = [], relChecksums = []\<rparr> j)"

text \<open>A name without a directory part: \<open>path.Base(name) != name || name == "." || name == ""\<close>.\<close>

definition assetName :: "string \<Rightarrow> bool" where
  "assetName name \<longleftrightarrow> pathBase name = name \<and> name \<noteq> ''.'' \<and> name \<noteq> []"

fun checkedSums :: "(string \<times> string) list \<Rightarrow> (string, string) gomap \<Rightarrow> (string, string) gomap res" where
  "checkedSums [] checksums = Inr checksums"
| "checkedSums ((name, v) # r) checksums =
     (if \<not> assetName name then Inl (Msg ''invalid checksum asset'')
      else let checksum = toLower v in
        if hexDecode checksum = None \<or> length checksum \<noteq> 64 then Inl (Msg ''invalid SHA-256 checksum'')
        else checkedSums r (mset_key name checksum checksums))"

definition validateChecksums :: "(string, string) gomap \<Rightarrow> (string, string) gomap res" where
  "validateChecksums values =
     (case checkedSums values [] of
        Inl e \<Rightarrow> Inl e
      | Inr checksums \<Rightarrow> if checksums = [] then Inl (Msg ''checksum map is empty'') else Inr checksums)"

definition checkManifest :: "bytes \<Rightarrow> Release res" where
  "checkManifest manifestData =
     (case decodeManifest manifestData of
        Inl e \<Rightarrow> Inl (Wrap ''parse passfs update manifest'' e)
      | Inr manifest \<Rightarrow>
          (case NormalizeVersion (relVersion manifest) of
             Inl e \<Rightarrow> Inl (Wrap ''invalid latest passfs version'' e)
           | Inr version \<Rightarrow>
               (case validateChecksums (relChecksums manifest) of
                  Inl e \<Rightarrow> Inl e
                | Inr checksums \<Rightarrow> Inr \<lparr>relVersion = version, relChecksums = checksums\<rparr>)))"

text \<open>The argument \<open>verify\<close> is \<open>ed25519.Verify\<close> on a public key, a message and a signature.\<close>

definition Latest :: "(bytes \<Rightarrow> bytes \<Rightarrow> bytes \<Rightarrow> bool) \<Rightarrow> web \<Rightarrow> Client \<Rightarrow> Release res" where
  "Latest verify http client =
     (case getBounded http client ''latest/MANIFEST.json'' maxMetadataBytes of
        Inl e \<Rightarrow> Inl (Wrap ''read latest passfs manifest'' e)
      | Inr manifestData \<Rightarrow>
     (case getBounded http client ''latest/MANIFEST.sig'' 1024 of
        Inl e \<Rightarrow> Inl (Wrap ''read latest passfs manifest signature'' e)
      | Inr signatureData \<Rightarrow>
          if length (clPublicKey client) \<noteq> 32 then Inl (Msg ''passfs update public key is invalid'')
          else case base64Decode (trimSpace (bytesStr signatureData)) of
              None \<Rightarrow> Inl (Msg ''decode passfs manifest signature'')
            | Some signature \<Rightarrow>
                if \<not> verify (clPublicKey client) manifestData signature
                then Inl (Msg ''passfs update manifest signature is invalid'')
                else checkManifest manifestData))"

text \<open>
  \<open>strings.EqualFold\<close> of a hexadecimal string with another one: no rune outside ASCII folds to a
  hexadecimal digit.
\<close>

definition equalFoldHex :: "string \<Rightarrow> string \<Rightarrow> bool" where
  "equalFoldHex a b \<longleftrightarrow> toLower a = toLower b"

text \<open>The bytes that reached the writer, and the result.\<close>

definition Download :: "web \<Rightarrow> Client \<Rightarrow> Release \<Rightarrow> string \<Rightarrow> bytes \<times> unit res" where
  "Download http client release asset =
     (if \<not> assetName asset then ([], Inl (Msg ''invalid update asset''))
      else case mget (relChecksums release) asset of
          None \<Rightarrow> ([], Inl (Msg ''checksum is unavailable''))
        | Some expected \<Rightarrow>
            (case request http client (''latest/'' @ asset) of
               Inl e \<Rightarrow> ([], Inl e)
             | Inr response \<Rightarrow>
                 let (data, failure) = readLimited response (maxAssetBytes + 1) in
                 (data,
                  case failure of
                    Some e \<Rightarrow> Inl (Wrap ''download'' e)
                  | None \<Rightarrow>
                      if int (length data) > maxAssetBytes then Inl (Msg ''exceeds the maximum update size'')
                      else if \<not> equalFoldHex (hexEncode (sha256 data)) expected then Inl (Msg ''checksum mismatch'')
                      else Inr ())))"

section \<open>Normal forms\<close>

lemma digitChar_code: "isDigit c \<Longrightarrow> digitChar (code c - 48) = c"
  by (simp add: isDigit_def digitChar_def)

text \<open>A numeral without leading zeros is the printed form of its value.\<close>

lemma digitsVal_snoc:
  "xs \<noteq> [] \<Longrightarrow> digitsVal (xs @ [c]) = (case digitsVal xs of Some n \<Rightarrow> if isDigit c then Some (10 * n + (code c - 48)) else None | None \<Rightarrow> None)"
  by (auto simp: digitsVal_def)

lemma numeral_unique: "digitsVal s = Some n \<Longrightarrow> \<not> leadingZero s \<Longrightarrow> s = showNat n"
proof (induction s arbitrary: n rule: rev_induct)
  case (snoc c xs)
  show ?case
  proof (cases "xs = []")
    case True
    then have c: "isDigit c" "n = code c - 48" using snoc(2) by (auto simp: digitsVal_def split: if_splits)
    then have "n < 10" by (auto simp: isDigit_def)
    then show ?thesis using True c by (simp add: showNat.simps [of "code c - 48"] digitChar_code)
  next
    case False
    then obtain k where k: "digitsVal xs = Some k" "isDigit c" "n = 10 * k + (code c - 48)"
      using snoc(2) by (auto simp: digitsVal_snoc split: option.splits if_splits)
    have "\<not> leadingZero xs" using snoc(3) False by (auto simp: leadingZero_def)
    with snoc(1) [OF k(1)] have xs: "xs = showNat k" .
    have "k \<noteq> 0"
    proof
      assume "k = 0"
      then have "hd xs = CHR ''0''" using xs by (simp add: showNat.simps digitChar_zero)
      then show False using snoc(3) False by (simp add: leadingZero_def)
    qed
    moreover have "code c - 48 < 10" using k(2) by (auto simp: isDigit_def)
    ultimately show ?thesis using k xs by (simp add: showNat.simps [of "10 * k + (code c - 48)"] digitChar_code)
  qed
qed (simp add: digitsVal_def)

lemma showNat_no_leadingZero [simp]: "\<not> leadingZero (showNat n)"
proof (cases "n < 10")
  case False
  then show ?thesis using showNat_hd [of n] by (simp add: leadingZero_def)
qed (simp add: leadingZero_def showNat.simps)

lemma versionNumber_showNat [simp]: "versionNumber (showNat (unat w)) = Some w"
proof -
  have "int (unat w) < 2 ^ 64" using unsigned_less [of w] by simp
  then show ?thesis using showNat_digits [of "unat w"] by (simp add: versionNumber_def parseUint64_def)
qed

definition okVersion :: "semanticVersion \<Rightarrow> bool" where
  "okVersion v \<longleftrightarrow> prerelease v = [] \<or> validateVersionIdentifiers (prerelease v) True"

lemma parseVersion_ok: "parseVersion s = Inr v \<Longrightarrow> okVersion v"
  by (auto simp: parseVersion_def parseCore_def okVersion_def Let_def split: option.splits if_splits prod.splits list.splits)

text \<open>The characters of a printed version.\<close>

lemma digits_plain: "x \<in> set (showNat n) \<Longrightarrow> isDigit x"
  using showNat_digits [of n] by (simp add: list_all_iff)

lemma splitOn_set: "x \<in> set s \<Longrightarrow> x \<noteq> c \<Longrightarrow> \<exists>y \<in> set (splitOn c s). x \<in> set y"
  by (induction s) (auto split: list.splits)

lemma pre_plain:
  assumes "validateVersionIdentifiers pre True" "x \<in> set pre"
  shows "identifierChar x \<or> x = CHR ''.''"
  using splitOn_set [OF assms(2), of "CHR ''.''"] assms(1)
  by (auto simp: validateVersionIdentifiers_def validIdentifier_def list_all_iff)

lemma identifierChar_neq [simp]: "\<not> identifierChar CHR ''+''" "\<not> isDigit CHR ''.''"
  by (simp_all add: identifierChar_def isDigit_def code_def)

lemma parseVersion_showVersion: "okVersion v \<Longrightarrow> parseVersion (showVersion v) = Inr v"
proof -
  assume ok: "okVersion v"
  define core where "core = showNat (unat (major v)) @ CHR ''.'' # showNat (unat (minor v)) @ CHR ''.'' # showNat (unat (patch v))"
  have plain: "isDigit x \<or> x = CHR ''.''" if "x \<in> set core" for x using that digits_plain by (auto simp: core_def)
  have no: "CHR ''+'' \<notin> set core" "CHR ''-'' \<notin> set core" using plain [of "CHR ''+''"] plain [of "CHR ''-''"] by (auto dest: isDigit_neq(1,2))
  have dot: "CHR ''.'' \<notin> set (showNat n)" for n using digits_plain [of "CHR ''.''"] by auto
  have "splitOn CHR ''.'' core = [showNat (unat (major v)), showNat (unat (minor v)), showNat (unat (patch v))]"
    by (simp add: core_def splitOn_append splitOn_no_sep dot)
  then have core: "parseCore core p = Inr (v\<lparr>prerelease := p\<rparr>)" for p by (simp add: parseCore_def)
  show ?thesis
  proof (cases "prerelease v = []")
    case True
    then have "showVersion v = core" by (simp add: showVersion_def core_def)
    then show ?thesis using no core [of "[]"] True by (simp add: parseVersion_def cutAt_def)
  next
    case False
    then have v: "showVersion v = core @ CHR ''-'' # prerelease v" by (simp add: showVersion_def core_def)
    have pre: "validateVersionIdentifiers (prerelease v) True" using ok False by (simp add: okVersion_def)
    have "CHR ''+'' \<notin> set (prerelease v)" using pre_plain [OF pre, of "CHR ''+''"] by auto
    moreover have "takeWhile (\<lambda>x. x \<noteq> CHR ''-'') (showVersion v) = core" "dropWhile (\<lambda>x. x \<noteq> CHR ''-'') (showVersion v) = CHR ''-'' # prerelease v"
      using no(2) by (auto simp: v takeWhile_append dropWhile_append)
    ultimately show ?thesis using no core pre by (simp add: parseVersion_def cutAt_def v)
  qed
qed

text \<open>Printed versions have no white space around them and no leading \<open>v\<close>.\<close>

lemma spaceRunes_visible: "list_all (\<lambda>r. r \<noteq> [] \<and> \<not> visible (hd r) \<and> \<not> visible (last r)) spaceRunes"
  by code_simp

lemma trimSpace_visible:
  assumes "list_all visible s"
  shows "trimSpace s = s"
proof -
  have h: "\<not> prefix r t" if "r \<noteq> []" "\<not> visible (hd r)" "list_all visible t" for r t
    using that by (cases r) (auto simp: prefix_def)
  have "\<forall>r \<in> set spaceRunes. \<not> prefix r s"
    using spaceRunes_visible assms h by (auto simp: list_all_iff)
  moreover have "\<forall>r \<in> set (map rev spaceRunes). \<not> prefix r (rev s)"
    using spaceRunes_visible assms h by (auto simp: list_all_iff hd_rev)
  ultimately show ?thesis by (simp add: trimSpace_def trimLeft_id)
qed

lemma visible_chars: "isDigit c \<Longrightarrow> visible c" "identifierChar c \<Longrightarrow> visible c" "visible CHR ''.''" "visible CHR ''-''"
  by (auto simp: visible_def isDigit_def identifierChar_def code_def)

lemma showVersion_visible:
  assumes "okVersion v"
  shows "list_all visible (showVersion v)"
proof -
  have "list_all visible (showNat n)" for n using showNat_digits [of n] visible_chars(1) by (auto simp: list_all_iff)
  moreover have "list_all visible (prerelease v)"
    using assms pre_plain visible_chars by (fastforce simp: okVersion_def list_all_iff)
  ultimately show ?thesis using visible_chars(3,4) by (simp add: showVersion_def)
qed

lemma showVersion_no_v: "trimPrefix (showVersion v) ''v'' = showVersion v"
proof -
  obtain c r where c: "showNat (unat (major v)) = c # r" "isDigit c"
    using showNat_digits [of "unat (major v)"] by (cases "showNat (unat (major v))") auto
  then have "c \<noteq> CHR ''v''" by (auto simp: isDigit_def code_def)
  then show ?thesis using c by (simp add: trimPrefix_def showVersion_def)
qed

lemma NormalizeVersion_show: "okVersion v \<Longrightarrow> NormalizeVersion (showVersion v) = Inr (showVersion v)"
  by (simp add: NormalizeVersion_def trimSpace_visible showVersion_visible showVersion_no_v parseVersion_showVersion)

lemma NormalizeVersion_form:
  "NormalizeVersion a = Inr a' \<Longrightarrow> \<exists>v. okVersion v \<and> a' = showVersion v \<and> parsedOrZero a' = v"
  by (auto simp: NormalizeVersion_def parsedOrZero_def parseVersion_showVersion dest: parseVersion_ok split: sum.splits)

section \<open>The order of versions\<close>

text \<open>
  The order behind the comparison: numbers first, a release after its prereleases, and the
  identifiers of a prerelease from left to right, numbers before words.
\<close>

definition cmp :: "'a :: linorder \<Rightarrow> 'a \<Rightarrow> int" where
  "cmp a b = (if a < b then -1 else if a = b then 0 else 1)"

definition identifierKey :: "string \<Rightarrow> nat \<times> nat \<times> string" where
  "identifierKey s = (case parseUint64 s of Some n \<Rightarrow> (0, unat n, []) | None \<Rightarrow> (1, 0, s))"

definition versionKey :: "semanticVersion \<Rightarrow> u64 \<times> u64 \<times> u64 \<times> bool \<times> (nat \<times> nat \<times> string) list" where
  "versionKey v = (major v, minor v, patch v, prerelease v = [], map identifierKey (splitOn CHR ''.'' (prerelease v)))"

lemma parseUint64_digits: "parseUint64 s = Some n \<Longrightarrow> digitsVal s = Some (unat n) \<and> list_all isDigit s"
proof -
  assume "parseUint64 s = Some n"
  then obtain k where k: "digitsVal s = Some k" "int k < 2 ^ 64" "n = of_nat k"
    by (auto simp: parseUint64_def split: option.splits if_splits)
  then have "unat n = k" by (simp add: unat_of_nat)
  then show ?thesis using k by (auto simp: digitsVal_def split: if_splits)
qed

lemma identifierKey_inj:
  assumes "validIdentifier True a" "validIdentifier True b" "identifierKey a = identifierKey b"
  shows "a = b"
proof (cases "parseUint64 a")
  case None
  then show ?thesis using assms(3) by (auto simp: identifierKey_def split: option.splits)
next
  case (Some n)
  then have "parseUint64 b = Some n" using assms(3) by (auto simp: identifierKey_def word_unat_eq_iff split: option.splits)
  note d = parseUint64_digits [OF Some] parseUint64_digits [OF this]
  have "\<not> leadingZero a" "\<not> leadingZero b" using assms(1,2) d by (simp_all add: validIdentifier_def)
  then show ?thesis using d numeral_unique by metis
qed

lemma compareIdentifier_cmp:
  assumes "validIdentifier True a" "validIdentifier True b" "a \<noteq> b"
  shows "compareIdentifier a b = cmp (identifierKey a) (identifierKey b)"
proof -
  have "identifierKey a \<noteq> identifierKey b" using assms identifierKey_inj by blast
  then show ?thesis
    by (auto simp: compareIdentifier_def cmp_def identifierKey_def word_less_nat_alt split: option.splits)
qed

lemma compareIdentifiers_cmp:
  "list_all (validIdentifier True) as \<Longrightarrow> list_all (validIdentifier True) bs \<Longrightarrow>
    compareIdentifiers as bs = cmp (map identifierKey as) (map identifierKey bs)"
proof (induction as bs rule: list_induct2')
  case (4 l ls r rs)
  have ne: "l \<noteq> r \<Longrightarrow> identifierKey l \<noteq> identifierKey r" using 4(2,3) identifierKey_inj by auto
  show ?case
    using 4 ne compareIdentifier_cmp [of l r] by (cases "l = r") (auto simp: cmp_def)
qed (simp_all add: cmp_def)

lemma map_identifierKey_inj:
  "list_all (validIdentifier True) as \<Longrightarrow> list_all (validIdentifier True) bs \<Longrightarrow>
    map identifierKey as = map identifierKey bs \<Longrightarrow> as = bs"
  by (rule map_inj_on [of identifierKey]) (auto simp: inj_on_def list_all_iff identifierKey_inj)

lemma versionKey_inj:
  assumes "okVersion a" "okVersion b" "versionKey a = versionKey b"
  shows "a = b"
proof -
  have p: "prerelease a = [] \<longleftrightarrow> prerelease b = []" "major a = major b" "minor a = minor b" "patch a = patch b"
    "map identifierKey (splitOn CHR ''.'' (prerelease a)) = map identifierKey (splitOn CHR ''.'' (prerelease b))"
    using assms(3) by (simp_all add: versionKey_def)
  have "prerelease a = prerelease b"
  proof (cases "prerelease a = []")
    case False
    then have "splitOn CHR ''.'' (prerelease a) = splitOn CHR ''.'' (prerelease b)"
      using assms(1,2) p map_identifierKey_inj by (auto simp: okVersion_def validateVersionIdentifiers_def)
    then show ?thesis by (metis joinWith_splitOn)
  qed (use p in simp)
  then show ?thesis using p by simp
qed

lemma compareVersion_cmp:
  assumes "okVersion a" "okVersion b"
  shows "compareVersion a b = cmp (versionKey a) (versionKey b)"
proof -
  have "prerelease a \<noteq> [] \<Longrightarrow> prerelease b \<noteq> [] \<Longrightarrow> comparePrerelease (prerelease a) (prerelease b) =
      cmp (map identifierKey (splitOn CHR ''.'' (prerelease a))) (map identifierKey (splitOn CHR ''.'' (prerelease b)))"
    using assms by (simp add: comparePrerelease_def compareIdentifiers_cmp okVersion_def validateVersionIdentifiers_def)
  then show ?thesis
    by (auto simp: compareVersion_def versionKey_def cmp_def)
qed



section \<open>Downloads\<close>

lemma checkedSums_from:
  "checkedSums vs acc = Inr m \<Longrightarrow> mget m name = Some c \<Longrightarrow>
    mget acc name = Some c \<or> (\<exists>v. (name, v) \<in> set vs \<and> toLower v = c)"
proof (induction vs acc rule: checkedSums.induct)
  case (2 n v r acc)
  then have "checkedSums r (mset_key n (toLower v) acc) = Inr m" by (auto simp: Let_def split: if_splits)
  with 2 show ?case by (auto simp: Let_def gomap split: if_splits)
qed simp

lemma toLower_idem [simp]: "toLower (toLower s) = toLower s"
proof -
  have "lowerChar (lowerChar c) = lowerChar c" for c by (simp add: lowerChar_def Let_def)
  then show ?thesis by (simp add: toLower_def)
qed

text \<open>
  C40. An accepted update is a signed one: when \<open>Latest\<close> returns a release and \<open>Download\<close> of one of its
  assets succeeds, the bytes that reached the writer are within the size limit and their SHA-256
  digest is the one that the manifest served lists for that asset, and that manifest passed the
  signature check with the client's public key.
\<close>

theorem update_is_signed:
  assumes "Latest verify http client = Inr release" "Download http client release asset = (data, Inr ())"
  shows "\<exists>manifest signature m v.
    getBounded http client ''latest/MANIFEST.json'' maxMetadataBytes = Inr manifest \<and>
    verify (clPublicKey client) manifest signature \<and> decodeManifest manifest = Inr m \<and>
    (asset, v) \<in> set (relChecksums m) \<and> toLower v = toLower (hexEncode (sha256 data)) \<and> int (length data) \<le> maxAssetBytes"
proof -
  obtain manifest signature m where m: "getBounded http client ''latest/MANIFEST.json'' maxMetadataBytes = Inr manifest"
    "verify (clPublicKey client) manifest signature" "decodeManifest manifest = Inr m"
    "checkedSums (relChecksums m) [] = Inr (relChecksums release)"
    using assms(1) by (auto simp: Latest_def checkManifest_def validateChecksums_def split: sum.splits if_splits option.splits)
  obtain expected where e: "mget (relChecksums release) asset = Some expected" "int (length data) \<le> maxAssetBytes"
    "toLower (hexEncode (sha256 data)) = toLower expected"
    using assms(2) by (auto simp: Download_def equalFoldHex_def Let_def split: option.splits sum.splits if_splits prod.splits)
  obtain v where "(asset, v) \<in> set (relChecksums m)" "toLower v = expected"
    using checkedSums_from [OF m(4) e(1)] by auto
  then show ?thesis using m e by auto
qed

text \<open>A manifest for one asset, served with the asset.\<close>

definition demoSum :: string where "demoSum = hexEncode (sha256 [7])"

definition demoManifest :: json where
  "demoManifest = JObj [(''version'', JStr ''v1.2.3''), (''checksums'', JObj [(''a.pkg'', JStr demoSum)])]"

definition demoWeb :: web where
  "demoWeb base resource = Inr \<lparr>rsStatus = 200,
     rsBody = (if resource = ''latest/MANIFEST.json'' then jsonDocument demoManifest
       else if resource = ''latest/MANIFEST.sig'' then strBytes ''AQID'' else [7]), rsFailure = None\<rparr>"

definition demoClient :: Client where
  "demoClient = NewClientWithPublicKey ''https://host/releases/'' (replicate 32 9)"

lemma demoSum_form: "list_all plainChar demoSum" "toLower demoSum = demoSum" "hexDecode demoSum = Some (sha256 [7])"
  "length demoSum = 64"
proof -
  have h: "\<forall>c \<in> set demoSum. isLowerHex c" using hexEncode_lower [of "sha256 [7]"] by (simp add: demoSum_def list_all_iff)
  then show "list_all plainChar demoSum" using hex_plain by (simp add: list_all_iff)
  show "toLower demoSum = demoSum" using h lowerChar_id by (simp add: toLower_def idChar_def map_idI)
  show "hexDecode demoSum = Some (sha256 [7])" "length demoSum = 64" by (simp_all add: demoSum_def)
qed

lemma demo_names: "list_all plainChar ''version''" "list_all plainChar ''checksums''" "list_all plainChar ''a.pkg''" "list_all plainChar ''v1.2.3''"
  by code_simp+

lemma demoManifest_decodes: "decodeManifest (jsonDocument demoManifest) = Inr \<lparr>relVersion = ''v1.2.3'', relChecksums = [(''a.pkg'', demoSum)]\<rparr>"
proof -
  have "wfJson 10000 demoManifest" using plain_string(1) demo_names demoSum_form by (simp add: demoManifest_def)
  then have "pValue 10000 (printJson 0 demoManifest @ [newline]) = Some (demoManifest, [newline])"
    using printsBackD [OF pValue_printJson, of 10000 demoManifest "[]" "[newline]" 0] by simp
  moreover have "fieldIs ''version'' ''version''" "fieldIs ''checksums'' ''checksums''" "\<not> fieldIs ''version'' ''checksums''" by code_simp+
  ultimately show ?thesis
    by (simp add: decodeManifest_def jsonDocument_def demoManifest_def decodeObject_def manifestField_def setField_def decodeString_def
      decodeMap_def mset_key_def)
qed

lemma demoManifest_small: "length (jsonDocument demoManifest) < 1000"
  using plain_string(2) demo_names demoSum_form
  by (simp add: jsonDocument_def demoManifest_def quoteString_def indentation_def)

lemma demoLatest: "Latest (\<lambda>_ _ _. True) demoWeb demoClient = Inr \<lparr>relVersion = ''1.2.3'', relChecksums = [(''a.pkg'', demoSum)]\<rparr>"
proof -
  have n: "NormalizeVersion ''v1.2.3'' = Inr ''1.2.3''" "assetName ''a.pkg''" "base64Decode (trimSpace ''AQID'') = Some [1, 2, 3]"
    "length (clPublicKey demoClient) = 32" "int (length (strBytes ''AQID'')) < 1024" by code_simp+
  have sums: "validateChecksums [(''a.pkg'', demoSum)] = Inr [(''a.pkg'', demoSum)]"
    using n(2) demoSum_form by (simp add: validateChecksums_def Let_def mset_key_def)
  have get: "getBounded demoWeb demoClient ''latest/MANIFEST.json'' maxMetadataBytes = Inr (jsonDocument demoManifest)"
    "getBounded demoWeb demoClient ''latest/MANIFEST.sig'' 1024 = Inr (strBytes ''AQID'')"
    using demoManifest_small n(5) by (simp_all add: getBounded_def request_def demoWeb_def readLimited_def maxMetadataBytes_def)
  show ?thesis
    unfolding Latest_def get sum.case using n sums demoManifest_decodes by (simp add: checkManifest_def)
qed

theorem update_is_signed_witness:
  "\<exists>manifest signature m v.
    getBounded demoWeb demoClient ''latest/MANIFEST.json'' maxMetadataBytes = Inr manifest \<and>
    decodeManifest manifest = Inr m \<and> (''a.pkg'', v) \<in> set (relChecksums m) \<and> toLower v = toLower (hexEncode (sha256 [7]))"
proof -
  have "assetName ''a.pkg''" by code_simp
  then have "Download demoWeb demoClient \<lparr>relVersion = ''1.2.3'', relChecksums = [(''a.pkg'', demoSum)]\<rparr> ''a.pkg'' = ([7], Inr ())"
    using demoSum_form(2) by (simp add: Download_def request_def demoWeb_def readLimited_def maxAssetBytes_def equalFoldHex_def demoSum_def)
  from update_is_signed [OF demoLatest this] show ?thesis by metis
qed

end
