(* ===== verification/Loading.thy ===== *)
theory Loading
  imports AuthInvariant LinkSearch "HOL-Library.Code_Target_Nat"
begin

text \<open>
  Loading a volume (volume.go \<open>LoadVolume\<close>, \<open>LoadVolumeWithScope\<close>). The theorem says that whatever
  document was on disk, a loaded volume has a well-formed index of the current version and
  starts the authorization machine with nothing cached.
\<close>

section \<open>The constructor\<close>

text \<open>
  The new \<open>Volume\<close>: its fields are set in the state. The user and the group are those of the
  process; the parts that record what the volume does are empty.
\<close>

definition newVolume ::
  "string \<Rightarrow> PublicConfig \<Rightarrow> prompter \<Rightarrow> int \<Rightarrow> int \<Rightarrow> UnlockScope \<Rightarrow> Metadata \<Rightarrow> 'z auth_scheme \<Rightarrow> 'z auth_scheme" where
  "newVolume root public p maxFileSize unlockFor unlockScope metadata s =
     s\<lparr>vRoot := root, vConfig := public, vMaxFileSize := maxFileSize, vMetadata := metadata, vPending := [],
       vFlushTimer := False, aPrompter := p, aUnlockFor := unlockFor, aUnlockScope := unlockScope,
       aCachedIdentity := None, aAuthorized := [], aEditSessions := [], aEncryptSessions := [],
       aUnlockTimer := None, aChannels := 0, aClosed := [], aGoroutines := [], aPrompts := []\<rparr>"

definition LoadVolumeWithScope ::
  "'y agekeys_scheme \<Rightarrow> string \<Rightarrow> prompter option \<Rightarrow> int \<Rightarrow> int \<Rightarrow> UnlockScope \<Rightarrow> ('z auth_scheme, unit res) state" where
  "LoadVolumeWithScope A cipherDir prompter maxFileSize unlockFor unlockScope =
     (case prompter of
        None \<Rightarrow> ret (Inl (Msg ''prompter is required''))
      | Some p \<Rightarrow>
          if maxFileSize \<le> 0 then ret (Inl (Msg ''maximum file size must be greater than zero''))
          else if unlockFor < 0 then ret (Inl (Msg ''unlock duration cannot be negative''))
          else case validScope unlockScope of
            Inl e \<Rightarrow> ret (Inl e)
          | Inr _ \<Rightarrow> do {
              cwd \<leftarrow> gets (\<lambda>s. envCwd (osEnv s));
              (let root = absPath cwd cipherDir in
               andThen (loadPublicConfig root) (\<lambda>public. do {
                 now \<leftarrow> timeNow;
                 _ \<leftarrow> cleanupStaleTemporaryFiles root now;
                 (case ageParseRecipient A (cfgRecipient public) of
                    Inl e \<Rightarrow> ret (Inl (Wrap ''parse volume recipient'' e))
                  | Inr _ \<Rightarrow>
                      andThen (loadMetadata root) (\<lambda>metadata. do {
                        _ \<leftarrow> modify (newVolume root public p maxFileSize unlockFor unlockScope metadata);
                        ret (Inr ()) })) })) })"

definition LoadVolume ::
  "'y agekeys_scheme \<Rightarrow> string \<Rightarrow> prompter option \<Rightarrow> int \<Rightarrow> int \<Rightarrow> ('z auth_scheme, unit res) state" where
  "LoadVolume A cipherDir prompter maxFileSize unlockFor =
     LoadVolumeWithScope A cipherDir prompter maxFileSize unlockFor (defaultUnlockScope unlockFor)"

section \<open>Every document that can be read is well formed\<close>

lemma wp_anyI: "(\<And>r t. Q r t) \<Longrightarrow> wp m Q s"
  by (rule wpI) blast

text \<open>\<open>results P m\<close>: every success of \<open>m\<close> yields a value with the property \<open>P\<close>.\<close>

definition results :: "('a \<Rightarrow> bool) \<Rightarrow> ('s, 'a res) state \<Rightarrow> bool" where
  "results P m \<longleftrightarrow> (\<forall>s. wp m (\<lambda>r _. \<forall>a. r = Inr a \<longrightarrow> P a) s)"

named_theorems results \<open>properties of the values that computations return\<close>

lemma resultsD: "results P m \<Longrightarrow> run_state m s = (Inr a, t) \<Longrightarrow> P a"
  unfolding results_def by (drule spec, drule (1) wpD) simp

lemma results_any: "results (\<lambda>_. True) m"
  by (simp add: results_def wp_anyI)

lemma results_ret [simp]: "results P (ret r) \<longleftrightarrow> (\<forall>a. r = Inr a \<longrightarrow> P a)"
  by (simp add: results_def wp)

lemma results_return [results]: "(\<And>a. r = Inr a \<Longrightarrow> P a) \<Longrightarrow> results P (ret r)"
  by simp

lemma results_bind [results]: "(\<And>x. results P (g x)) \<Longrightarrow> results P (State_Monad.bind m g)"
  by (simp add: results_def wp wp_anyI)

lemma results_bindV:
  assumes "results V m" "\<And>e. results P (g (Inl e))" "\<And>x. V x \<Longrightarrow> results P (g (Inr x))"
  shows "results P (State_Monad.bind m g)"
  unfolding results_def wp
proof
  fix s
  show "wp m (\<lambda>x. wp (g x) (\<lambda>r _. \<forall>a. r = Inr a \<longrightarrow> P a)) s"
  proof (rule wp_mono [OF assms(1) [unfolded results_def, rule_format, of s]])
    show "wp (g a) (\<lambda>r _. \<forall>a. r = Inr a \<longrightarrow> P a) t" if "\<forall>x. a = Inr x \<longrightarrow> V x" for a t
      using that assms(2,3) by (cases a) (simp_all add: results_def)
  qed
qed

lemma results_andThen: "results V m \<Longrightarrow> (\<And>x. V x \<Longrightarrow> results P (g x)) \<Longrightarrow> results P (andThen m g)"
  unfolding andThen_def by (erule results_bindV) simp_all

lemma results_andThen_any [results]: "(\<And>x. results P (g x)) \<Longrightarrow> results P (andThen m g)"
  by (rule results_andThen [OF results_any])

lemma results_mapErr [results]: "results P m \<Longrightarrow> results P (mapErr e m)"
  unfolding mapErr_def by (erule results_bindV) simp_all

lemma results_if [results]: "(b \<Longrightarrow> results P m) \<Longrightarrow> (\<not> b \<Longrightarrow> results P n) \<Longrightarrow> results P (if b then m else n)"
  by simp

lemma results_cases [results]:
  "(\<And>e. r = Inl e \<Longrightarrow> results P (f e)) \<Longrightarrow> (\<And>a. r = Inr a \<Longrightarrow> results P (g a)) \<Longrightarrow>
   results P (case r of Inl e \<Rightarrow> f e | Inr a \<Rightarrow> g a)"
  "(w = None \<Longrightarrow> results P h) \<Longrightarrow> (\<And>a. w = Some a \<Longrightarrow> results P (k a)) \<Longrightarrow>
   results P (case w of None \<Rightarrow> h | Some a \<Rightarrow> k a)"
  by (simp_all split: sum.splits option.splits)

lemma results_foldRes:
  assumes "P b" "\<And>x b. P b \<Longrightarrow> results P (f x b)"
  shows "results P (foldRes f xs b)"
  using assms(1)
proof (induction xs arbitrary: b)
  case (Cons x xs)
  show ?case unfolding foldRes.simps by (rule results_andThen [OF assms(2) [OF Cons.prems]]) (rule Cons.IH)
qed simp

lemma decodeMembers_mwf: "decodeMembers dec z ms m = Inr m' \<Longrightarrow> mwf m \<Longrightarrow> mwf m'"
  by (induction dec z ms m rule: decodeMembers.induct) (auto split: sum.splits)

lemma decodeMap_mwf: "decodeMap dec z old j = Inr m \<Longrightarrow> mwf old \<Longrightarrow> mwf m"
  by (auto simp: decodeMap_def dest: decodeMembers_mwf split: json.splits)

lemma setField_InrD: "setField d upd = Inr m \<longleftrightarrow> (\<exists>v. d = Inr v \<and> m = upd v)"
  by (auto simp: setField_def split: sum.splits)

lemma metadataField_wf: "metadataField k j m = Inr m' \<Longrightarrow> wfMaps m \<Longrightarrow> wfMaps m'"
  by (auto simp: metadataField_def wfMaps_def setField_InrD dest: decodeMap_mwf split: if_splits)

lemma decodeMetadata_wf: "decodeMetadata m j = Inr m' \<Longrightarrow> wfMaps m \<Longrightarrow> wfMaps m'"
proof -
  have "decodeStruct metadataField ms m = Inr m' \<Longrightarrow> wfMaps m \<Longrightarrow> wfMaps m'" for ms
    by (induction metadataField ms m rule: decodeStruct.induct) (auto dest: metadataField_wf split: sum.splits)
  then show "decodeMetadata m j = Inr m' \<Longrightarrow> wfMaps m \<Longrightarrow> wfMaps m'"
    by (auto simp: decodeMetadata_def decodeObject_def split: json.splits)
qed

lemma wfMaps_empty [simp]: "wfMaps emptyMetadata"
  by (simp add: wfMaps_def emptyMetadata_def)

lemma migrateEntry_wf: "wfMaps m \<Longrightarrow> results wfMaps (migrateEntry root public legacyLinks now x m)"
  unfolding migrateEntry_def Let_def orphanedLegacy_def
  by (cases x) (auto intro!: results simp: wfMaps_def)

lemma migrate_wf: "results wfMaps (migrateLegacyMetadata root m)"
  unfolding migrateLegacyMetadata_def
  by (intro results_andThen_any results_bind prod.case_eq_if [THEN ssubst, where P = "results wfMaps"]
      results_andThen [where V = wfMaps] results_foldRes migrateEntry_wf)
    (auto intro!: results)

lemma readMetadata_wf: "results wfMaps (readMetadata root)"
  unfolding readMetadata_def decodeBoundedJSON_def
  by (intro results migrate_wf)
    (auto simp: checkMetadata_def intro: decodeMetadata_wf split: sum.splits if_splits)

lemma results_withLock [results]: "results P m \<Longrightarrow> results P (withMetadataFileLock root m)"
  unfolding withMetadataFileLock_def
  by (intro results_andThen_any, erule results_bindV) (intro results, auto split: option.splits)+

text \<open>The index a vault is loaded with.\<close>

definition loadedIndex :: "Metadata \<Rightarrow> bool" where
  "loadedIndex m \<longleftrightarrow> wfIndex m \<and> Version m = metadataFormatVersion \<and> DisplacedLinks m = None"

lemma loadMetadata_loaded: "results loadedIndex (loadMetadata root)"
proof -
  have "results (\<lambda>(m', _). loadedIndex m') (reconcileMetadata root m)" if "wfMaps m" for m
    unfolding results_def
    by (rule allI, rule wp_mono [OF reconcileMetadata_wp [OF that]]) (auto simp: reconciled_def loadedIndex_def)
  then have reconcile: "results (\<lambda>(m', _). loadedIndex m') (mapErr f (reconcileMetadata root m))" if "wfMaps m" for f m
    using that by (intro results)
  show ?thesis
    unfolding loadMetadata_def
    by (intro results_withLock results_andThen [OF readMetadata_wf] results_andThen [OF reconcile])
      (auto intro!: results)
qed

lemma loadPublicConfig_valid:
  "results (\<lambda>c. cfgVersion c = formatVersion \<and> cfgVolumeID c \<noteq> [] \<and> cfgRecipient c \<noteq> []) (loadPublicConfig root)"
  unfolding loadPublicConfig_def by (intro results) (auto split: sum.splits if_splits)

lemma wp_ifI: "(b \<Longrightarrow> wp m Q s) \<Longrightarrow> (\<not> b \<Longrightarrow> wp n Q s) \<Longrightarrow> wp (if b then m else n) Q s"
  by simp

lemma wp_sumI:
  "(\<And>e. r = Inl e \<Longrightarrow> wp (f e) Q s) \<Longrightarrow> (\<And>a. r = Inr a \<Longrightarrow> wp (g a) Q s) \<Longrightarrow>
   wp (case r of Inl e \<Rightarrow> f e | Inr a \<Rightarrow> g a) Q s"
  by (cases r) simp_all

section \<open>A loaded volume\<close>

text \<open>
  C5. Whatever is on disk and whichever calls fail, a volume that is loaded successfully can be
  operated: its index is well formed and of the current version, its configuration is complete and
  names a recipient that age accepts, its limits are valid, and nothing is cached, so that it is a
  start of the authorization machine.
\<close>

theorem LoadVolume_ready:
  assumes "run_state (LoadVolumeWithScope A cipherDir prompter maxFileSize unlockFor unlockScope) s = (Inr (), t)"
  shows "freshVolume (t, []) \<and> wfIndex (vMetadata t) \<and> Version (vMetadata t) = metadataFormatVersion \<and> vPending t = [] \<and>
    cfgVersion (vConfig t) = formatVersion \<and> cfgVolumeID (vConfig t) \<noteq> [] \<and>
    errOf (ageParseRecipient A (cfgRecipient (vConfig t))) = None \<and>
    0 < vMaxFileSize t \<and> 0 \<le> aUnlockFor t \<and> prompter = Some (aPrompter t)"
    (is "?ready t")
proof -
  define Q where "Q r t \<longleftrightarrow> (r = Inr () \<longrightarrow> ?ready t)" for r :: "unit res" and t :: "'a auth_scheme"
  have fail: "wp (ret (Inl e)) Q u" for e u by (simp add: wp Q_def)
  have index: "wp (andThen (loadMetadata root) (\<lambda>metadata. do {
        _ \<leftarrow> modify (newVolume root public p maxFileSize unlockFor scope metadata); ret (Inr ()) })) Q u"
    if "cfgVersion public = formatVersion \<and> cfgVolumeID public \<noteq> [] \<and> cfgRecipient public \<noteq> []"
      "ageParseRecipient A (cfgRecipient public) = Inr x" "0 < maxFileSize" "0 \<le> unlockFor" "prompter = Some p"
    for root public p scope x u
    unfolding wp_andThen
    by (rule wp_mono [OF loadMetadata_loaded [unfolded results_def, rule_format]])
      (use that in \<open>auto simp: wp Q_def newVolume_def freshVolume_def loadedIndex_def split: sum.splits\<close>)
  have config: "wp (andThen (loadPublicConfig root) (\<lambda>public. do {
        now \<leftarrow> timeNow;
        _ \<leftarrow> cleanupStaleTemporaryFiles root now;
        (case ageParseRecipient A (cfgRecipient public) of
           Inl e \<Rightarrow> ret (Inl (Wrap ''parse volume recipient'' e))
         | Inr _ \<Rightarrow> andThen (loadMetadata root) (\<lambda>metadata. do {
             _ \<leftarrow> modify (newVolume root public p maxFileSize unlockFor unlockScope metadata); ret (Inr ()) })) })) Q u"
    if "0 < maxFileSize" "0 \<le> unlockFor" "prompter = Some p" for root p u
    unfolding wp_andThen
  proof (rule wp_mono [OF loadPublicConfig_valid [unfolded results_def, rule_format]], goal_cases)
    case (1 r t)
    show ?case
    proof (cases r)
      case (Inr public)
      show ?thesis
        unfolding Inr sum.case wp_bind wp_timeNow
        by (rule wp_anyI, intro wp_sumI fail) (use 1 Inr in \<open>auto intro: index that\<close>)
    qed (simp add: Q_def)
  qed
  have "wp (LoadVolumeWithScope A cipherDir prompter maxFileSize unlockFor unlockScope) Q s"
  proof (cases prompter)
    case (Some p)
    show ?thesis
      unfolding LoadVolumeWithScope_def Some option.case Let_def
      by (intro wp_ifI wp_sumI fail) (use config [OF _ _ Some] in \<open>auto simp: wp_bind wp_gets\<close>)
  qed (simp add: LoadVolumeWithScope_def fail)
  then show ?thesis using assms unfolding Q_def by (auto dest: wpD)
qed

text \<open>A new vault, without objects.\<close>

definition demoNewVault :: auth where
  "demoNewVault = demoVolume\<lparr>osNodes := [(''/'', dirNode), (''/v'', dirNode), (''/v/.passfs'', dirNode),
     (''/v/.passfs/config.json'', fileNode (jsonDocument (encodePublicConfig (vConfig demoVolume)))),
     (''/v/.passfs/metadata.json'', fileNode (jsonDocument (encodeMetadata emptyMetadata))), (''/v/objects'', dirNode)]\<rparr>"

definition demoLoaded :: auth where
  "demoLoaded = snd (run_state (LoadVolumeWithScope standInAge ''/v'' (Some demoPrompter) 100 60 UnlockFile) demoNewVault)"

theorem LoadVolume_ready_witness:
  "freshVolume (demoLoaded, []) \<and> wfIndex (vMetadata demoLoaded) \<and> cfgVersion (vConfig demoLoaded) = formatVersion \<and>
   aPrompter demoLoaded = demoPrompter"
proof -
  have r: "fst (run_state (LoadVolumeWithScope standInAge ''/v'' (Some demoPrompter) 100 60 UnlockFile) demoNewVault) = Inr ()"
    by code_simp
  then have "run_state (LoadVolumeWithScope standInAge ''/v'' (Some demoPrompter) 100 60 UnlockFile) demoNewVault = (Inr (), demoLoaded)"
    by (simp add: demoLoaded_def prod_eq_iff)
  from LoadVolume_ready [OF this] show ?thesis by simp
qed

end
