(* ===== verification/Backup.thy ===== *)
theory Backup
  imports Loading
begin

text \<open>
  Backups of a vault (backup.go): creating one with a manifest of SHA-256 digests, restoring one
  into a new vault, and verifying a vault or a backup by decrypting every object.
\<close>

section \<open>The manifest\<close>

definition backupFormatVersion :: int where "backupFormatVersion = 1"
definition backupManifestName :: string where "backupManifestName = ''passfs-backup.json''"
definition backupVaultName :: string where "backupVaultName = ''vault''"

record BackupFile =
  bfPath :: string
  bfSize :: int
  bfSHA256 :: string

record BackupManifest =
  bmVersion :: int
  bmCreated :: int
  bmVolumeID :: string
  bmFiles :: "BackupFile list"

record VerificationReport =
  vrVolumeID :: string
  vrFiles :: int
  vrBytes :: u64

definition zeroBackupFile :: BackupFile where
  "zeroBackupFile = \<lparr>bfPath = [], bfSize = 0, bfSHA256 = []\<rparr>"

definition zeroManifest :: BackupManifest where
  "zeroManifest = \<lparr>bmVersion = 0, bmCreated = 0, bmVolumeID = [], bmFiles = []\<rparr>"

definition encodeBackupFile :: "BackupFile \<Rightarrow> json" where
  "encodeBackupFile f = JObj
     [(''path'', JStr (bfPath f)), (''size'', jint (bfSize f)), (''sha256'', JStr (bfSHA256 f))]"

definition encodeManifest :: "BackupManifest \<Rightarrow> json" where
  "encodeManifest m = JObj
     [(''version'', jint (bmVersion m)), (''createdUnixNano'', jint (bmCreated m)),
      (''volumeID'', JStr (bmVolumeID m)), (''files'', JArr (map encodeBackupFile (bmFiles m)))]"

definition backupFileField :: "string \<Rightarrow> json \<Rightarrow> BackupFile \<Rightarrow> BackupFile res" where
  "backupFileField k j f =
     (if fieldIs ''path'' k then setField (decodeString (bfPath f) j) (\<lambda>v. f\<lparr>bfPath := v\<rparr>)
      else if fieldIs ''size'' k then setField (decodeInt (bfSize f) j) (\<lambda>v. f\<lparr>bfSize := v\<rparr>)
      else if fieldIs ''sha256'' k then setField (decodeString (bfSHA256 f) j) (\<lambda>v. f\<lparr>bfSHA256 := v\<rparr>)
      else Inr f)"

text \<open>An element of a slice is decoded into the one that the slice holds already, if it does.\<close>

fun decodeElements :: "('v \<Rightarrow> json \<Rightarrow> 'v res) \<Rightarrow> 'v \<Rightarrow> 'v list \<Rightarrow> json list \<Rightarrow> 'v list res" where
  "decodeElements dec z old [] = Inr []"
| "decodeElements dec z old (j # js) =
     (case dec (case old of [] \<Rightarrow> z | x # _ \<Rightarrow> x) j of
        Inl e \<Rightarrow> Inl e
      | Inr v \<Rightarrow> (case decodeElements dec z (tl old) js of Inl e \<Rightarrow> Inl e | Inr vs \<Rightarrow> Inr (v # vs)))"

definition decodeSlice :: "('v \<Rightarrow> json \<Rightarrow> 'v res) \<Rightarrow> 'v \<Rightarrow> 'v list \<Rightarrow> json \<Rightarrow> 'v list res" where
  "decodeSlice dec z old j =
     (case j of JNull \<Rightarrow> Inr [] | JArr js \<Rightarrow> decodeElements dec z old js | _ \<Rightarrow> Inl typeError)"

definition backupManifestField :: "string \<Rightarrow> json \<Rightarrow> BackupManifest \<Rightarrow> BackupManifest res" where
  "backupManifestField k j m =
     (if fieldIs ''version'' k then setField (decodeInt (bmVersion m) j) (\<lambda>v. m\<lparr>bmVersion := v\<rparr>)
      else if fieldIs ''createdUnixNano'' k then setField (decodeInt (bmCreated m) j) (\<lambda>v. m\<lparr>bmCreated := v\<rparr>)
      else if fieldIs ''volumeID'' k then setField (decodeString (bmVolumeID m) j) (\<lambda>v. m\<lparr>bmVolumeID := v\<rparr>)
      else if fieldIs ''files'' k then
        setField (decodeSlice (decodeObject backupFileField) zeroBackupFile (bmFiles m) j) (\<lambda>v. m\<lparr>bmFiles := v\<rparr>)
      else Inr m)"

section \<open>Copying and hashing a file\<close>

text \<open>
  \<open>io.Copy\<close> reads the source and writes the target and the digest chunk by chunk: a failure of
  either leaves some prefix in the target. The deferred \<open>input.Close\<close> comes last.
\<close>

definition copyBackupFile :: "string \<Rightarrow> string \<Rightarrow> ('z os_scheme, (string \<times> int) res) state" where
  "copyBackupFile source target =
     andThen (os_lstat source) (\<lambda>info.
     if \<not> isRegNode info then ret (Inl (Msg ''backup source is not a regular file''))
     else andThen (os_mkdirAll (pathDir target) mode0700) (\<lambda>_.
     andThen (os_open source) (\<lambda>data.
     deferring os_nop (
       andThen (os_createExcl target mode0600) (\<lambda>_. do {
         copyErr \<leftarrow> andThen (os_write target data) (\<lambda>_. os_nop);
         closeErr \<leftarrow> os_nop;
         ret (case errorsJoin [errOf copyErr, errOf closeErr] of
            Some e \<Rightarrow> Inl e
          | None \<Rightarrow>
              if length data \<noteq> length (nodeData info) then Inl (Msg ''backup source changed while copying'')
              else Inr (hexEncode (sha256 data), int (length data))) })))))"

definition hashRegularFile :: "string \<Rightarrow> ('z os_scheme, (string \<times> int) res) state" where
  "hashRegularFile path =
     andThen (os_lstat path) (\<lambda>info.
     if \<not> isRegNode info then ret (Inl (Msg ''backup entry is not a regular file''))
     else andThen (os_open path) (\<lambda>data.
     deferring os_nop (andThen os_nop (\<lambda>_. ret (Inr (hexEncode (sha256 data), int (length data)))))))"

section \<open>The index of a vault that is checked\<close>

text \<open>The loops of \<open>vaultIndexForVerification\<close>: over the directory, the index and its marks.\<close>

fun storedKeys :: "(string \<times> node) list \<Rightarrow> string list \<Rightarrow> string list res" where
  "storedKeys [] actual = Inr actual"
| "storedKeys ((name, n) # entries) actual =
     (if \<not> isRegNode n \<or> \<not> hasSuffix name encryptedSuffix
      then Inl (Msg ''unexpected entry in encrypted object directory'')
      else case normalizeObjectID (trimSuffix name encryptedSuffix) of
        Inl _ \<Rightarrow> Inl (Msg ''unexpected encrypted object'')
      | Inr objectID \<Rightarrow>
          storedKeys entries (metadataKey (case objectStoragePath objectID of Inl _ \<Rightarrow> [] | Inr storage \<Rightarrow> storage) # actual))"

fun checkIndexed :: "string list \<Rightarrow> string list \<Rightarrow> unit res" where
  "checkIndexed actual [] = Inr ()"
| "checkIndexed actual (key # keys) =
     (case objectIDFromStoragePath key of
        Inl _ \<Rightarrow> Inl (Msg ''invalid object index entry'')
      | Inr _ \<Rightarrow>
          if key \<notin> set actual then Inl (Msg ''encrypted object is missing'') else checkIndexed actual keys)"

fun checkLinks :: "(string, FileMeta) gomap \<Rightarrow> (string \<times> string) list \<Rightarrow> (string, string) gomap \<Rightarrow> unit res" where
  "checkLinks files [] linked = Inr ()"
| "checkLinks files ((key, path) # links) linked =
     (if \<not> mhas files key then Inl (Msg ''link metadata references unknown object'')
      else if path = [] \<or> \<not> isAbs path then Inl (Msg ''link metadata has no absolute path'')
      else if mget linked (Clean path) \<notin> {None, Some key}
      then Inl (Msg ''multiple encrypted objects claim project path'')
      else checkLinks files links (mset_key (Clean path) key linked))"

definition checkVaultIndex :: "(string \<times> node) list \<Rightarrow> Metadata \<Rightarrow> Metadata res" where
  "checkVaultIndex entries metadata =
     (case storedKeys entries [] of
        Inl e \<Rightarrow> Inl e
      | Inr actual \<Rightarrow>
          (case checkIndexed actual (map fst (Files metadata)) of
             Inl e \<Rightarrow> Inl e
           | Inr _ \<Rightarrow>
               if list_ex (\<lambda>key. \<not> mhas (Files metadata) key) actual
               then Inl (Msg ''encrypted object is not indexed by metadata'')
               else (case checkLinks (Files metadata) (Links metadata) [] of
                  Inl e \<Rightarrow> Inl e
                | Inr _ \<Rightarrow>
                    if list_ex (\<lambda>(key, _). \<not> mhas (Files metadata) key) (Recovery metadata)
                    then Inl (Msg ''recovery metadata references unknown object'')
                    else Inr metadata)))"

definition vaultIndexForVerification :: "string \<Rightarrow> ('z os_scheme, Metadata res) state" where
  "vaultIndexForVerification vault = do {
     cwd \<leftarrow> gets (\<lambda>s. envCwd (osEnv s));
     (let root = absPath cwd vault in
      andThen (withMetadataFileLock root (readMetadata root)) (\<lambda>metadata.
      andThen (os_readDir (pathJoin [root, objectStorageDirectory])) (\<lambda>entries.
        ret (checkVaultIndex entries metadata)))) }"

section \<open>Creating a backup\<close>

definition isBackupObject :: "string \<times> node \<Rightarrow> bool" where
  "isBackupObject = (\<lambda>(name, n).
     \<not> isDirNode n \<and> \<not> isLinkNode n \<and> hasSuffix name encryptedSuffix \<and>
     errOf (normalizeObjectID (trimSuffix name encryptedSuffix)) = None)"

definition vaultBackupPaths :: "string \<Rightarrow> ('z os_scheme, string list res) state" where
  "vaultBackupPaths root =
     andThen (os_readDir (pathJoin [root, objectStorageDirectory])) (\<lambda>entries.
       ret (Inr (sort
         ([pathJoin [internalDirName, publicConfigName], pathJoin [internalDirName, identityFileName],
           pathJoin [internalDirName, metadataFileName]] @
          map (\<lambda>(name, _). pathJoin [objectStorageDirectory, name]) (filter isBackupObject entries)))))"

text \<open>One file of the loop; the manifest is the accumulator.\<close>

definition backupStep :: "string \<Rightarrow> string \<Rightarrow> string \<Rightarrow> BackupManifest \<Rightarrow> ('z os_scheme, BackupManifest res) state" where
  "backupStep root staging relative manifest =
     andThen (copyBackupFile (pathJoin [root, relative]) (pathJoin [staging, backupVaultName, relative])) (\<lambda>(digest, size).
       ret (Inr (manifest\<lparr>bmFiles := bmFiles manifest @ [\<lparr>bfPath = relative, bfSize = size, bfSHA256 = digest\<rparr>]\<rparr>)))"

text \<open>The part that fills the staging directory, and the part that publishes it.\<close>

definition fillBackup :: "string \<Rightarrow> PublicConfig \<Rightarrow> string list \<Rightarrow> string \<Rightarrow> ('z os_scheme, BackupManifest res) state" where
  "fillBackup root public paths staging = do {
     now \<leftarrow> timeNow;
     andThen (foldRes (backupStep root staging) paths
         \<lparr>bmVersion = backupFormatVersion, bmCreated = now, bmVolumeID = cfgVolumeID public, bmFiles = []\<rparr>) (\<lambda>manifest.
     andThen (WriteJSONFileAtomic (pathJoin [staging, backupManifestName]) (encodeManifest manifest) mode0600) (\<lambda>_.
     andThen (forEach [pathJoin [backupVaultName, internalDirName], pathJoin [backupVaultName, objectStorageDirectory],
         backupVaultName] (\<lambda>directory. syncDirectory (pathJoin [staging, directory]))) (\<lambda>_.
     andThen (syncDirectory staging) (\<lambda>_. ret (Inr manifest))))) }"

definition publishDirectory :: "string \<Rightarrow> string \<Rightarrow> string \<Rightarrow> 'a \<Rightarrow> ('z os_scheme, bool \<times> 'a res) state" where
  "publishDirectory what staging destination manifest = do {
     r \<leftarrow> renameNoReplace staging destination;
     (case r of
        Inl e \<Rightarrow> ret (False, Inl (Wrap what e))
      | Inr _ \<Rightarrow> do {
          sync \<leftarrow> syncDirectory (pathDir destination);
          ret (True, case sync of Inl e \<Rightarrow> Inl e | Inr _ \<Rightarrow> Inr manifest) }) }"

text \<open>\<open>os.MkdirTemp\<close> with the deferred removal of what was not committed.\<close>

definition staged ::
  "string \<Rightarrow> string \<Rightarrow> string \<Rightarrow> string \<Rightarrow> (string \<Rightarrow> ('z os_scheme, 'a res) state) \<Rightarrow> ('z os_scheme, 'a res) state" where
  "staged pfx what parent destination fill =
     andThen (os_mkdirAll parent mode0700) (\<lambda>_.
     andThen (os_mkdirTemp parent pfx) (\<lambda>staging. do {
       filled \<leftarrow> fill staging;
       (committed, r) \<leftarrow> (case filled of
          Inl e \<Rightarrow> ret (False, Inl e)
        | Inr manifest \<Rightarrow> publishDirectory what staging destination manifest);
       _ \<leftarrow> (if committed then ret (Inr ()) else os_removeAll staging);
       ret r }))"

text \<open>\<open>os.Lstat(destination)\<close> has to fail with \<open>os.ErrNotExist\<close>.\<close>

definition mustNotExist :: "string \<Rightarrow> string \<Rightarrow> ('z os_scheme, unit res) state" where
  "mustNotExist message destination = do {
     r \<leftarrow> os_lstat destination;
     ret (case r of
        Inr _ \<Rightarrow> Inl (Msg message)
      | Inl e \<Rightarrow> if errorsIs e ErrNotExist then Inr () else Inl e) }"

definition CreateBackup :: "string \<Rightarrow> string \<Rightarrow> ('z os_scheme, BackupManifest res) state" where
  "CreateBackup vault dest = do {
     cwd \<leftarrow> gets (\<lambda>s. envCwd (osEnv s));
     (let root = absPath cwd vault; destination = absPath cwd dest in
      andThen (mustNotExist ''backup destination already exists'' destination) (\<lambda>_.
      if pathWithin destination root then ret (Inl (Msg ''backup destination must be outside the PassFS vault''))
      else
        andThen (loadPublicConfig root) (\<lambda>public.
        andThen (mapErr (Wrap ''refuse to back up an inconsistent vault'') (vaultIndexForVerification root)) (\<lambda>_.
        andThen (vaultBackupPaths root) (\<lambda>paths.
        staged ''.passfs-backup-'' ''publish backup'' (pathDir destination) destination
          (fillBackup root public paths)))))) }"

section \<open>Reading and restoring a backup\<close>

definition realDirectory :: "string \<Rightarrow> ('z os_scheme, unit res) state" where
  "realDirectory directory =
     andThen (os_lstat directory) (\<lambda>info.
       ret (if isDirNode info then Inr () else Inl (Msg ''backup path is not a real directory'')))"

definition readBackupManifest :: "string \<Rightarrow> ('z os_scheme, (BackupManifest \<times> string) res) state" where
  "readBackupManifest backup = do {
     cwd \<leftarrow> gets (\<lambda>s. envCwd (osEnv s));
     (let root = absPath cwd backup; manifestPath = pathJoin [root, backupManifestName] in
      andThen (forEach [root, pathJoin [root, backupVaultName]] realDirectory) (\<lambda>_.
      andThen (os_lstat manifestPath) (\<lambda>info.
      if \<not> isRegNode info then ret (Inl (Msg ''backup manifest is not a regular file''))
      else andThen (os_open manifestPath) (\<lambda>data.
      deferring os_nop (
        andThen (mapErr (Wrap ''parse backup manifest'') os_nop) (\<lambda>_.
        ret (case decodeBoundedJSON (16 * 1024 * 1024) (decodeObject backupManifestField zeroManifest) data of
           Inl e \<Rightarrow> Inl (Wrap ''parse backup manifest'' e)
         | Inr manifest \<Rightarrow>
             if bmVersion manifest \<noteq> backupFormatVersion \<or> bmVolumeID manifest = []
             then Inl (Msg ''unsupported or incomplete PassFS backup manifest'')
             else Inr (manifest, pathJoin [root, backupVaultName])))))))) }"

definition restoreStep :: "string \<Rightarrow> string \<Rightarrow> BackupFile \<Rightarrow> ('z os_scheme, unit res) state" where
  "restoreStep sourceVault staging entry =
     (case validateBackupRelativePath (bfPath entry) of
        Inl e \<Rightarrow> ret (Inl e)
      | Inr _ \<Rightarrow>
          andThen (copyBackupFile (pathJoin [sourceVault, bfPath entry]) (pathJoin [staging, bfPath entry])) (\<lambda>(digest, size).
            ret (if digest \<noteq> bfSHA256 entry \<or> size \<noteq> bfSize entry
                 then Inl (Msg ''backup checksum mismatch'') else Inr ())))"

definition fillVault :: "BackupManifest \<Rightarrow> string \<Rightarrow> string \<Rightarrow> ('z os_scheme, BackupManifest res) state" where
  "fillVault manifest sourceVault staging =
     andThen (forEach (bmFiles manifest) (restoreStep sourceVault staging)) (\<lambda>_.
     andThen (forEach [internalDirName, objectStorageDirectory]
         (\<lambda>directory. syncDirectory (pathJoin [staging, directory]))) (\<lambda>_.
     andThen (syncDirectory staging) (\<lambda>_. ret (Inr manifest))))"

definition RestoreBackup :: "string \<Rightarrow> string \<Rightarrow> ('z os_scheme, BackupManifest res) state" where
  "RestoreBackup backup dest =
     andThen (readBackupManifest backup) (\<lambda>(manifest, sourceVault). do {
       cwd \<leftarrow> gets (\<lambda>s. envCwd (osEnv s));
       (let destination = absPath cwd dest in
        if pathWithin destination (pathDir sourceVault)
        then ret (Inl (Msg ''restore destination must be outside the backup''))
        else
          andThen (mustNotExist ''restore destination already exists'' destination) (\<lambda>_.
          staged ''.passfs-restore-'' ''publish restored vault'' (pathDir destination) destination
            (fillVault manifest sourceVault))) })"

section \<open>Verifying a vault and a backup\<close>

text \<open>The volume that \<open>VerifyVault\<close> loads is the one of the state; it uses no other.\<close>

definition verifyObject ::
  "'y agekeys_scheme \<Rightarrow> Metadata \<Rightarrow> string \<Rightarrow> string \<Rightarrow> VerificationReport \<Rightarrow> ('z volume_scheme, VerificationReport res) state" where
  "verifyObject A metadata identity key report =
     andThen (mapErr (Wrap ''verify'') (decryptFileWithIdentity A key identity)) (\<lambda>data.
       let size = of_nat (length data) in
       ret (if size \<noteq> Size (mgetz zeroFileMeta (Files metadata) key)
            then Inl (Msg ''plaintext size does not match metadata size'')
            else Inr (report\<lparr>vrBytes := vrBytes report + size\<rparr>)))"

definition VerifyVault ::
  "'y agekeys_scheme \<Rightarrow> string \<Rightarrow> prompter option \<Rightarrow> int \<Rightarrow> ('z auth_scheme, VerificationReport res) state" where
  "VerifyVault A vault prompter maxFileSize =
     andThen (vaultIndexForVerification vault) (\<lambda>metadata.
     andThen (LoadVolume A vault prompter maxFileSize 0) (\<lambda>_.
     andThen (requestIdentity A \<lparr>reqPath = vault, reqOperation = ''verify'', reqPID = 0,
         reqDescription = ''Authorize verifying every encrypted file in this PassFS vault.''\<rparr>) (\<lambda>identity. do {
       volumeID \<leftarrow> gets (\<lambda>s. cfgVolumeID (vConfig s));
       (let keys = sort (map fst (Files metadata)) in
        foldRes (verifyObject A metadata identity) keys
          \<lparr>vrVolumeID = volumeID, vrFiles = int (length keys), vrBytes = 0\<rparr>) })))"

definition treeVisit :: "string \<Rightarrow> string list \<Rightarrow> string \<Rightarrow> node res \<Rightarrow> unit \<Rightarrow> ('z os_scheme, unit res) state" where
  "treeVisit vault expected path entry u =
     ret (case entry of
        Inl walkErr \<Rightarrow> Inl walkErr
      | Inr n \<Rightarrow>
          (case pathRel vault path of
             None \<Rightarrow> Inl (Msg ''Rel: cannot make path relative'')
           | Some relative \<Rightarrow>
               if relative = ''.'' then Inr ()
               else if isLinkNode n then Inl (Msg ''backup contains symbolic link'')
               else if isDirNode n then
                 (if relative \<noteq> internalDirName \<and> relative \<noteq> objectStorageDirectory
                  then Inl (Msg ''backup contains unexpected directory'') else Inr ())
               else if relative \<notin> set expected then Inl (Msg ''backup file is not covered by its manifest'')
               else Inr ()))"

definition validateBackupTree :: "string \<Rightarrow> string list \<Rightarrow> ('z os_scheme, unit res) state" where
  "validateBackupTree vault expected = walkDir vault (treeVisit vault expected) ()"

definition verifyEntry :: "string \<Rightarrow> BackupFile \<Rightarrow> string list \<Rightarrow> ('z os_scheme, string list res) state" where
  "verifyEntry vault expected seen =
     (case validateBackupRelativePath (bfPath expected) of
        Inl e \<Rightarrow> ret (Inl e)
      | Inr _ \<Rightarrow>
          if bfPath expected \<in> set seen then ret (Inl (Msg ''duplicate backup entry''))
          else andThen (hashRegularFile (pathJoin [vault, bfPath expected])) (\<lambda>(actualHash, actualSize).
            ret (if actualSize \<noteq> bfSize expected \<or> actualHash \<noteq> bfSHA256 expected
                 then Inl (Msg ''backup checksum mismatch'') else Inr (bfPath expected # seen))))"

definition VerifyBackup ::
  "'y agekeys_scheme \<Rightarrow> string \<Rightarrow> prompter option \<Rightarrow> int \<Rightarrow> ('z auth_scheme, VerificationReport res) state" where
  "VerifyBackup A backup prompter maxFileSize =
     andThen (readBackupManifest backup) (\<lambda>(manifest, vault).
     andThen (foldRes (verifyEntry vault) (bmFiles manifest) []) (\<lambda>seen.
     andThen (validateBackupTree vault seen) (\<lambda>_.
     andThen (VerifyVault A vault prompter maxFileSize) (\<lambda>report.
       ret (if vrVolumeID report \<noteq> bmVolumeID manifest
            then Inl (Msg ''backup manifest volume ID does not match the vault'') else Inr report)))))"

end
