(* ===== verification/BackupSafety.thy ===== *)
theory BackupSafety
  imports Backup
begin

text \<open>
  What backups promise. Creating and restoring one never changes an entry that exists, a success
  yields copies that match the digests of the manifest, and a vault index that passes the check
  lists exactly the stored objects.
\<close>

section \<open>Paths below a directory\<close>

definition properDir :: "string \<Rightarrow> bool" where
  "properDir d \<longleftrightarrow> cleanAbs d \<and> comps d \<noteq> []"

lemma properDir_last: "properDir d \<Longrightarrow> d \<noteq> [] \<and> last d \<noteq> slash"
  using clean_abs_last [of d] by (auto simp: properDir_def cleanAbs_def)

lemma dirSlash_proper: "properDir d \<Longrightarrow> dirSlash d = d @ [slash]"
  using properDir_last [of d] by (simp add: dirSlash_def)

lemma below_iff:
  assumes "properDir d" "cleanAbs p"
  shows "below d p \<longleftrightarrow> strict_prefix (comps d) (comps p)"
proof -
  have "below d p \<longleftrightarrow> p \<noteq> d \<and> PathWithin d p"
    using assms by (auto simp: below_def PathWithin_def dirSlash_proper hasPrefix_def Let_def cleanAbs_def properDir_def)
  moreover have "PathWithin d p \<longleftrightarrow> prefix (comps d) (comps p)"
    using assms by (intro PathWithin_iff) (simp_all add: properDir_def cleanAbs_def)
  moreover have "p = d \<longleftrightarrow> comps p = comps d"
    using assms Clean_eq_iff [of p d] by (auto simp: properDir_def cleanAbs_def)
  ultimately show ?thesis by (auto simp: strict_prefix_def)
qed

lemma validBackupPath:
  assumes "validateBackupRelativePath p = Inr ()"
  shows "descends p" "Clean p = p" "p \<noteq> []"
proof -
  have p: "\<not> isAbs p" "Clean p = p" "p \<noteq> ''..''" "\<not> prefix ''../'' p" "p \<noteq> []"
    using assms by (auto simp: validateBackupRelativePath_def hasPrefix_def split: if_splits)
  then show "descends p" "Clean p = p" "p \<noteq> []" using not_dots_descends [of p] by simp_all
qed

lemma join_descends:
  assumes "properDir d" "descends r"
  shows "properDir (pathJoin [d, r])" "comps (pathJoin [d, r]) = comps d @ comps r"
    "comps r \<noteq> [] \<Longrightarrow> pathJoin [d, r] = d @ slash # joinWith slash (comps r)"
proof -
  have d: "d \<noteq> []" "isAbs d" "Clean d = d" "comps d \<noteq> []" using assms(1) by (auto simp: properDir_def cleanAbs_def)
  note j = Join_descends [OF d(1) assms(2)]
  have c: "Clean (pathJoin [d, r]) = pathJoin [d, r]" using d(1) by (simp add: pathJoin2)
  show "comps (pathJoin [d, r]) = comps d @ comps r" "properDir (pathJoin [d, r])"
    using j c d by (simp_all add: properDir_def cleanAbs_def)
  assume "comps r \<noteq> []"
  then show "pathJoin [d, r] = d @ slash # joinWith slash (comps r)"
    using Clean_abs [of "pathJoin [d, r]"] Clean_abs [of d] c d j by (simp add: joinWith_append)
qed

section \<open>Moving a directory\<close>

lemma map_of_map_keys: "inj_on f (insert k (fst ` set xs)) \<Longrightarrow> map_of (map (\<lambda>(p, n). (f p, n)) xs) (f k) = map_of xs k"
  by (induction xs) (auto simp: inj_on_def)

text \<open>A path in the subtree of \<open>d\<close> is \<open>d\<close> and a rest.\<close>

lemma subtree_split:
  assumes "properDir d"
  shows "q = d \<or> below d q \<longleftrightarrow> (\<exists>z. q = d @ z \<and> (z = [] \<or> hd z = slash))"
  using dirSlash_proper [OF assms] by (auto simp: below_def prefix_def) (metis hd_Cons_tl list.sel(1))+

lemma relocate_inj:
  assumes "properDir old" "properDir new"
  shows "inj_on (relocate old new) {q. q \<noteq> new \<and> \<not> below new q}"
proof (rule inj_onI, simp, goal_cases)
  case (1 p q)
  have moved: "relocate old new x = new @ drop (length old) x" if "x = old \<or> below old x" for x
    using that by (auto simp: relocate_def)
  have kept: "relocate old new x = x" if "\<not> (x = old \<or> below old x)" for x
    using that by (auto simp: relocate_def)
  have target: "relocate old new x = new \<or> below new (relocate old new x)" if "x = old \<or> below old x" for x
    using that subtree_split [OF assms(1), of x] subtree_split [OF assms(2), of "relocate old new x"] moved [OF that] by auto
  show ?case
  proof (cases "p = old \<or> below old p"; cases "q = old \<or> below old q")
    assume p: "p = old \<or> below old p" and q: "q = old \<or> below old q"
    then show ?thesis using 1 moved subtree_split [OF assms(1)] by (metis append_eq_conv_conj same_append_eq)
  qed (use 1 kept target in metis)+
qed

lemma nodeAt_moveDir:
  assumes "properDir old" "properDir new" "nodeAt s old = Some (Directory i)"
    and free: "\<And>q. q = new \<or> below new q \<Longrightarrow> nodeAt s q = None"
    and q: "q \<noteq> new" "\<not> below new q"
  shows "nodeAt (moveNode old new s) (relocate old new q) = nodeAt s q"
proof -
  let ?N = "mdel new (osNodes s)"
  have dom: "fst ` set ?N \<subseteq> {q. q \<noteq> new \<and> \<not> below new q}"
    using free by (auto simp: nodeAt_def map_of_eq_None_iff mdel_def AList.delete_eq image_iff)
  then have "inj_on (relocate old new) (insert q (fst ` set ?N))"
    using q by (intro inj_on_subset [OF relocate_inj [OF assms(1,2)]]) auto
  from map_of_map_keys [OF this] show ?thesis
    using assms(3) q by (simp add: moveNode_def nodeAt_def)
qed

lemma nodeAt_moveDir_other:
  assumes "properDir old" "properDir new" "nodeAt s old = Some (Directory i)"
    and free: "\<And>q. q = new \<or> below new q \<Longrightarrow> nodeAt s q = None"
    and n: "nodeAt s q = Some n" "q \<noteq> old" "\<not> below old q"
  shows "nodeAt (moveNode old new s) q = Some n"
  using nodeAt_moveDir [OF assms(1-4), of q] n free [of q] by (auto simp: relocate_def)

section \<open>Copying a file\<close>

text \<open>A copy of \<open>source\<close>, as it was in \<open>s\<close>, with the given digest and size.\<close>

definition copied :: "'z os_scheme \<Rightarrow> 'y os_scheme \<Rightarrow> string \<Rightarrow> string \<Rightarrow> string \<Rightarrow> int \<Rightarrow> bool" where
  "copied s t source target digest len \<longleftrightarrow>
     (\<exists>i j d. nodeAt s source = Some (Regular i d) \<and> nodeAt t target = Some (Regular j d) \<and>
        digest = hexEncode (sha256 d) \<and> len = int (length d))"

definition copyScratch :: "string \<Rightarrow> string set" where
  "copyScratch target = insert target (set (ancestors (pathDir target)))"

lemma followNode_regular: "nodeAt s p = Some (Regular i d) \<Longrightarrow> followNode 40 (osNodes s) p = Inr (Regular i d)"
  by (subst followNode.simps) (simp add: nodeAt_def)

lemma isRegNode_Regular: "isRegNode n \<longleftrightarrow> (\<exists>i d. n = Regular i d)"
  by (cases n) auto

lemma copyBackupFile_wp:
  "wp (copyBackupFile source target) (\<lambda>r t. onlyCreates {} (copyScratch target) s t \<and>
     (\<forall>digest len. r = Inr (digest, len) \<longrightarrow> nodeAt s target = None \<and> copied s t source target digest len)) s"
    (is "wp _ ?Q s")
  unfolding copyBackupFile_def
proof (rule wp_andThenI, rule wp_lstatI, goal_cases)
  case (2 n)
  have fail: "?Q (Inl e) t" if "onlyCreates {} (copyScratch target) s t" for e t using that by simp
  show ?case
  proof (cases "isRegNode n")
    case True
    then obtain i d where n: "n = Regular i d" by (auto simp: isRegNode_Regular)
    have created: "wp (do {
         copyErr \<leftarrow> andThen (os_write target d) (\<lambda>_. os_nop);
         closeErr \<leftarrow> os_nop;
         ret (case errorsJoin [errOf copyErr, errOf closeErr] of
            Some e \<Rightarrow> Inl e
          | None \<Rightarrow> if length d \<noteq> length (nodeData n) then Inl (Msg m) else Inr (hexEncode (sha256 d), int (length d))) })
        (\<lambda>r. wp os_nop (\<lambda>_. ?Q r)) (putNode target (Regular k []) u)"
      if u: "onlyCreates {} (copyScratch target) s u" "nodeAt s target = None" for m k u
    proof -
      have c: "onlyCreates {} (copyScratch target) s v" if "sameExcept {target} u v" for v
        using u that unfolding onlyCreates_def sameExcept_def copyScratch_def by (metis empty_iff insert_iff)
      have ok: "copied s v source target (hexEncode (sha256 d)) (int (length d))" if "nodeAt v target = Some (Regular j d)" for j v
        using 2 n that by (auto simp: copied_def)
      show ?thesis
        unfolding wp
        by (rule wp_writeI; auto intro!: wp_nopI c ok simp: wp u(2) n split: option.splits)
    qed
    show ?thesis
      unfolding sum.case n isRegNode.simps not_True_eq_False if_False
    proof (rule wp_andThenI, rule wp_mkdirAllI, goal_cases)
      case (1 r t)
      have t: "onlyCreates {} (copyScratch target) s (tickd (tickd t))"
        using 1 by (auto simp: onlyCreates_def copyScratch_def)
      have target: "nodeAt t target = None \<Longrightarrow> nodeAt s target = None" using 1(1) [of target] by auto
      have src: "nodeAt t source = Some (Regular i d)" using 1(1) [of source] 2 n by auto
      show ?case
      proof (cases r)
        case (Inr x)
        show ?thesis
          unfolding Inr sum.case
        proof (rule wp_andThenI, rule wp_openI, goal_cases)
          case (2 n')
          then have d: "nodeData n' = d" using followNode_regular [OF src] by auto
          show ?case
            unfolding sum.case wp_deferring d
          proof (rule wp_andThenI, rule wp_createExclI, goal_cases)
            case (2 k)
            then show ?case
              unfolding sum.case by (intro created [unfolded n]) (use t target in simp_all)
          qed (use t in \<open>auto intro!: wp_nopI\<close>)
        qed (use t in simp)
      qed (use t in simp)
    qed
  qed (simp add: wp)
qed simp

section \<open>Staging a directory\<close>

text \<open>A path has one entry, and below a clean path that does not exist there is nothing.\<close>

definition treeClosed :: "'z os_scheme \<Rightarrow> bool" where
  "treeClosed s \<longleftrightarrow> mwf (osNodes s) \<and> (\<forall>p q. cleanAbs p \<longrightarrow> below p q \<longrightarrow> nodeAt s q \<noteq> None \<longrightarrow> nodeAt s p \<noteq> None)"

text \<open>Where a directory \<open>stg\<close> that is being filled in its parent \<open>P\<close> may create entries.\<close>

definition room :: "string \<Rightarrow> string \<Rightarrow> string set" where
  "room P stg = {q. q = stg \<or> below stg q} \<union> set (ancestors P)"

lemma ancestors_clean:
  assumes "cleanAbs p" "q \<in> set (ancestors p)"
  shows "cleanAbs q" "prefix (comps q) (comps p)"
proof -
  obtain ds where ds: "q = render True ds" "prefix ds (comps p)"
    using assms by (auto simp: ancestors_def cleanAbs_def)
  have "list_all proper ds"
    using ds(2) isAbs_comps_proper [of p] assms(1) by (auto simp: prefix_def cleanAbs_def)
  then have n: "normalComps True ds" using normalCompsI [of ds True 0] by simp
  then show "cleanAbs q" "prefix (comps q) (comps p)"
    using ds isAbs_render [OF n] Clean_render [OF n] by (simp_all add: cleanAbs_def)
qed

lemma in_ancestors: "cleanAbs p \<Longrightarrow> cleanAbs q \<Longrightarrow> prefix (comps q) (comps p) \<Longrightarrow> q \<in> set (ancestors p)"
  using Clean_eq [of q] by (auto simp: ancestors_def cleanAbs_def intro: image_eqI [where x = "comps q"])

lemma cleanAbs_eqI: "cleanAbs p \<Longrightarrow> cleanAbs q \<Longrightarrow> comps p = comps q \<Longrightarrow> p = q"
  using Clean_eq_iff [of p q] by (simp add: cleanAbs_def)

lemma copyScratch_room:
  assumes P: "cleanAbs P" and stg: "properDir stg" "comps stg = comps P @ [x]" and r: "descends r"
  shows "copyScratch (pathJoin [stg, r]) \<subseteq> room P stg"
proof
  fix q assume q: "q \<in> copyScratch (pathJoin [stg, r])"
  let ?t = "pathJoin [stg, r]"
  note t = join_descends(1,2) [OF stg(1) r]
  obtain cs c where c: "comps ?t = cs @ [c]" using t(1) by (metis properDir_def rev_exhaust)
  have abs: "isAbs ?t" "Clean ?t = ?t" using t(1) by (simp_all add: properDir_def cleanAbs_def)
  have dir: "cleanAbs (pathDir ?t)" "comps (pathDir ?t) = cs"
    using clean_abs_tempName [OF abs c] by (simp_all add: cleanAbs_def pathDir_def)
  have "cleanAbs q \<and> prefix (comps q) (comps ?t)"
  proof (cases "q = ?t")
    case False
    then have "q \<in> set (ancestors (pathDir ?t))" using q by (simp add: copyScratch_def)
    then show ?thesis using ancestors_clean [OF dir(1), of q] dir(2) c by (auto simp: prefix_def)
  qed (use t(1) in \<open>simp add: properDir_def\<close>)
  then have q: "cleanAbs q" "prefix (comps q) (comps stg @ comps r)" using t(2) by simp_all
  show "q \<in> room P stg"
  proof (cases "prefix (comps q) (comps P)")
    case True
    then show ?thesis using in_ancestors [OF P q(1)] by (simp add: room_def)
  next
    case False
    then have "prefix (comps stg) (comps q)"
      using q(2) stg(2) by (auto simp: prefix_append prefix_Cons)
    then have "q = stg \<or> below stg q"
      using below_iff [OF stg(1) q(1)] cleanAbs_eqI [OF q(1), of stg] stg(1) by (auto simp: strict_prefix_def properDir_def)
    then show ?thesis by (simp add: room_def)
  qed
qed

text \<open>Two entries of a directory are apart, and so is what is below them.\<close>

lemma siblings_apart:
  assumes "slash \<notin> set x" "slash \<notin> set c" "x \<noteq> []" "c \<noteq> []" "x \<noteq> c"
    and "q = tempName P x \<or> below (tempName P x) q" "q = tempName P c \<or> below (tempName P c) q"
  shows False
proof -
  have first: "takeWhile (\<lambda>a. a \<noteq> slash) (drop (length (dirSlash P)) q) = y"
    if "slash \<notin> set y" "y \<noteq> []" "q = tempName P y \<or> below (tempName P y) q" for y
    using that(3)
  proof
    assume "q = tempName P y"
    then show ?thesis using that(1) by (auto simp: tempName_def takeWhile_eq_all_conv)
  next
    assume "below (tempName P y) q"
    then show ?thesis using below_child(1) [OF that(1,2)] by (simp add: firstElem_def tempName_def)
  qed
  show False using first [of x] first [of c] assms by metis
qed

definition keepsEntries :: "'z os_scheme \<Rightarrow> 'z os_scheme \<Rightarrow> bool" where
  "keepsEntries s t \<longleftrightarrow> (\<forall>q n. nodeAt s q = Some n \<longrightarrow> nodeAt t q = Some n)"

lemma keepsEntries_creates: "onlyCreates {} C s t \<Longrightarrow> keepsEntries s t"
  by (auto simp: keepsEntries_def dest: onlyCreates_keeps)

lemma keepsEntries_tickd [simp]: "keepsEntries s (tickd t) = keepsEntries s t" "keepsEntries s s"
  by (simp_all add: keepsEntries_def)

text \<open>The staging directory is new, so that removing or renaming it touches nothing old.\<close>

lemma removed_keeps:
  "onlyCreates {} C s u \<Longrightarrow> (\<And>q. q = stg \<or> below stg q \<Longrightarrow> nodeAt s q = None) \<Longrightarrow> keepsEntries s (delTree stg (tickd u))"
  using onlyCreates_keeps [of "{}" C s u] by (auto simp: keepsEntries_def)

text \<open>The directory \<open>stg\<close> is a new entry of \<open>P\<close>, and so is \<open>dst\<close>, unless it exists.\<close>

definition fresh :: "string \<Rightarrow> string \<Rightarrow> string \<Rightarrow> 'z os_scheme \<Rightarrow> bool" where
  "fresh P x c s \<longleftrightarrow> cleanAbs P \<and> proper x \<and> proper c \<and>
     (\<forall>q. q = tempName P x \<or> below (tempName P x) q \<longrightarrow> nodeAt s q = None) \<and>
     (nodeAt s (tempName P c) = None \<longrightarrow> (\<forall>q. q = tempName P c \<or> below (tempName P c) q \<longrightarrow> nodeAt s q = None))"

lemma fresh_paths:
  assumes "fresh P x c s" "y \<in> {x, c}"
  shows "properDir (tempName P y)" "comps (tempName P y) = comps P @ [y]" "pathDir (tempName P y) = P"
  using assms tempName_clean [of P y] by (auto simp: fresh_def properDir_def cleanAbs_def)

lemma fresh_none:
  assumes "fresh P x c s"
  shows "q = tempName P x \<or> below (tempName P x) q \<Longrightarrow> nodeAt s q = None"
    "nodeAt s (tempName P c) = None \<Longrightarrow> q = tempName P c \<or> below (tempName P c) q \<Longrightarrow> nodeAt s q = None"
  using assms by (auto simp: fresh_def)

lemma destination_free:
  assumes f: "fresh P x c s" and "x \<noteq> c" and u: "onlyCreates {} (room P (tempName P x)) s u"
    and none: "nodeAt s (tempName P c) = None" and q: "q = tempName P c \<or> below (tempName P c) q"
  shows "nodeAt u q = None"
proof -
  have P: "cleanAbs P" "slash \<notin> set x" "slash \<notin> set c" "x \<noteq> []" "c \<noteq> []" using f by (auto simp: fresh_def proper_def)
  note dst = fresh_paths [OF f, of c, simplified]
  have "q \<notin> room P (tempName P x)"
  proof
    assume "q \<in> room P (tempName P x)"
    then show False
    proof (cases "q \<in> set (ancestors P)")
      case True
      note a = ancestors_clean [OF P(1) True]
      have "prefix (comps (tempName P c)) (comps q)"
        using q below_iff [OF dst(1) a(1)] by (auto simp: strict_prefix_def)
      then show False using prefix_length_le [OF a(2)] dst(2) by (auto dest: prefix_length_le)
    next
      case False
      then show ?thesis using \<open>q \<in> room P _\<close> siblings_apart [OF P(2-5) \<open>x \<noteq> c\<close> _ q] by (auto simp: room_def)
    qed
  qed
  then show ?thesis using onlyCreates_nodeAt [OF u, of q] fresh_none(2) [OF f none q] by simp
qed

text \<open>What is published: the destination has the contents of the staging directory.\<close>

definition published :: "string \<Rightarrow> string \<Rightarrow> 'z os_scheme \<Rightarrow> 'z os_scheme \<Rightarrow> bool" where
  "published stg dst u t \<longleftrightarrow> (\<forall>r. descends r \<longrightarrow> comps r \<noteq> [] \<longrightarrow> nodeAt t (pathJoin [dst, r]) = nodeAt u (pathJoin [stg, r]))"

lemma published_tickd [simp]: "published stg dst u (tickd t) = published stg dst u t" "published stg dst (tickd u) t = published stg dst u t"
  by (simp_all add: published_def)

lemma rename_published:
  assumes f: "fresh P x c s" and u: "onlyCreates {} (room P (tempName P x)) s u"
    and d: "nodeAt u (tempName P x) = Some (Directory i)" and ne: "nodeAt u (tempName P c) = None"
  shows "keepsEntries s (moveNode (tempName P x) (tempName P c) u)"
    "published (tempName P x) (tempName P c) u (moveNode (tempName P x) (tempName P c) u)"
proof -
  let ?x = "tempName P x" and ?c = "tempName P c"
  note paths = fresh_paths(1) [OF f, of x, simplified] fresh_paths(1) [OF f, of c, simplified]
  have xc: "x \<noteq> c" using d ne by auto
  have "nodeAt s ?c = None" using onlyCreates_keeps [OF u, of ?c] ne by (cases "nodeAt s ?c") auto
  note free = destination_free [OF f xc u this]
  show "keepsEntries s (moveNode ?x ?c u)"
    unfolding keepsEntries_def
  proof (intro allI impI)
    fix q n assume n: "nodeAt s q = Some n"
    then have "q \<noteq> ?x \<and> \<not> below ?x q" using fresh_none(1) [OF f, of q] by auto
    then show "nodeAt (moveNode ?x ?c u) q = Some n"
      using nodeAt_moveDir_other [OF paths d free, of q n] onlyCreates_keeps [OF u _ n] by simp
  qed
  show "published ?x ?c u (moveNode ?x ?c u)"
    unfolding published_def
  proof (intro allI impI)
    fix r assume r: "descends r" "comps r \<noteq> []"
    let ?q = "pathJoin [?x, r]"
    have q: "?q = ?x @ slash # joinWith slash (comps r)" "pathJoin [?c, r] = ?c @ slash # joinWith slash (comps r)"
      using join_descends(3) r paths by auto
    have b: "below ?x ?q" using q(1) dirSlash_proper [OF paths(1)] by (simp add: below_def)
    then have "relocate ?x ?c ?q = pathJoin [?c, r]" using q by (simp add: relocate_def below_def)
    moreover have "\<not> (?q = ?c \<or> below ?c ?q)"
      using siblings_apart [of x c ?q P] b f xc by (auto simp: fresh_def proper_def)
    ultimately show "nodeAt (moveNode ?x ?c u) (pathJoin [?c, r]) = nodeAt u ?q"
      using nodeAt_moveDir [OF paths d free, of ?q] by auto
  qed
qed

lemma publishDirectory_wp:
  assumes f: "fresh P x c s" and u: "onlyCreates {} (room P (tempName P x)) s u"
    and d: "nodeAt u (tempName P x) = Some (Directory i)"
  shows "wp (publishDirectory what (tempName P x) (tempName P c) m) (\<lambda>(committed, r) t.
    (if committed then keepsEntries s t else onlyCreates {} (room P (tempName P x)) s t) \<and>
    (\<forall>m'. r = Inr m' \<longrightarrow> committed \<and> m' = m \<and> published (tempName P x) (tempName P c) u t)) u"
  unfolding publishDirectory_def wp_bind
proof (subst renameNoReplace_def, rule wp_sysCallI, goal_cases)
  case (2 r t)
  show ?case
  proof (cases r)
    case (Inr a)
    then have ne: "nodeAt u (tempName P c) = None" and t: "t = moveNode (tempName P x) (tempName P c) (tickd u)"
      using 2 d by (auto split: option.splits)
    have "onlyCreates {} (room P (tempName P x)) s (tickd u)" "nodeAt (tickd u) (tempName P x) = Some (Directory i)"
      "nodeAt (tickd u) (tempName P c) = None" using u d ne by simp_all
    from rename_published [OF f this] show ?thesis
      unfolding Inr sum.case wp_bind by (auto simp: t wp intro!: wp_syncDirectoryI)
  next
    case (Inl e)
    then have "t = tickd u" using 2 d by (auto split: option.splits)
    then show ?thesis using Inl u by (simp add: wp)
  qed
qed (use u in \<open>simp add: wp\<close>)

lemma staged_wp:
  assumes P: "cleanAbs P" "proper c" and s: "treeClosed s" "digitNames (osEnv s)"
    and pfx: "slash \<notin> set pfx" "length pfx > 1"
    and fill: "\<And>x u i. fresh P x c s \<Longrightarrow> onlyCreates {} (room P (tempName P x)) s u \<Longrightarrow>
      nodeAt u (tempName P x) = Some (Directory i) \<Longrightarrow>
      wp (fill (tempName P x)) (\<lambda>r v. onlyCreates {} (room P (tempName P x)) s v \<and>
        nodeAt v (tempName P x) = Some (Directory i) \<and> (\<forall>m. r = Inr m \<longrightarrow> F m (tempName P x) v)) u"
  shows "wp (staged pfx what P (tempName P c) fill) (\<lambda>r t. keepsEntries s t \<and>
    (\<forall>m. r = Inr m \<longrightarrow> (\<exists>stg v. F m stg v \<and> published stg (tempName P c) v t))) s"
  unfolding staged_def
proof (rule wp_andThenI, rule wp_mkdirAllI, goal_cases)
  case (1 r t)
  have t: "onlyCreates {} (set (ancestors P)) s t" using 1 by (auto simp: onlyCreates_def)
  show ?case
  proof (cases r)
    case (Inr a)
    show ?thesis
      unfolding Inr sum.case
    proof (rule wp_andThenI, rule wp_mkdirTempI, goal_cases)
      case (2 x0 i stg)
      define x where "x = pfx @ envName (osEnv s) (osCalls t)"
      have stg: "stg = tempName P x" using 2 1(2) by (simp add: x_def)
      have px: "proper x" unfolding x_def by (rule digitNames_proper [OF s(2) pfx])
      have none: "nodeAt s (tempName P x) = None" using 2(2) onlyCreates_keeps [OF t] stg by (cases "nodeAt s stg") auto
      have clean: "cleanAbs (tempName P y)" if "proper y" for y
        using tempName_clean [of P y] P(1) that by (simp add: cleanAbs_def)
      have below: "nodeAt s q = None" if "cleanAbs p" "nodeAt s p = None" "q = p \<or> below p q" for p q
        using s(1) that by (auto simp: treeClosed_def)
      have f: "fresh P x c s"
        unfolding fresh_def using P px below [OF clean [OF px] none] below [OF clean [OF P(2)]] by auto
      let ?u = "putNode (tempName P x) (Directory i) (tickd t)"
      have u: "onlyCreates {} (room P (tempName P x)) s ?u" "nodeAt ?u (tempName P x) = Some (Directory i)"
        using t none by (auto simp: onlyCreates_def room_def)
      have drop: "keepsEntries s (delTree (tempName P x) (tickd v))" if "onlyCreates {} (room P (tempName P x)) s v" for v
        by (rule removed_keeps [OF that]) (use fresh_none(1) [OF f] in auto)
      show ?case
        unfolding sum.case stg wp_bind
      proof (rule wp_mono [OF fill [OF f u]], goal_cases)
        case (1 r v)
        show ?case
        proof (cases r)
          case (Inl e)
          then show ?thesis
            using 1 drop keepsEntries_creates by (auto simp: wp intro!: wp_removeAllI)
        next
          case (Inr m)
          then have v: "onlyCreates {} (room P (tempName P x)) s v" "nodeAt v (tempName P x) = Some (Directory i)"
            "F m (tempName P x) v" using 1 by simp_all
          show ?thesis
            unfolding Inr sum.case
          proof (rule wp_mono [OF publishDirectory_wp [OF f v(1,2)]], goal_cases)
            case (1 a w)
            obtain committed r' where a: "a = (committed, r')" by (cases a)
            show ?case
            proof (cases committed)
              case True
              then show ?thesis using 1 a v(3) by (auto simp: wp)
            next
              case False
              then have "onlyCreates {} (room P (tempName P x)) s w" "\<And>m'. r' \<noteq> Inr m'" using 1 a by auto
              then show ?thesis
                using False drop keepsEntries_creates unfolding a prod.case by (auto simp: wp intro!: wp_removeAllI)
            qed
          qed
        qed
      qed
    qed (use t in \<open>simp add: keepsEntries_creates\<close>)
  qed (use t in \<open>simp add: keepsEntries_creates\<close>)
qed

section \<open>Restoring\<close>

lemma keeps_syncing [keeps]: "keeps still (syncDirectory d)"
  unfolding syncDirectory_def by (intro keeps)

definition restored :: "'z os_scheme \<Rightarrow> 'y os_scheme \<Rightarrow> string \<Rightarrow> string \<Rightarrow> BackupFile \<Rightarrow> bool" where
  "restored s t V dir e \<longleftrightarrow> descends (bfPath e) \<and> comps (bfPath e) \<noteq> [] \<and>
     copied s t (pathJoin [V, bfPath e]) (pathJoin [dir, bfPath e]) (bfSHA256 e) (bfSize e)"

lemma restored_keeps: "restored s t V dir e \<Longrightarrow> keepsEntries t u \<Longrightarrow> restored s u V dir e"
  unfolding restored_def copied_def keepsEntries_def by blast

lemma restored_published: "restored s u V stg e \<Longrightarrow> published stg dst u t \<Longrightarrow> restored s t V dst e"
  by (simp add: restored_def copied_def published_def)

lemma onlyCreates_step: "onlyCreates {} C s t \<Longrightarrow> onlyCreates {} D t u \<Longrightarrow> D \<subseteq> C \<Longrightarrow> onlyCreates {} C s u"
  using onlyCreates_trans [of "{}" C s t "{}" D u] by (simp add: Un_absorb2)

lemma restoreStep_wp:
  assumes stg: "cleanAbs P" "properDir stg" "comps stg = comps P @ [x]"
    and src: "\<And>r. descends r \<Longrightarrow> pathJoin [V, r] \<notin> room P stg"
    and u: "onlyCreates {} (room P stg) s u" "nodeAt u stg = Some (Directory i)"
  shows "wp (restoreStep V stg e) (\<lambda>r v. onlyCreates {} (room P stg) s v \<and> keepsEntries u v \<and>
    (r = Inr () \<longrightarrow> restored s v V stg e)) u"
proof (cases "validateBackupRelativePath (bfPath e)")
  case (Inr a)
  then have p: "descends (bfPath e)" using validBackupPath by simp
  have ne: "comps (bfPath e) \<noteq> []" if "nodeAt u (pathJoin [stg, bfPath e]) = None"
  proof
    assume "comps (bfPath e) = []"
    then have "pathJoin [stg, bfPath e] = stg"
      using join_descends(1,2) [OF stg(2) p] stg(2) by (intro cleanAbs_eqI) (simp_all add: properDir_def)
    then show False using that u(2) by simp
  qed
  have same: "nodeAt u (pathJoin [V, bfPath e]) = nodeAt s (pathJoin [V, bfPath e])"
    using onlyCreates_nodeAt [OF u(1) _ src [OF p]] by simp
  show ?thesis
    unfolding restoreStep_def Inr sum.case
  proof (rule wp_andThenI, rule wp_mono [OF copyBackupFile_wp], goal_cases)
    case (1 r v)
    have v: "onlyCreates {} (room P stg) s v" "keepsEntries u v"
      using 1 onlyCreates_step [OF u(1) _ copyScratch_room [OF stg p]] keepsEntries_creates by auto
    show ?case
      using 1 v p ne same
      by (cases r) (auto simp: wp restored_def copied_def split: if_splits)
  qed
qed (use u in \<open>simp add: restoreStep_def wp\<close>)

lemma restoreLoop_wp:
  assumes stg: "cleanAbs P" "properDir stg" "comps stg = comps P @ [x]"
    and src: "\<And>r. descends r \<Longrightarrow> pathJoin [V, r] \<notin> room P stg"
    and u: "onlyCreates {} (room P stg) s u" "nodeAt u stg = Some (Directory i)"
  shows "wp (forEach es (restoreStep V stg)) (\<lambda>r v. onlyCreates {} (room P stg) s v \<and> keepsEntries u v \<and>
    (r = Inr () \<longrightarrow> (\<forall>e \<in> set es. restored s v V stg e))) u"
  using u
proof (induction es arbitrary: u)
  case (Cons e es)
  show ?case
    unfolding forEach.simps
  proof (rule wp_andThenI, rule wp_mono [OF restoreStep_wp [OF stg src Cons.prems]], goal_cases)
    case (2 r v)
    show ?case
    proof (cases r)
      case (Inr a)
      have v: "onlyCreates {} (room P stg) s v" "keepsEntries u v" "restored s v V stg e" using 2 Inr by simp_all
      then have "nodeAt v stg = Some (Directory i)" using Cons.prems(2) by (simp add: keepsEntries_def)
      then show ?thesis
        unfolding Inr sum.case
        by (rule wp_mono [OF Cons.IH [OF v(1)]])
          (use v restored_keeps in \<open>auto simp: keepsEntries_def\<close>)
    qed (use 2 in simp)
  qed
qed (simp add: wp)

lemma onlyTicks_rules:
  "onlyTicks t u \<Longrightarrow> keepsEntries s u = keepsEntries s t" "onlyTicks t u \<Longrightarrow> restored s u V d e = restored s t V d e"
  by (simp_all add: onlyTicks_def keepsEntries_def restored_def copied_def nodeAt_def)

lemma wp_ticksI: "keeps still m \<Longrightarrow> (\<And>r t. onlyTicks s t \<Longrightarrow> Q r t) \<Longrightarrow> wp m Q s"
  by (erule wp_keepsI) (simp only: still_onlyTicks)

lemma fillVault_wp:
  assumes stg: "cleanAbs P" "properDir stg" "comps stg = comps P @ [x]"
    and src: "\<And>r. descends r \<Longrightarrow> pathJoin [V, r] \<notin> room P stg"
    and u: "onlyCreates {} (room P stg) s u" "nodeAt u stg = Some (Directory i)"
  shows "wp (fillVault m V stg) (\<lambda>r v. onlyCreates {} (room P stg) s v \<and> nodeAt v stg = Some (Directory i) \<and>
    (\<forall>m'. r = Inr m' \<longrightarrow> m' = m \<and> (\<forall>e \<in> set (bmFiles m). restored s v V stg e))) u"
  unfolding fillVault_def
proof (rule wp_andThenI, rule wp_mono [OF restoreLoop_wp [OF stg src u]], goal_cases)
  case (2 r v)
  have v: "nodeAt v stg = Some (Directory i)" using 2 u(2) by (simp add: keepsEntries_def)
  show ?case
  proof (cases r)
    case (Inr a)
    show ?thesis
      unfolding Inr sum.case
    proof (rule wp_andThenI, rule wp_ticksI, intro keeps, goal_cases)
      case (1 r' w)
      show ?case
      proof (cases r')
        case (Inr b)
        show ?thesis
          unfolding Inr sum.case
          by (rule wp_andThenI, rule wp_ticksI, intro keeps)
            (use 1 2 v \<open>r = Inr a\<close> in \<open>auto simp: wp onlyTicks_onlyCreates onlyTicks_rules onlyTicks_nodeAt split: sum.splits\<close>)
      qed (use 1 2 v in \<open>simp add: onlyTicks_onlyCreates onlyTicks_nodeAt\<close>)
    qed
  qed (use 2 v in simp)
qed

text \<open>The manifest that a backup holds.\<close>

definition manifestOf :: "'z os_scheme \<Rightarrow> string \<Rightarrow> BackupManifest option" where
  "manifestOf s root =
     (case nodeAt s (pathJoin [root, backupManifestName]) of
        Some (Regular i d) \<Rightarrow>
          (case decodeBoundedJSON (16 * 1024 * 1024) (decodeObject backupManifestField zeroManifest) d of
             Inr m \<Rightarrow> if bmVersion m = backupFormatVersion \<and> bmVolumeID m \<noteq> [] then Some m else None
           | Inl _ \<Rightarrow> None)
      | _ \<Rightarrow> None)"

lemma realDirectory_wp: "wp (realDirectory d) (\<lambda>r t. onlyTicks s t \<and> (r = Inr () \<longrightarrow> (\<exists>i. nodeAt s d = Some (Directory i)))) s"
proof -
  have "isDirNode n \<longleftrightarrow> (\<exists>i. n = Directory i)" for n by (cases n) auto
  then show ?thesis unfolding realDirectory_def by (auto simp: wp intro!: wp_lstatI)
qed

lemma readBackupManifest_wp:
  assumes "cleanAbs backup"
  shows "wp (readBackupManifest backup) (\<lambda>r t. onlyTicks s t \<and> (\<forall>m V. r = Inr (m, V) \<longrightarrow>
    manifestOf s backup = Some m \<and> V = pathJoin [backup, backupVaultName] \<and> (\<exists>i. nodeAt s V = Some (Directory i)))) s"
    (is "wp _ ?Q s")
proof -
  have abs: "absPath cwd backup = backup" for cwd using assms by (simp add: absPath_def cleanAbs_def)
  have dirs: "wp (forEach [backup, pathJoin [backup, backupVaultName]] realDirectory) (\<lambda>r t. onlyTicks s t \<and>
      (r = Inr () \<longrightarrow> (\<exists>i. nodeAt s (pathJoin [backup, backupVaultName]) = Some (Directory i)))) s"
    unfolding forEach.simps
  proof (rule wp_andThenI, rule wp_mono [OF realDirectory_wp], goal_cases)
    case (1 r t)
    show ?case
    proof (cases r)
      case (Inr a)
      show ?thesis
        unfolding Inr sum.case
        by (rule wp_andThenI, rule wp_mono [OF realDirectory_wp])
          (use 1 in \<open>auto simp: wp onlyTicks_def nodeAt_def split: sum.splits\<close>)
    qed (use 1 in simp)
  qed
  have rest: "wp (andThen (os_lstat (pathJoin [backup, backupManifestName])) (\<lambda>info.
      if \<not> isRegNode info then ret (Inl (Msg ''backup manifest is not a regular file''))
      else andThen (os_open (pathJoin [backup, backupManifestName])) (\<lambda>data.
      deferring os_nop (
        andThen (mapErr (Wrap ''parse backup manifest'') os_nop) (\<lambda>_.
        ret (case decodeBoundedJSON (16 * 1024 * 1024) (decodeObject backupManifestField zeroManifest) data of
           Inl e \<Rightarrow> Inl (Wrap ''parse backup manifest'' e)
         | Inr manifest \<Rightarrow>
             if bmVersion manifest \<noteq> backupFormatVersion \<or> bmVolumeID manifest = []
             then Inl (Msg ''unsupported or incomplete PassFS backup manifest'')
             else Inr (manifest, pathJoin [backup, backupVaultName]))))))) ?Q t"
    if t: "onlyTicks s t" "\<exists>i. nodeAt s (pathJoin [backup, backupVaultName]) = Some (Directory i)" for t
  proof (rule wp_andThenI, rule wp_lstatI, goal_cases)
    case (2 n)
    show ?case
    proof (cases "isRegNode n")
      case True
      then obtain i d where n: "n = Regular i d" by (auto simp: isRegNode_Regular)
      have node: "nodeAt t (pathJoin [backup, backupManifestName]) = Some (Regular i d)" using 2 n by simp
      have s: "nodeAt s (pathJoin [backup, backupManifestName]) = Some (Regular i d)"
        using node onlyTicks_nodeAt [OF t(1)] by simp
      show ?thesis
        unfolding sum.case n isRegNode.simps not_True_eq_False if_False
        by (rule wp_andThenI, rule wp_openI)
          (use t followNode_regular [OF node] s in \<open>auto simp: wp manifestOf_def intro!: wp_nopI split: sum.splits if_splits\<close>)
    qed (use t in \<open>simp add: wp\<close>)
  qed (use t in simp)
  show ?thesis
    unfolding readBackupManifest_def Let_def wp_bind wp_gets abs
    by (rule wp_andThenI, rule wp_mono [OF dirs]) (use rest in \<open>auto split: sum.splits\<close>)
qed

text \<open>A source in the backup is not where the new vault is assembled.\<close>

lemma source_outside:
  assumes s: "fresh P x c s" and V: "properDir V" "nodeAt s V \<noteq> None" and out: "\<not> prefix (comps V) (comps P @ [c])"
    and closed: "treeClosed s" and r: "descends r"
  shows "pathJoin [V, r] \<notin> room P (tempName P x)"
proof
  let ?q = "pathJoin [V, r]" and ?stg = "tempName P x"
  assume q: "?q \<in> room P ?stg"
  note j = join_descends(1,2) [OF V(1) r]
  note stg = fresh_paths(1,2) [OF s, of x, simplified]
  have P: "cleanAbs P" using s by (simp add: fresh_def)
  have clean: "cleanAbs ?q" "cleanAbs V" "cleanAbs ?stg" using j(1) V(1) stg(1) by (simp_all add: properDir_def)
  have VP: "\<not> prefix (comps V) (comps P)" using out by auto
  have notIn: "\<not> (V = ?stg \<or> below ?stg V)" using fresh_none(1) [OF s] V(2) by auto
  show False
  proof (cases "?q \<in> set (ancestors P)")
    case True
    then have "prefix (comps V) (comps P)"
      using ancestors_clean(2) [OF P True] j(2) prefix_order.trans [of "comps V" "comps ?q"] by simp
    then show False using VP by simp
  next
    case False
    then have "?q = ?stg \<or> below ?stg ?q" using q by (simp add: room_def)
    then have "prefix (comps ?stg) (comps ?q)"
      using below_iff [OF stg(1) clean(1)] by (elim disjE) (simp_all add: strict_prefix_def)
    moreover have "prefix (comps V) (comps ?q)" using j(2) by simp
    ultimately consider "prefix (comps ?stg) (comps V)" | "prefix (comps V) (comps ?stg)"
      using prefix_same_cases by blast
    then show False
    proof cases
      case 1
      then show False using notIn below_iff [OF stg(1) clean(2)] cleanAbs_eqI [OF clean(2,3)] by (auto simp: strict_prefix_def)
    next
      case 2
      then have "comps V = comps ?stg" using VP stg(2) by simp
      then show False using notIn cleanAbs_eqI [OF clean(2,3)] by simp
    qed
  qed
qed

lemma absPath_cleanAbs: "cleanAbs p \<Longrightarrow> absPath cwd p = p"
  by (simp add: absPath_def cleanAbs_def)

lemma properDir_tempName:
  assumes "properDir d"
  obtains c where "proper c" "d = tempName (pathDir d) c" "comps d = comps (pathDir d) @ [c]" "cleanAbs (pathDir d)"
proof -
  obtain cs c where c: "comps d = cs @ [c]" using assms by (metis properDir_def rev_exhaust)
  have d: "isAbs d" "Clean d = d" using assms by (simp_all add: properDir_def cleanAbs_def)
  note t = clean_abs_tempName [OF d c]
  have "proper c" using isAbs_comps_proper [OF d(1)] c by simp
  then show thesis using that [of c] t c by (simp add: cleanAbs_def pathDir_def)
qed

lemma mustNotExist_wp: "wp (mustNotExist message d) (\<lambda>_ t. onlyTicks s t) s"
  unfolding mustNotExist_def by (rule wp_ticksI) (intro keeps, simp)

lemma keepsEntries_ticks: "onlyTicks s u \<Longrightarrow> keepsEntries u t = keepsEntries s t"
  by (simp add: onlyTicks_def keepsEntries_def nodeAt_def)

lemma restored_ticks: "onlyTicks s u \<Longrightarrow> restored u t V d e = restored s t V d e"
  by (simp add: onlyTicks_def restored_def copied_def nodeAt_def)

lemma onlyTicks_treeClosed: "onlyTicks s u \<Longrightarrow> treeClosed u = treeClosed s"
  by (simp add: onlyTicks_def treeClosed_def nodeAt_def)

lemma RestoreBackup_wp:
  assumes s: "treeClosed s" "digitNames (osEnv s)" and backup: "properDir backup" and dst: "properDir destination"
  shows "wp (RestoreBackup backup destination) (\<lambda>r t. keepsEntries s t \<and>
    (\<forall>m. r = Inr m \<longrightarrow> manifestOf s backup = Some m \<and>
       (\<forall>e \<in> set (bmFiles m). restored s t (pathJoin [backup, backupVaultName]) destination e))) s"
    (is "wp _ ?Q s")
proof -
  let ?V = "pathJoin [backup, backupVaultName]"
  have "backupVaultName = ''vault''" by (simp add: backupVaultName_def)
  then have vault: "descends backupVaultName" "comps backupVaultName = [backupVaultName]" by code_simp+
  note V = join_descends(1,2) [OF backup vault(1), unfolded vault(2)]
  have clean: "cleanAbs backup" "cleanAbs destination" using backup dst by (simp_all add: properDir_def)
  obtain c where c: "proper c" "destination = tempName (pathDir destination) c"
    "comps destination = comps (pathDir destination) @ [c]" "cleanAbs (pathDir destination)"
    by (rule properDir_tempName [OF dst])
  have dirV: "comps (pathDir ?V) = comps backup" "isAbs (pathDir ?V)"
    using clean_abs_tempName [of ?V "comps backup" backupVaultName] V by (auto simp: properDir_def cleanAbs_def)
  have assemble: "wp (staged ''.passfs-restore-'' ''publish restored vault'' (pathDir destination) destination (fillVault m ?V)) ?Q u"
    if u: "onlyTicks s u" and m: "manifestOf s backup = Some m" and node: "nodeAt s ?V \<noteq> None"
      and out: "\<not> pathWithin destination (pathDir ?V)" for u m
  proof -
    have "\<not> prefix (comps backup) (comps (pathDir destination) @ [c])"
      using out pathWithin_iff [of "pathDir ?V" destination] dirV clean(2) c(3) by (simp add: cleanAbs_def)
    then have B: "\<not> prefix (comps ?V) (comps (pathDir destination) @ [c])"
      unfolding V(2) by (metis append_prefixD)
    have u': "treeClosed u" "digitNames (osEnv u)" "nodeAt u ?V \<noteq> None"
      using s u node by (simp_all add: onlyTicks_treeClosed onlyTicks_nodeAt) (simp add: onlyTicks_def)
    have fill: "wp (fillVault m ?V (tempName (pathDir destination) x)) (\<lambda>r v.
        onlyCreates {} (room (pathDir destination) (tempName (pathDir destination) x)) u v \<and>
        nodeAt v (tempName (pathDir destination) x) = Some (Directory i) \<and> (\<forall>m'. r = Inr m' \<longrightarrow>
          m' = m \<and> (\<forall>e \<in> set (bmFiles m). restored u v ?V (tempName (pathDir destination) x) e))) w"
      if "fresh (pathDir destination) x c u" "onlyCreates {} (room (pathDir destination) (tempName (pathDir destination) x)) u w"
        "nodeAt w (tempName (pathDir destination) x) = Some (Directory i)" for x w i
      by (rule fillVault_wp [OF c(4) fresh_paths(1,2) [OF that(1)] source_outside [OF that(1) V(1) u'(3) B u'(1)] that(2,3)]) simp_all
    show ?thesis
    proof (rule wp_mono [OF staged_wp [OF c(4,1) u'(1,2) _ _ fill, folded c(2)]], goal_cases)
      case (6 r t)
      have "restored s t ?V destination e" if e: "e \<in> set (bmFiles m')" and r: "r = Inr m'" for e m'
      proof -
        obtain stg v where v: "m' = m" "\<forall>e \<in> set (bmFiles m). restored u v ?V stg e" "published stg destination v t"
          using 6 r by auto
        then have "restored s v ?V stg e" using e by (simp add: restored_ticks [OF u])
        then show ?thesis by (rule restored_published [OF _ v(3)])
      qed
      then show ?case using 6 m by (auto simp: keepsEntries_ticks [OF u])
    qed simp_all
  qed
  show ?thesis
    unfolding RestoreBackup_def
  proof (rule wp_andThenI, rule wp_mono [OF readBackupManifest_wp [OF clean(1)]], goal_cases)
    case (1 r t)
    have ticks: "keepsEntries s u" if "onlyTicks s u" for u using that keepsEntries_ticks [OF that, of u] by simp
    show ?case
    proof (cases r)
      case (Inr mV)
      obtain m V where mV: "mV = (m, V)" by (cases mV)
      then have t: "onlyTicks s t" "manifestOf s backup = Some m" "V = ?V" "nodeAt s ?V \<noteq> None" using 1 Inr by auto
      show ?thesis
        unfolding Inr sum.case mV prod.case wp_bind wp_gets absPath_cleanAbs [OF clean(2)] Let_def t(3)
      proof (rule wp_ifI, goal_cases)
        case 2
        show ?case
        proof (rule wp_andThenI, rule wp_mono [OF mustNotExist_wp], goal_cases)
          case (1 r' u)
          have "onlyTicks s u" using t(1) 1 by (simp add: onlyTicks_def)
          then show ?case using assemble [OF _ t(2,4) 2] ticks by (auto split: sum.splits)
        qed
      qed (use ticks t in \<open>simp add: wp\<close>)
    qed (use 1 ticks in simp)
  qed
qed

end
