(* ===== verification/BackupCreation.thy ===== *)
theory BackupCreation
  imports BackupSafety
begin

text \<open>
  Creating a backup: a success publishes a copy of every stored file of the vault with the manifest
  that describes it, the index having passed the check; together with restoring, this is a round trip.
\<close>

section \<open>Creating a backup\<close>

text \<open>Reading the index may create the lock file, and the tree stays closed.\<close>

lemma treeClosed_put:
  assumes "treeClosed s" "properDir p" "nodeAt s (pathDir p) \<noteq> None"
  shows "treeClosed (putNode p n s)"
proof -
  obtain c where c: "proper c" "p = tempName (pathDir p) c" "comps p = comps (pathDir p) @ [c]" "cleanAbs (pathDir p)"
    by (rule properDir_tempName [OF assms(2)])
  have clean: "cleanAbs p" using assms(2) by (simp add: properDir_def)
  have "nodeAt s d \<noteq> None" if d: "cleanAbs d" "below d p" for d
  proof (cases "comps d = []")
    case False
    then have "properDir d" using d by (simp add: properDir_def)
    then have "prefix (comps d) (comps (pathDir p))"
      using below_iff [of d p] clean d(2) c(3) by (auto simp: strict_prefix_def)
    then have "d = pathDir p \<or> below d (pathDir p)"
      using below_iff [OF \<open>properDir d\<close> c(4)] cleanAbs_eqI [OF d(1) c(4)] by (auto simp: strict_prefix_def)
    then show ?thesis using assms(1,3) d(1) by (auto simp: treeClosed_def)
  next
    case True
    then have "d = [slash]" using d(1) Clean_abs [of d] by (simp add: cleanAbs_def)
    moreover have "prefix [slash] (pathDir p)"
      using c(4) Clean_abs [of "pathDir p"] unfolding cleanAbs_def by (metis append_Cons append_Nil prefixI)
    ultimately have "d = pathDir p \<or> below d (pathDir p)" by (auto simp: below_def dirSlash_def)
    then show ?thesis using assms(1,3) d(1) by (auto simp: treeClosed_def)
  qed
  moreover have "mwf (osNodes (putNode p n s))" using assms(1) by (simp add: treeClosed_def putNode_def)
  ultimately show ?thesis using assms(1) unfolding treeClosed_def by (auto split: if_splits)
qed

lemma treeClosed_tickd [simp]: "treeClosed (tickd s) = treeClosed s"
  by (simp add: treeClosed_def)

lemma lock_closed:
  assumes "treeClosed s" "properDir p"
  shows "wp (openCoordinationLock p) (\<lambda>_ t. treeClosed t) s"
proof -
  have create: "wp (os_createExcl p mode0600) Q u" if "\<And>e. Q (Inl e) (tickd u)"
    "\<And>n. nodeAt u (pathDir p) \<noteq> None \<Longrightarrow> Q (Inr p) (putNode p n (tickd u))" for Q and u :: "'a os_scheme"
    unfolding os_createExcl_def
    by (rule wp_sysCallI) (use that in \<open>auto simp: createNode_def split: option.splits node.splits\<close>)
  have put: "treeClosed (putNode p n (tickd (tickd s)))" if "nodeAt s (pathDir p) \<noteq> None" for n
    by (rule treeClosed_put) (use assms that in simp_all)
  show ?thesis
    unfolding openCoordinationLock_def wp
    by (rule wp_openI) (use assms in \<open>auto intro!: create wp_openI put simp: wp split: sum.splits\<close>)
qed

text \<open>Where reading the index leaves the vault: the lock file may be new, nothing else is.\<close>

definition consulted :: "string \<Rightarrow> 'z os_scheme \<Rightarrow> 'z os_scheme \<Rightarrow> bool" where
  "consulted root s t \<longleftrightarrow> onlyCreates {} {lockPath root} s t \<and> treeClosed t"

lemma consulted_tickd [simp]: "consulted root s (tickd t) = consulted root s t"
  by (simp add: consulted_def)

lemma consulted_ticks: "onlyTicks t u \<Longrightarrow> consulted root s u = consulted root s t"
  by (simp add: consulted_def onlyTicks_onlyCreates onlyTicks_treeClosed)

lemma properDir_lock: "properDir root \<Longrightarrow> properDir (lockPath root)"
  unfolding lockPath_def
  using comps_pathJoin3 [of root internalDirName metadataLockFileName]
  by (simp add: properDir_def cleanAbs_def pathJoin_def proper_def internalDirName_def metadataLockFileName_def)

lemma vaultIndex_wp:
  assumes s: "treeClosed s" "properDir vault" and disk: "diskMetadata s vault = Some m"
  shows "wp (vaultIndexForVerification vault) (\<lambda>r t. consulted vault s t \<and>
    (\<forall>m'. r = Inr m' \<longrightarrow> checkVaultIndex (childNames t (pathJoin [vault, objectStorageDirectory])) m = Inr m')) s"
proof -
  have clean: "cleanAbs vault" using s(2) by (simp add: properDir_def)
  have read: "wp (withMetadataFileLock vault (readMetadata vault)) (\<lambda>r t. consulted vault s t \<and>
      (\<forall>m'. r = Inr m' \<longrightarrow> m' = m)) s"
  proof -
    have "wp (openCoordinationLock (lockPath vault)) (\<lambda>_ t. onlyCreates {} {lockPath vault} s t) s"
      by (rule wp_openCoordinationLockI) simp
    then have lock: "wp (openCoordinationLock (lockPath vault)) (\<lambda>_ t. consulted vault s t) s"
      by (rule wp_mono [OF wp_conj [OF lock_closed [OF s(1) properDir_lock [OF s(2)]]]]) (simp add: consulted_def)
    have "wp (readMetadata vault) (\<lambda>r t. wp os_nop (\<lambda>u. wp os_nop (\<lambda>c t. consulted vault s t \<and> (\<forall>m'.
        (case errorsJoin [errOf r, errOf (case u of Inl e \<Rightarrow> Inl (Wrap ''unlock metadata'' e) | Inr x \<Rightarrow> Inr x),
            errOf (case c of Inl e \<Rightarrow> Inl (Wrap ''close metadata lock'' e) | Inr x \<Rightarrow> Inr x)] of
          None \<Rightarrow> r | Some e \<Rightarrow> Inl e) = Inr m' \<longrightarrow> m' = m))) t) t" if t: "consulted vault s t" for t
    proof (rule wp_readMetadataI)
      show "diskMetadata t vault = Some m"
        using disk t onlyCreates_nodeAt [of "{}" "{lockPath vault}" s t "metadataPath vault"]
          vault_file_paths(4) [of vault] clean diskMetadata_cong [of t vault s] by (auto simp: consulted_def cleanAbs_def)
    qed (use t in \<open>auto intro!: wp_nopI split: option.splits\<close>)
    then show ?thesis
      unfolding withMetadataFileLock_def lockPath_def [symmetric] wp
      by (intro wp_mono [OF lock]) (auto intro!: wp_nopI split: sum.splits)
  qed
  show ?thesis
    unfolding vaultIndexForVerification_def Let_def wp_bind wp_gets absPath_cleanAbs [OF clean]
  proof (rule wp_andThenI, rule wp_mono [OF read], goal_cases)
    case (1 r t)
    show ?case
    proof (cases r)
      case (Inr a)
      show ?thesis
        unfolding Inr sum.case by (rule wp_andThenI, rule wp_readDirI) (use 1 Inr in \<open>simp_all add: wp\<close>)
    qed (use 1 in simp)
  qed
qed

text \<open>The entries of a directory by the paths of the tree.\<close>

lemma childNames_iff:
  assumes "mwf (osNodes s)" "properDir d"
  shows "(name, n) \<in> set (childNames s d) \<longleftrightarrow> slash \<notin> set name \<and> nodeAt s (tempName d name) = Some n"
proof -
  have ds: "dirSlash d = d @ [slash]" by (rule dirSlash_proper [OF assms(2)])
  have "(name, n) \<in> set (childNames s d) \<longleftrightarrow> (\<exists>p. (p, n) \<in> set (osNodes s) \<and> below d p \<and>
      name = drop (length (dirSlash d)) p \<and> slash \<notin> set name)"
    by (auto simp: childNames_def image_iff)
  also have "\<dots> \<longleftrightarrow> slash \<notin> set name \<and> (tempName d name, n) \<in> set (osNodes s)"
    by (auto simp: below_def tempName_def prefix_def ds)
  finally show ?thesis using assms(1) by (simp add: nodeAt_def mget_in)
qed

text \<open>The files that are copied, as paths in the vault.\<close>

definition storedPaths :: "'z os_scheme \<Rightarrow> string \<Rightarrow> string set" where
  "storedPaths s root =
     {pathJoin [internalDirName, publicConfigName], pathJoin [internalDirName, identityFileName],
      pathJoin [internalDirName, metadataFileName]} \<union>
     {pathJoin [objectStorageDirectory, name] | name n.
        slash \<notin> set name \<and> nodeAt s (tempName (pathJoin [root, objectStorageDirectory]) name) = Some n \<and>
        isBackupObject (name, n)}"

lemma isBackupObject_proper: "isBackupObject (name, n) \<Longrightarrow> slash \<notin> set name \<Longrightarrow> proper name"
proof -
  assume "isBackupObject (name, n)" "slash \<notin> set name"
  moreover from this have "length name > 2"
    by (auto simp: isBackupObject_def hasSuffix_def encryptedSuffix_def suffix_def)
  then have "name \<notin> {[], ''.'', ''..''}" by auto
  ultimately show "proper name" by (simp add: proper_def)
qed

lemma storedPaths_descend:
  assumes "p \<in> storedPaths s root"
  shows "descends p"
proof -
  have literal: "descends (pathJoin [internalDirName, publicConfigName])" "descends (pathJoin [internalDirName, identityFileName])"
    "descends (pathJoin [internalDirName, metadataFileName])" "descends objectStorageDirectory" "objectStorageDirectory \<noteq> []"
    by code_simp+
  have "descends (pathJoin [objectStorageDirectory, name])" if "isBackupObject (name, n)" "slash \<notin> set name" for name n
  proof -
    have "proper name" by (rule isBackupObject_proper [OF that])
    then have "descends name"
      using normalCompsI [of "[name]" False 0] comps_render [of False "[name]"] isAbs_render [of False "[name]"]
      by (simp add: descends_def render_def)
    then show ?thesis
      using comps_join_descends [OF literal(5), of name] literal(4,5)
      by (simp add: descends_def pathJoin2)
  qed
  then show ?thesis using assms literal by (auto simp: storedPaths_def)
qed

lemma objects_dir:
  assumes "properDir root"
  shows "properDir (pathJoin [root, objectStorageDirectory])"
    "comps (pathJoin [root, objectStorageDirectory]) = comps root @ [objectStorageDirectory]"
proof -
  have "descends objectStorageDirectory" "comps objectStorageDirectory = [objectStorageDirectory]" by code_simp+
  then show "properDir (pathJoin [root, objectStorageDirectory])"
    "comps (pathJoin [root, objectStorageDirectory]) = comps root @ [objectStorageDirectory]"
    using join_descends(1,2) [OF assms] by simp_all
qed

lemma vaultBackupPaths_wp:
  assumes "mwf (osNodes s)" "properDir root"
  shows "wp (vaultBackupPaths root) (\<lambda>r t. onlyTicks s t \<and> (\<forall>ps. r = Inr ps \<longrightarrow> set ps = storedPaths s root)) s"
  unfolding vaultBackupPaths_def
proof (rule wp_andThenI, rule wp_readDirI, goal_cases)
  case 2
  have "(\<lambda>(name, _). pathJoin [objectStorageDirectory, name]) `
      {e \<in> set (childNames s (pathJoin [root, objectStorageDirectory])). isBackupObject e} =
    {pathJoin [objectStorageDirectory, name] | name n.
        slash \<notin> set name \<and> nodeAt s (tempName (pathJoin [root, objectStorageDirectory]) name) = Some n \<and>
        isBackupObject (name, n)}"
    using childNames_iff [OF assms(1) objects_dir(1) [OF assms(2)]] by (auto simp: image_iff)
  then show ?case by (simp add: wp storedPaths_def set_insort_key)
qed simp

text \<open>Consulting the index does not change which files are stored.\<close>

lemma storedPaths_consulted:
  assumes "consulted root s t" "properDir root"
  shows "storedPaths t root = storedPaths s root"
proof -
  have "nodeAt t (tempName (pathJoin [root, objectStorageDirectory]) name) =
      nodeAt s (tempName (pathJoin [root, objectStorageDirectory]) name)"
    if "proper name" for name
  proof -
    note o = objects_dir [OF assms(2)]
    have "comps (tempName (pathJoin [root, objectStorageDirectory]) name) = comps root @ [objectStorageDirectory, name]"
      using tempName_clean(3) [OF _ _ that] o by (simp add: properDir_def cleanAbs_def)
    moreover have "comps (lockPath root) = comps root @ [internalDirName, metadataLockFileName]"
      using comps_pathJoin3(1) [of root internalDirName metadataLockFileName] assms(2)
      by (simp add: lockPath_def properDir_def cleanAbs_def proper_def internalDirName_def metadataLockFileName_def)
    ultimately have "tempName (pathJoin [root, objectStorageDirectory]) name \<noteq> lockPath root"
      by (auto simp: internalDirName_def objectStorageDirectory_def)
    then show ?thesis using assms(1) onlyCreates_nodeAt [of "{}" "{lockPath root}" s t] by (simp add: consulted_def)
  qed
  then have "slash \<notin> set name \<and> nodeAt t (tempName (pathJoin [root, objectStorageDirectory]) name) = Some n \<and> isBackupObject (name, n) \<longleftrightarrow>
      slash \<notin> set name \<and> nodeAt s (tempName (pathJoin [root, objectStorageDirectory]) name) = Some n \<and> isBackupObject (name, n)"
    for name n using isBackupObject_proper by auto
  then show ?thesis by (simp only: storedPaths_def)
qed

text \<open>A file of the manifest and its copy below \<open>vault\<close>.\<close>

definition backedUp :: "'z os_scheme \<Rightarrow> 'y os_scheme \<Rightarrow> string \<Rightarrow> string \<Rightarrow> BackupFile \<Rightarrow> bool" where
  "backedUp s t root dir e \<longleftrightarrow> descends (bfPath e) \<and>
     copied s t (pathJoin [root, bfPath e]) (pathJoin [dir, backupVaultName, bfPath e]) (bfSHA256 e) (bfSize e)"

lemma backedUp_keeps: "backedUp s t root dir e \<Longrightarrow> keepsEntries t u \<Longrightarrow> backedUp s u root dir e"
  unfolding backedUp_def copied_def keepsEntries_def by blast

lemma join_vault:
  assumes "properDir d" "descends r"
  shows "pathJoin [d, backupVaultName, r] = pathJoin [d, backupVaultName @ slash # r]" "descends (backupVaultName @ slash # r)"
    "comps (backupVaultName @ slash # r) = backupVaultName # comps r"
proof -
  have "descends backupVaultName" "comps backupVaultName = [backupVaultName]" "backupVaultName \<noteq> []" by code_simp+
  then show "comps (backupVaultName @ slash # r) = backupVaultName # comps r" "descends (backupVaultName @ slash # r)"
    using comps_join_descends [of backupVaultName r] assms(2) by (auto simp: descends_def)
  show "pathJoin [d, backupVaultName, r] = pathJoin [d, backupVaultName @ slash # r]"
    using properDir_last [OF assms(1)] by (simp add: pathJoin_def)
qed

lemma backedUp_published:
  assumes "backedUp s u root stg e" "published stg dst u t" "properDir stg" "properDir dst"
  shows "backedUp s t root dst e"
  using assms join_vault [of _ "bfPath e"] by (simp add: backedUp_def copied_def published_def)

lemma backupStep_wp:
  assumes stg: "cleanAbs P" "properDir stg" "comps stg = comps P @ [x]"
    and src: "\<And>r. descends r \<Longrightarrow> pathJoin [root, r] \<notin> room P stg" and p: "descends p"
    and u: "onlyCreates {} (room P stg) s u"
  shows "wp (backupStep root stg p m) (\<lambda>r v. onlyCreates {} (room P stg) s v \<and> keepsEntries u v \<and>
    (\<forall>m'. r = Inr m' \<longrightarrow> (\<exists>e. m' = m\<lparr>bmFiles := bmFiles m @ [e]\<rparr> \<and> bfPath e = p \<and> backedUp s v root stg e))) u"
proof -
  note j = join_vault [OF stg(2) p]
  have same: "nodeAt u (pathJoin [root, p]) = nodeAt s (pathJoin [root, p])"
    using onlyCreates_nodeAt [OF u _ src [OF p]] by simp
  show ?thesis
    unfolding backupStep_def wp_andThen
  proof (rule wp_mono [OF copyBackupFile_wp], goal_cases)
    case (1 r v)
    have v: "onlyCreates {} (room P stg) s v" "keepsEntries u v"
      using 1 onlyCreates_step [OF u _ copyScratch_room [OF stg j(2)]] keepsEntries_creates j(1) by auto
    show ?case
      using 1 v p same by (cases r) (auto simp: wp backedUp_def copied_def)
  qed
qed

lemma backupLoop_wp:
  assumes stg: "cleanAbs P" "properDir stg" "comps stg = comps P @ [x]"
    and src: "\<And>r. descends r \<Longrightarrow> pathJoin [root, r] \<notin> room P stg" and ps: "\<forall>p \<in> set ps. descends p"
    and u: "onlyCreates {} (room P stg) s u"
  shows "wp (foldRes (backupStep root stg) ps m) (\<lambda>r v. onlyCreates {} (room P stg) s v \<and> keepsEntries u v \<and>
    (\<forall>m'. r = Inr m' \<longrightarrow> (\<exists>es. m' = m\<lparr>bmFiles := bmFiles m @ es\<rparr> \<and> map bfPath es = ps \<and>
       (\<forall>e \<in> set es. backedUp s v root stg e)))) u"
  using ps u
proof (induction ps arbitrary: m u)
  case (Cons p ps)
  have p: "descends p" using Cons.prems(1) by simp
  show ?case
    unfolding foldRes.simps
  proof (rule wp_andThenI, rule wp_mono [OF backupStep_wp [OF stg src p Cons.prems(2)]], goal_cases)
    case (2 r v)
    have v: "onlyCreates {} (room P stg) s v" "keepsEntries u v" using 2 by simp_all
    show ?case
    proof (cases r)
      case (Inr m1)
      then obtain e where e: "m1 = m\<lparr>bmFiles := bmFiles m @ [e]\<rparr>" "bfPath e = p" "backedUp s v root stg e" using 2 by auto
      show ?thesis
        unfolding Inr sum.case
      proof (rule wp_mono [OF Cons.IH [OF _ v(1)]], goal_cases)
        case (2 r w)
        have w: "keepsEntries u w" using 2 v(2) by (simp add: keepsEntries_def)
        have "\<exists>es. m' = m\<lparr>bmFiles := bmFiles m @ es\<rparr> \<and> map bfPath es = p # ps \<and> (\<forall>e \<in> set es. backedUp s w root stg e)"
          if r: "r = Inr m'" for m'
        proof -
          obtain es where "m' = m1\<lparr>bmFiles := bmFiles m1 @ es\<rparr>" "map bfPath es = ps" "\<forall>e \<in> set es. backedUp s w root stg e"
            using 2 r by auto
          moreover have "backedUp s w root stg e" using 2 backedUp_keeps [OF e(3)] by simp
          ultimately show ?thesis using e(1,2) by (intro exI [of _ "e # es"]) simp
        qed
        then show ?case using 2 w by auto
      qed (use Cons.prems in simp)
    qed (use 2 in simp)
  qed
qed (simp add: wp)

text \<open>The manifest is written last, to a path that no copy uses.\<close>

lemma manifest_path:
  assumes "properDir d"
  shows "properDir (pathJoin [d, backupManifestName])" "comps (pathJoin [d, backupManifestName]) = comps d @ [backupManifestName]"
    "pathDir (pathJoin [d, backupManifestName]) = d" "descends backupManifestName" "comps backupManifestName = [backupManifestName]"
proof -
  have name: "descends backupManifestName" "comps backupManifestName = [backupManifestName]" by code_simp+
  note j = join_descends(1,2) [OF assms name(1), unfolded name(2)]
  show "descends backupManifestName" "comps backupManifestName = [backupManifestName]" by fact+
  show "properDir (pathJoin [d, backupManifestName])" "comps (pathJoin [d, backupManifestName]) = comps d @ [backupManifestName]" by fact+
  obtain c where c: "comps (pathJoin [d, backupManifestName]) = comps (pathDir (pathJoin [d, backupManifestName])) @ [c]"
    "cleanAbs (pathDir (pathJoin [d, backupManifestName]))"
    by (rule properDir_tempName [OF j(1)])
  then show "pathDir (pathJoin [d, backupManifestName]) = d"
    using j(2) assms by (intro cleanAbs_eqI) (simp_all add: properDir_def)
qed

lemma scratch_in_room:
  assumes P: "cleanAbs P" and stg: "properDir stg" "comps stg = comps P @ [x]" and pfx: "pfx \<noteq> []"
  shows "scratchPaths (pathJoin [stg, backupManifestName]) pfx \<subseteq> room P stg"
proof -
  have anc: "set (ancestors stg) \<subseteq> room P stg"
  proof
    fix q assume q: "q \<in> set (ancestors stg)"
    have stg': "cleanAbs stg" using stg(1) by (simp add: properDir_def)
    note a = ancestors_clean [OF stg' q]
    then have "comps q = comps stg \<or> prefix (comps q) (comps P)" using stg(2) by simp
    then show "q \<in> room P stg"
      using in_ancestors [OF P a(1)] cleanAbs_eqI [OF a(1) stg'] by (auto simp: room_def)
  qed
  have tmp: "tempName stg y \<in> room P stg" if "y \<noteq> []" for y
    using that dirSlash_proper [OF stg(1)] by (auto simp: room_def below_def tempName_def)
  show ?thesis using anc tmp pfx by (auto simp: scratchPaths_def manifest_path(3) [OF stg(1)])
qed

lemma onlyCreates_write:
  assumes "onlyCreates {} R s v" "onlyCreates {p} C v w" "p \<in> R" "nodeAt s p = None" "C \<subseteq> R"
  shows "onlyCreates {} R s w"
proof -
  have "nodeAt w q = nodeAt s q \<or> nodeAt s q = None \<and> q \<in> R" for q
  proof (cases "q = p")
    case False
    then have "nodeAt w q = nodeAt v q \<or> nodeAt v q = None \<and> q \<in> C" using assms(2) by (simp add: onlyCreates_def)
    moreover have "nodeAt v q = nodeAt s q \<or> nodeAt s q = None \<and> q \<in> R" using assms(1) by (simp add: onlyCreates_def)
    ultimately show ?thesis using assms(5) by auto
  qed (use assms in simp)
  then show ?thesis using assms(1,2) by (simp add: onlyCreates_def)
qed

lemma backedUp_write:
  assumes e: "backedUp s v root stg e" and stg: "properDir stg" and w: "onlyCreates {pathJoin [stg, backupManifestName]} C v w"
  shows "backedUp s w root stg e"
proof -
  have r: "descends (bfPath e)" using e by (simp add: backedUp_def)
  have "backupVaultName \<noteq> backupManifestName" by (simp add: backupVaultName_def backupManifestName_def)
  then have "comps (pathJoin [stg, backupVaultName, bfPath e]) \<noteq> comps (pathJoin [stg, backupManifestName])"
    using join_vault [OF stg r] join_descends(2) [OF stg] manifest_path(2) [OF stg] by simp
  then have "pathJoin [stg, backupVaultName, bfPath e] \<noteq> pathJoin [stg, backupManifestName]" by metis
  then show ?thesis
    using e onlyCreates_keeps [OF w] unfolding backedUp_def copied_def by blast
qed

text \<open>What the staging directory holds when it is published.\<close>

definition filledBackup :: "'z os_scheme \<Rightarrow> string \<Rightarrow> PublicConfig \<Rightarrow> string list \<Rightarrow> BackupManifest \<Rightarrow> string \<Rightarrow> 'z os_scheme \<Rightarrow> bool" where
  "filledBackup s root public paths m dir t \<longleftrightarrow>
     bmVersion m = backupFormatVersion \<and> bmVolumeID m = cfgVolumeID public \<and> map bfPath (bmFiles m) = paths \<and>
     (\<forall>e \<in> set (bmFiles m). backedUp s t root dir e) \<and>
     (\<exists>i. nodeAt t (pathJoin [dir, backupManifestName]) = Some (Regular i (jsonDocument (encodeManifest m))))"

lemma filledBackup_ticks: "onlyTicks t u \<Longrightarrow> filledBackup s root public paths m dir u = filledBackup s root public paths m dir t"
  by (simp add: onlyTicks_def filledBackup_def backedUp_def copied_def nodeAt_def)

lemma fillBackup_wp:
  assumes stg: "cleanAbs P" "properDir stg" "comps stg = comps P @ [x]"
    and src: "\<And>r. descends r \<Longrightarrow> pathJoin [root, r] \<notin> room P stg" and ps: "\<forall>p \<in> set paths. descends p"
    and none: "\<And>q. q = stg \<or> below stg q \<Longrightarrow> nodeAt s q = None"
    and u: "onlyCreates {} (room P stg) s u" "nodeAt u stg = Some (Directory i)"
  shows "wp (fillBackup root public paths stg) (\<lambda>r v. onlyCreates {} (room P stg) s v \<and> nodeAt v stg = Some (Directory i) \<and>
    (\<forall>m. r = Inr m \<longrightarrow> filledBackup s root public paths m stg v)) u"
proof -
  let ?path = "pathJoin [stg, backupManifestName]"
  note mp = manifest_path [OF stg(2)]
  have path: "?path \<in> room P stg" "?path \<noteq> stg" "nodeAt s ?path = None"
  proof -
    have "below stg ?path" using below_iff [OF stg(2), of ?path] mp(1,2) by (auto simp: properDir_def strict_prefix_def)
    then show "?path \<in> room P stg" "?path \<noteq> stg" "nodeAt s ?path = None" using none by (auto simp: room_def below_def)
  qed
  have doc: "wp (WriteJSONFileAtomic ?path j mode) (\<lambda>r w. onlyCreates {?path} (scratchPaths ?path ''.passfs-config-'') v w \<and>
      (r = Inr () \<longrightarrow> (\<exists>i. nodeAt w ?path = Some (Regular i (jsonDocument j))))) v" for j mode and v :: "'a os_scheme"
    unfolding WriteJSONFileAtomic_def
    by (rule wp_mono [OF WriteFileAtomic_wp [of ?path "comps stg" backupManifestName]])
      (use mp(1,2) in \<open>auto simp: atomicWrite_def holdsFile_def properDir_def cleanAbs_def backupManifestName_def\<close>)
  define Q where "Q r v \<longleftrightarrow> onlyCreates {} (room P stg) s v \<and> nodeAt v stg = Some (Directory i) \<and>
    (\<forall>m. r = Inr m \<longrightarrow> filledBackup s root public paths m stg v)" for r :: "BackupManifest res" and v :: "'a os_scheme"
  have ticks: "Q r v \<Longrightarrow> onlyTicks v w \<Longrightarrow> Q r w" "Q r v \<Longrightarrow> Q (Inl e) v" for r v w e
    by (simp_all add: Q_def onlyTicks_onlyCreates onlyTicks_nodeAt filledBackup_ticks)
  have syncs: "wp (andThen (forEach ds (\<lambda>d. syncDirectory (pathJoin [stg, d]))) (\<lambda>_. andThen (syncDirectory stg) (\<lambda>_. ret (Inr m)))) Q v"
    if "Q (Inr m) v" for m v ds
  proof -
    have res: "wp (andThen (forEach ds (\<lambda>d. syncDirectory (pathJoin [stg, d]))) (\<lambda>_. andThen (syncDirectory stg) (\<lambda>_. ret (Inr m))))
        (\<lambda>r t. \<forall>m'. r = Inr m' \<longrightarrow> m' = m) v"
      by (auto simp: wp intro!: wp_anyI split: sum.splits)
    show ?thesis
      by (rule wp_mono [OF wp_conj [OF res wp_ticksI [where Q = "\<lambda>_. onlyTicks v"]]])
        (auto intro!: keeps, metis sumE ticks that)
  qed
  have tu: "onlyCreates {} (room P stg) s (tickd u)" using u(1) by simp
  have "wp (fillBackup root public paths stg) Q u"
    unfolding fillBackup_def wp_bind wp_timeNow
  proof (rule wp_andThenI, rule wp_mono [OF backupLoop_wp [OF stg src ps tu]], goal_cases)
    case (2 r v)
    then have v: "onlyCreates {} (room P stg) s v" "nodeAt v stg = Some (Directory i)"
      using u(2) by (simp_all add: keepsEntries_def)
    show ?case
    proof (cases r)
      case (Inr m)
      then have m: "bmVersion m = backupFormatVersion" "bmVolumeID m = cfgVolumeID public" "map bfPath (bmFiles m) = paths"
        "\<forall>e \<in> set (bmFiles m). backedUp s v root stg e" using 2 by auto
      show ?thesis
        unfolding Inr sum.case
      proof (rule wp_andThenI, rule wp_mono [OF doc], goal_cases)
        case (1 r w)
        have w: "onlyCreates {} (room P stg) s w" "nodeAt w stg = Some (Directory i)"
          using onlyCreates_write [OF v(1) _ path(1,3) scratch_in_room [OF stg]] onlyCreates_keeps [of "{?path}" _ v w stg] 1 v(2) path(2)
          by auto
        have "\<forall>e \<in> set (bmFiles m). backedUp s w root stg e" using m(4) backedUp_write [OF _ stg(2)] 1 by blast
        then have filled: "Q (Inr m) w" if "r = Inr ()" using w m(1-3) 1 that by (simp add: Q_def filledBackup_def)
        show ?case
        proof (cases r)
          case (Inr a)
          show ?thesis unfolding Inr sum.case by (rule syncs [OF filled]) (simp add: Inr)
        qed (use w in \<open>simp add: Q_def\<close>)
      qed
    qed (use v in \<open>simp add: Q_def\<close>)
  qed simp
  then show ?thesis by (simp add: Q_def [abs_def])
qed

lemma keeps_loadPublic [keeps]: "keeps still (loadPublicConfig root)"
  unfolding loadPublicConfig_def os_readFile_def by (intro keeps)

lemma vaultIndex_consulted:
  assumes "treeClosed s" "properDir vault" "diskMetadata s vault = Some m0" "onlyTicks s t"
  shows "wp (vaultIndexForVerification vault) (\<lambda>_ u. consulted vault s u) t"
proof (rule wp_mono [OF vaultIndex_wp [OF _ assms(2)]])
  show "treeClosed t" "diskMetadata t vault = Some m0"
    using assms diskMetadata_cong [of t vault s] by (simp_all add: onlyTicks_treeClosed onlyTicks_nodeAt)
  show "consulted vault t u \<and> X \<Longrightarrow> consulted vault s u" for u X
    using assms(4) by (simp add: consulted_def onlyTicks_def onlyCreates_def nodeAt_def)
qed

text \<open>A published backup, in terms of the vault at the start.\<close>

definition backupOf :: "'z os_scheme \<Rightarrow> string \<Rightarrow> BackupManifest \<Rightarrow> string \<Rightarrow> 'z os_scheme \<Rightarrow> bool" where
  "backupOf s vault m dir t \<longleftrightarrow>
     bmVersion m = backupFormatVersion \<and> bmVolumeID m \<noteq> [] \<and> set (map bfPath (bmFiles m)) = storedPaths s vault \<and>
     (\<forall>e \<in> set (bmFiles m). backedUp s t vault dir e) \<and>
     (\<exists>i. nodeAt t (pathJoin [dir, backupManifestName]) = Some (Regular i (jsonDocument (encodeManifest m))))"

lemma consulted_keeps: "consulted root s t \<Longrightarrow> keepsEntries s t"
  by (auto simp: consulted_def intro: keepsEntries_creates)

lemma keepsEntries_trans: "keepsEntries s t \<Longrightarrow> keepsEntries t u \<Longrightarrow> keepsEntries s u"
  by (simp add: keepsEntries_def)

text \<open>No stored file is the lock file, so the copies are those of the vault at the start.\<close>

lemma stored_not_lock:
  assumes "properDir root" "p \<in> storedPaths s root"
  shows "pathJoin [root, p] \<noteq> lockPath root"
proof -
  have lit: "comps (pathJoin [internalDirName, publicConfigName]) = [internalDirName, publicConfigName]"
    "comps (pathJoin [internalDirName, identityFileName]) = [internalDirName, identityFileName]"
    "comps (pathJoin [internalDirName, metadataFileName]) = [internalDirName, metadataFileName]"
    "comps objectStorageDirectory = [objectStorageDirectory]" "descends objectStorageDirectory" "objectStorageDirectory \<noteq> []"
    "metadataLockFileName \<notin> {publicConfigName, identityFileName, metadataFileName}" "objectStorageDirectory \<noteq> internalDirName"
    by code_simp+
  have lock: "comps (lockPath root) = comps root @ [internalDirName, metadataLockFileName]"
    using comps_pathJoin3(1) [of root internalDirName metadataLockFileName] assms(1)
    by (simp add: lockPath_def properDir_def cleanAbs_def proper_def internalDirName_def metadataLockFileName_def)
  have "comps p \<noteq> [internalDirName, metadataLockFileName]"
  proof (cases "\<exists>name n. p = pathJoin [objectStorageDirectory, name] \<and> isBackupObject (name, n) \<and> slash \<notin> set name")
    case True
    then obtain name where p: "p = pathJoin [objectStorageDirectory, name]" "proper name" using isBackupObject_proper by blast
    then have "descends name"
      using normalCompsI [of "[name]" False 0] comps_render [of False "[name]"] isAbs_render [of False "[name]"]
      by (simp add: descends_def render_def)
    then have "comps p = objectStorageDirectory # comps name"
      using p(1) comps_join_descends [OF lit(6), of name] lit(4,6) by (simp add: pathJoin2)
    then show ?thesis using lit(8) by simp
  next
    case False
    then show ?thesis using assms(2) lit(1-3,7) by (auto simp: storedPaths_def)
  qed
  moreover have "comps (pathJoin [root, p]) = comps root @ comps p"
    using join_descends(2) [OF assms(1) storedPaths_descend [OF assms(2)]] .
  ultimately show ?thesis using lock by auto
qed

lemma backedUp_start:
  assumes "backedUp u t root dir e" "consulted root s u" "properDir root" "bfPath e \<in> storedPaths s root"
  shows "backedUp s t root dir e"
proof -
  have "nodeAt u (pathJoin [root, bfPath e]) = nodeAt s (pathJoin [root, bfPath e])"
    using onlyCreates_nodeAt [of "{}" "{lockPath root}" s u "pathJoin [root, bfPath e]"] stored_not_lock [OF assms(3,4)] assms(2)
    by (simp add: consulted_def)
  then show ?thesis using assms(1) by (simp add: backedUp_def copied_def)
qed

lemma storedPaths_list:
  "map bfPath (bmFiles m) = paths \<Longrightarrow> e \<in> set (bmFiles m) \<Longrightarrow> bfPath e \<in> set paths"
  by auto

lemma assembleBackup_wp:
  assumes s: "consulted vault s u" "digitNames (osEnv s)" and vault: "properDir vault" "nodeAt s vault \<noteq> None"
    and dst: "properDir destination" and out: "\<not> pathWithin destination vault"
    and paths: "set paths = storedPaths s vault" and public: "cfgVolumeID public \<noteq> []"
  shows "wp (staged ''.passfs-backup-'' ''publish backup'' (pathDir destination) destination (fillBackup vault public paths))
    (\<lambda>r t. keepsEntries s t \<and> (\<forall>m. r = Inr m \<longrightarrow> backupOf s vault m destination t)) u"
proof -
  obtain c where c: "proper c" "destination = tempName (pathDir destination) c"
    "comps destination = comps (pathDir destination) @ [c]" "cleanAbs (pathDir destination)"
    by (rule properDir_tempName [OF dst])
  let ?P = "pathDir destination"
  have u: "treeClosed u" "digitNames (osEnv u)" "nodeAt u vault \<noteq> None"
    using s vault(2) consulted_keeps [OF s(1)] by (auto simp: consulted_def onlyCreates_def keepsEntries_def)
  have B: "\<not> prefix (comps vault) (comps ?P @ [c])"
    using out pathWithin_iff [of vault destination] vault(1) dst c(3) by (simp add: properDir_def cleanAbs_def)
  have descend: "\<forall>p \<in> set paths. descends p" using paths storedPaths_descend by blast
  have fill: "wp (fillBackup vault public paths (tempName ?P x)) (\<lambda>r v.
      onlyCreates {} (room ?P (tempName ?P x)) u v \<and> nodeAt v (tempName ?P x) = Some (Directory i) \<and>
      (\<forall>m. r = Inr m \<longrightarrow> properDir (tempName ?P x) \<and> filledBackup u vault public paths m (tempName ?P x) v)) w"
    if "fresh ?P x c u" "onlyCreates {} (room ?P (tempName ?P x)) u w" "nodeAt w (tempName ?P x) = Some (Directory i)" for x w i
  proof -
    note stg = fresh_paths(1,2) [OF that(1), of x, simplified]
    show ?thesis
      by (rule wp_mono [OF fillBackup_wp [OF c(4) stg source_outside [OF that(1) vault(1) u(3) B u(1)] descend
            fresh_none(1) [OF that(1)] that(2,3)]]) (use stg in simp_all)
  qed
  show ?thesis
  proof (rule wp_mono [OF staged_wp [OF c(4,1) u(1,2) _ _ fill, folded c(2)]], goal_cases)
    case (6 r t)
    have "backupOf s vault m destination t" if r: "r = Inr m" for m
    proof -
      obtain stg v where v: "properDir stg" "filledBackup u vault public paths m stg v" "published stg destination v t"
        using 6 r by blast
      then have m: "bmVersion m = backupFormatVersion" "bmVolumeID m = cfgVolumeID public" "map bfPath (bmFiles m) = paths"
        "\<forall>e \<in> set (bmFiles m). backedUp u v vault stg e"
        "\<exists>i. nodeAt v (pathJoin [stg, backupManifestName]) = Some (Regular i (jsonDocument (encodeManifest m)))"
        by (auto simp: filledBackup_def)
      have "backedUp s t vault destination e" if "e \<in> set (bmFiles m)" for e
        using backedUp_start [OF backedUp_published [OF _ v(3,1) dst] s(1) vault(1)] m(4) that
          storedPaths_list [OF m(3) that] paths by simp
      moreover have "nodeAt t (pathJoin [destination, backupManifestName]) = nodeAt v (pathJoin [stg, backupManifestName])"
        using v(3) manifest_path(4,5) [OF dst] by (simp add: published_def)
      ultimately show ?thesis using m(1-3,5) paths public by (simp add: backupOf_def)
    qed
    then show ?case using 6 keepsEntries_trans [OF consulted_keeps [OF s(1)]] by blast
  qed simp_all
qed

lemma CreateBackup_wp:
  assumes s: "treeClosed s" "digitNames (osEnv s)" "diskMetadata s vault = Some m0"
    and vault: "properDir vault" and dst: "properDir destination"
  shows "wp (CreateBackup vault destination) (\<lambda>r t. keepsEntries s t \<and>
    (\<forall>m. r = Inr m \<longrightarrow> backupOf s vault m destination t)) s"
    (is "wp _ ?Q s")
proof -
  have clean: "cleanAbs vault" "cleanAbs destination" using vault dst by (simp_all add: properDir_def)
  have fail: "?Q (Inl e) t" if "consulted vault s t \<or> onlyTicks s t" for e t
    using that consulted_keeps keepsEntries_ticks [of s t t] by auto
  have node: "nodeAt s vault \<noteq> None"
  proof -
    have "nodeAt s (metadataPath vault) \<noteq> None" using s(3) by (auto simp: diskMetadata_def split: option.splits)
    moreover have "below vault (metadataPath vault)"
      using below_iff [OF vault, of "metadataPath vault"] vault_file_paths(1-3) [of vault] clean(1)
      by (auto simp: cleanAbs_def strict_prefix_def)
    ultimately show ?thesis using s(1) clean(1) by (auto simp: treeClosed_def)
  qed
  have assemble: "wp (andThen (vaultBackupPaths vault) (\<lambda>paths. staged ''.passfs-backup-'' ''publish backup'' (pathDir destination)
      destination (fillBackup vault public paths))) ?Q u"
    if u: "consulted vault s u" and "\<not> pathWithin destination vault" "cfgVolumeID public \<noteq> []" for u public
  proof -
    have "mwf (osNodes u)" using u by (simp add: consulted_def treeClosed_def)
    show ?thesis
    proof (rule wp_andThenI, rule wp_mono [OF vaultBackupPaths_wp [OF \<open>mwf (osNodes u)\<close> vault]], goal_cases)
      case (1 r v)
      then have v: "consulted vault s v" using u consulted_ticks by blast
      show ?case
      proof (cases r)
        case (Inr paths)
        then have "set paths = storedPaths s vault" using 1 storedPaths_consulted [OF u vault] by simp
        then show ?thesis
          unfolding Inr sum.case by (rule assembleBackup_wp [OF v s(2) vault node dst that(2) _ that(3)])
      qed (use v fail in simp)
    qed
  qed
  show ?thesis
    unfolding CreateBackup_def Let_def wp_bind wp_gets absPath_cleanAbs [OF clean(1)] absPath_cleanAbs [OF clean(2)]
  proof (rule wp_andThenI, rule wp_mono [OF mustNotExist_wp], goal_cases)
    case (1 r t)
    show ?case
    proof (cases r)
      case (Inr a)
      show ?thesis
        unfolding Inr sum.case
      proof (rule wp_ifI, goal_cases)
        case out: 2
        have pub: "wp (loadPublicConfig vault) (\<lambda>r v. onlyTicks t v \<and> (\<forall>c. r = Inr c \<longrightarrow> cfgVolumeID c \<noteq> [])) t"
          by (rule wp_mono [OF wp_conj [OF wp_ticksI [where Q = "\<lambda>_. onlyTicks t"]
                loadPublicConfig_valid [unfolded results_def, rule_format]]])
            (auto intro: keeps)
        show ?case
        proof (rule wp_andThenI, rule wp_mono [OF pub], goal_cases)
          case (1 r v)
          then have v: "onlyTicks s v" using \<open>onlyTicks s t\<close> by (simp add: onlyTicks_def)
          show ?case
          proof (cases r)
            case (Inr public)
            show ?thesis
              unfolding Inr sum.case wp_andThen wp_mapErr
              by (rule wp_mono [OF vaultIndex_consulted [OF s(1) vault s(3) v]])
                (use fail assemble [OF _ out] 1 Inr in \<open>auto simp: wp_andThen split: sum.splits\<close>)
          qed (use v fail in simp)
        qed
      qed (use 1 fail in \<open>simp add: wp\<close>)
    qed (use 1 fail in simp)
  qed
qed

end
