(* ===== verification/BackupRoundTrip.thy ===== *)
theory BackupRoundTrip
  imports BackupCreation
begin

text \<open>
  What backup.go promises: restoring copies only what the manifest describes, with the digests and
  the sizes that it lists, creating a backup copies every stored file, the manifest is read back as
  it was written, and so a backup that is restored is the vault again. No entry that existed before
  is changed by either, whichever call fails.
\<close>

section \<open>The manifest is read back\<close>

definition okBackupFile :: "BackupFile \<Rightarrow> bool" where
  "okBackupFile f \<longleftrightarrow> validUtf8 (bfPath f) \<and> in64 (bfSize f) \<and> validUtf8 (bfSHA256 f)"

definition okManifest :: "BackupManifest \<Rightarrow> bool" where
  "okManifest m \<longleftrightarrow> in64 (bmVersion m) \<and> in64 (bmCreated m) \<and> validUtf8 (bmVolumeID m) \<and> list_all okBackupFile (bmFiles m)"

lemma decode_encodeBackupFile:
  "okBackupFile f \<Longrightarrow> decodeObject backupFileField zeroBackupFile (encodeBackupFile f) = Inr f"
  by (cases f) (simp add: decodeObject_def encodeBackupFile_def backupFileField_def fields okBackupFile_def zeroBackupFile_def)

lemma decodeElements_encode:
  "(\<And>x. x \<in> set xs \<Longrightarrow> dec z (enc x) = Inr x) \<Longrightarrow> decodeElements dec z [] (map enc xs) = Inr xs"
  by (induction xs) simp_all

lemma decode_encodeManifest:
  assumes "okManifest m"
  shows "decodeObject backupManifestField zeroManifest (encodeManifest m) = Inr m"
proof -
  have "decodeElements (decodeObject backupFileField) zeroBackupFile [] (map encodeBackupFile (bmFiles m)) = Inr (bmFiles m)"
    by (rule decodeElements_encode)
      (use assms in \<open>auto simp: okManifest_def list_all_iff intro: decode_encodeBackupFile\<close>)
  then show ?thesis
    using assms
    by (simp add: decodeObject_def encodeManifest_def backupManifestField_def fields okManifest_def zeroManifest_def decodeSlice_def)
qed

lemma wfJson_encodeManifest:
  assumes "okManifest m"
  shows "wfJson 10000 (encodeManifest m)"
proof -
  have tags: "validUtf8 ''sha256''" "validUtf8 ''createdUnixNano''" "validUtf8 ''volumeID''" by code_simp+
  then have "wfJson 9998 (encodeBackupFile f)" if "okBackupFile f" for f
    using that by (simp add: encodeBackupFile_def okBackupFile_def)
  then show ?thesis using assms tags by (auto simp: encodeManifest_def okManifest_def list_all_iff)
qed

lemma decode_manifestDocument:
  assumes "okManifest m" "int (length (jsonDocument (encodeManifest m))) \<le> maximum"
  shows "decodeBoundedJSON maximum (decodeObject backupManifestField zeroManifest) (jsonDocument (encodeManifest m)) = Inr m"
  using assms parseJson_printJson [OF wfJson_encodeManifest [OF assms(1)]] decode_encodeManifest [OF assms(1)]
  by (simp add: decodeBoundedJSON_def jsonDocument_def)

section \<open>Restoring\<close>


section \<open>Creating\<close>

text \<open>
  C36. A backup is complete: when \<open>CreateBackup\<close> succeeds, the files of the manifest are exactly the
  three files of the vault's internal directory and its stored objects, the backup holds each of them
  with the bytes that the vault had and the digest and size that the manifest lists, and it holds the
  manifest. Whatever call fails, no entry that existed before is removed or changed: the vault is only
  read, apart from its lock file.
\<close>

theorem CreateBackup_complete:
  assumes s: "treeClosed s" "digitNames (osEnv s)" "diskMetadata s vault = Some m0"
    and paths: "properDir vault" "properDir destination"
    and run: "run_state (CreateBackup vault destination) s = (r, t)"
  shows "(\<forall>q n. nodeAt s q = Some n \<longrightarrow> nodeAt t q = Some n) \<and>
    (\<forall>m. r = Inr m \<longrightarrow> bmVersion m = backupFormatVersion \<and> set (map bfPath (bmFiles m)) = storedPaths s vault \<and>
       (\<forall>e \<in> set (bmFiles m). \<exists>i j d. nodeAt s (pathJoin [vault, bfPath e]) = Some (Regular i d) \<and>
          nodeAt t (pathJoin [destination, backupVaultName, bfPath e]) = Some (Regular j d) \<and>
          bfSHA256 e = hexEncode (sha256 d) \<and> bfSize e = int (length d)) \<and>
       (\<exists>i. nodeAt t (pathJoin [destination, backupManifestName]) = Some (Regular i (jsonDocument (encodeManifest m)))))"
  using wpD [OF CreateBackup_wp [OF s paths] run]
  by (simp add: keepsEntries_def backupOf_def backedUp_def copied_def)

section \<open>The round trip\<close>

lemma backup_manifest:
  assumes "backupOf s vault m dir t" "okManifest m" "int (length (jsonDocument (encodeManifest m))) \<le> 16 * 1024 * 1024"
  shows "manifestOf t dir = Some m"
  using assms decode_manifestDocument [OF assms(2,3)] by (auto simp: backupOf_def manifestOf_def)

lemma in_backup:
  assumes "properDir d"
  shows "below d (pathJoin [d, backupManifestName])"
    "descends r \<Longrightarrow> pathJoin [pathJoin [d, backupVaultName], r] = pathJoin [d, backupVaultName, r]"
    "descends r \<Longrightarrow> below d (pathJoin [d, backupVaultName, r])"
proof -
  show "below d (pathJoin [d, backupManifestName])"
    using manifest_path(1,2) [OF assms] below_iff [OF assms] by (simp add: properDir_def strict_prefix_def)
  assume r: "descends r"
  have v: "descends backupVaultName" "comps backupVaultName = [backupVaultName]" by code_simp+
  note V = join_descends(1,2) [OF assms v(1)]
  note j = join_vault [OF assms r]
  note J = join_descends(1,2) [OF assms j(2)]
  show "pathJoin [pathJoin [d, backupVaultName], r] = pathJoin [d, backupVaultName, r]"
    using join_descends(1,2) [OF V(1) r] J V(2) v(2) j(1,3)
    by (intro cleanAbs_eqI) (simp_all add: properDir_def)
  show "below d (pathJoin [d, backupVaultName, r])"
    using J j(1,3) below_iff [OF assms] by (simp add: properDir_def strict_prefix_def)
qed

text \<open>
  C37. A backup that is restored is the vault: when \<open>CreateBackup\<close> succeeds and \<open>RestoreBackup\<close> succeeds
  later, in any state that has the backup as it was published, the restored vault holds every stored
  file of the vault (its configuration, its identity, its index and every object) with the same bytes,
  and it reports the manifest that was created. The manifest has to be one that JSON can hold (its volume and its paths are UTF-8, its
  numbers fit their type) within the sixteen megabytes that are read.
\<close>

theorem backup_roundtrip:
  assumes s: "treeClosed s" "digitNames (osEnv s)" "diskMetadata s vault = Some m0"
    and paths: "properDir vault" "properDir backup" "properDir destination"
    and create: "run_state (CreateBackup vault backup) s = (Inr m, t)"
    and manifest: "okManifest m" "int (length (jsonDocument (encodeManifest m))) \<le> 16 * 1024 * 1024"
    and later: "treeClosed t'" "digitNames (osEnv t')" "\<And>q. below backup q \<Longrightarrow> nodeAt t' q = nodeAt t q"
    and restore: "run_state (RestoreBackup backup destination) t' = (Inr m', u)"
  shows "m' = m \<and> (\<forall>p \<in> storedPaths s vault. \<exists>i j d.
    nodeAt s (pathJoin [vault, p]) = Some (Regular i d) \<and> nodeAt u (pathJoin [destination, p]) = Some (Regular j d))"
proof -
  have b: "backupOf s vault m backup t" using wpD [OF CreateBackup_wp [OF s paths(1,2)] create] by simp
  have r: "manifestOf t' backup = Some m'"
    "\<forall>e \<in> set (bmFiles m'). restored t' u (pathJoin [backup, backupVaultName]) destination e"
    using wpD [OF RestoreBackup_wp [OF later(1,2) paths(2,3)] restore] by simp_all
  have "manifestOf t' backup = manifestOf t backup"
    using later(3) in_backup(1) [OF paths(2)] by (simp add: manifestOf_def)
  then have m: "m' = m" using r(1) backup_manifest [OF b manifest] by simp
  have "\<exists>i j d. nodeAt s (pathJoin [vault, p]) = Some (Regular i d) \<and> nodeAt u (pathJoin [destination, p]) = Some (Regular j d)"
    if "p \<in> storedPaths s vault" for p
  proof -
    have "p \<in> bfPath ` set (bmFiles m)" using b that by (simp add: backupOf_def)
    then obtain e where e: "e \<in> set (bmFiles m)" "bfPath e = p" by auto
    then have "backedUp s t vault backup e" "restored t' u (pathJoin [backup, backupVaultName]) destination e"
      using b r(2) m by (auto simp: backupOf_def)
    moreover have "pathJoin [pathJoin [backup, backupVaultName], p] = pathJoin [backup, backupVaultName, p]"
      "nodeAt t' (pathJoin [backup, backupVaultName, p]) = nodeAt t (pathJoin [backup, backupVaultName, p])"
      using in_backup(2,3) [OF paths(2) storedPaths_descend [OF that]] later(3) by simp_all
    ultimately show ?thesis using e(2) by (auto simp: backedUp_def restored_def copied_def)
  qed
  then show ?thesis using m by blast
qed

end
