(* ===== verification/BackupVerify.thy ===== *)
theory BackupVerify
  imports BackupRoundTrip
begin

text \<open>
  Verifying a backup (backup.go \<open>VerifyBackup\<close>): a backup that is accepted holds what its manifest
  lists, with the listed digests, and nothing else.
\<close>

section \<open>The listed files\<close>

definition listed :: "'z os_scheme \<Rightarrow> string \<Rightarrow> BackupFile \<Rightarrow> bool" where
  "listed s vault e \<longleftrightarrow> descends (bfPath e) \<and>
     (\<exists>i d. nodeAt s (pathJoin [vault, bfPath e]) = Some (Regular i d) \<and>
        bfSHA256 e = hexEncode (sha256 d) \<and> bfSize e = int (length d))"

lemma listed_ticks: "onlyTicks s t \<Longrightarrow> listed t = listed s"
  by (simp add: listed_def fun_eq_iff onlyTicks_nodeAt)

lemma hashRegularFile_wp:
  "wp (hashRegularFile p) (\<lambda>r t. onlyTicks s t \<and> (\<forall>h n. r = Inr (h, n) \<longrightarrow>
     (\<exists>i d. nodeAt s p = Some (Regular i d) \<and> h = hexEncode (sha256 d) \<and> n = int (length d)))) s"
  unfolding hashRegularFile_def
proof (rule wp_andThenI, rule wp_lstatI, goal_cases)
  case (2 n)
  show ?case
  proof (cases "isRegNode n")
    case True
    then obtain i d where n: "n = Regular i d" by (auto simp: isRegNode_Regular)
    show ?thesis
      unfolding sum.case n isRegNode.simps not_True_eq_False if_False
      by (rule wp_andThenI, rule wp_openI)
        (use 2 followNode_regular [of "tickd s" p i d] in \<open>auto simp: n wp_deferring wp_andThen wp intro!: wp_nopI\<close>)
  qed (simp add: wp)
qed simp

lemma verifyEntry_wp:
  "wp (verifyEntry vault e seen) (\<lambda>r t. onlyTicks s t \<and> (\<forall>seen'. r = Inr seen' \<longrightarrow>
     seen' = bfPath e # seen \<and> bfPath e \<notin> set seen \<and> listed s vault e)) s"
proof (cases "validateBackupRelativePath (bfPath e)")
  case (Inr a)
  then have "descends (bfPath e)" using validBackupPath(1) [of "bfPath e"] by simp
  show ?thesis
    unfolding verifyEntry_def Inr sum.case
  proof (rule wp_ifI, goal_cases)
    case 2
    show ?case
      by (rule wp_andThenI, rule wp_mono [OF hashRegularFile_wp])
        (use 2 \<open>descends (bfPath e)\<close> in \<open>auto simp: wp listed_def split: sum.splits\<close>)
  qed (simp add: wp)
qed (simp add: verifyEntry_def wp)

lemma verifyEntries_wp:
  "wp (foldRes (verifyEntry vault) es seen) (\<lambda>r t. onlyTicks s t \<and> (\<forall>seen'. r = Inr seen' \<longrightarrow>
     set seen' = bfPath ` set es \<union> set seen \<and> (distinct seen \<longrightarrow> distinct (map bfPath es)) \<and>
     bfPath ` set es \<inter> set seen = {} \<and> (\<forall>e \<in> set es. listed s vault e))) s"
proof (induction es arbitrary: seen s)
  case (Cons e es)
  show ?case
    unfolding foldRes.simps
  proof (rule wp_andThenI, rule wp_mono [OF verifyEntry_wp], goal_cases)
    case (1 r t)
    show ?case
    proof (cases r)
      case (Inr b)
      then have b: "onlyTicks s t" "b = bfPath e # seen" "bfPath e \<notin> set seen" "listed s vault e" using 1 by auto
      show ?thesis
        unfolding Inr sum.case
        by (rule wp_mono [OF Cons.IH [of b t]])
          (use b onlyTicks_trans [OF b(1)] in \<open>auto simp: listed_ticks [OF b(1)]\<close>)
    qed (use 1 in simp)
  qed
qed (simp add: wp)

section \<open>The tree\<close>

text \<open>What the callback of the walk accepts.\<close>

definition accepts :: "string \<Rightarrow> string list \<Rightarrow> string \<Rightarrow> node \<Rightarrow> bool" where
  "accepts vault ex path n \<longleftrightarrow>
     (\<exists>relative. pathRel vault path = Some relative \<and>
        (relative = ''.'' \<or>
         isDirNode n \<and> relative \<in> {internalDirName, objectStorageDirectory} \<or> isRegNode n \<and> relative \<in> set ex))"

lemma treeVisit_wp: "wp (treeVisit vault ex path (Inr n) u) (\<lambda>r t. t = s \<and> (r = Inr () \<longrightarrow> accepts vault ex path n)) s"
  by (cases n) (auto simp: treeVisit_def wp accepts_def split: option.splits)

lemma treeVisit_fails: "treeVisit vault ex path (Inl e) u = ret (Inl e)"
  by (simp add: treeVisit_def)

text \<open>The entries that the walk visits, to a depth.\<close>

fun covered :: "'z os_scheme \<Rightarrow> string \<Rightarrow> string list \<Rightarrow> nat \<Rightarrow> string \<Rightarrow> node \<Rightarrow> bool" where
  "covered s vault ex 0 path n = accepts vault ex path n"
| "covered s vault ex (Suc k) path n =
     (accepts vault ex path n \<and>
      (isDirNode n \<longrightarrow> (\<forall>(c, m) \<in> set (childNames s path). covered s vault ex k (pathJoin [path, c]) m)))"

lemma childNames_ticks: "onlyTicks s t \<Longrightarrow> childNames t = childNames s"
  by (simp add: fun_eq_iff childNames_def onlyTicks_def)

lemma covered_ticks: "onlyTicks s t \<Longrightarrow> covered t vault ex k path n = covered s vault ex k path n"
  by (induction k arbitrary: path n) (auto simp: childNames_ticks)

lemma walkEntries_covered:
  assumes "\<And>path n u s. wp (walkEntry k (treeVisit vault ex) path n u) (\<lambda>r t. onlyTicks s t \<and>
    (r = Inr () \<longrightarrow> covered s vault ex k path n)) (s :: 'z os_scheme)"
  shows "wp (walkEntries k (treeVisit vault ex) path es u) (\<lambda>r t. onlyTicks s t \<and>
    (r = Inr () \<longrightarrow> (\<forall>(c, m) \<in> set es. covered s vault ex k (pathJoin [path, c]) m))) (s :: 'z os_scheme)"
proof (induction es arbitrary: u s)
  case (Cons x es)
  obtain c m where x: "x = (c, m)" by (cases x)
  show ?case
    unfolding x walkEntry.simps walkEntries.simps
  proof (rule wp_andThenI, rule wp_mono [OF assms], goal_cases)
    case (1 r t)
    show ?case
    proof (cases r)
      case (Inr b)
      then have t: "onlyTicks s t" "covered s vault ex k (pathJoin [path, c]) m" using 1 by auto
      show ?thesis
        unfolding Inr sum.case
        by (rule wp_mono [OF Cons.IH [of b t]]) (use t onlyTicks_trans [OF t(1)] in \<open>auto simp: covered_ticks [OF t(1)]\<close>)
    qed (use 1 in simp)
  qed
qed (simp add: wp)

lemma walkEntry_covered:
  "wp (walkEntry k (treeVisit vault ex) path n u) (\<lambda>r t. onlyTicks s t \<and> (r = Inr () \<longrightarrow> covered s vault ex k path n)) s"
proof (induction k arbitrary: path n u s)
  case (Suc k)
  show ?case
    unfolding walkEntry.simps walkEntries.simps
  proof (rule wp_andThenI, rule wp_mono [OF treeVisit_wp], goal_cases)
    case (1 r t)
    show ?case
    proof (cases r)
      case (Inr b)
      then have t: "t = s" "accepts vault ex path n" using 1 by auto
      show ?thesis
        unfolding Inr sum.case t(1)
      proof (rule wp_ifI, goal_cases)
        case 2
        have tick: "onlyTicks s (tickd s)" by simp
        show ?case
          unfolding wp_bind
        proof (rule wp_readDirI, goal_cases)
          case 2
          show ?case
            unfolding sum.case
            by (rule wp_mono [OF walkEntries_covered [OF Suc.IH]])
              (use t onlyTicks_trans [OF tick] in \<open>auto simp: covered_ticks [OF tick]\<close>)
        qed (simp add: treeVisit_fails wp)
      qed (use t in \<open>simp add: wp\<close>)
    qed (use 1 in simp)
  qed
next
  case 0
  show ?case unfolding walkEntry.simps by (rule wp_mono [OF treeVisit_wp]) auto
qed


lemma validateBackupTree_wp:
  "wp (validateBackupTree vault ex) (\<lambda>r t. onlyTicks s t \<and> (r = Inr () \<longrightarrow>
     (\<forall>i. nodeAt s vault = Some (Directory i) \<longrightarrow> covered s vault ex (length (osNodes s)) vault (Directory i)))) s"
  unfolding validateBackupTree_def walkDir_def wp_bind
proof (rule wp_lstatI, goal_cases)
  case (2 n)
  have tick: "onlyTicks s (tickd s)" by simp
  show ?case
    unfolding wp_gets sum.case
    by (rule wp_mono [OF walkEntry_covered]) (use 2 onlyTicks_trans [OF tick] in \<open>auto simp: covered_ticks [OF tick]\<close>)
qed (simp add: wp treeVisit_fails)

lemma stripCommon_append: "stripCommon xs (xs @ ys) = ([], ys)"
  by (induction xs) simp_all

lemma pathRel_join:
  assumes "properDir d" "descends r" "comps r \<noteq> []"
  shows "pathRel d (pathJoin [d, r]) = Some (joinWith slash (comps r))"
proof -
  note j = join_descends(1,2) [OF assms(1,2)]
  have d: "Clean d = d" "isAbs d" using assms(1) by (simp_all add: properDir_def cleanAbs_def)
  have p: "Clean (pathJoin [d, r]) = pathJoin [d, r]" "isAbs (pathJoin [d, r])" using j(1) by (simp_all add: properDir_def cleanAbs_def)
  have "pathJoin [d, r] \<noteq> d" using j(2) assms(3) by auto
  then show ?thesis
    using d p j(2) by (simp add: pathRel_def relParts_def stripCommon_append)
qed

lemma proper_comps: "proper c \<Longrightarrow> comps c = [c] \<and> descends c"
  using normalCompsI [of "[c]" False 0] comps_render [of False "[c]"] isAbs_render [of False "[c]"]
  by (simp add: descends_def render_def)

lemma child_path:
  assumes "properDir d" "proper c"
  shows "pathJoin [d, c] = tempName d c" "properDir (pathJoin [d, c])"
  using join_descends [OF assms(1), of c] proper_comps [OF assms(2)] dirSlash_proper [OF assms(1)]
  by (simp_all add: tempName_def)

lemma covered_child:
  assumes s: "mwf (osNodes s)" and d: "properDir d" "nodeAt s d = Some (Directory i)"
    and k: "covered s vault ex (Suc k) d (Directory i)" and c: "proper c" "nodeAt s (pathJoin [d, c]) = Some n"
  shows "covered s vault ex k (pathJoin [d, c]) n"
proof -
  have "(c, n) \<in> set (childNames s d)"
    using childNames_iff [OF s d(1), of c n] c child_path(1) [OF d(1) c(1)] by (simp add: proper_def)
  then show ?thesis using k by fastforce
qed

lemma covered_accepts: "covered s vault ex k path n \<Longrightarrow> accepts vault ex path n"
  by (cases k) simp_all

lemma nodes_at_least:
  assumes "P \<subseteq> {p. nodeAt s p \<noteq> None}"
  shows "card P \<le> length (osNodes s)"
proof -
  have "P \<subseteq> fst ` set (osNodes s)" using assms by (force simp: nodeAt_def dest: map_of_SomeD)
  then have "card P \<le> card (fst ` set (osNodes s))" by (simp add: card_mono)
  also have "\<dots> \<le> length (osNodes s)" by (metis card_length length_map set_map)
  finally show ?thesis .
qed

text \<open>A walk that succeeds has seen both levels of the vault in the backup.\<close>

lemma covered_levels:
  assumes s: "mwf (osNodes s)" and V: "properDir V" "nodeAt s V = Some (Directory i)"
    and k: "covered s V ex (length (osNodes s)) V (Directory i)"
  shows "proper c \<Longrightarrow> nodeAt s (pathJoin [V, c]) = Some n \<Longrightarrow>
      isDirNode n \<and> c \<in> {internalDirName, objectStorageDirectory} \<or> isRegNode n \<and> c \<in> set ex"
    "proper c \<Longrightarrow> nodeAt s (pathJoin [V, c]) = Some (Directory j) \<Longrightarrow> proper x \<Longrightarrow>
      nodeAt s (pathJoin [V, c, x]) = Some n \<Longrightarrow> isRegNode n \<and> c @ slash # x \<in> set ex"
proof -
  obtain k' where k': "length (osNodes s) = Suc k'" using V(2) by (cases "osNodes s") (auto simp: nodeAt_def)
  have one: "covered s V ex k' (pathJoin [V, c]) n" if "proper c" "nodeAt s (pathJoin [V, c]) = Some n" for n
    by (rule covered_child [OF s V _ that]) (use k k' in simp)
  have rel: "pathRel V (pathJoin [V, c]) = Some c" if "proper c"
    using pathRel_join [OF V(1), of c] proper_comps [OF that] by simp
  have dot: "c \<noteq> ''.''" if "proper c" using that by (simp add: proper_def)
  show "proper c \<Longrightarrow> nodeAt s (pathJoin [V, c]) = Some n \<Longrightarrow>
      isDirNode n \<and> c \<in> {internalDirName, objectStorageDirectory} \<or> isRegNode n \<and> c \<in> set ex"
    using covered_accepts [OF one] rel dot by (auto simp: accepts_def)
  assume c: "proper c" "nodeAt s (pathJoin [V, c]) = Some (Directory j)" and x: "proper x" "nodeAt s (pathJoin [V, c, x]) = Some n"
  note C = child_path [OF V(1) c(1)]
  have r: "comps (c @ slash # x) = [c, x]" "descends (c @ slash # x)"
    using comps_join_descends [of c x] proper_comps [OF c(1)] proper_comps [OF x(1)] c(1)
    by (auto simp: descends_def proper_def)
  have path: "pathJoin [V, c, x] = pathJoin [V, c @ slash # x]"
    using V(1) c(1) x(1) by (simp add: pathJoin_def proper_def)
  have split: "pathJoin [V, c @ slash # x] = pathJoin [pathJoin [V, c], x]"
    using join_descends(1,2) [OF V(1) r(2)] join_descends(1,2) [OF C(2), of x] join_descends(2) [OF V(1), of c]
      proper_comps [OF c(1)] proper_comps [OF x(1)] r(1)
    by (intro cleanAbs_eqI) (simp_all add: properDir_def)
  have "card {V, pathJoin [V, c], pathJoin [V, c, x]} \<le> length (osNodes s)"
    by (rule nodes_at_least) (use V c x in auto)
  moreover have "V \<noteq> pathJoin [V, c]" "V \<noteq> pathJoin [V, c, x]" "pathJoin [V, c] \<noteq> pathJoin [V, c, x]"
    using join_descends(2) [OF V(1) r(2)] join_descends(2) [OF V(1), of c] proper_comps [OF c(1)] r(1) path by auto
  ultimately obtain k'' where k'': "k' = Suc k''" using k' by (cases k') auto
  have "covered s V ex k'' (pathJoin [pathJoin [V, c], x]) n"
    by (rule covered_child [OF s C(2) c(2) _ x(1)]) (use one [OF c] k'' x(2) path split in simp_all)
  then have "accepts V ex (pathJoin [V, c @ slash # x]) n" using covered_accepts split by simp
  moreover have "pathRel V (pathJoin [V, c @ slash # x]) = Some (c @ slash # x)"
    using pathRel_join [OF V(1) r(2)] r(1) by simp
  moreover have "slash \<notin> set ''.''" "slash \<notin> set internalDirName" "slash \<notin> set objectStorageDirectory" by code_simp+
  then have "c @ slash # x \<noteq> ''.''" "c @ slash # x \<notin> {internalDirName, objectStorageDirectory}" by (metis in_set_conv_decomp insertE singletonD)+
  ultimately show "isRegNode n \<and> c @ slash # x \<in> set ex" by (auto simp: accepts_def)
qed

section \<open>Verifying\<close>

definition verified :: "'z os_scheme \<Rightarrow> string \<Rightarrow> BackupManifest \<Rightarrow> bool" where
  "verified s vault m \<longleftrightarrow> distinct (map bfPath (bmFiles m)) \<and> (\<forall>e \<in> set (bmFiles m). listed s vault e) \<and>
     (\<forall>c n. proper c \<longrightarrow> nodeAt s (pathJoin [vault, c]) = Some n \<longrightarrow>
        isDirNode n \<and> c \<in> {internalDirName, objectStorageDirectory} \<or> isRegNode n \<and> c \<in> bfPath ` set (bmFiles m)) \<and>
     (\<forall>c i x n. proper c \<longrightarrow> nodeAt s (pathJoin [vault, c]) = Some (Directory i) \<longrightarrow> proper x \<longrightarrow>
        nodeAt s (pathJoin [vault, c, x]) = Some n \<longrightarrow> isRegNode n \<and> c @ slash # x \<in> bfPath ` set (bmFiles m))"

lemma VerifyBackup_wp:
  assumes s: "mwf (osNodes s)" and backup: "properDir backup"
  shows "wp (VerifyBackup A backup prompter maxFileSize) (\<lambda>r t. \<forall>report. r = Inr report \<longrightarrow>
    (\<exists>m. manifestOf s backup = Some m \<and> vrVolumeID report = bmVolumeID m \<and> verified s (pathJoin [backup, backupVaultName]) m)) s"
    (is "wp _ ?Q s")
proof -
  let ?V = "pathJoin [backup, backupVaultName]"
  have clean: "cleanAbs backup" using backup by (simp add: properDir_def)
  have name: "proper backupVaultName" by code_simp
  note V = child_path(2) [OF backup name]
  show ?thesis
    unfolding VerifyBackup_def
  proof (rule wp_andThenI, rule wp_mono [OF readBackupManifest_wp [OF clean]], goal_cases)
    case (1 r t)
    show ?case
    proof (cases r)
      case (Inr mV)
      obtain m V where mV: "mV = (m, V)" by (cases mV)
      then have "onlyTicks s t \<and> manifestOf s backup = Some m \<and> V = ?V \<and> (\<exists>i. nodeAt s V = Some (Directory i))"
        using 1 Inr by auto
      then obtain i where t: "onlyTicks s t" "manifestOf s backup = Some m" "V = ?V" "nodeAt s ?V = Some (Directory i)" by blast
      show ?thesis
        unfolding Inr sum.case mV prod.case t(3)
      proof (rule wp_andThenI, rule wp_mono [OF verifyEntries_wp], goal_cases)
        case (1 r u)
        show ?case
        proof (cases r)
          case (Inr seen)
          then have u: "onlyTicks s u" "set seen = bfPath ` set (bmFiles m)" "distinct (map bfPath (bmFiles m))"
            "\<forall>e \<in> set (bmFiles m). listed s ?V e"
            using 1 onlyTicks_trans [OF t(1)] listed_ticks [OF t(1)] by auto
          show ?thesis
            unfolding Inr sum.case
          proof (rule wp_andThenI, rule wp_mono [OF validateBackupTree_wp], goal_cases)
            case (1 r v)
            show ?case
            proof (cases r)
              case (Inr x)
              have "covered u ?V seen (length (osNodes u)) ?V (Directory i)" using 1 Inr t(4) onlyTicks_nodeAt [OF u(1)] by simp
              then have "covered s ?V seen (length (osNodes s)) ?V (Directory i)"
                using covered_ticks [OF u(1)] u(1) by (simp add: onlyTicks_def)
              from covered_levels [OF s V t(4) this] have "verified s ?V m"
                unfolding verified_def u(2) [symmetric] using u(3,4) by blast
              then show ?thesis
                unfolding Inr sum.case wp_andThen by (intro wp_anyI) (auto simp: wp t(2) split: sum.splits)
            qed simp
          qed
        qed simp
      qed
    qed simp
  qed
qed


text \<open>
  So a backup in which the index was read under its lock is refused: reading it creates
  \<open>metadata.lock\<close> in the backup, which no manifest lists, and \<open>VerifyBackup\<close> itself reads it.
\<close>

theorem VerifyBackup_refuses_lock:
  assumes s: "treeClosed s" and backup: "properDir backup"
    and m: "manifestOf s backup = Some m" "internalDirName @ slash # metadataLockFileName \<notin> bfPath ` set (bmFiles m)"
    and lock: "nodeAt s (pathJoin [pathJoin [backup, backupVaultName], internalDirName]) = Some (Directory i)"
      "nodeAt s (pathJoin [pathJoin [backup, backupVaultName], internalDirName, metadataLockFileName]) = Some n"
    and run: "run_state (VerifyBackup A backup prompter maxFileSize) s = (r, t)"
  shows "\<exists>e. r = Inl e"
proof (cases r)
  case (Inr report)
  have p: "proper internalDirName" "proper metadataLockFileName" by code_simp+
  have "mwf (osNodes s)" using s by (simp add: treeClosed_def)
  from wpD [OF VerifyBackup_wp [OF this backup] run] Inr m(1)
  have "verified s (pathJoin [backup, backupVaultName]) m" by simp
  then have False using p lock m(2) unfolding verified_def by blast
  then show ?thesis ..
qed simp

end
