(* ===== verification/BackupDemo.thy ===== *)
theory BackupDemo
  imports BackupVerify "HOL-Library.Code_Target_Nat"
begin

text \<open>
  A vault with one object, its backup and the restored vault: the properties of BackupRoundTrip at
  a concrete input. The runs are evaluated with the digests and the printed manifest as they stand
  (\<open>sha256\<close>, \<open>hexEncode\<close> and \<open>jsonDocument\<close> have no code equation here); the digests that restoring
  compares are then the same terms.
\<close>

section \<open>A closed tree\<close>

definition treeCheck :: "'z os_scheme \<Rightarrow> bool" where
  "treeCheck s \<longleftrightarrow> distinct (map fst (osNodes s)) \<and>
     list_all (\<lambda>(q, _). cleanAbs q \<and> list_all (\<lambda>p. nodeAt s p \<noteq> None) (ancestors q)) (osNodes s)"

lemma treeCheck_closed:
  assumes "treeCheck s"
  shows "treeClosed s"
proof -
  have "nodeAt s p \<noteq> None" if p: "cleanAbs p" "below p q" and q: "nodeAt s q \<noteq> None" for p q
  proof -
    obtain n where "(q, n) \<in> set (osNodes s)" using q by (auto simp: nodeAt_def dest: map_of_SomeD)
    then have c: "cleanAbs q" "\<forall>x \<in> set (ancestors q). nodeAt s x \<noteq> None"
      using assms by (auto simp: treeCheck_def list_all_iff)
    have "prefix (comps p) (comps q)"
    proof (cases "comps p = []")
      case False
      then show ?thesis using below_iff [of p q] p c(1) by (simp add: properDir_def strict_prefix_def)
    qed simp
    then show ?thesis using in_ancestors [OF c(1) p(1)] c(2) by blast
  qed
  then show ?thesis using assms by (auto simp: treeClosed_def treeCheck_def mwf_def)
qed

section \<open>The vault and its backup\<close>

definition demoConfig :: bytes where
  "demoConfig = strBytes ''{\"version\":1,\"volumeId\":\"v\",\"recipient\":\"r\"}''"

definition demoIndex :: bytes where
  "demoIndex = strBytes ''{\"version\":3,\"files\":{\"objects/00000000-0000-4000-8000-000000000000\":{}}}''"

definition demoArchived :: os where
  "demoArchived = \<lparr>osNodes = [(''/'', dirNode), (''/v'', dirNode), (''/v/.passfs'', dirNode), (''/v/objects'', dirNode),
     (''/v/.passfs/config.json'', fileNode demoConfig), (''/v/.passfs/identity.age'', fileNode [1]),
     (''/v/.passfs/metadata.json'', fileNode demoIndex),
     (''/v/objects/00000000-0000-4000-8000-000000000000.age'', fileNode [2])], osCalls = 0, osEnv = calmEnv\<rparr>"

definition backupEntry :: "string \<Rightarrow> bytes \<Rightarrow> BackupFile" where
  "backupEntry p d = \<lparr>bfPath = p, bfSize = int (length d), bfSHA256 = hexEncode (sha256 d)\<rparr>"

definition demoListing :: BackupManifest where
  "demoListing = \<lparr>bmVersion = 1, bmCreated = 14, bmVolumeID = ''v'', bmFiles =
     [backupEntry ''.passfs/config.json'' demoConfig, backupEntry ''.passfs/identity.age'' [1],
      backupEntry ''.passfs/metadata.json'' demoIndex,
      backupEntry ''objects/00000000-0000-4000-8000-000000000000.age'' [2]]\<rparr>"

definition madeDir :: "nat \<Rightarrow> node" where "madeDir i = Directory (freshInfo calmEnv i mode0700)"
definition madeFile :: "nat \<Rightarrow> int \<Rightarrow> bytes \<Rightarrow> node" where
  "madeFile i written d = Regular ((freshInfo calmEnv i mode0600)\<lparr>fi_mtime := written\<rparr>) d"

definition demoBackup :: os where
  "demoBackup = \<lparr>osNodes = osNodes demoArchived @
     [(''/v/.passfs/metadata.lock'', Regular (freshInfo calmEnv 4 mode0600) []),
      (''/b'', madeDir 13), (''/b/vault'', madeDir 16), (''/b/vault/.passfs'', madeDir 16),
      (''/b/vault/.passfs/config.json'', madeFile 18 19 demoConfig),
      (''/b/vault/.passfs/identity.age'', madeFile 26 27 [1]),
      (''/b/vault/.passfs/metadata.json'', madeFile 34 35 demoIndex),
      (''/b/vault/objects'', madeDir 40),
      (''/b/vault/objects/00000000-0000-4000-8000-000000000000.age'', madeFile 42 43 [2]),
      (''/b/passfs-backup.json'', madeFile 48 50 (jsonDocument (encodeManifest demoListing)))],
     osCalls = 0, osEnv = calmEnv\<rparr>"

lemma demo_index: "\<exists>m. diskMetadata demoArchived ''/v'' = Some m"
proof -
  have "case diskMetadata demoArchived ''/v'' of None \<Rightarrow> False | Some _ \<Rightarrow> True" by code_simp
  then show ?thesis by (simp split: option.splits)
qed

lemma demo_paths: "properDir ''/v''" "properDir ''/b''" "properDir ''/n''"
  by code_simp+

lemma demo_digits: "digitNames (osEnv demoArchived)" "digitNames (osEnv demoBackup)"
  by (simp_all add: demoArchived_def demoBackup_def calmEnv_def digitNames_def)

lemma demo_lengths: "length demoConfig = 44" "length demoIndex = 73"
  by code_simp+

lemma demo_joins: "absPath ''/'' ''/b'' = ''/b''" "absPath ''/'' ''/n'' = ''/n''"
  "pathJoin [''/b'', backupManifestName] = ''/b/passfs-backup.json''" "pathJoin [''/b'', backupVaultName] = ''/b/vault''"
  "pathDir ''/n'' = ''/''" "\<not> pathWithin ''/n'' (pathDir ''/b/vault'')"
  "pathJoin [''/b/vault'', ''objects/00000000-0000-4000-8000-000000000000.age''] =
     ''/b/vault/objects/00000000-0000-4000-8000-000000000000.age''"
  "pathJoin [''/b'', backupVaultName, ''objects/00000000-0000-4000-8000-000000000000.age''] =
     ''/b/vault/objects/00000000-0000-4000-8000-000000000000.age''"
  "pathJoin [''/v'', ''objects/00000000-0000-4000-8000-000000000000.age''] = ''/v/objects/00000000-0000-4000-8000-000000000000.age''"
  by code_simp+

text \<open>The manifest is short and printable, whatever the digests are.\<close>

lemma demo_plain: "list_all plainChar (hexEncode d)" "list_all plainChar ''v''"
  "list_all plainChar ''.passfs/config.json''" "list_all plainChar ''.passfs/identity.age''" "list_all plainChar ''.passfs/metadata.json''"
  "list_all plainChar ''objects/00000000-0000-4000-8000-000000000000.age''"
  "list_all plainChar ''version''" "list_all plainChar ''createdUnixNano''" "list_all plainChar ''volumeID''"
  "list_all plainChar ''files''" "list_all plainChar ''path''" "list_all plainChar ''size''" "list_all plainChar ''sha256''"
  by (rule hexEncode_plain, code_simp+)

lemma demo_manifest_ok: "okManifest demoListing"
  using demo_plain plain_string(1)
  by (simp add: okManifest_def okBackupFile_def demoListing_def backupEntry_def demo_lengths in64_def)

lemma demo_numbers: "length (showNat (Suc 0)) = 1" "length (showNat 14) = 2" "length (showNat 44) = 2" "length (showNat 73) = 2"
  by code_simp+

lemma demo_manifest_size: "length (jsonDocument (encodeManifest demoListing)) \<le> 10000"
  using plain_string(2) [OF demo_plain(1)] plain_string(2) demo_plain(2-)
  by (simp add: jsonDocument_def encodeManifest_def encodeBackupFile_def demoListing_def backupEntry_def demo_lengths
      quoteString_def indentation_def jint_def showInt_def demo_numbers)

declare sha256_def [code del] hexEncode_def [code del] jsonDocument_def [code del]

lemma demo_trees: "treeCheck demoArchived" "treeCheck demoBackup"
  by code_simp+

lemma demo_created:
  "map_prod id osNodes (run_state (CreateBackup ''/v'' ''/b'') demoArchived) = (Inr demoListing, osNodes demoBackup)"
  by code_simp

section \<open>Restoring it\<close>

lemma demo_opened:
  "run_state (readBackupManifest ''/b'') demoBackup = (Inr (demoListing, ''/b/vault''), demoBackup\<lparr>osCalls := 6\<rparr>)"
proof -
  have n: "nodeAt s ''/b'' = Some (madeDir 13) \<and> nodeAt s ''/b/vault'' = Some (madeDir 16) \<and>
    nodeAt s ''/b/passfs-backup.json'' = Some (madeFile 48 50 (jsonDocument (encodeManifest demoListing)))"
    if "osNodes s = osNodes demoBackup" for s :: os
    using that by (simp add: nodeAt_def demoBackup_def demoArchived_def)
  have e: "envFault (osEnv demoBackup) i = None" "envCwd (osEnv demoBackup) = ''/''" "osCalls demoBackup = 0" for i
    by (simp_all add: demoBackup_def calmEnv_def)
  have k: "isDirNode (madeDir i)" "isRegNode (madeFile i j d)" "nodeData (madeFile i j d) = d" for i j d
    by (simp_all add: madeDir_def madeFile_def)
  have f: "followNode 40 (osNodes s) ''/b/passfs-backup.json'' = Inr (madeFile 48 50 (jsonDocument (encodeManifest demoListing)))"
    if "osNodes s = osNodes demoBackup" for s :: os
    using followNode_regular [of s] n [OF that] by (simp add: madeFile_def)
  have v: "bmVersion demoListing = backupFormatVersion" "bmVolumeID demoListing \<noteq> []"
    by (simp_all add: demoListing_def backupFormatVersion_def)
  have "int (length (jsonDocument (encodeManifest demoListing))) \<le> 16777216" using demo_manifest_size by simp
  note d = decode_manifestDocument [OF demo_manifest_ok this]
  have six: "6 = Suc (Suc (Suc (Suc (Suc (Suc 0)))))" by simp
  show ?thesis
    unfolding readBackupManifest_def
    by (simp add: gets_def andThen_def deferring_def mapErr_def realDirectory_def os_lstat_def os_open_def os_nop_def sysCall_def Let_def
       demo_joins e n f k v d tickd_def six)
qed

lemma demo_filled:
  "fst (run_state (staged ''.passfs-restore-'' ''publish restored vault'' ''/'' ''/n'' (fillVault demoListing ''/b/vault''))
     (demoBackup\<lparr>osCalls := 7\<rparr>)) = Inr demoListing"
  by code_simp

definition demoFinal :: os where
  "demoFinal = snd (run_state (RestoreBackup ''/b'' ''/n'') demoBackup)"

lemma demo_restored: "run_state (RestoreBackup ''/b'' ''/n'') demoBackup = (Inr demoListing, demoFinal)"
proof -
  have e: "envFault (osEnv demoBackup) i = None" "envCwd (osEnv demoBackup) = ''/''" for i
    by (simp_all add: demoBackup_def calmEnv_def)
  have n: "nodeAt s ''/n'' = None" if "osNodes s = osNodes demoBackup" for s :: os
    using that by (simp add: nodeAt_def demoBackup_def demoArchived_def)
  have m: "run_state (mustNotExist what ''/n'') (demoBackup\<lparr>osCalls := 6\<rparr>) = (Inr (), demoBackup\<lparr>osCalls := 7\<rparr>)" for what
    unfolding mustNotExist_def os_lstat_def sysCall_def
    by (simp add: e n tickd_def)
  have "fst (run_state (RestoreBackup ''/b'' ''/n'') demoBackup) = Inr demoListing"
    unfolding RestoreBackup_def
    by (simp add: andThen_def demo_opened gets_def e Let_def demo_joins m demo_filled)
  then show ?thesis by (simp add: demoFinal_def prod_eq_iff)
qed

section \<open>The properties at this vault\<close>


theorem CreateBackup_complete_witness:
  "\<exists>j. nodeAt (snd (run_state (CreateBackup ''/v'' ''/b'') demoArchived))
     ''/b/vault/objects/00000000-0000-4000-8000-000000000000.age'' = Some (Regular j [2])"
proof -
  obtain m0 where m0: "diskMetadata demoArchived ''/v'' = Some m0" using demo_index by blast
  obtain t where run: "run_state (CreateBackup ''/v'' ''/b'') demoArchived = (Inr demoListing, t)"
    using demo_created by (cases "run_state (CreateBackup ''/v'' ''/b'') demoArchived") simp
  have "backupEntry ''objects/00000000-0000-4000-8000-000000000000.age'' [2] \<in> set (bmFiles demoListing)"
    by (simp add: demoListing_def)
  with CreateBackup_complete [OF treeCheck_closed [OF demo_trees(1)] demo_digits(1) m0 demo_paths(1,2) run]
  obtain i j d where "nodeAt demoArchived ''/v/objects/00000000-0000-4000-8000-000000000000.age'' = Some (Regular i d)"
    "nodeAt t ''/b/vault/objects/00000000-0000-4000-8000-000000000000.age'' = Some (Regular j d)"
    by (fastforce simp: backupEntry_def demo_joins)
  moreover have "nodeAt demoArchived ''/v/objects/00000000-0000-4000-8000-000000000000.age'' = Some (fileNode [2])"
    by (simp add: nodeAt_def demoArchived_def)
  ultimately show ?thesis by (simp add: fileNode_def run)
qed

lemma demo_identity: "pathJoin [internalDirName, identityFileName] = ''.passfs/identity.age''"
  "pathJoin [''/v'', ''.passfs/identity.age''] = ''/v/.passfs/identity.age''" "pathJoin [''/n'', ''.passfs/identity.age''] = ''/n/.passfs/identity.age''"
  by code_simp+

theorem backup_roundtrip_witness:
  "\<exists>j. nodeAt demoFinal ''/n/.passfs/identity.age'' = Some (Regular j [1])"
proof -
  obtain m0 where m0: "diskMetadata demoArchived ''/v'' = Some m0" using demo_index by blast
  obtain t where run: "run_state (CreateBackup ''/v'' ''/b'') demoArchived = (Inr demoListing, t)" "osNodes t = osNodes demoBackup"
    using demo_created by (cases "run_state (CreateBackup ''/v'' ''/b'') demoArchived") simp
  have small: "int (length (jsonDocument (encodeManifest demoListing))) \<le> 16 * 1024 * 1024" using demo_manifest_size by simp
  have later: "nodeAt demoBackup q = nodeAt t q" for q using run(2) by (simp add: nodeAt_def)
  have stored: "''.passfs/identity.age'' \<in> storedPaths demoArchived ''/v''"
    unfolding storedPaths_def demo_identity(1) by simp
  have "nodeAt demoArchived ''/v/.passfs/identity.age'' = Some (fileNode [1])"
    by (simp add: nodeAt_def demoArchived_def)
  with backup_roundtrip [OF treeCheck_closed [OF demo_trees(1)] demo_digits(1) m0 demo_paths run(1) demo_manifest_ok small
      treeCheck_closed [OF demo_trees(2)] demo_digits(2) later demo_restored, THEN conjunct2, rule_format, OF stored]
  show ?thesis by (simp add: demo_identity fileNode_def)
qed

text \<open>A backup after its index was read under the lock: it is refused.\<close>

definition demoLocked :: auth where
  "demoLocked = demoVolume\<lparr>osNodes := osNodes demoBackup @ [(''/b/vault/.passfs/metadata.lock'', fileNode [])]\<rparr>"

lemma demoLocked_tree: "treeCheck demoLocked"
  by code_simp

lemma demo_lock_path: "pathJoin [pathJoin [''/b'', backupVaultName], ''.passfs''] = ''/b/vault/.passfs''"
  "pathJoin [pathJoin [''/b'', backupVaultName], ''.passfs'', ''metadata.lock''] = ''/b/vault/.passfs/metadata.lock''"
  "proper ''.passfs''" "proper ''metadata.lock''"
  by code_simp+


end
