(* ===== verification/Spec2Isabelle.thy ===== *)
theory Spec2Isabelle
  imports HandleMachine Recovery Updater BackupDemo
begin

text \<open>
  A model of passfs, a file system that keeps secret files encrypted (Go, \<open>src/internal\<close>). A vault
  is a directory with an encrypted identity (\<open>identity.age\<close>), a public configuration, an index
  (\<open>metadata.json\<close>) and one age ciphertext per object under \<open>objects/\<close>. A project holds symbolic
  links to the objects below a mount point; the mounted file system decrypts an object when a
  process opens it and the user agrees. A background pass keeps links and index together, and
  commands import plaintext files, turn them back, list and restore what was lost, and install
  signed updates.

  How the code is written down. An effectful Go function is a computation of the state monad over a
  record, one record extending the other in the order in which the code layers them: \<open>os_state\<close>
  (files, environment), \<open>volume\<close>, \<open>auth\<close>, the lock table, the handles, or the synchronizer. An
  error is \<open>Inl\<close> of a \<open>goerr\<close>, which keeps its message and what it wraps, a panic is a value where
  the source can panic, and every early return is a branch. A pure function is a \<open>fun\<close> or
  \<open>definition\<close>. Sized integers are words or \<open>int\<close> with the wrap-around written out, strings and
  byte slices are lists, a Go map is an association list in iteration order. The weakest
  precondition \<open>wp\<close> of Prelude carries the proofs about computations; \<open>keeps\<close> (Frame) and
  \<open>preserves\<close> (LinkSafety) are the calculi for what a computation leaves alone.

  The environment. A file tree maps cleaned paths to regular files, directories and links with
  their modes, owners, inodes and times. Every call of the operating system asks the environment
  (\<open>osEnv\<close>) whether it fails and with which error, and takes clock and random bytes from it by the
  number of the call. A theorem quantifies over the environment, so it holds for every schedule of
  failures. It is the only actor on the tree: another process may be any caller of an operation,
  and it may act between operations, but not between two system calls of one.

  The theories, in the order in which they build on each other.

  \<^item> Prelude, GoPath, Sha256, Json: words, errors, the monad and \<open>wp\<close>, maps, the interfaces shared
    by several components (locales); \<open>filepath\<close> and \<open>strings\<close>; SHA-256 (\<open>crypto/sha256\<close>);
    \<open>encoding/json\<close> as far as documents of passfs need it, with its fuel of 10000 levels, which is
    Go's own nesting limit.
  \<^item> VaultPath, ObjectId: path.go, objects.go, the path functions of volume.go, filesystem.go,
    backup.go, settings.go and links.go, edit\_session.go and encrypt\_session.go. The properties: an
    accepted virtual path stays in the vault (C1), the two containment tests agree (C2), identifiers
    have the form of RFC 4122 (C3), and the names of objects can be read back (C4). Two paths share
    a ciphertext exactly when they share a key, and session commands can be read back, too.
  \<^item> Os, Symlink, MetaStore, Migration, Index, Volume, Config, with Frame and Storage for the
    lemmas: the system calls; rename\_linux.go and symlink.go; the index document and its lock
    (metadata\_lock.go); metadata\_migration.go; the index operations of volume.go, whose contract is
    the locale \<open>index_update\<close>; decryption, \<open>persistFile\<close> and removal; config.go. Symbolic links are
    followed at most 40 times (\<open>followNode\<close>), which is the limit of Linux. The properties: a new
    vault opens with its passphrase, a change of the passphrase never loses the identity (C12, C13),
    writes are atomic under every failure, what is stored is read back, the index survives a
    restart, changes in transactions, and lists after reconciliation what is stored (C21 to C27).
  \<^item> Auth, AuthInvariant: the cached identity, grants to processes, edit and encrypt sessions, the
    expiry timer and process watchers of volume.go, process\_name.go. The calls, the timer and the
    exit of a process are the steps of a machine; its reachable states satisfy an invariant (C6),
    an identity is given to entitled callers only (C7, C8, C10, C11), and it is wiped (C9).
  \<^item> Locks, Handle, HandleData, FileSystem, HandleMachine: path locks and namespace lock, file\_handle.go,
    filesystem.go. The lock table is a machine of interleaved steps of its callers, which implements
    one reader-writer lock per key (C17, C18). Reading and writing refine positioned access to a
    sequence of bytes of bounded length (C19, C20; the interface is a locale). The machine of all
    file system operations has at most one writer per object, with the locks that are accounted for
    (C14 to C16).
  \<^item> LinkSearch, Links, LinkSafety: links.go, link\_tracker.go and link\_tracker\_linux.go,
    file\_limit.go and link\_reconciliation\_lock.go. The search for a moved link is bounded by the code
    (directories, entries, depth); C28 shows that the recursion of the model ends within the bounds on
    every well-formed tree. A step of the synchronizer never loses a regular file (C29).
  \<^item> Mount, Import, ImportSafety, Unprotect, UnprotectSafety, Recovery: mount\_status.go, import.go,
    object\_index.go, unprotect.go, recovery.go, protected\_files.go and link\_registration.go. The
    answer about a mount is that of the kernel's table (C30); importing, saving an edited file,
    unprotecting and restoring keep the plaintext, or the entry in the way, whichever call fails
    (C31 to C34).
  \<^item> Loading, Backup, with BackupSafety, BackupCreation, BackupRoundTrip and BackupVerify for the
    lemmas and BackupDemo for an example: \<open>LoadVolume\<close> of volume.go and backup.go. Whatever is on
    disk, a volume that is loaded starts in a well-formed state (C5). Restoring copies only what the
    manifest describes, a backup is complete, the two are inverse to each other, and a backup that
    is accepted is exactly what its manifest lists (C35 to C38); both directions keep every entry
    that existed. The destination is staged beside its final name, and \<open>fresh\<close> and \<open>published\<close>
    describe the tree before and after the rename. In BackupDemo the digests of the runs stay
    symbolic, so these theorems are shown at runs that succeed.
  \<^item> Updater: client.go of \<open>internal/updater\<close>. Versions are ordered (C39), and a download that is
    accepted has the digest a verified manifest lists for it (C40).

  Parameters. The age library (encryption, its identities and recipients), Ed25519, HTTP and the
  user's answers are arguments of the definitions. Where a property relies on one, its hypothesis is
  the documented law (what is encrypted to a recipient is decrypted by its identity), and its witness
  takes a concrete function for it. For import and unprotect, the mounted target is the tree at
  the mount point, as the code sees it through package \<open>os\<close>, not the machine of HandleMachine.

  Simplifications. The traversal of the moved link search has a single worker, so the order in
  which parallel workers find links is not modelled; \<open>strings.ToLower\<close> and \<open>EqualFold\<close> fold ASCII
  letters; log output is left out, and so is a partial result that comes with an error and that
  no caller uses. \<open>LoadVolume\<close> sets the volume of the state instead of returning one. Only the
  last element of a path may be a symbolic link that a call follows. One process uses a vault at a time (instance\_lock.go), and there is one synchronizer.

  Not modelled. The FUSE adapter and the FSKit bridge translate types between a kernel interface
  and the operations of FileSystem; the command line, the installer of updates, the agent of the
  user interface and the prompters are programs around the operations, which run external commands,
  sockets and dialogs; scan.go and its files are heuristics over regular expressions and floating
  point; settings.go beyond its paths rests on \<open>time.ParseDuration\<close>; the files for macOS are alternatives of those for Linux; waiting loops, their
  timers and inotify only decide when an operation runs.
\<close>

end
